(* ===== verification/Prelude.thy ===== *)
theory Prelude
  imports Main "HOL-Library.Word" "HOL-Library.Multiset" "HOL-Library.List_Lexorder"
begin

text \<open>
  The vocabulary the component theories share: fixed-width integers of Go, the result of a
  fallible call, byte strings with Go's comparison, and generic lemmas on lists.

  A Go integer is a mathematical integer together with the wrap-around of its width, which is
  written out wherever the source computes at a width: \<open>wrap64\<close> is what an \<open>int64\<close>
  holds after an operation whose exact result is the argument, \<open>wrap32\<close> the same for
  \<open>int32\<close>. \<open>in_int64\<close> and \<open>in_int32\<close> say that a value is one the type can hold.
  Division truncates toward zero as Go's does.
\<close>

named_theorems go_defs \<open>unfolding rules of the Go integer operations\<close>

section \<open>Fixed-width integers\<close>

abbreviation (input) MaxInt64 :: int where "MaxInt64 \<equiv> 9223372036854775807"
abbreviation (input) MinInt64 :: int where "MinInt64 \<equiv> - 9223372036854775808"
abbreviation (input) MaxInt32 :: int where "MaxInt32 \<equiv> 2147483647"
abbreviation (input) MinInt32 :: int where "MinInt32 \<equiv> - 2147483648"
abbreviation (input) MaxUint64 :: int where "MaxUint64 \<equiv> 18446744073709551615"
abbreviation (input) MaxUint32 :: int where "MaxUint32 \<equiv> 4294967295"

definition in_int64 :: "int \<Rightarrow> bool" where
  "in_int64 x \<longleftrightarrow> MinInt64 \<le> x \<and> x \<le> MaxInt64"

definition in_int32 :: "int \<Rightarrow> bool" where
  "in_int32 x \<longleftrightarrow> MinInt32 \<le> x \<and> x \<le> MaxInt32"

definition wrap64 :: "int \<Rightarrow> int" where
  "wrap64 x = (x + 9223372036854775808) mod 18446744073709551616 - 9223372036854775808"

definition wrap32 :: "int \<Rightarrow> int" where
  "wrap32 x = (x + 2147483648) mod 4294967296 - 2147483648"

definition go_quot :: "int \<Rightarrow> int \<Rightarrow> int" where
  "go_quot a b = sgn a * sgn b * (\<bar>a\<bar> div \<bar>b\<bar>)"

definition go_rem :: "int \<Rightarrow> int \<Rightarrow> int" where
  "go_rem a b = a - b * go_quot a b"

declare in_int64_def [go_defs] in_int32_def [go_defs]

lemma wrap64_id [simp]: "in_int64 x \<Longrightarrow> wrap64 x = x"
  by (simp add: wrap64_def in_int64_def)

lemma wrap32_id [simp]: "in_int32 x \<Longrightarrow> wrap32 x = x"
  by (simp add: wrap32_def in_int32_def)

lemma wrap_0 [simp]: "wrap64 0 = 0" "wrap32 0 = 0"
  by (simp_all add: in_int64_def in_int32_def)

lemma wrap64_range [simp]: "in_int64 (wrap64 x)"
  unfolding wrap64_def in_int64_def
  using pos_mod_bound [of 18446744073709551616 "x + 9223372036854775808"]
    pos_mod_sign [of 18446744073709551616 "x + 9223372036854775808"] by simp

lemma wrap32_range [simp]: "in_int32 (wrap32 x)"
  unfolding wrap32_def in_int32_def
  using pos_mod_bound [of 4294967296 "x + 2147483648"]
    pos_mod_sign [of 4294967296 "x + 2147483648"] by simp

lemma wrap64_add: "in_int64 (a + b) \<Longrightarrow> wrap64 (a + b) = a + b"
  by (rule wrap64_id)

lemma in_int32_64: "in_int32 x \<Longrightarrow> in_int64 x"
  by (simp add: in_int32_def in_int64_def)

lemma go_quot_pos: "0 \<le> a \<Longrightarrow> 0 < b \<Longrightarrow> go_quot a b = a div b"
  by (cases "a = 0") (simp_all add: go_quot_def)

lemma go_rem_pos: "0 \<le> a \<Longrightarrow> 0 < b \<Longrightarrow> go_rem a b = a mod b"
  by (simp add: go_rem_def go_quot_pos minus_mult_div_eq_mod)

text \<open>\<open>bits.Len\<close>: the number of bits needed to write a number.\<close>

fun bit_len :: "nat \<Rightarrow> nat" where
  "bit_len n = (if n = 0 then 0 else Suc (bit_len (n div 2)))"

declare bit_len.simps [simp del]

lemma bit_len_bounds: "0 < n \<Longrightarrow> 2 ^ (bit_len n - 1) \<le> n \<and> n < 2 ^ bit_len n \<and> 0 < bit_len n"
proof (induction n rule: bit_len.induct)
  case (1 n)
  show ?case
  proof (cases "n div 2 = 0")
    case True
    then have "n = 1" using 1(2) by simp
    then show ?thesis by (simp add: bit_len.simps)
  next
    case False
    have len: "bit_len n = Suc (bit_len (n div 2))" using 1(2) by (subst bit_len.simps) simp
    have ih: "2 ^ (bit_len (n div 2) - 1) \<le> n div 2" "n div 2 < 2 ^ bit_len (n div 2)" "0 < bit_len (n div 2)"
      using 1 False by auto
    have "2 * 2 ^ (bit_len (n div 2) - 1) \<le> n" using ih(1) by linarith
    then have "2 ^ bit_len (n div 2) \<le> n" using ih(3) by (simp flip: power_Suc)
    moreover have "n < 2 * 2 ^ bit_len (n div 2)" using ih(2) by linarith
    ultimately show ?thesis by (simp add: len)
  qed
qed

section \<open>Panics\<close>

text \<open>
  A call either returns or panics (an index out of range, a nil dereference, an explicit
  \<open>panic\<close>). Errors the source returns as values are ordinary values of the result.
\<close>

datatype 'a exec = Panic | Ret (the_ret: 'a)

definition exec_bind :: "'a exec \<Rightarrow> ('a \<Rightarrow> 'b exec) \<Rightarrow> 'b exec" where
  "exec_bind m f = (case m of Panic \<Rightarrow> Panic | Ret x \<Rightarrow> f x)"

lemma exec_bind_simps [simp]:
  "exec_bind Panic f = Panic"
  "exec_bind (Ret x) f = f x"
  by (simp_all add: exec_bind_def)

lemma exec_bind_Ret_iff: "exec_bind m f = Ret y \<longleftrightarrow> (\<exists>x. m = Ret x \<and> f x = Ret y)"
  by (cases m) auto

definition go_index :: "'a list \<Rightarrow> int \<Rightarrow> 'a exec" where
  "go_index xs i = (if 0 \<le> i \<and> i < int (length xs) then Ret (xs ! nat i) else Panic)"

lemma go_index_Ret_iff: "go_index xs i = Ret x \<longleftrightarrow> 0 \<le> i \<and> i < int (length xs) \<and> x = xs ! nat i"
  by (auto simp: go_index_def)

section \<open>Errors\<close>

text \<open>
  A call that returns \<open>(T, error)\<close> is a value of a sum type, the error on the left. A call that
  can also panic is such a sum inside \<open>exec\<close>.
\<close>

definition res_bind :: "'e + 'a \<Rightarrow> ('a \<Rightarrow> 'e + 'b) \<Rightarrow> 'e + 'b" where
  "res_bind m f = (case m of Inl e \<Rightarrow> Inl e | Inr x \<Rightarrow> f x)"

lemma res_bind_simps [simp]:
  "res_bind (Inl e) f = Inl e"
  "res_bind (Inr x) f = f x"
  by (simp_all add: res_bind_def)

lemma guard_Inr_iff: "(if b then Inl e else r) = Inr y \<longleftrightarrow> \<not> b \<and> r = Inr y"
  by simp

lemma res_bind_Inr_iff: "res_bind m f = Inr y \<longleftrightarrow> (\<exists>x. m = Inr x \<and> f x = Inr y)"
  by (cases m) auto

definition try_bind :: "('e + 'a) exec \<Rightarrow> ('a \<Rightarrow> ('e + 'b) exec) \<Rightarrow> ('e + 'b) exec" where
  "try_bind m f = exec_bind m (\<lambda>r. case r of Inl e \<Rightarrow> Ret (Inl e) | Inr x \<Rightarrow> f x)"

lemma try_bind_simps [simp]:
  "try_bind Panic f = Panic"
  "try_bind (Ret (Inl e)) f = Ret (Inl e)"
  "try_bind (Ret (Inr x)) f = f x"
  by (simp_all add: try_bind_def)

lemma try_bind_Inr_iff:
  "try_bind m f = Ret (Inr y) \<longleftrightarrow> (\<exists>x. m = Ret (Inr x) \<and> f x = Ret (Inr y))"
  by (cases m) (auto simp: try_bind_def split: sum.splits)

text \<open>The successful outcome of a call, read through its guards and its tests for errors.\<close>

lemma run_guard_iff:
  "(if b then Ret (Inl e) else m) = Ret (Inr y) \<longleftrightarrow> \<not> b \<and> m = Ret (Inr y)"
  "(if b then Panic else m') = Ret z \<longleftrightarrow> \<not> b \<and> m' = Ret z"
  by simp_all

lemma run_case_iff:
  "(case r of Inl e \<Rightarrow> Inl (f e) | Inr x \<Rightarrow> g x) = Inr y \<longleftrightarrow> (\<exists>x. r = Inr x \<and> g x = Inr y)"
  "(case r of Inl e \<Rightarrow> Ret (Inl (f e)) | Inr x \<Rightarrow> h x) = Ret (Inr y) \<longleftrightarrow> (\<exists>x. r = Inr x \<and> h x = Ret (Inr y))"
  by (auto split: sum.split)

lemmas run_iffs = guard_Inr_iff run_guard_iff run_case_iff res_bind_Inr_iff try_bind_Inr_iff exec_bind_Ret_iff

text \<open>
  \<open>post m Q\<close>: if \<open>m\<close> returns, then with a result that satisfies \<open>Q\<close>. The rules compute the
  condition through sequential composition.
\<close>

definition post :: "'a exec \<Rightarrow> ('a \<Rightarrow> bool) \<Rightarrow> bool" where
  "post m Q \<longleftrightarrow> (\<forall>x. m = Ret x \<longrightarrow> Q x)"

lemma post_simps [simp]:
  "post Panic Q"
  "post (Ret x) Q \<longleftrightarrow> Q x"
  by (simp_all add: post_def)

lemma post_bind [simp]: "post (exec_bind m f) Q \<longleftrightarrow> post m (\<lambda>x. post (f x) Q)"
  by (cases m) simp_all

lemma post_try [simp]:
  "post (try_bind m f) Q \<longleftrightarrow> post m (\<lambda>r. case r of Inl e \<Rightarrow> Q (Inl e) | Inr x \<Rightarrow> post (f x) Q)"
  by (cases m) (simp_all add: try_bind_def split: sum.split)

lemma post_if: "post (if b then m else m') Q \<longleftrightarrow> (b \<longrightarrow> post m Q) \<and> (\<not> b \<longrightarrow> post m' Q)"
  by simp

lemma post_mono: "post m Q \<Longrightarrow> (\<And>x. Q x \<Longrightarrow> R x) \<Longrightarrow> post m R"
  by (simp add: post_def)

lemma post_True [simp]: "post m (\<lambda>x. True)"
  by (simp add: post_def)

lemma post_conj: "post m (\<lambda>x. Q x \<and> R x) \<longleftrightarrow> post m Q \<and> post m R"
  by (auto simp: post_def)

lemma post_RetD: "post m Q \<Longrightarrow> m = Ret x \<Longrightarrow> Q x"
  by (simp add: post_def)

text \<open>
  A call on an object: the object after the call together with the result or the error. \<open>on_state s m\<close> is a
  call that leaves the object as it is.
\<close>

type_synonym ('s, 'e, 'a) call = "('s \<times> ('e + 'a)) exec"

definition step_bind :: "('s, 'e, 'a) call \<Rightarrow> ('a \<Rightarrow> 's \<Rightarrow> ('s, 'e, 'b) call) \<Rightarrow> ('s, 'e, 'b) call" where
  "step_bind m f = exec_bind m (\<lambda>(s, r). case r of Inl e \<Rightarrow> Ret (s, Inl e) | Inr x \<Rightarrow> f x s)"

definition on_state :: "'s \<Rightarrow> ('e + 'a) exec \<Rightarrow> ('s, 'e, 'a) call" where
  "on_state s m = exec_bind m (\<lambda>r. Ret (s, r))"

lemma step_bind_simps [simp]:
  "step_bind Panic f = Panic"
  "step_bind (Ret (s, Inl e)) f = Ret (s, Inl e)"
  "step_bind (Ret (s, Inr x)) f = f x s"
  by (simp_all add: step_bind_def)

lemma on_state_simps [simp]:
  "on_state s Panic = Panic"
  "on_state s (Ret r) = Ret (s, r)"
  by (simp_all add: on_state_def)

lemma step_bind_Inr_iff:
  "step_bind m f = Ret (s', Inr y) \<longleftrightarrow> (\<exists>s x. m = Ret (s, Inr x) \<and> f x s = Ret (s', Inr y))"
  by (cases m) (auto simp: step_bind_def split: sum.splits prod.splits)

lemma on_state_Ret_iff: "on_state s m = Ret (s', r) \<longleftrightarrow> s' = s \<and> m = Ret r"
  by (cases m) auto

lemma post_step_bind [simp]:
  "post (step_bind m f) Q \<longleftrightarrow> post m (\<lambda>(s, r). case r of Inl e \<Rightarrow> Q (s, Inl e) | Inr x \<Rightarrow> post (f x s) Q)"
  by (cases m) (auto simp: step_bind_def split: sum.split prod.split)

lemma post_on_state [simp]: "post (on_state s m) Q \<longleftrightarrow> post m (\<lambda>r. Q (s, r))"
  by (cases m) simp_all

lemma call_guard_iff: "(if b then Ret (s, Inl e) else m) = Ret (s', Inr y) \<longleftrightarrow> \<not> b \<and> m = Ret (s', Inr y)"
  by simp

lemma call_case_iff:
  "(case r of Inl e \<Rightarrow> Ret (s, Inl (f e)) | Inr x \<Rightarrow> h x) = Ret (s', Inr y) \<longleftrightarrow> (\<exists>x. r = Inr x \<and> h x = Ret (s', Inr y))"
  by (auto split: sum.split)

lemma not_Inl_iff: "(\<forall>e. r \<noteq> Inl e) \<longleftrightarrow> (\<exists>x. r = Inr x)" "(\<forall>x. r \<noteq> Inr x) \<longleftrightarrow> (\<exists>e. r = Inl e)"
  by (cases r; simp)+

lemmas call_iffs = call_guard_iff call_case_iff step_bind_Inr_iff on_state_Ret_iff run_iffs

section \<open>Byte strings\<close>

text \<open>
  A byte slice is a list of bytes; the order of lists is that of \<open>bytes.Compare\<close>. A nil slice and
  an empty one are equal for \<open>bytes.Equal\<close>; where the source tests for nil the model uses an
  \<open>option\<close>.
\<close>

type_synonym bytes = "8 word list"

lemma bytes_least [simp]: "[] \<le> (b :: bytes)" "[] < (b :: bytes) \<longleftrightarrow> b \<noteq> []"
  by (cases b; simp)+

section \<open>Lists\<close>

lemma nth_drop_last: "xs \<noteq> [] \<Longrightarrow> xs = butlast xs @ [xs ! (length xs - 1)]"
  by (metis append_butlast_last_id last_conv_nth)

lemma upt_append: "i \<le> j \<Longrightarrow> j \<le> k \<Longrightarrow> [i..<j] @ [j..<k] = [i..<k]"
  by (metis le_Suc_ex upt_add_eq_append)

lemma strict_sorted_filter:
  "sorted_wrt (<) (map f xs) \<Longrightarrow> sorted_wrt (<) (map f (filter P xs))"
  for f :: "'a \<Rightarrow> 'b::linorder"
  by (induction xs) auto

lemma strict_sorted_distinct: "sorted_wrt (<) (xs :: 'a::linorder list) \<Longrightarrow> distinct xs"
  by (simp add: strict_sorted_iff)

end
