(* ===== verification/Safe_Math.thy ===== *)
theory Safe_Math
  imports Prelude
begin

text \<open>
  \<open>src/libs/math\<close>: checked integer arithmetic and fractions. Each function is transcribed with
  the wrap-around of its machine width, so that the comparisons the source makes before it
  computes are the ones evaluated here. The generic conversions take the Go type of their
  argument and of their result as values of \<open>go_type\<close>; \<open>int\<close> and \<open>uint\<close> are 64 bits wide.
\<close>

section \<open>Definitions\<close>

datatype math_error = ErrOverflow

definition SafeAddInt64 :: "int \<Rightarrow> int \<Rightarrow> math_error + int" where
  "SafeAddInt64 a b =
     (if b > 0 \<and> a > wrap64 (MaxInt64 - b) then Inl ErrOverflow
      else if b < 0 \<and> a < wrap64 (MinInt64 - b) then Inl ErrOverflow
      else Inr (wrap64 (a + b)))"

definition SafeAddClipInt64 :: "int \<Rightarrow> int \<Rightarrow> int" where
  "SafeAddClipInt64 a b =
     (case SafeAddInt64 a b of
        Inl _ \<Rightarrow> if b < 0 then MinInt64 else MaxInt64
      | Inr c \<Rightarrow> c)"

definition SafeAddInt32 :: "int \<Rightarrow> int \<Rightarrow> math_error + int" where
  "SafeAddInt32 a b =
     (if b > 0 \<and> a > wrap32 (MaxInt32 - b) then Inl ErrOverflow
      else if b < 0 \<and> a < wrap32 (MinInt32 - b) then Inl ErrOverflow
      else Inr (wrap32 (a + b)))"

definition SafeSubInt64 :: "int \<Rightarrow> int \<Rightarrow> int \<times> bool" where
  "SafeSubInt64 a b =
     (if b > 0 \<and> a < wrap64 (MinInt64 + b) then (- 1, True)
      else if b < 0 \<and> a > wrap64 (MaxInt64 + b) then (- 1, True)
      else (wrap64 (a - b), False))"

definition SafeSubClipInt64 :: "int \<Rightarrow> int \<Rightarrow> int" where
  "SafeSubClipInt64 a b =
     (let (c, overflow) = SafeSubInt64 a b
      in if overflow then (if b > 0 then MinInt64 else MaxInt64) else c)"

definition SafeSubInt32 :: "int \<Rightarrow> int \<Rightarrow> math_error + int" where
  "SafeSubInt32 a b =
     (if b > 0 \<and> a < wrap32 (MinInt32 + b) then Inl ErrOverflow
      else if b < 0 \<and> a > wrap32 (MaxInt32 + b) then Inl ErrOverflow
      else Inr (wrap32 (a - b)))"

definition SafeMulInt64 :: "int \<Rightarrow> int \<Rightarrow> int \<times> bool" where
  "SafeMulInt64 a b =
     (if a = 0 \<or> b = 0 then (0, False)
      else let absOfB = (if b < 0 then wrap64 (- b) else b);
               absOfA = (if a < 0 then wrap64 (- a) else a)
           in if absOfA > go_quot MaxInt64 absOfB then (0, True)
              else (wrap64 (a * b), False))"

text \<open>The \<open>Integer\<close> constraint, its bounds and the conversion \<open>T(x)\<close>.\<close>

datatype go_type = TInt | TInt8 | TInt16 | TInt32 | TInt64
  | TUint | TUint8 | TUint16 | TUint32 | TUint64

fun GoMax :: "go_type \<Rightarrow> int" where
  "GoMax TInt = MaxInt64"
| "GoMax TInt8 = 127"
| "GoMax TInt16 = 32767"
| "GoMax TInt32 = MaxInt32"
| "GoMax TInt64 = MaxInt64"
| "GoMax TUint = MaxUint64"
| "GoMax TUint8 = 255"
| "GoMax TUint16 = 65535"
| "GoMax TUint32 = MaxUint32"
| "GoMax TUint64 = MaxUint64"

fun GoMin :: "go_type \<Rightarrow> int" where
  "GoMin TInt = MinInt64"
| "GoMin TInt8 = - 128"
| "GoMin TInt16 = - 32768"
| "GoMin TInt32 = MinInt32"
| "GoMin TInt64 = MinInt64"
| "GoMin TUint = 0"
| "GoMin TUint8 = 0"
| "GoMin TUint16 = 0"
| "GoMin TUint32 = 0"
| "GoMin TUint64 = 0"

definition in_type :: "go_type \<Rightarrow> int \<Rightarrow> bool" where
  "in_type t x \<longleftrightarrow> GoMin t \<le> x \<and> x \<le> GoMax t"

definition conv :: "go_type \<Rightarrow> int \<Rightarrow> int" where
  "conv t x = (x - GoMin t) mod (GoMax t - GoMin t + 1) + GoMin t"

definition SafeConvertInt32 :: "go_type \<Rightarrow> int \<Rightarrow> math_error + int" where
  "SafeConvertInt32 T a =
     (if conv TInt64 a > MaxInt32 then Inl ErrOverflow
      else if conv TInt64 a < MinInt32 then Inl ErrOverflow
      else Inr (conv TInt32 a))"

definition SafeConvertUint32 :: "go_type \<Rightarrow> int \<Rightarrow> math_error + int" where
  "SafeConvertUint32 T a =
     (if conv TUint64 a > MaxUint32 then Inl ErrOverflow
      else if a < 0 then Inl ErrOverflow
      else Inr (conv TUint32 a))"

definition SafeConvertUint8 :: "int \<Rightarrow> math_error + int" where
  "SafeConvertUint8 a =
     (if a > 255 then Inl ErrOverflow
      else if a < 0 then Inl ErrOverflow
      else Inr (conv TUint8 a))"

definition SafeConvertInt8 :: "int \<Rightarrow> math_error + int" where
  "SafeConvertInt8 a =
     (if a > 127 then Inl ErrOverflow
      else if a < - 128 then Inl ErrOverflow
      else Inr (conv TInt8 a))"

text \<open>
  \<open>SafeConvert\<close>: \<open>convert_checks\<close> is the body once \<open>from\<close> is not \<open>int\<close> or \<open>uint\<close>; those two
  fall back to the 64-bit types because they are not smaller than them.
\<close>

definition convert_checks :: "go_type \<Rightarrow> go_type \<Rightarrow> int \<Rightarrow> math_error + int" where
  "convert_checks F T from =
     (if F = TInt64 \<and> T = TUint64 \<and> from < 0 then Inl ErrOverflow
      else if F = TUint64 \<and> T = TInt64 \<and> conv TUint64 from > MaxInt64 then Inl ErrOverflow
      else if from \<ge> 0 \<and> conv TUint64 from > GoMax T then Inl ErrOverflow
      else if from \<le> 0 \<and> conv TInt64 from < GoMin T then Inl ErrOverflow
      else Inr (conv T from))"

definition SafeConvert :: "go_type \<Rightarrow> go_type \<Rightarrow> int \<Rightarrow> math_error + int" where
  "SafeConvert F T from =
     (case F of
        TInt \<Rightarrow> convert_checks TInt64 T (conv TInt64 from)
      | TUint \<Rightarrow> convert_checks TUint64 T (conv TUint64 from)
      | _ \<Rightarrow> convert_checks F T from)"

text \<open>The \<open>MustConvert\<close> family panics instead of returning the error.\<close>

definition MustConvert :: "go_type \<Rightarrow> go_type \<Rightarrow> int \<Rightarrow> int exec" where
  "MustConvert F T a = (case SafeConvert F T a of Inl _ \<Rightarrow> Panic | Inr i \<Rightarrow> Ret i)"

definition MustConvertInt32 :: "go_type \<Rightarrow> int \<Rightarrow> int exec" where
  "MustConvertInt32 T a = (case SafeConvertInt32 T a of Inl _ \<Rightarrow> Panic | Inr i \<Rightarrow> Ret i)"

definition MustConvertUint32 :: "go_type \<Rightarrow> int \<Rightarrow> int exec" where
  "MustConvertUint32 T a = (case SafeConvertUint32 T a of Inl _ \<Rightarrow> Panic | Inr i \<Rightarrow> Ret i)"

section \<open>Addition and subtraction\<close>

lemma SafeAddInt64_spec:
  assumes "in_int64 a" "in_int64 b"
  shows "SafeAddInt64 a b = (if in_int64 (a + b) then Inr (a + b) else Inl ErrOverflow)"
  using assms by (auto simp: SafeAddInt64_def in_int64_def wrap64_def)

lemma SafeAddInt32_spec:
  assumes "in_int32 a" "in_int32 b"
  shows "SafeAddInt32 a b = (if in_int32 (a + b) then Inr (a + b) else Inl ErrOverflow)"
  using assms by (auto simp: SafeAddInt32_def in_int32_def wrap32_def)

lemma SafeSubInt32_spec:
  assumes "in_int32 a" "in_int32 b"
  shows "SafeSubInt32 a b = (if in_int32 (a - b) then Inr (a - b) else Inl ErrOverflow)"
  using assms by (auto simp: SafeSubInt32_def in_int32_def wrap32_def)

lemma SafeSubInt64_spec:
  assumes "in_int64 a" "in_int64 b"
  shows "SafeSubInt64 a b = (if in_int64 (a - b) then (a - b, False) else (- 1, True))"
  using assms by (auto simp: SafeSubInt64_def in_int64_def wrap64_def)

lemma SafeAddClipInt64_spec:
  assumes "in_int64 a" "in_int64 b"
  shows "SafeAddClipInt64 a b = max MinInt64 (min MaxInt64 (a + b))"
  using assms by (auto simp: SafeAddClipInt64_def SafeAddInt64_spec in_int64_def)

lemma SafeSubClipInt64_spec:
  assumes "in_int64 a" "in_int64 b"
  shows "SafeSubClipInt64 a b = max MinInt64 (min MaxInt64 (a - b))"
  using assms by (auto simp: SafeSubClipInt64_def SafeSubInt64_spec in_int64_def)

section \<open>Multiplication\<close>

lemma div_less_mult_iff:
  fixes x y m :: int
  assumes "0 < y"
  shows "m div y < x \<longleftrightarrow> m < x * y"
proof
  assume "m div y < x"
  then have "(m div y + 1) * y \<le> x * y"
    using assms by (intro mult_right_mono) auto
  moreover have "m < (m div y + 1) * y"
    unfolding distrib_right using assms pos_mod_bound [of y m] div_mult_mod_eq [of m y] by linarith
  ultimately show "m < x * y" by simp
next
  assume less: "m < x * y"
  show "m div y < x"
  proof (rule ccontr)
    assume "\<not> m div y < x"
    then have "x * y \<le> (m div y) * y"
      using assms by (intro mult_right_mono) auto
    also have "\<dots> \<le> m"
      using assms pos_mod_sign [of y m] div_mult_mod_eq [of m y] by linarith
    finally show False using less by simp
  qed
qed

lemma SafeMulInt64_spec:
  assumes "in_int64 a" "in_int64 b" "a \<noteq> MinInt64" "b \<noteq> MinInt64"
  shows "SafeMulInt64 a b = (if \<bar>a * b\<bar> \<le> MaxInt64 then (a * b, False) else (0, True))"
proof (cases "a = 0 \<or> b = 0")
  case True
  then show ?thesis by (auto simp: SafeMulInt64_def)
next
  case False
  have abs: "(if a < 0 then wrap64 (- a) else a) = \<bar>a\<bar>" "(if b < 0 then wrap64 (- b) else b) = \<bar>b\<bar>"
    using assms by (auto simp: in_int64_def)
  have quot: "go_quot MaxInt64 \<bar>b\<bar> = MaxInt64 div \<bar>b\<bar>"
    using False by (simp add: go_quot_pos)
  have "go_quot MaxInt64 \<bar>b\<bar> < \<bar>a\<bar> \<longleftrightarrow> MaxInt64 < \<bar>a * b\<bar>"
    using False unfolding quot by (simp add: div_less_mult_iff abs_mult)
  moreover have "in_int64 (a * b)" if "\<bar>a * b\<bar> \<le> MaxInt64"
    using that by (simp add: in_int64_def abs_le_iff)
  ultimately show ?thesis
    using False by (auto simp: SafeMulInt64_def abs Let_def not_less)
qed

text \<open>
  \<open>-a\<close> wraps to itself at the least \<open>int64\<close>, so the magnitude the guard looks at is negative
  and the guard never fires: every product with a left factor of \<open>math.MinInt64\<close> and a
  positive right factor is returned as exact.
\<close>

lemma SafeMulInt64_MinInt64:
  assumes "in_int64 b" "b > 0"
  shows "SafeMulInt64 MinInt64 b = (wrap64 (MinInt64 * b), False)"
proof -
  have "0 \<le> MaxInt64 div b"
    using assms by (simp add: pos_imp_zdiv_nonneg_iff)
  then show ?thesis
    using assms by (simp add: SafeMulInt64_def Let_def go_quot_pos wrap64_def)
qed

section \<open>Conversions\<close>

lemma conv_id [simp]: "in_type t x \<Longrightarrow> conv t x = x"
  by (simp add: in_type_def conv_def)

lemma conv_in_type [simp]: "in_type t (conv t x)"
proof -
  have "0 < GoMax t - GoMin t + 1" by (cases t) auto
  from pos_mod_bound [OF this, of "x - GoMin t"] pos_mod_sign [OF this, of "x - GoMin t"]
  show ?thesis by (simp add: in_type_def conv_def)
qed

lemma in_type_64: "in_type t x \<Longrightarrow> MinInt64 \<le> x \<and> x \<le> MaxUint64"
  by (cases t) (auto simp: in_type_def)

lemma conv_TInt64: "MinInt64 \<le> x \<Longrightarrow> x \<le> MaxInt64 \<Longrightarrow> conv TInt64 x = x"
  by (simp add: conv_def)

lemma conv_TInt64_high:
  assumes "MaxInt64 < x" "x \<le> MaxUint64"
  shows "conv TInt64 x = x - 18446744073709551616"
proof -
  have "x + 9223372036854775808 = (x - 9223372036854775808) + 18446744073709551616" by simp
  then have "(x + 9223372036854775808) mod 18446744073709551616
      = (x - 9223372036854775808) mod 18446744073709551616"
    by (simp only: mod_add_self2)
  also have "\<dots> = x - 9223372036854775808"
    using assms by (intro mod_pos_pos_trivial) auto
  finally show ?thesis by (simp add: conv_def)
qed

lemma conv_TUint64: "0 \<le> x \<Longrightarrow> x \<le> MaxUint64 \<Longrightarrow> conv TUint64 x = x"
  by (simp add: conv_def)

lemma conv_TUint64_neg:
  assumes "MinInt64 \<le> x" "x < 0"
  shows "conv TUint64 x = x + 18446744073709551616"
proof -
  have "x mod 18446744073709551616 = (x + 18446744073709551616) mod 18446744073709551616" by simp
  also have "\<dots> = x + 18446744073709551616" using assms by (intro mod_pos_pos_trivial) auto
  finally show ?thesis by (simp add: conv_def)
qed

lemma convert_checks_spec:
  assumes "in_type F x"
  shows "convert_checks F T x = (if in_type T x then Inr x else Inl ErrOverflow)"
proof (cases "0 \<le> x")
  case True
  then have "conv TUint64 x = x" and "GoMin T \<le> x"
    using in_type_64 [OF assms] by (auto simp: conv_TUint64) (cases T; simp)
  moreover have "x = 0 \<Longrightarrow> conv TInt64 x = 0" by (simp add: conv_TInt64)
  moreover have "GoMin T \<le> 0" by (cases T) auto
  moreover have "T = TInt64 \<Longrightarrow> GoMax T = MaxInt64" by simp
  ultimately show ?thesis using True
    by (auto simp: convert_checks_def in_type_def)
next
  case False
  then have "conv TInt64 x = x" using in_type_64 [OF assms] by (simp add: conv_TInt64)
  moreover have "F \<noteq> TUint64" using False assms by (auto simp: in_type_def)
  moreover have "x \<le> GoMax T" using False by (cases T) auto
  moreover have "T = TUint64 \<Longrightarrow> GoMin T = 0" by simp
  ultimately show ?thesis using False
    by (auto simp: convert_checks_def in_type_def)
qed

lemma SafeConvert_spec:
  assumes "in_type F x"
  shows "SafeConvert F T x = (if in_type T x then Inr x else Inl ErrOverflow)"
proof (cases F)
  case TInt
  then have "in_type TInt64 x" using assms by (simp add: in_type_def)
  then show ?thesis using TInt by (simp add: SafeConvert_def convert_checks_spec)
next
  case TUint
  then have "in_type TUint64 x" using assms by (simp add: in_type_def)
  then show ?thesis using TUint by (simp add: SafeConvert_def convert_checks_spec)
qed (use assms in \<open>simp_all add: SafeConvert_def convert_checks_spec\<close>)

lemma MustConvert_spec:
  "in_type F x \<Longrightarrow> MustConvert F T x = (if in_type T x then Ret x else Panic)"
  by (simp add: MustConvert_def SafeConvert_spec)

lemma SafeConvertUint32_spec:
  assumes "in_type T x"
  shows "SafeConvertUint32 T x = (if in_type TUint32 x then Inr x else Inl ErrOverflow)"
proof (cases "0 \<le> x")
  case True
  then show ?thesis
    using in_type_64 [OF assms] by (simp add: SafeConvertUint32_def conv_TUint64) (simp add: in_type_def)
next
  case False
  then show ?thesis
    using in_type_64 [OF assms] by (simp add: SafeConvertUint32_def conv_TUint64_neg in_type_def)
qed

lemma SafeConvertInt32_spec:
  assumes "in_type T x" "x \<le> MaxInt64"
  shows "SafeConvertInt32 T x = (if in_type TInt32 x then Inr x else Inl ErrOverflow)"
proof -
  have "conv TInt64 x = x"
    using in_type_64 [OF assms(1)] assms(2) by (simp add: conv_TInt64)
  moreover have "in_type TInt32 x \<longleftrightarrow> MinInt32 \<le> x \<and> x \<le> MaxInt32"
    by (simp add: in_type_def)
  ultimately show ?thesis
    by (simp add: SafeConvertInt32_def not_less)
qed

lemma SafeConvertInt32_high:
  assumes "18446744071562067968 \<le> x" "x \<le> MaxUint64"
  shows "SafeConvertInt32 TUint64 x = Inr (x - 18446744073709551616)"
proof -
  have "x + 2147483648 = (x - 18446744071562067968) + 4294967296 * 4294967296" by simp
  then have "(x + 2147483648) mod 4294967296 = (x - 18446744071562067968) mod 4294967296"
    by (simp only: mod_mult_self2)
  also have "\<dots> = x - 18446744071562067968"
    using assms by (intro mod_pos_pos_trivial) auto
  finally have "conv TInt32 x = x - 18446744073709551616" by (simp add: conv_def)
  then show ?thesis
    using assms by (simp add: SafeConvertInt32_def conv_TInt64_high)
qed

section \<open>Properties\<close>

text \<open>
  A generic conversion returns the number itself when the target type has it and an overflow
  error otherwise, for every pair of the ten integer types; \<open>MustConvert\<close> panics instead of the error,
  and \<open>SafeConvertUint32\<close> is the instance at \<open>uint32\<close>.
\<close>

theorem safe_convert_exact:
  assumes "in_type F x"
  shows "SafeConvert F T x = (if in_type T x then Inr x else Inl ErrOverflow)
    \<and> MustConvert F T x = (if in_type T x then Ret x else Panic)
    \<and> SafeConvertUint32 F x = SafeConvert F TUint32 x"
  using assms by (simp add: SafeConvert_spec MustConvert_spec SafeConvertUint32_spec)

theorem safe_convert_exact_witness:
  "SafeConvert TInt64 TUint8 256 = Inl ErrOverflow \<and> SafeConvert TInt64 TUint8 255 = Inr 255"
  using safe_convert_exact [of TInt64 256 TUint8] safe_convert_exact [of TInt64 255 TUint8]
  by (simp add: in_type_def)

text \<open>
  \<open>SafeConvertInt32\<close> is exact for every number that fits \<open>int64\<close>, but it compares after a
  conversion to \<open>int64\<close>: the \<open>uint64\<close> values from \<open>2^64 - 2^31\<close> on are accepted and become negative.
\<close>

theorem SafeConvertInt32_wraps:
  assumes "in_type T x"
  shows "(x \<le> MaxInt64 \<longrightarrow> SafeConvertInt32 T x = (if in_type TInt32 x then Inr x else Inl ErrOverflow))
    \<and> (T = TUint64 \<and> 2 ^ 64 - 2 ^ 31 \<le> x \<longrightarrow> SafeConvertInt32 T x = Inr (x - 2 ^ 64))"
  using assms SafeConvertInt32_spec [OF assms] SafeConvertInt32_high [of x] by (auto simp: in_type_def)

theorem SafeConvertInt32_wraps_witness:
  "SafeConvertInt32 TUint64 (2 ^ 64 - 1) = Inr (- 1)"
  using SafeConvertInt32_wraps [of TUint64 "2 ^ 64 - 1"] by (simp add: in_type_def)



end
