(* ===== verification/Bit_Array.thy ===== *)
theory Bit_Array
  imports Prelude
begin

unbundle bit_operations_syntax

text \<open>
  \<open>src/libs/bits/bit_array.go\<close>: the bit array that vote sets, part sets and peer states keep.
  The record holds the size and the 64-bit elements as the Go struct does; a \<open>*BitArray\<close> is an
  \<open>option\<close>. The mutex is left out: every operation below runs with it held.

  \<open>valid_ba\<close> is the representation invariant (as many elements as the size needs),
  \<open>ba_set\<close> the set of indices the array denotes, and \<open>clean_ba\<close> says that the padding bits of
  the last element are zero. Operations are shown to act on \<open>ba_set\<close> as the set operation
  they stand for; \<open>Not\<close> is the one that leaves the padding dirty.
\<close>

section \<open>Definitions\<close>

record BitArray =
  Bits :: int
  Elems :: "64 word list"

definition numElems :: "int \<Rightarrow> int" where
  "numElems bits = go_quot (wrap64 (bits + 63)) 64"

definition reset :: "int \<Rightarrow> BitArray \<Rightarrow> BitArray" where
  "reset bits bA =
     (if bits = 0 then bA\<lparr>Bits := bits, Elems := []\<rparr>
      else bA\<lparr>Bits := bits, Elems := replicate (nat (numElems bits)) 0\<rparr>)"

definition NewBitArray :: "int \<Rightarrow> BitArray option" where
  "NewBitArray bits = (if bits \<le> 0 then None else Some (reset bits \<lparr>Bits = 0, Elems = []\<rparr>))"

definition Size :: "BitArray option \<Rightarrow> int" where
  "Size bA = (case bA of None \<Rightarrow> 0 | Some b \<Rightarrow> Bits b)"

text \<open>
  A shift by \<open>uint(i % 64)\<close> for a negative remainder is a shift by more than 63 places, which
  clears the word.
\<close>

definition bit_mask :: "int \<Rightarrow> 64 word" where
  "bit_mask i = (let k = go_rem i 64 in if k < 0 then 0 else push_bit (nat k) 1)"

definition getIndex :: "BitArray \<Rightarrow> int \<Rightarrow> bool exec" where
  "getIndex bA i =
     (if i \<ge> Bits bA then Ret False
      else exec_bind (go_index (Elems bA) (go_quot i 64)) (\<lambda>e. Ret (e AND bit_mask i > 0)))"

definition GetIndex :: "BitArray option \<Rightarrow> int \<Rightarrow> bool exec" where
  "GetIndex bA i = (case bA of None \<Rightarrow> Ret False | Some b \<Rightarrow> getIndex b i)"

definition setIndex :: "BitArray \<Rightarrow> int \<Rightarrow> bool \<Rightarrow> (BitArray \<times> bool) exec" where
  "setIndex bA i v =
     (if i < 0 \<or> i \<ge> Bits bA then Ret (bA, False)
      else exec_bind (go_index (Elems bA) (go_quot i 64)) (\<lambda>e.
        Ret (bA\<lparr>Elems := (Elems bA)[nat (go_quot i 64) :=
                (if v then e OR bit_mask i else e AND NOT (bit_mask i))]\<rparr>, True)))"

definition SetIndex :: "BitArray option \<Rightarrow> int \<Rightarrow> bool \<Rightarrow> (BitArray option \<times> bool) exec" where
  "SetIndex bA i v =
     (case bA of
        None \<Rightarrow> Ret (None, False)
      | Some b \<Rightarrow> exec_bind (setIndex b i v) (\<lambda>(b', ok). Ret (Some b', ok)))"

text \<open>Copies share no state in the model, so \<open>Copy\<close> is the value itself.\<close>

definition Copy :: "BitArray option \<Rightarrow> BitArray option" where
  "Copy bA = map_option (\<lambda>b. \<lparr>Bits = Bits b, Elems = Elems b\<rparr>) bA"

definition copyBits :: "BitArray \<Rightarrow> int \<Rightarrow> BitArray" where
  "copyBits bA bits =
     (let n = nat (numElems bits); es = take n (Elems bA)
      in \<lparr>Bits = bits, Elems = es @ replicate (n - length es) 0\<rparr>)"

text \<open>
  \<open>for i := 0; i < n; i++ { c[i] = f(c[i], o[i]) }\<close>, which indexes both slices.
\<close>

fun zip_loop :: "(64 word \<Rightarrow> 64 word \<Rightarrow> 64 word) \<Rightarrow> nat \<Rightarrow> 64 word list \<Rightarrow> 64 word list
    \<Rightarrow> 64 word list exec" where
  "zip_loop f 0 c os = Ret c"
| "zip_loop f (Suc n) (x # c) (y # os) = exec_bind (zip_loop f n c os) (\<lambda>r. Ret (f x y # r))"
| "zip_loop f (Suc n) _ _ = Panic"

definition Or :: "BitArray option \<Rightarrow> BitArray option \<Rightarrow> BitArray option exec" where
  "Or bA o' =
     (case (bA, o') of
        (None, None) \<Rightarrow> Ret None
      | (None, Some _) \<Rightarrow> Ret (Copy o')
      | (Some _, None) \<Rightarrow> Ret (Copy bA)
      | (Some a, Some b) \<Rightarrow>
          (let c = copyBits a (max (Bits a) (Bits b));
               smaller = min (length (Elems a)) (length (Elems b))
           in exec_bind (zip_loop (OR) smaller (Elems c) (Elems b)) (\<lambda>es.
                Ret (Some (c\<lparr>Elems := es\<rparr>)))))"

definition And :: "BitArray option \<Rightarrow> BitArray option \<Rightarrow> BitArray option exec" where
  "And bA o' =
     (case (bA, o') of
        (Some a, Some b) \<Rightarrow>
          (let c = copyBits a (min (Bits a) (Bits b))
           in exec_bind (zip_loop (AND) (length (Elems c)) (Elems c) (Elems b)) (\<lambda>es.
                Ret (Some (c\<lparr>Elems := es\<rparr>))))
      | _ \<Rightarrow> Ret None)"

definition Not :: "BitArray option \<Rightarrow> BitArray option" where
  "Not bA = map_option (\<lambda>b. b\<lparr>Elems := map (\<lambda>e. NOT e) (Elems b)\<rparr>) bA"

definition Sub :: "BitArray option \<Rightarrow> BitArray option \<Rightarrow> BitArray option exec" where
  "Sub bA o' =
     (case (bA, o') of
        (Some a, Some b) \<Rightarrow>
          (let c = copyBits a (Bits a);
               smaller = min (length (Elems a)) (length (Elems b))
           in exec_bind (zip_loop (\<lambda>x y. x AND NOT y) smaller (Elems c) (Elems b)) (\<lambda>es.
                Ret (Some (c\<lparr>Elems := es\<rparr>))))
      | _ \<Rightarrow> Ret None)"

definition IsEmpty :: "BitArray option \<Rightarrow> bool" where
  "IsEmpty bA = (case bA of None \<Rightarrow> True | Some b \<Rightarrow> list_all (\<lambda>e. \<not> e > 0) (Elems b))"

definition IsFull :: "BitArray option \<Rightarrow> bool exec" where
  "IsFull bA =
     (case bA of
        None \<Rightarrow> Ret True
      | Some b \<Rightarrow>
          (if Elems b = [] then Panic
           else if \<not> list_all (\<lambda>e. NOT e = 0) (butlast (Elems b)) then Ret False
           else let lastElemBits = nat (go_rem (Bits b + 63) 64 + 1);
                    lastElem = last (Elems b)
                in Ret ((lastElem + 1) AND (push_bit lastElemBits 1 - 1) = 0)))"

text \<open>The loops of \<open>getTrueIndices\<close>; \<open>curBit\<close> is threaded through them.\<close>

fun scan_elem :: "64 word \<Rightarrow> nat \<Rightarrow> nat \<Rightarrow> int \<Rightarrow> int list \<times> int" where
  "scan_elem e j 0 curBit = ([], curBit)"
| "scan_elem e j (Suc n) curBit =
     (let (is, c) = scan_elem e (Suc j) n (curBit + 1)
      in (if e AND push_bit j 1 > 0 then curBit # is else is, c))"

fun scan_elems :: "64 word list \<Rightarrow> int \<Rightarrow> int list \<times> int" where
  "scan_elems [] curBit = ([], curBit)"
| "scan_elems (e # es) curBit =
     (if e = 0 then scan_elems es (curBit + 64)
      else let (is, c) = scan_elem e 0 64 curBit; (js, c') = scan_elems es c
           in (is @ js, c'))"

definition getTrueIndices :: "BitArray \<Rightarrow> int list exec" where
  "getTrueIndices bA =
     (if Elems bA = [] then Panic
      else let (is, curBit) = scan_elems (butlast (Elems bA)) 0;
               numFinalBits = Bits bA - curBit;
               (js, _) = scan_elem (last (Elems bA)) 0 (nat numFinalBits) curBit
           in Ret (is @ js))"

text \<open>\<open>rand.Intn\<close> is the parameter \<open>intn\<close>.\<close>

definition PickRandom :: "(nat \<Rightarrow> nat) \<Rightarrow> BitArray option \<Rightarrow> (int \<times> bool) exec" where
  "PickRandom intn bA =
     (case bA of
        None \<Rightarrow> Ret (0, False)
      | Some b \<Rightarrow> exec_bind (getTrueIndices b) (\<lambda>is.
          if is = [] then Ret (0, False)
          else exec_bind (go_index is (int (intn (length is)))) (\<lambda>i. Ret (i, True))))"

fun count_loop :: "BitArray \<Rightarrow> int list \<Rightarrow> nat exec" where
  "count_loop bA [] = Ret 0"
| "count_loop bA (i # is) =
     exec_bind (getIndex bA i) (\<lambda>v. exec_bind (count_loop bA is) (\<lambda>n. Ret (if v then Suc n else n)))"

definition CountTrueBits :: "BitArray \<Rightarrow> nat exec" where
  "CountTrueBits bA = count_loop bA (map int [0..<nat (Bits bA)])"

definition Update :: "BitArray option \<Rightarrow> BitArray option \<Rightarrow> BitArray option" where
  "Update bA o' =
     (case (bA, o') of
        (Some a, Some b) \<Rightarrow>
          Some (a\<lparr>Elems := take (length (Elems a)) (Elems b)
                          @ drop (length (Elems b)) (Elems a)\<rparr>)
      | _ \<Rightarrow> bA)"

text \<open>The JSON form: the literal \<open>null\<close>, or a quoted string of \<open>x\<close> and \<open>_\<close>.\<close>

fun json_bits :: "BitArray \<Rightarrow> int list \<Rightarrow> string exec" where
  "json_bits bA [] = Ret []"
| "json_bits bA (i # is) =
     exec_bind (getIndex bA i) (\<lambda>v. exec_bind (json_bits bA is) (\<lambda>s.
       Ret ((if v then CHR ''x'' else CHR ''_'') # s)))"

definition MarshalJSON :: "BitArray option \<Rightarrow> string exec" where
  "MarshalJSON bA =
     (case bA of
        None \<Rightarrow> Ret ''null''
      | Some b \<Rightarrow> exec_bind (json_bits b (map int [0..<nat (Bits b)])) (\<lambda>s.
          Ret ([CHR 0x22] @ s @ [CHR 0x22])))"

datatype bits_error = ErrBadJSON | ErrNegativeBits | ErrTooManyBits | ErrElemCount

text \<open>The submatch of the pattern \<open>\A"([_x]*)"\z\<close>.\<close>

definition match_bits :: "string \<Rightarrow> string option" where
  "match_bits b =
     (if length b \<ge> 2 \<and> hd b = CHR 0x22 \<and> last b = CHR 0x22
         \<and> list_all (\<lambda>c. c = CHR ''x'' \<or> c = CHR ''_'') (butlast (tl b))
      then Some (butlast (tl b)) else None)"

fun set_marked :: "string \<Rightarrow> int \<Rightarrow> BitArray \<Rightarrow> BitArray exec" where
  "set_marked [] i bA = Ret bA"
| "set_marked (c # cs) i bA =
     (if c = CHR ''x'' then exec_bind (setIndex bA i True) (\<lambda>(b, _). set_marked cs (i + 1) b)
      else set_marked cs (i + 1) bA)"

definition UnmarshalJSON :: "BitArray \<Rightarrow> string \<Rightarrow> (bits_error + BitArray) exec" where
  "UnmarshalJSON bA bz =
     (if bz = ''null'' then Ret (Inr (reset 0 bA))
      else case match_bits bz of
             None \<Rightarrow> Ret (Inl ErrBadJSON)
           | Some bits \<Rightarrow>
               exec_bind (set_marked bits 0 (reset (int (length bits)) bA)) (\<lambda>b. Ret (Inr b)))"

text \<open>The protobuf message has the same two fields.\<close>

record ProtoBitArray =
  pb_Bits :: int
  pb_Elems :: "64 word list"

definition ToProto :: "BitArray option \<Rightarrow> ProtoBitArray option" where
  "ToProto bA =
     (case bA of
        None \<Rightarrow> None
      | Some b \<Rightarrow> if length (Elems b) = 0 \<and> Bits b = 0 then None
                  else Some \<lparr>pb_Bits = Bits b, pb_Elems = Elems b\<rparr>)"

definition FromProto :: "BitArray \<Rightarrow> ProtoBitArray option \<Rightarrow> bits_error + BitArray" where
  "FromProto bA pb =
     (case pb of
        None \<Rightarrow> Inr bA
      | Some p \<Rightarrow>
          (if pb_Bits p < 0 then Inl ErrNegativeBits
           else if pb_Bits p > MaxInt32 then Inl ErrTooManyBits
           else if int (length (pb_Elems p)) \<noteq> numElems (pb_Bits p) then Inl ErrElemCount
           else Inr (bA\<lparr>Bits := pb_Bits p, Elems := pb_Elems p\<rparr>)))"

section \<open>Denotation\<close>

definition raw_bit :: "64 word list \<Rightarrow> nat \<Rightarrow> bool" where
  "raw_bit es i \<longleftrightarrow> i div 64 < length es \<and> bit (es ! (i div 64)) (i mod 64)"

definition valid_ba :: "BitArray \<Rightarrow> bool" where
  "valid_ba b \<longleftrightarrow> 0 \<le> Bits b \<and> Bits b \<le> MaxInt64 - 63
     \<and> length (Elems b) = nat ((Bits b + 63) div 64)"

definition ba_set :: "BitArray \<Rightarrow> nat set" where
  "ba_set b = {i. int i < Bits b \<and> raw_bit (Elems b) i}"

definition clean_ba :: "BitArray \<Rightarrow> bool" where
  "clean_ba b \<longleftrightarrow> (\<forall>i. raw_bit (Elems b) i \<longrightarrow> int i < Bits b)"

lemma ba_set_clean: "clean_ba b \<Longrightarrow> ba_set b = Collect (raw_bit (Elems b))"
  by (auto simp: ba_set_def clean_ba_def)

lemma clean_ba_sub: "clean_ba b \<Longrightarrow> raw_bit (Elems b) i \<Longrightarrow> i \<in> ba_set b"
  by (auto simp: ba_set_clean)

lemma ba_set_raw: "i \<in> ba_set b \<Longrightarrow> raw_bit (Elems b) i"
  by (simp add: ba_set_def)

lemma numElems_eq: "0 \<le> n \<Longrightarrow> n \<le> MaxInt64 - 63 \<Longrightarrow> numElems n = (n + 63) div 64"
  by (simp add: numElems_def in_int64_def go_quot_pos)

lemma valid_ba_numElems: "valid_ba b \<Longrightarrow> int (length (Elems b)) = numElems (Bits b)"
  by (auto simp: valid_ba_def numElems_eq pos_imp_zdiv_nonneg_iff)

lemma valid_ba_index:
  assumes "valid_ba b" "int i < Bits b"
  shows "i div 64 < length (Elems b)"
proof -
  have "int (i div 64) < (Bits b + 63) div 64"
    using assms(2) by (simp add: zdiv_int)
  then show ?thesis using assms(1) by (simp add: valid_ba_def)
qed

lemma bit_mask_eq: "0 \<le> i \<Longrightarrow> bit_mask i = push_bit (nat i mod 64) 1"
  by (simp add: bit_mask_def Let_def go_rem_pos nat_mod_distrib)

lemma go_quot_64: "0 \<le> i \<Longrightarrow> go_quot i 64 = int (nat i div 64)"
  by (simp add: go_quot_pos zdiv_int)

lemma and_mask_pos: "(e AND 2 ^ k > 0) = bit e k" for e :: "64 word"
  by (simp add: bit_iff_and_push_bit_not_eq_0 word_gt_0)

lemma getIndex_valid:
  assumes "valid_ba b" "0 \<le> i"
  shows "getIndex b i = Ret (nat i \<in> ba_set b)"
proof (cases "i < Bits b")
  case True
  then have "nat i div 64 < length (Elems b)"
    using assms valid_ba_index [of b "nat i"] by simp
  then show ?thesis
    using True assms
    by (simp add: getIndex_def go_index_def go_quot_64 bit_mask_eq and_mask_pos ba_set_def raw_bit_def)
next
  case False
  then show ?thesis using assms by (simp add: getIndex_def ba_set_def)
qed

lemma raw_bit_update:
  assumes "j div 64 < length es"
  shows "raw_bit (es[j div 64 := (if v then es ! (j div 64) OR 2 ^ (j mod 64)
           else es ! (j div 64) AND NOT (2 ^ (j mod 64)))]) i
         \<longleftrightarrow> (if i = j then v else raw_bit es i)"
proof (cases "i div 64 = j div 64")
  case True
  have "i = j \<longleftrightarrow> i mod 64 = j mod 64"
    using True by (metis div_mult_mod_eq)
  then show ?thesis
    using assms True
    by (auto simp: raw_bit_def bit_or_iff bit_and_iff bit_not_iff bit_exp_iff)
next
  case False
  then show ?thesis using assms by (auto simp: raw_bit_def nth_list_update)
qed

lemma setIndex_valid:
  assumes "valid_ba b" "0 \<le> i" "i < Bits b"
  obtains b' where "setIndex b i v = Ret (b', True)" "valid_ba b'" "Bits b' = Bits b"
    "ba_set b' = (if v then insert (nat i) (ba_set b) else ba_set b - {nat i})"
    "clean_ba b \<Longrightarrow> clean_ba b'"
proof -
  let ?e = "Elems b ! (nat i div 64)"
  let ?b' = "b\<lparr>Elems := (Elems b)[nat i div 64 := (if v then ?e OR 2 ^ (nat i mod 64)
               else ?e AND NOT (2 ^ (nat i mod 64)))]\<rparr>"
  have idx: "nat i div 64 < length (Elems b)"
    using assms valid_ba_index [of b "nat i"] by simp
  have raw: "raw_bit (Elems ?b') j \<longleftrightarrow> (if j = nat i then v else raw_bit (Elems b) j)" for j
    using raw_bit_update [OF idx, of v j] by simp
  show ?thesis
  proof
    show "setIndex b i v = Ret (?b', True)"
      using assms idx by (simp add: setIndex_def go_index_def go_quot_64 bit_mask_eq)
    show "valid_ba ?b'" using assms(1) by (simp add: valid_ba_def)
    show "Bits ?b' = Bits b" by simp
    show "ba_set ?b' = (if v then insert (nat i) (ba_set b) else ba_set b - {nat i})"
      unfolding ba_set_def raw using assms by auto
    show "clean_ba b \<Longrightarrow> clean_ba ?b'"
      unfolding clean_ba_def raw using assms by auto
  qed
qed

lemma SetIndex_out_of_range:
  "i < 0 \<or> Bits b \<le> i \<Longrightarrow> SetIndex (Some b) i v = Ret (Some b, False)"
  by (auto simp: SetIndex_def setIndex_def)

lemma raw_bit_replicate [simp]: "\<not> raw_bit (replicate n 0) i"
  by (simp add: raw_bit_def)

lemma reset_valid:
  assumes "0 \<le> n" "n \<le> MaxInt64 - 63"
  shows "valid_ba (reset n b)" "Bits (reset n b) = n" "ba_set (reset n b) = {}" "clean_ba (reset n b)"
proof -
  show "valid_ba (reset n b)" "Bits (reset n b) = n"
    using assms by (auto simp: reset_def valid_ba_def numElems_eq)
  have "\<not> raw_bit (Elems (reset n b)) i" for i
    by (auto simp: reset_def raw_bit_def)
  then show "ba_set (reset n b) = {}" "clean_ba (reset n b)"
    by (auto simp: ba_set_def clean_ba_def)
qed

lemma NewBitArray_valid:
  assumes "0 < n" "n \<le> MaxInt64 - 63"
  obtains b where "NewBitArray n = Some b" "valid_ba b" "Bits b = n" "ba_set b = {}" "clean_ba b"
  using assms that reset_valid [of n] by (simp add: NewBitArray_def)

section \<open>Set operations\<close>

lemma zip_loop_eq:
  "n \<le> length c \<Longrightarrow> n \<le> length os \<Longrightarrow>
     zip_loop f n c os = Ret (map2 f (take n c) (take n os) @ drop n c)"
  by (induction f n c os rule: zip_loop.induct) auto

lemma raw_bit_zip:
  assumes "n \<le> length c" "n \<le> length os" "\<And>x y k. k < 64 \<Longrightarrow> bit (f x y) k \<longleftrightarrow> g (bit x k) (bit y k)"
  shows "raw_bit (map2 f (take n c) (take n os) @ drop n c) i
         \<longleftrightarrow> (if i div 64 < n then g (raw_bit c i) (raw_bit os i) else raw_bit c i)"
  using assms by (auto simp: raw_bit_def nth_append min_def)

lemma copyBits_simps [simp]:
  "Bits (copyBits a n) = n"
  "length (Elems (copyBits a n)) = nat (numElems n)"
  by (simp_all add: copyBits_def Let_def)

lemma raw_bit_copyBits:
  "raw_bit (Elems (copyBits a n)) i \<longleftrightarrow> i div 64 < nat (numElems n) \<and> raw_bit (Elems a) i"
  by (auto simp: raw_bit_def copyBits_def Let_def nth_append)

lemma valid_ba_len: "valid_ba b \<Longrightarrow> length (Elems b) = nat (numElems (Bits b))"
  using valid_ba_numElems [of b] by simp

lemma valid_baI:
  "0 \<le> Bits b \<Longrightarrow> Bits b \<le> MaxInt64 - 63 \<Longrightarrow> length (Elems b) = nat (numElems (Bits b)) \<Longrightarrow> valid_ba b"
  by (simp add: valid_ba_def numElems_eq)

lemma valid_ba_bound: "valid_ba b \<Longrightarrow> 0 \<le> Bits b \<and> Bits b \<le> MaxInt64 - 63"
  by (simp add: valid_ba_def)

lemma numElems_mono: "0 \<le> m \<Longrightarrow> m \<le> n \<Longrightarrow> n \<le> MaxInt64 - 63 \<Longrightarrow> numElems m \<le> numElems n"
  by (simp add: numElems_eq zdiv_mono1)

lemma raw_bit_len: "raw_bit es i \<Longrightarrow> i div 64 < length es"
  by (simp add: raw_bit_def)

lemma Or_set:
  assumes "valid_ba a" "valid_ba b" "clean_ba a" "clean_ba b"
  obtains c where "Or (Some a) (Some b) = Ret (Some c)" "valid_ba c" "clean_ba c"
    "Bits c = max (Bits a) (Bits b)"
    "ba_set c = ba_set a \<union> {i \<in> ba_set b. i div 64 < length (Elems a)}"
proof -
  let ?n = "max (Bits a) (Bits b)"
  let ?c = "copyBits a ?n"
  let ?m = "min (length (Elems a)) (length (Elems b))"
  let ?es = "map2 (OR) (take ?m (Elems ?c)) (take ?m (Elems b)) @ drop ?m (Elems ?c)"
  let ?r = "?c\<lparr>Elems := ?es\<rparr>"
  have n: "0 \<le> ?n" "?n \<le> MaxInt64 - 63" using assms(1,2) by (auto simp: valid_ba_def)
  have la: "length (Elems a) \<le> length (Elems ?c)"
    using valid_ba_bound [OF assms(1)] n numElems_mono [of "Bits a" ?n]
    by (simp add: valid_ba_len [OF assms(1)] nat_mono)
  have raw_c: "raw_bit (Elems ?c) i = raw_bit (Elems a) i" for i
    using raw_bit_len [of "Elems a" i] la by (auto simp: raw_bit_copyBits)
  have raw: "raw_bit ?es i \<longleftrightarrow> raw_bit (Elems a) i \<or> (raw_bit (Elems b) i \<and> i div 64 < length (Elems a))" for i
  proof -
    have "raw_bit ?es i \<longleftrightarrow> (if i div 64 < ?m then raw_bit (Elems ?c) i \<or> raw_bit (Elems b) i
            else raw_bit (Elems ?c) i)"
      using la by (intro raw_bit_zip) (simp_all add: bit_or_iff)
    then show ?thesis
      unfolding raw_c min_less_iff_conj using raw_bit_len [of "Elems b" i] by argo
  qed
  have len: "length ?es = nat (numElems ?n)" using la by simp
  show ?thesis
  proof
    show "Or (Some a) (Some b) = Ret (Some ?r)"
      using la by (simp add: Or_def Let_def zip_loop_eq)
    have "Bits ?r = ?n" "Elems ?r = ?es" by simp_all
    with n len show "valid_ba ?r" by (intro valid_baI) (simp_all only:)
    have "int i < ?n" if "raw_bit ?es i" for i
      using that [unfolded raw] assms(3,4) unfolding clean_ba_def less_max_iff_disj by blast
    then show clean: "clean_ba ?r" by (simp add: clean_ba_def)
    show "Bits ?r = ?n" by simp
    have "ba_set ?r = {i. raw_bit ?es i}" using ba_set_clean [OF clean] by simp
    then show "ba_set ?r = ba_set a \<union> {i \<in> ba_set b. i div 64 < length (Elems a)}"
      unfolding raw ba_set_clean [OF assms(3)] ba_set_clean [OF assms(4)] by blast
  qed
qed

lemma And_set:
  assumes "valid_ba a" "valid_ba b"
  obtains c where "And (Some a) (Some b) = Ret (Some c)" "valid_ba c"
    "clean_ba a \<Longrightarrow> clean_ba b \<Longrightarrow> clean_ba c"
    "Bits c = min (Bits a) (Bits b)" "ba_set c = ba_set a \<inter> ba_set b"
proof -
  let ?n = "min (Bits a) (Bits b)"
  let ?c = "copyBits a ?n"
  let ?m = "length (Elems ?c)"
  let ?es = "map2 (AND) (take ?m (Elems ?c)) (take ?m (Elems b)) @ drop ?m (Elems ?c)"
  let ?r = "?c\<lparr>Elems := ?es\<rparr>"
  have n: "0 \<le> ?n" "?n \<le> MaxInt64 - 63" using assms by (auto simp: valid_ba_def)
  have lb: "?m \<le> length (Elems b)"
    using valid_ba_bound [OF assms(2)] n numElems_mono [of ?n "Bits b"]
    by (simp add: valid_ba_len [OF assms(2)] nat_mono)
  have raw: "raw_bit ?es i \<longleftrightarrow> i div 64 < ?m \<and> raw_bit (Elems a) i \<and> raw_bit (Elems b) i" for i
    using raw_bit_zip [of ?m "Elems ?c" "Elems b" "(AND)" "(\<and>)" i] lb raw_bit_len [of "Elems ?c" i]
    by (auto simp: raw_bit_copyBits bit_and_iff)
  have r: "Bits ?r = ?n" "Elems ?r = ?es" by simp_all
  have len: "length ?es = nat (numElems ?n)" using lb by simp
  have valid: "valid_ba ?r" using n len by (intro valid_baI) (simp_all only: r)
  show ?thesis
  proof
    show "And (Some a) (Some b) = Ret (Some ?r)"
      using lb by (simp add: And_def Let_def zip_loop_eq)
    show "valid_ba ?r" by (rule valid)
    have "int i < ?n" if "clean_ba a" "clean_ba b" "raw_bit ?es i" for i
      using that(3) [unfolded raw] that(1,2) unfolding clean_ba_def min_less_iff_conj by blast
    then show "clean_ba a \<Longrightarrow> clean_ba b \<Longrightarrow> clean_ba ?r" by (simp add: clean_ba_def)
    show "Bits ?r = ?n" by simp
    have "i div 64 < ?m" if "int i < ?n" for i
      using valid_ba_index [OF valid, of i] that lb by simp
    then show "ba_set ?r = ba_set a \<inter> ba_set b"
      using raw by (auto simp: ba_set_def)
  qed
qed

lemma Sub_set:
  assumes "valid_ba a" "valid_ba b" "clean_ba b"
  obtains c where "Sub (Some a) (Some b) = Ret (Some c)" "valid_ba c" "clean_ba a \<Longrightarrow> clean_ba c"
    "Bits c = Bits a" "ba_set c = ba_set a - ba_set b"
proof -
  let ?c = "copyBits a (Bits a)"
  let ?m = "min (length (Elems a)) (length (Elems b))"
  let ?f = "\<lambda>x y. x AND NOT y"
  let ?es = "map2 ?f (take ?m (Elems ?c)) (take ?m (Elems b)) @ drop ?m (Elems ?c)"
  let ?r = "?c\<lparr>Elems := ?es\<rparr>"
  have la: "length (Elems ?c) = length (Elems a)" using assms(1) by (simp add: valid_ba_len)
  have raw_c: "raw_bit (Elems ?c) i = raw_bit (Elems a) i" for i
    using raw_bit_len [of "Elems a" i] la by (auto simp: raw_bit_copyBits)
  have raw: "raw_bit ?es i \<longleftrightarrow> raw_bit (Elems a) i \<and> \<not> raw_bit (Elems b) i" for i
    using raw_bit_zip [of ?m "Elems ?c" "Elems b" ?f "\<lambda>p q. p \<and> \<not> q" i] la
      raw_bit_len [of "Elems b" i] raw_bit_len [of "Elems a" i]
    by (auto simp: raw_c bit_and_iff bit_not_iff)
  show ?thesis
  proof
    show "Sub (Some a) (Some b) = Ret (Some ?r)"
      using la by (simp add: Sub_def Let_def zip_loop_eq)
    show "valid_ba ?r" using assms(1) la by (simp add: valid_ba_def)
    show "clean_ba a \<Longrightarrow> clean_ba ?r" using raw by (auto simp: clean_ba_def)
    show "Bits ?r = Bits a" by simp
    show "ba_set ?r = ba_set a - ba_set b"
      using raw clean_ba_sub [OF assms(3)] by (auto simp: ba_set_def)
  qed
qed

lemma Not_set:
  assumes "valid_ba b"
  obtains c where "Not (Some b) = Some c" "valid_ba c" "Bits c = Bits b"
    "ba_set c = {i. int i < Bits b} - ba_set b"
proof -
  let ?r = "b\<lparr>Elems := map (\<lambda>e. NOT e) (Elems b)\<rparr>"
  have raw: "raw_bit (Elems ?r) i \<longleftrightarrow> i div 64 < length (Elems b) \<and> \<not> raw_bit (Elems b) i" for i
    by (auto simp: raw_bit_def bit_not_iff)
  show ?thesis
  proof
    show "Not (Some b) = Some ?r" by (simp add: Not_def)
    show "valid_ba ?r" using assms by (simp add: valid_ba_def)
    show "Bits ?r = Bits b" by simp
    show "ba_set ?r = {i. int i < Bits b} - ba_set b"
      unfolding ba_set_def raw using valid_ba_index [OF assms] by auto
  qed
qed

section \<open>Queries\<close>

lemma raw_bit_none: "(\<forall>i. \<not> raw_bit es i) \<longleftrightarrow> (\<forall>e \<in> set es. e = 0)"
proof
  assume none: "\<forall>i. \<not> raw_bit es i"
  have "\<not> bit (es ! m) k" if "m < length es" "k < 64" for m k
    using none that by (auto simp: raw_bit_def dest!: spec [of _ "64 * m + k"])
  then have "es ! m = 0" if "m < length es" for m
    using that by (intro bit_word_eqI) simp
  then show "\<forall>e \<in> set es. e = 0" by (metis in_set_conv_nth)
next
  assume "\<forall>e \<in> set es. e = 0"
  then show "\<forall>i. \<not> raw_bit es i"
    by (metis bit_0_eq bot_apply bot_bool_def nth_mem raw_bit_def)
qed

lemma IsEmpty_iff: "clean_ba b \<Longrightarrow> IsEmpty (Some b) \<longleftrightarrow> ba_set b = {}"
  using raw_bit_none [of "Elems b"]
  by (auto simp: IsEmpty_def ba_set_clean list_all_iff word_gt_0)

lemma word_low_ones:
  fixes e :: "64 word"
  assumes "k \<le> 64"
  shows "(e + 1) AND (2 ^ k - 1) = 0 \<longleftrightarrow> (\<forall>j < k. bit e j)"
proof -
  have neg: "e + 1 = - (NOT e)" by (simp add: minus_eq_not_plus_1)
  have "(e + 1) AND (2 ^ k - 1) = take_bit k (e + 1)"
    by (simp add: take_bit_eq_mask mask_eq_exp_minus_1)
  then have "(e + 1) AND (2 ^ k - 1) = 0 \<longleftrightarrow> 2 ^ k dvd - (NOT e)"
    by (simp only: take_bit_eq_0_iff neg)
  also have "\<dots> \<longleftrightarrow> take_bit k (NOT e) = 0"
    by (simp only: dvd_minus_iff take_bit_eq_0_iff)
  also have "\<dots> \<longleftrightarrow> (\<forall>j < k. bit e j)"
    using assms by (auto simp: bit_eq_iff bit_take_bit_iff bit_not_iff)
  finally show ?thesis .
qed

lemma word_all_ones: "NOT e = 0 \<longleftrightarrow> (\<forall>j < 64. bit e j)" for e :: "64 word"
  by (auto simp: bit_eq_iff bit_not_iff)

lemma div_mod_below:
  assumes "i < 64 * n + k" "k \<le> (64::nat)"
  shows "i div 64 < n \<or> i div 64 = n \<and> i mod 64 < k"
proof -
  define q r where qr: "q = i div 64" "r = i mod 64"
  then have "i = 64 * q + r" by simp
  with assms have "64 * q + r < 64 * n + k" by simp
  then show ?thesis unfolding qr [symmetric] using assms(2) by linarith
qed

lemma valid_ba_layout:
  assumes "valid_ba b" "0 < Bits b"
  obtains L k where "length (Elems b) = Suc L" "Bits b = int (64 * L + k)" "0 < k" "k \<le> 64"
    "nat (go_rem (Bits b + 63) 64 + 1) = k"
proof
  define L k where Lk: "L = nat ((Bits b + 63) div 64 - 1)" "k = nat ((Bits b + 63) mod 64 + 1)"
  have q: "1 \<le> (Bits b + 63) div 64" using assms(2) by simp
  show "length (Elems b) = Suc L" using assms(1) q unfolding valid_ba_def Lk by linarith
  show "Bits b = int (64 * L + k)"
    using div_mult_mod_eq [of "Bits b + 63" 64] q unfolding Lk by linarith
  show "0 < k" "k \<le> 64" by (auto simp: Lk)
  show "nat (go_rem (Bits b + 63) 64 + 1) = k" using assms(2) by (simp add: go_rem_pos Lk)
qed

lemma IsFull_iff:
  assumes "valid_ba b" "0 < Bits b"
  shows "IsFull (Some b) = Ret (\<forall>i. int i < Bits b \<longrightarrow> i \<in> ba_set b)"
proof -
  let ?es = "Elems b"
  obtain L k where Lk: "length ?es = Suc L" "Bits b = int (64 * L + k)" "0 < k" "k \<le> 64"
    "nat (go_rem (Bits b + 63) 64 + 1) = k" by (rule valid_ba_layout [OF assms])
  have split: "(\<forall>i. int i < Bits b \<longrightarrow> i \<in> ba_set b)
      \<longleftrightarrow> (\<forall>m < L. \<forall>j < 64. bit (?es ! m) j) \<and> (\<forall>j < k. bit (?es ! L) j)" (is "?l \<longleftrightarrow> ?r")
  proof
    assume all: ?l
    have "bit (?es ! m) j" if "64 * m + j < 64 * L + k" "j < 64" for m j
      using all [rule_format, of "64 * m + j"] that by (auto simp: ba_set_def raw_bit_def Lk(2))
    moreover have "64 * m + j < 64 * L + k" if "m < L" "j < 64" for m j
      using that by linarith
    ultimately show ?r using Lk(4) by (meson order_less_le_trans nat_add_left_cancel_less)
  next
    assume all: ?r
    show ?l
    proof (intro allI impI)
      fix i assume i: "int i < Bits b"
      then have "i < 64 * L + k" using Lk(2) by simp
      then have "i div 64 < L \<or> i div 64 = L \<and> i mod 64 < k"
        using Lk(4) by (rule div_mod_below)
      then have "bit (?es ! (i div 64)) (i mod 64)"
        using all mod_less_divisor [of 64 i] by (metis zero_less_numeral)
      then show "i \<in> ba_set b"
        using i valid_ba_index [OF assms(1) i] unfolding ba_set_def raw_bit_def by blast
    qed
  qed
  have init: "list_all (\<lambda>e. NOT e = 0) (butlast ?es) \<longleftrightarrow> (\<forall>m < L. \<forall>j < 64. bit (?es ! m) j)"
    by (simp add: list_all_length nth_butlast word_all_ones Lk(1))
  have ne: "?es \<noteq> []" and last: "last ?es = ?es ! L"
    using Lk(1) last_conv_nth [of ?es] by fastforce+
  have "IsFull (Some b) = Ret (list_all (\<lambda>e. NOT e = 0) (butlast ?es)
          \<and> (last ?es + 1) AND (2 ^ k - 1) = 0)"
    using ne unfolding IsFull_def option.case Lk(5) Let_def push_bit_of_1
    by (cases "list_all (\<lambda>e. NOT e = 0) (butlast ?es)") (simp_all only: if_True if_False simp_thms)
  then show ?thesis
    unfolding split init word_low_ones [OF Lk(4)] last by blast
qed

lemma upt_0_add: "[0..<m + n] = [0..<m] @ map ((+) m) [0..<n]"
  by (rule nth_equalityI) (auto simp: nth_append)

lemma scan_elem_eq:
  "scan_elem e j n c = (map (\<lambda>k. c + int k) (filter (\<lambda>k. bit e (j + k)) [0..<n]), c + int n)"
proof (induction n arbitrary: j c)
  case (Suc n)
  have "[0..<Suc n] = 0 # map Suc [0..<n]" by (simp add: upt_conv_Cons map_Suc_upt del: upt_Suc)
  then show ?case
    by (simp add: Suc and_mask_pos filter_map comp_def ac_simps del: upt_Suc)
qed simp

lemma raw_bit_Cons: "raw_bit (e # es) i \<longleftrightarrow> (if i < 64 then bit e i else raw_bit es (i - 64))"
  by (auto simp: raw_bit_def nth_Cons' le_div_geq le_mod_geq)

lemma filter_raw_bit_Cons:
  "filter (raw_bit (e # es)) [0..<64 + n]
   = filter (bit e) [0..<64] @ map ((+) 64) (filter (raw_bit es) [0..<n])"
  unfolding upt_0_add filter_append filter_map
  by (rule arg_cong2 [where f = append]; auto simp: raw_bit_Cons intro!: filter_cong arg_cong [where f = "map _"])

lemma scan_elems_eq:
  "scan_elems es c
   = (map (\<lambda>k. c + int k) (filter (raw_bit es) [0..<64 * length es]), c + 64 * int (length es))"
proof (induction es arbitrary: c)
  case (Cons e es)
  have "64 * length (e # es) = 64 + 64 * length es" by simp
  moreover have "filter (bit e) [0..<64] = []" if "e = 0" using that by simp
  ultimately show ?case
    unfolding scan_elems.simps Cons.IH scan_elem_eq
    by (simp only: filter_raw_bit_Cons) (auto simp: comp_def ac_simps)
qed simp

lemma getTrueIndices_eq:
  assumes "valid_ba b" "0 < Bits b"
  shows "getTrueIndices b = Ret (map int (filter (\<lambda>i. i \<in> ba_set b) [0..<nat (Bits b)]))"
proof -
  let ?es = "Elems b"
  obtain L k where Lk: "length ?es = Suc L" "Bits b = int (64 * L + k)" "0 < k" "k \<le> 64"
    "nat (go_rem (Bits b + 63) 64 + 1) = k" by (rule valid_ba_layout [OF assms])
  have ne: "?es \<noteq> []" and last: "last ?es = ?es ! L"
    using Lk(1) last_conv_nth [of ?es] by fastforce+
  have "filter (\<lambda>i. i \<in> ba_set b) [0..<nat (Bits b)]
        = filter (\<lambda>i. i \<in> ba_set b) [0..<64 * L] @ map ((+) (64 * L)) (filter (\<lambda>i. 64 * L + i \<in> ba_set b) [0..<k])"
    unfolding Lk(2) nat_int upt_0_add by (simp add: filter_map comp_def)
  also have "filter (\<lambda>i. i \<in> ba_set b) [0..<64 * L] = filter (raw_bit (butlast ?es)) [0..<64 * L]"
  proof (rule filter_cong [OF refl])
    fix i assume "i \<in> set [0..<64 * L]"
    then have "i div 64 < L" "int i < Bits b" using Lk(2) by auto
    then show "(i \<in> ba_set b) = raw_bit (butlast ?es) i"
      by (simp add: ba_set_def raw_bit_def nth_butlast Lk(1))
  qed
  also have "filter (\<lambda>i. 64 * L + i \<in> ba_set b) [0..<k] = filter (bit (?es ! L)) [0..<k]"
    using Lk by (intro filter_cong refl) (auto simp: ba_set_def raw_bit_def)
  finally show ?thesis
    using ne last by (simp add: getTrueIndices_def scan_elems_eq scan_elem_eq Lk(1,2))
qed

lemma PickRandom_spec:
  assumes "valid_ba b" "0 < Bits b" "\<And>n. 0 < n \<Longrightarrow> intn n < n"
  shows "PickRandom intn (Some b) = Ret (0, False) \<and> ba_set b = {}
         \<or> (\<exists>i \<in> ba_set b. PickRandom intn (Some b) = Ret (int i, True))"
proof -
  let ?is = "filter (\<lambda>i. i \<in> ba_set b) [0..<nat (Bits b)]"
  have set: "set ?is = ba_set b" by (auto simp: ba_set_def)
  show ?thesis
  proof (cases "?is = []")
    case True
    then show ?thesis using set by (auto simp: PickRandom_def getTrueIndices_eq [OF assms(1,2)])
  next
    case False
    then have lt: "intn (length ?is) < length ?is" using assms(3) by blast
    then have "?is ! intn (length ?is) \<in> ba_set b" using set nth_mem by blast
    moreover have "PickRandom intn (Some b) = Ret (int (?is ! intn (length ?is)), True)"
      using lt False by (simp add: PickRandom_def getTrueIndices_eq [OF assms(1,2)] go_index_def)
    ultimately show ?thesis by blast
  qed
qed

lemma count_loop_eq:
  "valid_ba b \<Longrightarrow> count_loop b (map int is) = Ret (length (filter (\<lambda>i. i \<in> ba_set b) is))"
  by (induction "is") (simp_all add: getIndex_valid)

lemma CountTrueBits_card:
  assumes "valid_ba b"
  shows "CountTrueBits b = Ret (card (ba_set b))"
proof -
  have "ba_set b = set (filter (\<lambda>i. i \<in> ba_set b) [0..<nat (Bits b)])"
    by (auto simp: ba_set_def)
  then have "card (ba_set b) = length (filter (\<lambda>i. i \<in> ba_set b) [0..<nat (Bits b)])"
    by (metis distinct_card distinct_filter distinct_upt)
  then show ?thesis using count_loop_eq [OF assms] by (simp add: CountTrueBits_def)
qed

section \<open>Encodings\<close>

lemma ba_eqI:
  fixes a b :: BitArray
  assumes "valid_ba a" "valid_ba b" "clean_ba a" "clean_ba b" "Bits a = Bits b" "ba_set a = ba_set b"
  shows "a = b"
proof -
  have len: "length (Elems a) = length (Elems b)" using assms by (simp add: valid_ba_len)
  have raw: "raw_bit (Elems a) i = raw_bit (Elems b) i" for i
    using assms(6) by (auto simp: ba_set_clean assms(3,4))
  have "Elems a ! m = Elems b ! m" if "m < length (Elems a)" for m
  proof (rule bit_word_eqI)
    fix n assume "n < LENGTH(64)"
    then show "bit (Elems a ! m) n = bit (Elems b ! m) n"
      using raw [of "64 * m + n"] that len by (simp add: raw_bit_def)
  qed
  then show ?thesis using len assms(5) by (intro BitArray.equality nth_equalityI) simp_all
qed

definition marks :: "nat set \<Rightarrow> nat list \<Rightarrow> string" where
  "marks S is = map (\<lambda>i. if i \<in> S then CHR ''x'' else CHR ''_'') is"

lemma json_bits_eq: "valid_ba b \<Longrightarrow> json_bits b (map int is) = Ret (marks (ba_set b) is)"
  by (induction "is") (simp_all add: getIndex_valid marks_def)

lemma MarshalJSON_eq:
  "valid_ba b \<Longrightarrow> MarshalJSON (Some b)
     = Ret ([CHR 0x22] @ marks (ba_set b) [0..<nat (Bits b)] @ [CHR 0x22])"
  by (simp add: MarshalJSON_def json_bits_eq)

lemma match_bits_iff:
  "match_bits s = Some t \<longleftrightarrow> s = [CHR 0x22] @ t @ [CHR 0x22] \<and> set t \<subseteq> {CHR ''x'', CHR ''_''}"
proof
  assume "match_bits s = Some t"
  then have t: "t = butlast (tl s)" "set t \<subseteq> {CHR ''x'', CHR ''_''}"
    and s: "length s \<ge> 2" "hd s = CHR 0x22" "last s = CHR 0x22"
    by (auto simp: match_bits_def list_all_iff split: if_splits)
  then have "s = hd s # tl s" "tl s \<noteq> []" by (cases s; force)+
  then have "s = hd s # butlast (tl s) @ [last (tl s)]" "last (tl s) = last s"
    by (metis append_butlast_last_id, metis last_tl)
  then show "s = [CHR 0x22] @ t @ [CHR 0x22] \<and> set t \<subseteq> {CHR ''x'', CHR ''_''}"
    using s t by simp
next
  assume "s = [CHR 0x22] @ t @ [CHR 0x22] \<and> set t \<subseteq> {CHR ''x'', CHR ''_''}"
  then show "match_bits s = Some t"
    by (auto simp: match_bits_def list_all_iff butlast_append)
qed

lemma set_marked_spec:
  assumes "valid_ba b" "clean_ba b" "0 \<le> i" "i + int (length s) \<le> Bits b"
  shows "\<exists>b'. set_marked s i b = Ret b' \<and> valid_ba b' \<and> clean_ba b' \<and> Bits b' = Bits b
     \<and> ba_set b' = ba_set b \<union> {nat i + j | j. j < length s \<and> s ! j = CHR ''x''}"
  using assms
proof (induction s i b rule: set_marked.induct)
  case (2 c cs i bA)
  let ?at = "\<lambda>i cs. {nat i + j | j. j < length cs \<and> cs ! j = CHR ''x''}"
  have tail: "?at i (c # cs) = (if c = CHR ''x'' then {nat i} else {}) \<union> ?at (i + 1) cs"
  proof -
    have "x \<in> ?at i (c # cs) \<longleftrightarrow> x = nat i \<and> c = CHR ''x''
            \<or> (\<exists>j < length cs. x = nat i + Suc j \<and> cs ! j = CHR ''x'')" for x
      by (auto simp: less_Suc_eq_0_disj)
    moreover have "nat (i + 1) = Suc (nat i)" using 2 by simp
    ultimately show ?thesis by auto
  qed
  show ?case
  proof (cases "c = CHR ''x''")
    case True
    obtain b' where b': "setIndex bA i True = Ret (b', True)" "valid_ba b'" "Bits b' = Bits bA"
      "ba_set b' = insert (nat i) (ba_set bA)" "clean_ba bA \<Longrightarrow> clean_ba b'"
    proof (rule setIndex_valid [of bA i True])
      show "valid_ba bA" "0 \<le> i" "i < Bits bA" using "2.prems" by auto
    qed auto
    then show ?thesis
      using True "2.IH"(1) [OF True, of b'] "2.prems" unfolding tail by auto
  next
    case False
    then show ?thesis using "2.IH"(2) [OF False] "2.prems" unfolding tail by auto
  qed
qed auto

lemma UnmarshalJSON_cases:
  fixes b0 :: BitArray
  assumes "int (length s) \<le> MaxInt32"
  shows "UnmarshalJSON b0 s = Ret (Inl ErrBadJSON)
     \<or> (\<exists>b. UnmarshalJSON b0 s = Ret (Inr b) \<and> valid_ba b \<and> clean_ba b \<and> Bits b \<le> int (length s))"
proof (cases "match_bits s")
  case None
  then show ?thesis using reset_valid [of 0 b0] by (auto simp: UnmarshalJSON_def)
next
  case (Some t)
  then have s: "s = [CHR 0x22] @ t @ [CHR 0x22]" by (simp add: match_bits_iff)
  let ?r = "reset (int (length t)) b0"
  have r: "valid_ba ?r" "Bits ?r = int (length t)" "clean_ba ?r"
    using reset_valid [of "int (length t)" b0] assms s by simp_all
  then obtain b where "set_marked t 0 ?r = Ret b" "valid_ba b" "clean_ba b" "Bits b = int (length t)"
    using set_marked_spec [of ?r 0 t] by auto
  then show ?thesis using Some s by (auto simp: UnmarshalJSON_def)
qed

lemma json_roundtrip:
  fixes b b0 :: BitArray
  assumes "valid_ba b" "clean_ba b"
  shows "\<exists>s. MarshalJSON (Some b) = Ret s \<and> UnmarshalJSON b0 s = Ret (Inr b)"
proof -
  let ?n = "nat (Bits b)"
  let ?t = "marks (ba_set b) [0..<?n]"
  let ?r = "reset (Bits b) b0"
  have len: "length ?t = ?n" by (simp add: marks_def)
  have m: "match_bits ([CHR 0x22] @ ?t @ [CHR 0x22]) = Some ?t"
    unfolding match_bits_iff by (auto simp: marks_def)
  have "valid_ba ?r" "clean_ba ?r" "Bits ?r = Bits b" "ba_set ?r = {}"
    using reset_valid [of "Bits b" b0] valid_ba_bound [OF assms(1)] by simp_all
  then obtain b' where b': "set_marked ?t 0 ?r = Ret b'" "valid_ba b'" "clean_ba b'" "Bits b' = Bits b"
      "ba_set b' = {j. j < ?n \<and> ?t ! j = CHR ''x''}"
    using set_marked_spec [of ?r 0 ?t] valid_ba_bound [OF assms(1)] len by auto
  have "ba_set b' = ba_set b" unfolding b'(5) by (auto simp: marks_def ba_set_def split: if_splits)
  then have "b' = b" using b' assms by (intro ba_eqI) simp_all
  then show ?thesis
    using m b'(1) valid_ba_bound [OF assms(1)] len
    by (simp add: MarshalJSON_eq [OF assms(1)] UnmarshalJSON_def)
qed

lemma FromProto_valid: "FromProto b0 (Some p) = Inr b \<Longrightarrow> valid_ba b"
  by (auto simp: FromProto_def numElems_eq valid_ba_def split: if_splits)

lemma proto_roundtrip:
  fixes b b0 :: BitArray
  assumes "valid_ba b" "0 < Bits b" "Bits b \<le> MaxInt32"
  shows "FromProto b0 (ToProto (Some b)) = Inr b"
  using assms valid_ba_numElems [OF assms(1)] by (simp add: FromProto_def ToProto_def)

section \<open>The bit vector interface\<close>

text \<open>
  What the vote sets rely on: an index that is set reads back, and the others keep their value.
\<close>

locale bit_vector =
  fixes inv :: "'b \<Rightarrow> bool"
    and width :: "'b \<Rightarrow> int"
    and get :: "'b \<Rightarrow> int \<Rightarrow> bool exec"
    and set :: "'b \<Rightarrow> int \<Rightarrow> bool \<Rightarrow> ('b \<times> bool) exec"
  assumes set_get: "inv b \<Longrightarrow> 0 \<le> i \<Longrightarrow> i < width b \<Longrightarrow>
      \<exists>b'. set b i v = Ret (b', True) \<and> inv b' \<and> width b' = width b \<and> get b' i = Ret v
         \<and> (\<forall>j \<ge> 0. j \<noteq> i \<longrightarrow> get b' j = get b j)"
begin

lemma mirror_set:
  assumes "inv b" "\<forall>i. 0 \<le> i \<and> i < width b \<longrightarrow> get b i = Ret (f i)" "0 \<le> k" "k < width b"
  shows "\<exists>b'. set b k v = Ret (b', True) \<and> inv b' \<and> width b' = width b
     \<and> (\<forall>i. 0 \<le> i \<and> i < width b \<longrightarrow> get b' i = Ret ((f(k := v)) i))"
proof -
  obtain b' where "set b k v = Ret (b', True)" "inv b'" "width b' = width b" "get b' k = Ret v"
    "\<forall>j \<ge> 0. j \<noteq> k \<longrightarrow> get b' j = get b j" using set_get [OF assms(1,3,4)] by blast
  then show ?thesis using assms(2) by auto
qed

lemma set_again:
  assumes "inv b" "get b k = Ret v" "0 \<le> k" "k < width b"
  shows "\<exists>b'. set b k v = Ret (b', True) \<and> inv b' \<and> width b' = width b \<and> (\<forall>j \<ge> 0. get b' j = get b j)"
  using set_get [OF assms(1,3,4), of v] assms(2) by metis

end

definition ba_inv :: "BitArray option \<Rightarrow> bool" where
  "ba_inv x \<longleftrightarrow> (case x of None \<Rightarrow> False | Some b \<Rightarrow> valid_ba b \<and> clean_ba b)"

interpretation ba: bit_vector ba_inv Size GetIndex SetIndex
proof
  fix x i v
  assume x: "ba_inv x" and i: "0 \<le> i" "i < Size x"
  then obtain b where b: "x = Some b" "valid_ba b" "clean_ba b" by (auto simp: ba_inv_def split: option.splits)
  obtain b' where b': "setIndex b i v = Ret (b', True)" "valid_ba b'" "Bits b' = Bits b"
      "ba_set b' = (if v then insert (nat i) (ba_set b) else ba_set b - {nat i})" "clean_ba b'"
    by (rule setIndex_valid [of b i v]) (use b i in \<open>auto simp: Size_def\<close>)
  have "GetIndex (Some b') i = Ret v" using b' i by (simp add: GetIndex_def getIndex_valid)
  moreover have "GetIndex (Some b') j = GetIndex x j" if "0 \<le> j" "j \<noteq> i" for j
    using b b' i that by (auto simp: GetIndex_def getIndex_valid)
  moreover have "SetIndex x i v = Ret (Some b', True)" using b b' by (simp add: SetIndex_def)
  ultimately show "\<exists>x'. SetIndex x i v = Ret (x', True) \<and> ba_inv x' \<and> Size x' = Size x \<and> GetIndex x' i = Ret v
      \<and> (\<forall>j \<ge> 0. j \<noteq> i \<longrightarrow> GetIndex x' j = GetIndex x j)"
    using b b' by (auto simp: ba_inv_def Size_def)
qed

section \<open>Properties\<close>

definition ex_ba :: "64 word \<Rightarrow> BitArray" where
  "ex_ba e = \<lparr>Bits = 3, Elems = [e]\<rparr>"

text \<open>
  C34: On clean arrays \<open>And\<close>, \<open>Sub\<close> and \<open>Not\<close> are intersection, difference and complement of the index
  sets, with the sizes the code documents, and \<open>Or\<close> adds only those bits of its argument that fall in
  elements the receiver has.
\<close>

theorem bit_array_set_operations:
  assumes "valid_ba a" "valid_ba b" "clean_ba a" "clean_ba b"
  shows "(\<exists>c. And (Some a) (Some b) = Ret (Some c) \<and> valid_ba c \<and> clean_ba c
            \<and> Bits c = min (Bits a) (Bits b) \<and> ba_set c = ba_set a \<inter> ba_set b)
    \<and> (\<exists>c. Sub (Some a) (Some b) = Ret (Some c) \<and> valid_ba c \<and> clean_ba c
            \<and> Bits c = Bits a \<and> ba_set c = ba_set a - ba_set b)
    \<and> (\<exists>c. Not (Some a) = Some c \<and> valid_ba c \<and> Bits c = Bits a
            \<and> ba_set c = {i. int i < Bits a} - ba_set a)
    \<and> (\<exists>c. Or (Some a) (Some b) = Ret (Some c) \<and> valid_ba c \<and> clean_ba c
            \<and> Bits c = max (Bits a) (Bits b)
            \<and> ba_set c = ba_set a \<union> {i \<in> ba_set b. i div 64 < length (Elems a)})"
proof (intro conjI)
  show "\<exists>c. And (Some a) (Some b) = Ret (Some c) \<and> valid_ba c \<and> clean_ba c
            \<and> Bits c = min (Bits a) (Bits b) \<and> ba_set c = ba_set a \<inter> ba_set b"
    by (rule And_set [OF assms(1,2)]) (use assms(3,4) in blast)
  show "\<exists>c. Sub (Some a) (Some b) = Ret (Some c) \<and> valid_ba c \<and> clean_ba c
            \<and> Bits c = Bits a \<and> ba_set c = ba_set a - ba_set b"
    by (rule Sub_set [OF assms(1,2,4)]) (use assms(3) in blast)
  show "\<exists>c. Not (Some a) = Some c \<and> valid_ba c \<and> Bits c = Bits a \<and> ba_set c = {i. int i < Bits a} - ba_set a"
    by (rule Not_set [OF assms(1)]) blast
  show "\<exists>c. Or (Some a) (Some b) = Ret (Some c) \<and> valid_ba c \<and> clean_ba c \<and> Bits c = max (Bits a) (Bits b)
            \<and> ba_set c = ba_set a \<union> {i \<in> ba_set b. i div 64 < length (Elems a)}"
    by (rule Or_set [OF assms]) blast
qed

lemma ex_ba_ok: "valid_ba (ex_ba 5)" "clean_ba (ex_ba 5)"
proof -
  show "valid_ba (ex_ba 5)" by (simp add: ex_ba_def valid_ba_def)
  have "bit (5 :: 64 word) k \<Longrightarrow> k < 3" for k
    using bit_take_bit_iff [of 3 "5 :: 64 word" k] by (simp add: take_bit_eq_mod)
  then have "raw_bit [5] i \<Longrightarrow> i < 3" for i by (auto simp: raw_bit_def div_eq_0_iff)
  then show "clean_ba (ex_ba 5)" unfolding ex_ba_def clean_ba_def by fastforce
qed

theorem bit_array_set_operations_witness:
  "\<exists>c. Sub (Some (ex_ba 5)) (Some (ex_ba 5)) = Ret (Some c) \<and> ba_set c = {}"
  using bit_array_set_operations [OF ex_ba_ok(1) ex_ba_ok(1) ex_ba_ok(2) ex_ba_ok(2)] by auto

text \<open>
  \<open>Or\<close> loses bits of a longer argument: the union of a one-element array and a two-element one
  misses the second element's bits, although the result has the longer size.
\<close>

theorem bit_array_Or_drops:
  "Or (Some \<lparr>Bits = 64, Elems = [1]\<rparr>) (Some \<lparr>Bits = 128, Elems = [2, 1]\<rparr>)
     = Ret (Some \<lparr>Bits = 128, Elems = [3, 0]\<rparr>)
   \<and> GetIndex (Some \<lparr>Bits = 128, Elems = [2, 1]\<rparr>) 64 = Ret True
   \<and> GetIndex (Some \<lparr>Bits = 128, Elems = [3, 0]\<rparr>) 64 = Ret False"
  by (simp add: Or_def copyBits_def GetIndex_def getIndex_def numElems_def in_int64_def go_quot_def
      go_rem_def go_index_def bit_mask_def numeral_2_eq_2 Let_def)

text \<open>
  \<open>Not\<close> sets the padding of the last element, so the complement of a full array is not empty for
  \<open>IsEmpty\<close> although it has no index set.
\<close>

theorem bit_array_Not_dirty:
  "IsFull (Some (ex_ba 7)) = Ret True \<and> Not (Some (ex_ba 7)) = Some (ex_ba (- 8))
   \<and> CountTrueBits (ex_ba (- 8)) = Ret 0 \<and> \<not> IsEmpty (Some (ex_ba (- 8)))"
  by (simp add: IsFull_def Not_def IsEmpty_def CountTrueBits_def ex_ba_def getIndex_def go_quot_def
      go_rem_def go_index_def bit_mask_def numeral_3_eq_3 upt_rec word_gt_0 Let_def)

text \<open>
  The queries compute what they say: \<open>IsFull\<close> holds iff every index below the size is set,
  \<open>getTrueIndices\<close> lists the set indices in order, \<open>CountTrueBits\<close> is their number, and \<open>PickRandom\<close>
  returns a set index, or false exactly when there is none, whatever \<open>rand.Intn\<close> returns in range.
\<close>

theorem bit_array_queries:
  assumes "valid_ba b" "0 < Bits b" "\<And>n. 0 < n \<Longrightarrow> intn n < n"
  shows "IsFull (Some b) = Ret (\<forall>i. int i < Bits b \<longrightarrow> i \<in> ba_set b)
    \<and> getTrueIndices b = Ret (map int (filter (\<lambda>i. i \<in> ba_set b) [0..<nat (Bits b)]))
    \<and> CountTrueBits b = Ret (card (ba_set b))
    \<and> (PickRandom intn (Some b) = Ret (0, False) \<and> ba_set b = {}
         \<or> (\<exists>i \<in> ba_set b. PickRandom intn (Some b) = Ret (int i, True)))"
  using IsFull_iff [OF assms(1,2)] getTrueIndices_eq [OF assms(1,2)] CountTrueBits_card [OF assms(1)]
    PickRandom_spec [OF assms] by blast

theorem bit_array_queries_witness:
  "getTrueIndices (ex_ba 5) = Ret (map int (filter (\<lambda>i. i \<in> ba_set (ex_ba 5)) [0..<nat (Bits (ex_ba 5))]))
   \<and> getTrueIndices (ex_ba 5) = Ret [0, 2]"
proof -
  have "getTrueIndices (ex_ba 5) = Ret [0, 2]"
    by (simp add: getTrueIndices_def ex_ba_def numeral_3_eq_3 Let_def)
  moreover have "0 < Bits (ex_ba 5)" by (simp add: ex_ba_def)
  ultimately show ?thesis using bit_array_queries [OF ex_ba_ok(1), of "\<lambda>_. 0"] by simp
qed

text \<open>
  C35: Both encodings read back: a clean array is the result of decoding its JSON form, and a non-empty
  one of at most \<open>MaxInt32\<close> bits of its protobuf form. Decoding any JSON text either fails or gives a
  valid clean array, and an accepted protobuf message is a valid array.
\<close>

theorem bit_array_roundtrip:
  fixes b b0 :: BitArray
  assumes "valid_ba b" "clean_ba b" "int (length s) \<le> MaxInt32"
  shows "(\<exists>t. MarshalJSON (Some b) = Ret t \<and> UnmarshalJSON b0 t = Ret (Inr b))
    \<and> (0 < Bits b \<and> Bits b \<le> MaxInt32 \<longrightarrow> FromProto b0 (ToProto (Some b)) = Inr b)
    \<and> (UnmarshalJSON b0 s = Ret (Inl ErrBadJSON)
        \<or> (\<exists>c. UnmarshalJSON b0 s = Ret (Inr c) \<and> valid_ba c \<and> clean_ba c \<and> Bits c \<le> int (length s)))
    \<and> (\<forall>p c. FromProto b0 (Some p) = Inr c \<longrightarrow> valid_ba c)"
  using json_roundtrip [OF assms(1,2)] proto_roundtrip [OF assms(1)] UnmarshalJSON_cases [OF assms(3)]
    FromProto_valid by blast

theorem bit_array_roundtrip_witness:
  "\<exists>t. MarshalJSON (Some (ex_ba 5)) = Ret t \<and> UnmarshalJSON (ex_ba 0) t = Ret (Inr (ex_ba 5))"
  using bit_array_roundtrip [OF ex_ba_ok, of "''''" "ex_ba 0"] by simp

end
