(* ===== verification/Validators.thy ===== *)
theory Validators
  imports Prelude Safe_Math
begin

text \<open>
  \<open>src/types/validator.go\<close>, \<open>src/types/validator_set.go\<close> and the quorum table of
  \<open>src/dash/llmq/llmq.go\<close>: validators, the sorted validator set, change sets, voting-power
  thresholds and the proposer index.

  A validator pointer in a set is never nil (\<open>validatorListCopy\<close> would panic), so the set holds
  plain records; a \<open>*ValidatorSet\<close> receiver that the source tests for nil is an \<open>option\<close>. Public
  keys are the bytes of a BLS key. Outside the model and hence parameters: the recovery of the
  threshold key (\<open>recover\<close>, a BLS binding), \<open>LLMQType.Validate\<close> of dashd-go (\<open>llmq_valid\<close>) and
  the host name rules of a node address (\<open>addr_ok\<close>).

  \<open>wf_vals\<close> is the invariant (strictly sorted by \<open>ProTxHash\<close>, power 100 each), \<open>val_lookup\<close> the
  finite map a list of validators denotes. The main results are that a change set is either
  refused or applied as the map update it describes, that the thresholds accepted by
  \<open>validateThreshold\<close> have the bounds quorum intersection needs, and that the proposer index
  turns modulo the size of the set.
\<close>

section \<open>Definitions\<close>

subsection \<open>LLMQ parameters\<close>

text \<open>The named constants are those of the table; \<open>LLMQ_other\<close> is any other number.\<close>

datatype LLMQType =
    LLMQType_50_60 | LLMQType_400_60 | LLMQType_400_85 | LLMQType_100_67 | LLMQType_60_75
  | LLMQType_25_67 | LLMQType_DEVNET | LLMQType_TEST_V17 | LLMQType_TEST_DIP0024
  | LLMQType_TEST_INSTANTSEND | LLMQType_DEVNET_DIP0024 | LLMQType_TEST_PLATFORM
  | LLMQType_DEVNET_PLATFORM | LLMQ_other int

fun QuorumParams :: "LLMQType \<Rightarrow> (int \<times> int) option" where
  "QuorumParams LLMQType_50_60 = Some (50, 30)"
| "QuorumParams LLMQType_400_60 = Some (400, 240)"
| "QuorumParams LLMQType_400_85 = Some (400, 340)"
| "QuorumParams LLMQType_100_67 = Some (100, 67)"
| "QuorumParams LLMQType_60_75 = Some (60, 45)"
| "QuorumParams LLMQType_25_67 = Some (25, 17)"
| "QuorumParams LLMQType_DEVNET = Some (12, 6)"
| "QuorumParams LLMQType_TEST_V17 = Some (3, 2)"
| "QuorumParams LLMQType_TEST_DIP0024 = Some (4, 2)"
| "QuorumParams LLMQType_TEST_INSTANTSEND = Some (3, 2)"
| "QuorumParams LLMQType_DEVNET_DIP0024 = Some (8, 4)"
| "QuorumParams LLMQType_TEST_PLATFORM = Some (3, 2)"
| "QuorumParams LLMQType_DEVNET_PLATFORM = Some (12, 8)"
| "QuorumParams (LLMQ_other _) = None"

subsection \<open>Validators\<close>

record Validator =
  ProTxHash :: bytes
  PubKey :: "bytes option"
  VotingPower :: int
  NodeAddress :: string

datatype val_error =
    ErrNilValidator | ErrNoProTxHash | ErrNegativeVotingPower | ErrProTxHashSize
  | ErrNodeAddress | ErrNoPubKey | ErrPubKeySize

abbreviation (input) DefaultHashSize :: nat where "DefaultHashSize \<equiv> 32"
abbreviation (input) PubKeySize :: nat where "PubKeySize \<equiv> 48"
abbreviation (input) DefaultDashVotingPower :: int where "DefaultDashVotingPower \<equiv> 100"

text \<open>\<open>int64(math.MaxInt64) / 8\<close>\<close>

abbreviation (input) MaxTotalVotingPower :: int where "MaxTotalVotingPower \<equiv> 1152921504606846975"

definition Validator_ValidateBasic :: "(string \<Rightarrow> bool) \<Rightarrow> Validator option \<Rightarrow> val_error + unit" where
  "Validator_ValidateBasic addr_ok v =
     (case v of
        None \<Rightarrow> Inl ErrNilValidator
      | Some v \<Rightarrow>
          if ProTxHash v = [] then Inl ErrNoProTxHash
          else if VotingPower v < 0 then Inl ErrNegativeVotingPower
          else if length (ProTxHash v) \<noteq> DefaultHashSize then Inl ErrProTxHashSize
          else if NodeAddress v \<noteq> [] \<and> \<not> addr_ok (NodeAddress v) then Inl ErrNodeAddress
          else Inr ())"

definition ValidatePubKey :: "Validator \<Rightarrow> val_error + unit" where
  "ValidatePubKey v =
     (case PubKey v of
        None \<Rightarrow> Inl ErrNoPubKey
      | Some k \<Rightarrow> if length k \<noteq> PubKeySize then Inl ErrPubKeySize else Inr ())"

subsection \<open>The validator set\<close>

record ValidatorSet =
  vs_Validators :: "Validator list"
  proposerIndex :: int
  ThresholdPublicKey :: "bytes option"
  vs_QuorumHash :: "bytes option"
  QuorumType :: LLMQType
  HasPublicKeys :: bool
  VotingPowerThreshold :: int

datatype vset_error =
    ErrValidatorSetNilOrEmpty | ErrSizeConversion | ErrProposerIndexRange | ErrValidator val_error
  | ErrThresholdKeyNotSet | ErrThresholdKeySize | ErrValidatorKeyNotSet | ErrThresholdKeyIncorrect
  | ErrRecover | ErrQuorumHashNotSet | ErrQuorumHashSize | ErrQuorumType | ErrThresholdTooLarge
  | ErrInvalidQuorum | ErrThresholdExceedsTotal | ErrTooManyMembers | ErrThresholdMismatch
  | ErrThresholdBelowFloor | ErrProposerNotFound
  | ErrDuplicateEntry | ErrNegativePower | ErrPowerTooHigh | ErrPowerNot0Or100
  | ErrTotalVotingPowerOverflow | ErrRemovalNotFound | ErrDeletesNotAllowed | ErrEmptyResult
  | ErrNilThresholdKey | ErrNilQuorumHash

definition IsNilOrEmpty :: "ValidatorSet option \<Rightarrow> bool" where
  "IsNilOrEmpty vals = (case vals of None \<Rightarrow> True | Some v \<Rightarrow> vs_Validators v = [])"

definition ValidatorSet_Size :: "ValidatorSet option \<Rightarrow> int" where
  "ValidatorSet_Size vals = (case vals of None \<Rightarrow> 0 | Some v \<Rightarrow> int (length (vs_Validators v)))"

definition TotalVotingPower :: "ValidatorSet \<Rightarrow> int" where
  "TotalVotingPower vals = wrap64 (ValidatorSet_Size (Some vals) * DefaultDashVotingPower)"

definition QuorumTypeMemberCount :: "ValidatorSet \<Rightarrow> int" where
  "QuorumTypeMemberCount vals =
     (case QuorumParams (QuorumType vals) of
        None \<Rightarrow> int (length (vs_Validators vals))
      | Some (members, _) \<Rightarrow> members)"

definition QuorumTypeThresholdCount :: "ValidatorSet \<Rightarrow> int" where
  "QuorumTypeThresholdCount vals =
     (case QuorumParams (QuorumType vals) of
        None \<Rightarrow> go_quot (int (length (vs_Validators vals)) * 2) 3 + 1
      | Some (_, threshold) \<Rightarrow> threshold)"

definition QuorumVotingPower :: "ValidatorSet \<Rightarrow> int" where
  "QuorumVotingPower vals = wrap64 (QuorumTypeMemberCount vals * DefaultDashVotingPower)"

definition QuorumTypeThresholdVotingPower :: "ValidatorSet \<Rightarrow> int" where
  "QuorumTypeThresholdVotingPower vals =
     wrap64 (QuorumTypeThresholdCount vals * DefaultDashVotingPower)"

definition QuorumVotingThresholdPower :: "ValidatorSet \<Rightarrow> int exec" where
  "QuorumVotingThresholdPower vals =
     (if VotingPowerThreshold vals > 0
      then if VotingPowerThreshold vals > MaxInt64 then Panic else Ret (VotingPowerThreshold vals)
      else Ret (QuorumTypeThresholdVotingPower vals))"

definition StrictVotingPowerFloor :: "ValidatorSet \<Rightarrow> int" where
  "StrictVotingPowerFloor vals = go_quot (wrap64 (TotalVotingPower vals * 2)) 3 + 1"

definition BelowStrictThreshold :: "ValidatorSet \<Rightarrow> bool exec" where
  "BelowStrictThreshold vals =
     exec_bind (QuorumVotingThresholdPower vals) (\<lambda>t. Ret (t < StrictVotingPowerFloor vals))"

definition validateStrictFloor :: "ValidatorSet \<Rightarrow> int \<Rightarrow> int \<Rightarrow> int \<Rightarrow> vset_error + unit" where
  "validateStrictFloor vals threshold totalPower strictFloor =
     (let n = length (vs_Validators vals)
      in if n = 1 \<or> n = 2 then
           (if totalPower \<noteq> threshold then Inl ErrThresholdBelowFloor else Inr ())
         else if n = 3 then
           (if threshold < go_quot (wrap64 (totalPower * 2)) 3 then Inl ErrThresholdBelowFloor else Inr ())
         else
           (if threshold < strictFloor then Inl ErrThresholdBelowFloor else Inr ()))"

definition validateThreshold :: "ValidatorSet \<Rightarrow> (vset_error + unit) exec" where
  "validateThreshold vals =
     exec_bind (QuorumVotingThresholdPower vals) (\<lambda>threshold.
       let totalPower = TotalVotingPower vals; strictFloor = StrictVotingPowerFloor vals
       in Ret (if totalPower \<le> 0 \<or> threshold \<le> 0 then Inl ErrInvalidQuorum
               else if threshold > totalPower then Inl ErrThresholdExceedsTotal
               else if VotingPowerThreshold vals > 0 then Inr ()
               else case QuorumParams (QuorumType vals) of
                      None \<Rightarrow> validateStrictFloor vals threshold totalPower strictFloor
                    | Some (typeMembers, typeThreshold) \<Rightarrow>
                        if ValidatorSet_Size (Some vals) > typeMembers then Inl ErrTooManyMembers
                        else if threshold \<noteq> wrap64 (typeThreshold * DefaultDashVotingPower)
                             then Inl ErrThresholdMismatch
                        else Inr ()))"

subsection \<open>Lookups\<close>

fun find_hash :: "Validator list \<Rightarrow> bytes \<Rightarrow> int \<Rightarrow> (int \<times> Validator) option" where
  "find_hash [] h i = None"
| "find_hash (v # vs) h i = (if ProTxHash v = h then Some (i, v) else find_hash vs h (i + 1))"

definition GetByProTxHash :: "ValidatorSet option \<Rightarrow> bytes \<Rightarrow> (int \<times> Validator option) exec" where
  "GetByProTxHash vals h =
     (case vals of
        None \<Rightarrow> Ret (- 1, None)
      | Some vs \<Rightarrow>
          (case find_hash (vs_Validators vs) h 0 of
             None \<Rightarrow> Ret (- 1, None)
           | Some (idx, v) \<Rightarrow>
               (case SafeConvertInt32 TInt64 idx of
                  Inl _ \<Rightarrow> Panic
                | Inr index \<Rightarrow> Ret (index, Some v))))"

definition GetByIndex :: "ValidatorSet option \<Rightarrow> int \<Rightarrow> Validator option" where
  "GetByIndex vals index =
     (case vals of
        None \<Rightarrow> None
      | Some vs \<Rightarrow>
          if index < 0 \<or> index \<ge> int (length (vs_Validators vs)) then None
          else Some (vs_Validators vs ! nat index))"

definition HasProTxHash :: "ValidatorSet option \<Rightarrow> bytes \<Rightarrow> bool" where
  "HasProTxHash vals h =
     (case vals of
        None \<Rightarrow> False
      | Some vs \<Rightarrow> if length h = 0 then False else list_ex (\<lambda>v. ProTxHash v = h) (vs_Validators vs))"

definition GetProTxHashes :: "ValidatorSet \<Rightarrow> bytes list" where
  "GetProTxHashes vals = map ProTxHash (vs_Validators vals)"

definition GetProTxHashesOrdered :: "ValidatorSet \<Rightarrow> bytes list" where
  "GetProTxHashesOrdered vals = sort (map ProTxHash (vs_Validators vals))"

definition GetPublicKeys :: "ValidatorSet \<Rightarrow> bytes option list" where
  "GetPublicKeys vals = map PubKey (vs_Validators vals)"

definition Proposer :: "ValidatorSet \<Rightarrow> Validator option exec" where
  "Proposer vals =
     (if IsNilOrEmpty (Some vals) then Panic else Ret (GetByIndex (Some vals) (proposerIndex vals)))"

definition SetProposer :: "bytes \<Rightarrow> ValidatorSet \<Rightarrow> (vset_error + ValidatorSet) exec" where
  "SetProposer newProposer vals =
     exec_bind (GetByProTxHash (Some vals) newProposer) (\<lambda>(idx, _).
       if idx < 0 then Ret (Inl ErrProposerNotFound) else Ret (Inr (vals\<lparr>proposerIndex := idx\<rparr>)))"

text \<open>The loop that lifts a negative index; on an empty set it does not end.\<close>

partial_function (option) inc_loop :: "int \<Rightarrow> int \<Rightarrow> int option" where
  "inc_loop newIndex nVals =
     (if newIndex < 0 then inc_loop (wrap64 (newIndex + nVals)) nVals else Some newIndex)"

declare inc_loop.simps [code]

definition IncProposerIndex :: "int \<Rightarrow> ValidatorSet \<Rightarrow> ValidatorSet exec option" where
  "IncProposerIndex n vals =
     (let nVals = ValidatorSet_Size (Some vals)
      in map_option (\<lambda>newIndex.
           if nVals = 0 then Panic
           else case SafeConvertInt32 TInt64 (go_rem newIndex nVals) of
                  Inl _ \<Rightarrow> Panic
                | Inr idx \<Rightarrow> Ret (vals\<lparr>proposerIndex := idx\<rparr>))
         (inc_loop (wrap64 (proposerIndex vals + n)) nVals))"

subsection \<open>Validation\<close>

definition HasCompletePublicKeys :: "ValidatorSet option \<Rightarrow> bool" where
  "HasCompletePublicKeys vals =
     (case vals of
        None \<Rightarrow> False
      | Some vs \<Rightarrow> vs_Validators vs \<noteq> []
          \<and> list_all (\<lambda>v. case PubKey v of None \<Rightarrow> False | Some k \<Rightarrow> length k > 0) (vs_Validators vs))"

definition HasAnyPublicKeys :: "ValidatorSet option \<Rightarrow> bool" where
  "HasAnyPublicKeys vals =
     (case vals of
        None \<Rightarrow> False
      | Some vs \<Rightarrow> list_ex (\<lambda>v. case PubKey v of None \<Rightarrow> False | Some k \<Rightarrow> length k > 0) (vs_Validators vs))"

definition thresholdPublicKeyValid ::
  "(bytes option list \<Rightarrow> bytes list \<Rightarrow> bytes option) \<Rightarrow> bool \<Rightarrow> ValidatorSet \<Rightarrow> vset_error + unit" where
  "thresholdPublicKeyValid recover hasPublicKeys vals =
     (case ThresholdPublicKey vals of
        None \<Rightarrow> Inl ErrThresholdKeyNotSet
      | Some tpk \<Rightarrow>
          if length tpk \<noteq> PubKeySize then Inl ErrThresholdKeySize
          else if length (vs_Validators vals) = 1 \<and> hasPublicKeys then
            (case PubKey (vs_Validators vals ! 0) of
               None \<Rightarrow> Inl ErrValidatorKeyNotSet
             | Some k \<Rightarrow> if k \<noteq> tpk then Inl ErrThresholdKeyIncorrect else Inr ())
          else if length (vs_Validators vals) > 1 \<and> hasPublicKeys then
            (case recover (GetPublicKeys vals) (GetProTxHashes vals) of
               None \<Rightarrow> Inl ErrRecover
             | Some k \<Rightarrow> if k \<noteq> tpk then Inl ErrThresholdKeyIncorrect else Inr ())
          else Inr ())"

definition ThresholdPublicKeyValid ::
  "(bytes option list \<Rightarrow> bytes list \<Rightarrow> bytes option) \<Rightarrow> ValidatorSet \<Rightarrow> vset_error + unit" where
  "ThresholdPublicKeyValid recover vals = thresholdPublicKeyValid recover (HasPublicKeys vals) vals"

fun validate_keys :: "Validator list \<Rightarrow> vset_error + unit" where
  "validate_keys [] = Inr ()"
| "validate_keys (v # vs) =
     (case ValidatePubKey v of Inl e \<Rightarrow> Inl (ErrValidator e) | Inr _ \<Rightarrow> validate_keys vs)"

definition ValidatePublicKeys ::
  "(bytes option list \<Rightarrow> bytes list \<Rightarrow> bytes option) \<Rightarrow> ValidatorSet \<Rightarrow> vset_error + unit" where
  "ValidatePublicKeys recover vals =
     (if IsNilOrEmpty (Some vals) then Inl ErrValidatorSetNilOrEmpty
      else res_bind (validate_keys (vs_Validators vals)) (\<lambda>_. thresholdPublicKeyValid recover True vals))"

definition QuorumHashValid :: "ValidatorSet \<Rightarrow> vset_error + unit" where
  "QuorumHashValid vals =
     (case vs_QuorumHash vals of
        None \<Rightarrow> Inl ErrQuorumHashNotSet
      | Some h \<Rightarrow> if length h \<noteq> DefaultHashSize then Inl ErrQuorumHashSize else Inr ())"

fun validate_members :: "(string \<Rightarrow> bool) \<Rightarrow> bool \<Rightarrow> Validator list \<Rightarrow> vset_error + unit" where
  "validate_members addr_ok hasKeys [] = Inr ()"
| "validate_members addr_ok hasKeys (v # vs) =
     (case Validator_ValidateBasic addr_ok (Some v) of
        Inl e \<Rightarrow> Inl (ErrValidator e)
      | Inr _ \<Rightarrow>
          (case (if hasKeys then ValidatePubKey v else Inr ()) of
             Inl e \<Rightarrow> Inl (ErrValidator e)
           | Inr _ \<Rightarrow> validate_members addr_ok hasKeys vs))"

definition ValidatorSet_ValidateBasic ::
  "(string \<Rightarrow> bool) \<Rightarrow> (bytes option list \<Rightarrow> bytes list \<Rightarrow> bytes option) \<Rightarrow> (LLMQType \<Rightarrow> bool)
   \<Rightarrow> ValidatorSet \<Rightarrow> (vset_error + unit) exec" where
  "ValidatorSet_ValidateBasic addr_ok recover llmq_valid vals =
     (if IsNilOrEmpty (Some vals) then Ret (Inl ErrValidatorSetNilOrEmpty)
      else case SafeConvertInt32 TInt64 (ValidatorSet_Size (Some vals)) of
        Inl _ \<Rightarrow> Ret (Inl ErrSizeConversion)
      | Inr nVals \<Rightarrow>
          if proposerIndex vals \<ge> nVals then Ret (Inl ErrProposerIndexRange)
          else
            try_bind (Ret (validate_members addr_ok (HasPublicKeys vals) (vs_Validators vals))) (\<lambda>_.
            try_bind (Ret (ThresholdPublicKeyValid recover vals)) (\<lambda>_.
            try_bind (Ret (QuorumHashValid vals)) (\<lambda>_.
            if \<not> llmq_valid (QuorumType vals) then Ret (Inl ErrQuorumType)
            else exec_bind (Proposer vals) (\<lambda>p.
              case Validator_ValidateBasic addr_ok p of
                Inl e \<Rightarrow> Ret (Inl (ErrValidator e))
              | Inr _ \<Rightarrow>
                  if VotingPowerThreshold vals > MaxInt64 then Ret (Inl ErrThresholdTooLarge)
                  else validateThreshold vals)))))"

subsection \<open>Change sets\<close>

fun process_loop :: "bytes \<Rightarrow> Validator list \<Rightarrow> vset_error + (Validator list \<times> Validator list)" where
  "process_loop prev [] = Inr ([], [])"
| "process_loop prev (v # vs) =
     (if ProTxHash v = prev then Inl ErrDuplicateEntry
      else if VotingPower v < 0 then Inl ErrNegativePower
      else if VotingPower v > MaxTotalVotingPower then Inl ErrPowerTooHigh
      else res_bind (process_loop (ProTxHash v) vs) (\<lambda>(updates, removals).
        if VotingPower v = 0 then Inr (updates, v # removals) else Inr (v # updates, removals)))"

definition processChanges :: "Validator list \<Rightarrow> vset_error + (Validator list \<times> Validator list)" where
  "processChanges origChanges = process_loop [] (sort_key ProTxHash origChanges)"

text \<open>The closure \<open>delta\<close> of \<open>verifyUpdates\<close>.\<close>

definition delta :: "ValidatorSet \<Rightarrow> Validator \<Rightarrow> int exec" where
  "delta vals update =
     exec_bind (GetByProTxHash (Some vals) (ProTxHash update)) (\<lambda>(_, val).
       Ret (case val of None \<Rightarrow> VotingPower update | Some v \<Rightarrow> wrap64 (VotingPower update - VotingPower v)))"

fun power_loop :: "int list \<Rightarrow> int \<Rightarrow> vset_error + int" where
  "power_loop [] tvp = Inr tvp"
| "power_loop (d # ds) tvp =
     (let tvp' = wrap64 (tvp + d)
      in if tvp' > MaxTotalVotingPower then Inl ErrTotalVotingPowerOverflow else power_loop ds tvp')"

text \<open>A loop that evaluates a call on each element, in order.\<close>

fun exec_map :: "('a \<Rightarrow> 'b exec) \<Rightarrow> 'a list \<Rightarrow> 'b list exec" where
  "exec_map f [] = Ret []"
| "exec_map f (x # xs) = exec_bind (f x) (\<lambda>y. exec_bind (exec_map f xs) (\<lambda>ys. Ret (y # ys)))"

definition verifyUpdates :: "Validator list \<Rightarrow> ValidatorSet \<Rightarrow> int \<Rightarrow> (vset_error + int) exec" where
  "verifyUpdates updates vals removedPower =
     (if \<not> list_all (\<lambda>v. VotingPower v = 0 \<or> VotingPower v = 100) updates
      then Ret (Inl ErrPowerNot0Or100)
      else exec_bind (exec_map (delta vals) updates) (\<lambda>ds.
        Ret (res_bind (power_loop (sort ds) (wrap64 (TotalVotingPower vals - removedPower)))
               (\<lambda>tvp. Inr (wrap64 (tvp + removedPower))))))"

definition numNewValidators :: "Validator list \<Rightarrow> ValidatorSet \<Rightarrow> nat" where
  "numNewValidators updates vals =
     length (filter (\<lambda>v. \<not> HasProTxHash (Some vals) (ProTxHash v)) updates)"

fun merge_updates :: "Validator list \<Rightarrow> Validator list \<Rightarrow> Validator list" where
  "merge_updates [] us = us"
| "merge_updates es [] = es"
| "merge_updates (e # es) (u # us) =
     (if ProTxHash e < ProTxHash u then e # merge_updates es (u # us)
      else if ProTxHash e = ProTxHash u then u # merge_updates es us
      else u # merge_updates (e # es) us)"

definition applyUpdates :: "Validator list \<Rightarrow> ValidatorSet \<Rightarrow> ValidatorSet" where
  "applyUpdates updates vals =
     vals\<lparr>vs_Validators := merge_updates (sort_key ProTxHash (vs_Validators vals)) updates\<rparr>"

fun removal_power :: "ValidatorSet \<Rightarrow> Validator list \<Rightarrow> int \<Rightarrow> (vset_error + int) exec" where
  "removal_power vals [] p = Ret (Inr p)"
| "removal_power vals (d # ds) p =
     exec_bind (GetByProTxHash (Some vals) (ProTxHash d)) (\<lambda>(_, val).
       case val of
         None \<Rightarrow> Ret (Inl ErrRemovalNotFound)
       | Some v \<Rightarrow> removal_power vals ds (wrap64 (p + VotingPower v)))"

definition verifyRemovals :: "Validator list \<Rightarrow> ValidatorSet \<Rightarrow> (vset_error + int) exec" where
  "verifyRemovals deletes vals =
     try_bind (removal_power vals deletes 0) (\<lambda>p.
       if length deletes > length (vs_Validators vals) then Panic else Ret (Inr p))"

text \<open>
  Running out of \<open>existing\<close> while deletes are left is an index out of range, as is a write past the
  end of \<open>merged\<close>, which happens only then.
\<close>

fun remove_loop :: "Validator list \<Rightarrow> Validator list \<Rightarrow> Validator list exec" where
  "remove_loop es [] = Ret es"
| "remove_loop [] (d # ds) = Panic"
| "remove_loop (e # es) (d # ds) =
     (if ProTxHash e = ProTxHash d then remove_loop es ds
      else exec_bind (remove_loop es (d # ds)) (\<lambda>r. Ret (e # r)))"

definition applyRemovals :: "Validator list \<Rightarrow> ValidatorSet \<Rightarrow> ValidatorSet exec" where
  "applyRemovals deletes vals =
     (if length deletes > length (vs_Validators vals) then Panic
      else exec_bind (remove_loop (vs_Validators vals) deletes) (\<lambda>vs.
             Ret (vals\<lparr>vs_Validators := vs\<rparr>)))"

definition updateWithChangeSet ::
  "Validator list \<Rightarrow> bool \<Rightarrow> bytes option \<Rightarrow> bytes option \<Rightarrow> ValidatorSet
   \<Rightarrow> (vset_error + ValidatorSet) exec" where
  "updateWithChangeSet changes allowDeletes newThresholdPublicKey newQuorumHash vals =
     (if length changes = 0 then Ret (Inr vals)
      else if newThresholdPublicKey = None then Ret (Inl ErrNilThresholdKey)
      else if newQuorumHash = None then Ret (Inl ErrNilQuorumHash)
      else try_bind (Ret (processChanges changes)) (\<lambda>(updates, deletes).
        if \<not> allowDeletes \<and> length deletes \<noteq> 0 then Ret (Inl ErrDeletesNotAllowed)
        else if numNewValidators updates vals = 0 \<and> length (vs_Validators vals) = length deletes
             then Ret (Inl ErrEmptyResult)
        else try_bind (verifyRemovals deletes vals) (\<lambda>removedVotingPower.
          try_bind (verifyUpdates updates vals removedVotingPower) (\<lambda>_.
            exec_bind (applyRemovals deletes (applyUpdates updates vals)) (\<lambda>vals'.
              Ret (Inr (vals'\<lparr>vs_Validators := sort_key ProTxHash (vs_Validators vals'),
                              ThresholdPublicKey := newThresholdPublicKey,
                              vs_QuorumHash := newQuorumHash\<rparr>)))))))"

definition UpdateWithChangeSet ::
  "Validator list \<Rightarrow> bytes option \<Rightarrow> bytes option \<Rightarrow> ValidatorSet
   \<Rightarrow> (vset_error + ValidatorSet) exec" where
  "UpdateWithChangeSet changes = updateWithChangeSet changes True"

text \<open>\<open>params\<close> is \<open>validatorParams.VotingPowerThreshold\<close>, nil when either pointer is.\<close>

definition NewValidatorSet ::
  "Validator list \<Rightarrow> bytes option \<Rightarrow> LLMQType \<Rightarrow> bytes option \<Rightarrow> bool \<Rightarrow> int option
   \<Rightarrow> ValidatorSet exec" where
  "NewValidatorSet valz newThresholdPublicKey quorumType quorumHash hasPublicKeys params =
     exec_bind
       (updateWithChangeSet valz False newThresholdPublicKey quorumHash
          \<lparr>vs_Validators = [], proposerIndex = 0, ThresholdPublicKey = None, vs_QuorumHash = quorumHash,
           QuorumType = quorumType, HasPublicKeys = hasPublicKeys,
           VotingPowerThreshold = (case params of None \<Rightarrow> 0 | Some t \<Rightarrow> t)\<rparr>)
       (\<lambda>r. case r of Inl _ \<Rightarrow> Panic | Inr vals \<Rightarrow> Ret vals)"

definition NewValidatorSetCheckPublicKeys ::
  "Validator list \<Rightarrow> bytes option \<Rightarrow> LLMQType \<Rightarrow> bytes option \<Rightarrow> int option \<Rightarrow> ValidatorSet exec" where
  "NewValidatorSetCheckPublicKeys valz newThresholdPublicKey quorumType quorumHash params =
     NewValidatorSet valz newThresholdPublicKey quorumType quorumHash
       (list_all (\<lambda>v. case PubKey v of None \<Rightarrow> False | Some k \<Rightarrow> length k \<noteq> 0) valz) params"

definition NewEmptyValidatorSet :: "ValidatorSet exec" where
  "NewEmptyValidatorSet = NewValidatorSet [] None (LLMQ_other 0) None False None"

section \<open>Sorted validator lists as finite maps\<close>

definition hashes :: "Validator list \<Rightarrow> bytes set" where
  "hashes vs = ProTxHash ` set vs"

definition ssorted :: "Validator list \<Rightarrow> bool" where
  "ssorted vs \<longleftrightarrow> sorted_wrt (<) (map ProTxHash vs)"

definition val_lookup :: "Validator list \<Rightarrow> bytes \<Rightarrow> Validator option" where
  "val_lookup vs = map_of (map (\<lambda>v. (ProTxHash v, v)) vs)"

lemma hashes_simps [simp]:
  "hashes [] = {}" "hashes (v # vs) = insert (ProTxHash v) (hashes vs)" "finite (hashes vs)"
  by (simp_all add: hashes_def)

lemma ssorted_simps [simp]:
  "ssorted []" "ssorted (v # vs) \<longleftrightarrow> (\<forall>h \<in> hashes vs. ProTxHash v < h) \<and> ssorted vs"
  by (auto simp: ssorted_def hashes_def)

lemma val_lookup_simps [simp]:
  "val_lookup [] h = None"
  "val_lookup (v # vs) h = (if ProTxHash v = h then Some v else val_lookup vs h)"
  by (simp_all add: val_lookup_def)

lemma dom_val_lookup [simp]: "dom (val_lookup vs) = hashes vs"
  by (simp add: val_lookup_def hashes_def dom_map_of_conv_image_fst image_image)

lemma val_lookup_None_iff: "val_lookup vs h = None \<longleftrightarrow> h \<notin> hashes vs"
  by (metis dom_val_lookup domIff)

lemma val_lookup_SomeD: "val_lookup vs h = Some v \<Longrightarrow> v \<in> set vs \<and> ProTxHash v = h"
  by (induction vs) (auto split: if_splits)

lemma hashes_filter: "hashes (filter (\<lambda>v. ProTxHash v \<notin> D) vs) = hashes vs - D"
  by (auto simp: hashes_def)

lemma ssorted_filter [simp]: "ssorted vs \<Longrightarrow> ssorted (filter P vs)"
  unfolding ssorted_def by (rule strict_sorted_filter)

lemma ssorted_card: "ssorted vs \<Longrightarrow> card (hashes vs) = length vs"
  unfolding ssorted_def hashes_def
  by (metis distinct_card length_map list.set_map strict_sorted_distinct)

lemma ssorted_sort [simp]: "ssorted vs \<Longrightarrow> sort_key ProTxHash vs = vs"
  unfolding ssorted_def by (simp add: strict_sorted_iff sort_key_id_if_sorted)

lemma val_lookup_filter:
  "val_lookup (filter (\<lambda>v. ProTxHash v \<notin> D) vs) = (val_lookup vs) |` (- D)"
  by (rule ext, induction vs) (auto simp: restrict_map_def)

lemma hashes_merge [simp]: "hashes (merge_updates es us) = hashes es \<union> hashes us"
  by (induction es us rule: merge_updates.induct) auto

lemma ssorted_merge [simp]: "ssorted es \<Longrightarrow> ssorted us \<Longrightarrow> ssorted (merge_updates es us)"
  by (induction es us rule: merge_updates.induct) (auto dest: less_trans)

lemma lookup_merge_at:
  "ssorted es \<Longrightarrow> ssorted us \<Longrightarrow> val_lookup (merge_updates es us) h
     = (case val_lookup us h of None \<Rightarrow> val_lookup es h | Some v \<Rightarrow> Some v)"
proof (induction es us rule: merge_updates.induct)
  case (3 e es u us)
  have "val_lookup us (ProTxHash e) = None" if "ProTxHash e \<le> ProTxHash u"
    using 3(4,5) that by (fastforce simp: val_lookup_None_iff)
  then show ?case
    using 3 by (auto split: option.splits dest: less_imp_le)
qed (auto split: option.splits)

lemma lookup_merge:
  "ssorted es \<Longrightarrow> ssorted us \<Longrightarrow> val_lookup (merge_updates es us) = val_lookup es ++ val_lookup us"
  by (rule ext) (simp add: lookup_merge_at map_add_def)

lemma hashesI: "v \<in> set vs \<Longrightarrow> ProTxHash v \<in> hashes vs"
  by (simp add: hashes_def)

lemma ssorted_hd_less: "ssorted (v # vs) \<Longrightarrow> h \<in> hashes vs \<Longrightarrow> ProTxHash v < h"
  by simp

lemma remove_loop_eq:
  "ssorted es \<Longrightarrow> ssorted ds \<Longrightarrow> hashes ds \<subseteq> hashes es \<Longrightarrow>
     remove_loop es ds = Ret (filter (\<lambda>v. ProTxHash v \<notin> hashes ds) es)"
proof (induction es ds rule: remove_loop.induct)
  case (3 e es d ds)
  note e = ssorted_hd_less [OF 3(3)] and d = ssorted_hd_less [OF 3(4)]
  have s: "ssorted es" "ssorted ds" using 3 by simp_all
  show ?case
  proof (cases "ProTxHash e = ProTxHash d")
    case True
    have "ProTxHash d \<notin> hashes ds" using d by blast
    then have "hashes ds \<subseteq> hashes es" using 3(5) True by auto
    then have "remove_loop es ds = Ret (filter (\<lambda>v. ProTxHash v \<notin> hashes ds) es)"
      using 3(1) True s by blast
    moreover have "ProTxHash v \<noteq> ProTxHash d" if "v \<in> set es" for v
      using e [OF hashesI [OF that]] True by auto
    then have "filter (\<lambda>v. ProTxHash v \<notin> hashes (d # ds)) es = filter (\<lambda>v. ProTxHash v \<notin> hashes ds) es"
      by (simp cong: filter_cong)
    ultimately show ?thesis using True by simp
  next
    case False
    then have "ProTxHash d \<in> hashes es" using 3(5) by auto
    then have less: "ProTxHash e < ProTxHash d" by (rule e)
    then have out: "ProTxHash e \<notin> hashes (d # ds)" using d [of "ProTxHash e"] by auto
    then have "hashes (d # ds) \<subseteq> hashes es" using 3(5) by auto
    then have "remove_loop es (d # ds) = Ret (filter (\<lambda>v. ProTxHash v \<notin> hashes (d # ds)) es)"
      using 3(2) False s(1) 3(4) by blast
    then show ?thesis using False out by simp
  qed
qed auto

section \<open>Change sets refine map updates\<close>

text \<open>
  What applying updates and then removals promises of a directory keyed by \<open>key\<close>, whatever the
  representation: \<open>change_dir\<close> is the interface \<open>updateWithChangeSet\<close> relies on.
\<close>

locale change_dir =
  fixes inv :: "'s \<Rightarrow> bool"
    and lookup :: "'s \<Rightarrow> 'k \<Rightarrow> 'v option"
    and key :: "'v \<Rightarrow> 'k"
    and ok :: "'v list \<Rightarrow> bool"
    and upd :: "'v list \<Rightarrow> 's \<Rightarrow> 's"
    and rem :: "'v list \<Rightarrow> 's \<Rightarrow> 's exec"
  assumes upd_inv: "inv s \<Longrightarrow> ok us \<Longrightarrow> inv (upd us s)"
    and upd_lookup: "inv s \<Longrightarrow> ok us \<Longrightarrow> lookup (upd us s) = lookup s ++ map_of (map (\<lambda>v. (key v, v)) us)"
    and rem_ok: "inv s \<Longrightarrow> ok ds \<Longrightarrow> key ` set ds \<subseteq> dom (lookup s) \<Longrightarrow>
          \<exists>s'. rem ds s = Ret s' \<and> inv s' \<and> lookup s' = lookup s |` (- (key ` set ds))"
begin

lemma change_ok:
  assumes "inv s" "ok us" "ok ds" "key ` set ds \<subseteq> dom (lookup s)"
  obtains s' where "rem ds (upd us s) = Ret s'" "inv s'"
    "lookup s' = (lookup s ++ map_of (map (\<lambda>v. (key v, v)) us)) |` (- (key ` set ds))"
proof -
  have "key ` set ds \<subseteq> dom (lookup (upd us s))"
    using assms by (auto simp: upd_lookup)
  then obtain s' where "rem ds (upd us s) = Ret s'" "inv s'"
      "lookup s' = lookup (upd us s) |` (- (key ` set ds))"
    using rem_ok [OF upd_inv [OF assms(1,2)] assms(3)] by blast
  then show ?thesis using that upd_lookup [OF assms(1,2)] by simp
qed

lemma change_frame:
  assumes "inv s" "ok us" "ok ds" "key ` set ds \<subseteq> dom (lookup s)"
    "rem ds (upd us s) = Ret s'" "k \<notin> key ` set us" "k \<notin> key ` set ds"
  shows "lookup s' k = lookup s k"
proof -
  obtain s'' where "rem ds (upd us s) = Ret s''"
    "lookup s'' = (lookup s ++ map_of (map (\<lambda>v. (key v, v)) us)) |` (- (key ` set ds))"
    by (rule change_ok [OF assms(1-4)])
  moreover have "map_of (map (\<lambda>v. (key v, v)) us) k = None"
    using assms(6) by (auto simp: map_of_eq_None_iff image_image)
  ultimately show ?thesis using assms(5,7) by (simp add: map_add_def)
qed

end

interpretation vdir: change_dir
  "\<lambda>vals. ssorted (vs_Validators vals)" "\<lambda>vals. val_lookup (vs_Validators vals)" ProTxHash ssorted
  applyUpdates applyRemovals
proof
  fix s :: ValidatorSet and us ds
  assume s: "ssorted (vs_Validators s)"
  show "ssorted (vs_Validators (applyUpdates us s))" if "ssorted us"
    using s that by (simp add: applyUpdates_def)
  show "val_lookup (vs_Validators (applyUpdates us s))
        = val_lookup (vs_Validators s) ++ map_of (map (\<lambda>v. (ProTxHash v, v)) us)" if "ssorted us"
    using s that by (simp add: applyUpdates_def lookup_merge) (simp add: val_lookup_def)
  assume d: "ssorted ds" "ProTxHash ` set ds \<subseteq> dom (val_lookup (vs_Validators s))"
  then have sub: "hashes ds \<subseteq> hashes (vs_Validators s)"
    by (simp add: hashes_def)
  then have "length ds \<le> length (vs_Validators s)"
    using s d(1) by (metis card_mono hashes_simps(3) ssorted_card)
  then have "applyRemovals ds s
      = Ret (s\<lparr>vs_Validators := filter (\<lambda>v. ProTxHash v \<notin> hashes ds) (vs_Validators s)\<rparr>)"
    using s d(1) sub by (simp add: applyRemovals_def remove_loop_eq)
  then show "\<exists>s'. applyRemovals ds s = Ret s' \<and> ssorted (vs_Validators s')
      \<and> val_lookup (vs_Validators s') = val_lookup (vs_Validators s) |` (- (ProTxHash ` set ds))"
    using s by (simp add: val_lookup_filter) (simp add: hashes_def)
qed

lemma process_loop_iff:
  assumes "sorted (prev # map ProTxHash vs)"
  shows "process_loop prev vs = Inr (us, ds) \<longleftrightarrow>
     sorted_wrt (<) (prev # map ProTxHash vs)
     \<and> (\<forall>v \<in> set vs. 0 \<le> VotingPower v \<and> VotingPower v \<le> MaxTotalVotingPower)
     \<and> us = filter (\<lambda>v. VotingPower v \<noteq> 0) vs \<and> ds = filter (\<lambda>v. VotingPower v = 0) vs"
  using assms
proof (induction vs arbitrary: prev us ds)
  case (Cons v vs)
  have IH: "process_loop (ProTxHash v) vs = Inr (us, ds) \<longleftrightarrow>
     sorted_wrt (<) (ProTxHash v # map ProTxHash vs)
     \<and> (\<forall>v \<in> set vs. 0 \<le> VotingPower v \<and> VotingPower v \<le> MaxTotalVotingPower)
     \<and> us = filter (\<lambda>v. VotingPower v \<noteq> 0) vs \<and> ds = filter (\<lambda>v. VotingPower v = 0) vs" for us ds
    using Cons by simp
  have ord: "sorted_wrt (<) (prev # map ProTxHash (v # vs))
      \<longleftrightarrow> ProTxHash v \<noteq> prev \<and> sorted_wrt (<) (ProTxHash v # map ProTxHash vs)"
    using Cons.prems by (force simp: less_le intro: order_trans)
  show ?case
    unfolding ord process_loop.simps
    by (auto simp: res_bind_Inr_iff IH split: if_splits)
qed auto

lemma processChanges_iff:
  "processChanges cs = Inr (us, ds) \<longleftrightarrow>
     distinct (map ProTxHash cs) \<and> [] \<notin> hashes cs
     \<and> (\<forall>v \<in> set cs. 0 \<le> VotingPower v \<and> VotingPower v \<le> MaxTotalVotingPower)
     \<and> us = filter (\<lambda>v. VotingPower v \<noteq> 0) (sort_key ProTxHash cs)
     \<and> ds = filter (\<lambda>v. VotingPower v = 0) (sort_key ProTxHash cs)"
proof -
  let ?vs = "sort_key ProTxHash cs"
  have d: "distinct (map ProTxHash ?vs) \<longleftrightarrow> distinct (map ProTxHash cs)"
    by (metis mset_map mset_sort mset_eq_imp_distinct_iff)
  have "sorted_wrt (<) ([] # map ProTxHash ?vs) \<longleftrightarrow> distinct (map ProTxHash cs) \<and> [] \<notin> hashes cs"
    unfolding strict_sorted_iff d [symmetric] by (auto simp: hashes_def)
  then show ?thesis
    unfolding processChanges_def by (subst process_loop_iff) auto
qed

lemma find_hash_spec:
  "find_hash vs h i = None \<longleftrightarrow> h \<notin> hashes vs"
  "find_hash vs h i = Some (j, v) \<Longrightarrow>
     i \<le> j \<and> j < i + int (length vs) \<and> v = vs ! nat (j - i) \<and> val_lookup vs h = Some v"
proof (induction vs arbitrary: i)
  case (Cons w vs)
  {
    case 1
    then show ?case using Cons(1) by auto
  next
    case 2
    have "nat (j - i) = Suc (nat (j - (i + 1)))" if "i + 1 \<le> j" using that by simp
    then show ?case using Cons(2) [of "i + 1"] 2 by (auto split: if_splits)
  }
qed auto

definition wf_vals :: "ValidatorSet \<Rightarrow> bool" where
  "wf_vals vals \<longleftrightarrow> ssorted (vs_Validators vals) \<and> [] \<notin> hashes (vs_Validators vals)
     \<and> (\<forall>v \<in> set (vs_Validators vals). VotingPower v = DefaultDashVotingPower)
     \<and> int (length (vs_Validators vals)) \<le> MaxInt32"

lemma GetByProTxHash_lookup:
  assumes "int (length (vs_Validators vals)) \<le> MaxInt32"
  obtains idx where
    "GetByProTxHash (Some vals) h = Ret (idx, val_lookup (vs_Validators vals) h)"
    "idx < 0 \<longleftrightarrow> h \<notin> hashes (vs_Validators vals)"
    "0 \<le> idx \<Longrightarrow> GetByIndex (Some vals) idx = val_lookup (vs_Validators vals) h"
proof (cases "find_hash (vs_Validators vals) h 0")
  case None
  then have h: "h \<notin> hashes (vs_Validators vals)" using find_hash_spec(1) by blast
  then have "val_lookup (vs_Validators vals) h = None" by (simp add: val_lookup_None_iff)
  then show ?thesis
    using that [of "- 1"] None h by (simp add: GetByProTxHash_def)
next
  case (Some p)
  obtain j v where p: "p = (j, v)" by (cases p)
  have j: "0 \<le> j" "j < int (length (vs_Validators vals))" "v = vs_Validators vals ! nat j"
    "val_lookup (vs_Validators vals) h = Some v"
    using find_hash_spec(2) [OF Some [unfolded p]] by simp_all
  then have "SafeConvertInt32 TInt64 j = Inr j"
    using assms by (subst SafeConvertInt32_spec) (auto simp: in_type_def)
  moreover have "h \<in> hashes (vs_Validators vals)" using j(4) val_lookup_None_iff by force
  ultimately show ?thesis
    using that [of j] j Some p by (simp add: GetByProTxHash_def GetByIndex_def)
qed

lemma removal_power_spec:
  assumes "int (length (vs_Validators vals)) \<le> MaxInt32"
  shows "if hashes ds \<subseteq> hashes (vs_Validators vals)
         then \<exists>q. removal_power vals ds p = Ret (Inr q)
                \<and> ((\<forall>v \<in> set (vs_Validators vals). VotingPower v = 100) \<longrightarrow>
                   0 \<le> p \<longrightarrow> p + 100 * int (length ds) \<le> MaxInt64 \<longrightarrow> q = p + 100 * int (length ds))
         else removal_power vals ds p = Ret (Inl ErrRemovalNotFound)"
proof (induction ds arbitrary: p)
  case (Cons d ds)
  obtain idx where g: "GetByProTxHash (Some vals) (ProTxHash d)
      = Ret (idx, val_lookup (vs_Validators vals) (ProTxHash d))"
    using GetByProTxHash_lookup [OF assms] by metis
  show ?case
  proof (cases "val_lookup (vs_Validators vals) (ProTxHash d)")
    case None
    moreover from this have "ProTxHash d \<notin> hashes (vs_Validators vals)"
      by (simp add: val_lookup_None_iff)
    ultimately show ?thesis using g by simp
  next
    case (Some v)
    then have v: "v \<in> set (vs_Validators vals)" "ProTxHash d \<in> hashes (vs_Validators vals)"
      using val_lookup_SomeD hashesI by metis+
    have "wrap64 (p + 100) = p + 100" if "0 \<le> p" "p + 100 \<le> MaxInt64"
      using that by (simp add: in_int64_def)
    then show ?thesis
      using Cons [of "wrap64 (p + VotingPower v)"] g Some v by auto
  qed
qed simp

lemma verifyRemovals_spec:
  assumes "wf_vals vals" "ssorted ds"
  shows "verifyRemovals ds vals =
     Ret (if hashes ds \<subseteq> hashes (vs_Validators vals) then Inr (100 * int (length ds))
          else Inl ErrRemovalNotFound)"
proof (cases "hashes ds \<subseteq> hashes (vs_Validators vals)")
  case True
  then have len: "length ds \<le> length (vs_Validators vals)"
    using assms by (metis card_mono hashes_simps(3) ssorted_card wf_vals_def)
  then show ?thesis
    using removal_power_spec [of vals ds 0] True assms(1)
    by (auto simp: verifyRemovals_def wf_vals_def)
next
  case False
  then show ?thesis
    using removal_power_spec [of vals ds 0] assms(1) by (simp add: verifyRemovals_def wf_vals_def)
qed

lemma power_loop_ok:
  assumes "\<forall>d \<in> set ds. 0 \<le> d \<and> d \<le> 100" "0 \<le> tvp" "tvp + 100 * int (length ds) \<le> MaxTotalVotingPower"
  shows "\<exists>t. power_loop ds tvp = Inr t"
  using assms
proof (induction ds arbitrary: tvp)
  case (Cons d ds)
  then have "wrap64 (tvp + d) = tvp + d" by (auto simp: in_int64_def)
  then show ?case using Cons by (auto simp: Let_def)
qed simp

lemma exec_map_Ret: "(\<And>x. x \<in> set xs \<Longrightarrow> f x = Ret (g x)) \<Longrightarrow> exec_map f xs = Ret (map g xs)"
  by (induction xs) auto

lemma verifyUpdates_spec:
  assumes wf: "wf_vals vals"
    and us: "\<forall>v \<in> set us. VotingPower v \<noteq> 0"
    and small: "int (length us) + int (length (vs_Validators vals)) \<le> MaxInt32"
    and rem: "0 \<le> r" "r \<le> 100 * int (length (vs_Validators vals))"
  shows "if \<forall>v \<in> set us. VotingPower v = 100 then \<exists>t. verifyUpdates us vals r = Ret (Inr t)
         else verifyUpdates us vals r = Ret (Inl ErrPowerNot0Or100)"
proof (cases "\<forall>v \<in> set us. VotingPower v = 100")
  case True
  let ?g = "\<lambda>u. if ProTxHash u \<in> hashes (vs_Validators vals) then 0 else 100 :: int"
  have len: "int (length (vs_Validators vals)) \<le> MaxInt32" using wf by (simp add: wf_vals_def)
  have "delta vals u = Ret (?g u)" if "u \<in> set us" for u
  proof -
    obtain idx where "GetByProTxHash (Some vals) (ProTxHash u)
        = Ret (idx, val_lookup (vs_Validators vals) (ProTxHash u))"
      using GetByProTxHash_lookup [OF len] by metis
    moreover have "VotingPower v = 100" if "val_lookup (vs_Validators vals) h = Some v" for h v
      using wf val_lookup_SomeD [OF that] by (simp add: wf_vals_def)
    ultimately show ?thesis
      using that True val_lookup_None_iff [of "vs_Validators vals" "ProTxHash u"]
      by (auto simp: delta_def in_int64_def split: option.splits)
  qed
  then have ds: "exec_map (delta vals) us = Ret (map ?g us)" by (rule exec_map_Ret)
  have tvp: "TotalVotingPower vals = 100 * int (length (vs_Validators vals))"
    using len by (simp add: TotalVotingPower_def ValidatorSet_Size_def in_int64_def)
  then have "wrap64 (TotalVotingPower vals - r) = 100 * int (length (vs_Validators vals)) - r"
    using rem len by (simp add: in_int64_def)
  moreover obtain t where "power_loop (sort (map ?g us)) (100 * int (length (vs_Validators vals)) - r) = Inr t"
  proof -
    have "\<forall>d \<in> set (sort (map ?g us)). 0 \<le> d \<and> d \<le> 100" by auto
    then show ?thesis
      using power_loop_ok [of "sort (map ?g us)" "100 * int (length (vs_Validators vals)) - r"] rem small that
      by auto
  qed
  ultimately show ?thesis using True ds by (simp add: verifyUpdates_def list_all_iff)
next
  case False
  then have "\<not> list_all (\<lambda>v. VotingPower v = 0 \<or> VotingPower v = 100) us"
    using us by (auto simp: list_all_iff)
  then show ?thesis using False by (simp add: verifyUpdates_def)
qed

text \<open>The abstract change: \<open>None\<close> when the change set must be refused.\<close>

definition spec_change ::
  "Validator list \<Rightarrow> bool \<Rightarrow> (bytes \<Rightarrow> Validator option) \<Rightarrow> (bytes \<Rightarrow> Validator option) option" where
  "spec_change cs allowDeletes m =
     (let us = filter (\<lambda>v. VotingPower v \<noteq> 0) cs; ds = filter (\<lambda>v. VotingPower v = 0) cs;
          m' = (m ++ val_lookup us) |` (- hashes ds)
      in if distinct (map ProTxHash cs) \<and> [] \<notin> hashes cs
            \<and> (\<forall>v \<in> set cs. VotingPower v = 0 \<or> VotingPower v = 100)
            \<and> (allowDeletes \<or> ds = []) \<and> hashes ds \<subseteq> dom m \<and> m' \<noteq> Map.empty
         then Some m' else None)"

lemma val_lookup_mset:
  assumes "distinct (map ProTxHash xs)" "mset xs = mset ys"
  shows "val_lookup xs = val_lookup ys"
proof -
  have "mset (map ProTxHash xs) = mset (map ProTxHash ys)" using assms(2) by simp
  then have "distinct (map ProTxHash ys)" using assms(1) mset_eq_imp_distinct_iff by blast
  moreover have "set xs = set ys" using assms(2) mset_eq_setD by blast
  ultimately show ?thesis
    unfolding val_lookup_def using assms(1)
    by (intro map_of_inject_set [THEN iffD2]) (auto simp: comp_def)
qed

lemma changes_split:
  fixes P :: "Validator \<Rightarrow> bool"
  assumes "distinct (map ProTxHash cs)"
  shows "ssorted (filter P (sort_key ProTxHash cs))"
    "val_lookup (filter P (sort_key ProTxHash cs)) = val_lookup (filter P cs)"
    "hashes (filter P (sort_key ProTxHash cs)) = hashes (filter P cs)"
    "length (filter P (sort_key ProTxHash cs)) = length (filter P cs)"
proof -
  let ?vs = "sort_key ProTxHash cs"
  have "distinct (map ProTxHash ?vs)"
    using assms by (metis mset_map mset_sort mset_eq_imp_distinct_iff)
  then have "ssorted ?vs" by (simp add: ssorted_def strict_sorted_iff)
  then show s: "ssorted (filter P ?vs)" by simp
  have m: "mset (filter P ?vs) = mset (filter P cs)" by simp
  have "distinct (map ProTxHash (filter P ?vs))"
    using s unfolding ssorted_def by (rule strict_sorted_distinct)
  from val_lookup_mset [OF this m] show "val_lookup (filter P ?vs) = val_lookup (filter P cs)" .
  show "hashes (filter P ?vs) = hashes (filter P cs)" by (auto simp: hashes_def)
  show "length (filter P ?vs) = length (filter P cs)" using m mset_eq_length by blast
qed

lemma HasProTxHash_iff:
  "h \<noteq> [] \<Longrightarrow> HasProTxHash (Some vals) h \<longleftrightarrow> h \<in> hashes (vs_Validators vals)"
  by (auto simp: HasProTxHash_def hashes_def list_ex_iff)

lemma empty_result_iff:
  assumes "wf_vals vals" "ssorted ds" "hashes ds \<subseteq> hashes (vs_Validators vals)"
    "hashes us \<inter> hashes ds = {}" "[] \<notin> hashes us"
  shows "numNewValidators us vals = 0 \<and> length (vs_Validators vals) = length ds
     \<longleftrightarrow> hashes (vs_Validators vals) \<union> hashes us \<subseteq> hashes ds"
proof -
  let ?H = "hashes (vs_Validators vals)"
  have sorted: "ssorted (vs_Validators vals)" using assms(1) by (simp add: wf_vals_def)
  have "length (vs_Validators vals) = length ds \<longleftrightarrow> card ?H = card (hashes ds)"
    using ssorted_card [OF sorted] ssorted_card [OF assms(2)] by simp
  also have "\<dots> \<longleftrightarrow> ?H = hashes ds"
    using card_subset_eq [OF hashes_simps(3) assms(3)] by auto
  finally have len: "length (vs_Validators vals) = length ds \<longleftrightarrow> ?H = hashes ds" .
  have "numNewValidators us vals = 0 \<longleftrightarrow> hashes us \<subseteq> ?H"
  proof -
    have "HasProTxHash (Some vals) (ProTxHash u) \<longleftrightarrow> ProTxHash u \<in> ?H" if "u \<in> set us" for u
      using assms(5) hashesI [OF that] by (metis HasProTxHash_iff)
    then show ?thesis by (auto simp: numNewValidators_def filter_empty_conv hashes_def [of us])
  qed
  then show ?thesis using len assms(3,4) by auto
qed

lemma sum_bind_err: "(\<And>x. m \<noteq> Inr x) \<Longrightarrow> \<exists>e. try_bind (Ret m) f = Ret (Inl e)"
  by (cases m) auto

lemma val_lookup_mem: "ssorted vs \<Longrightarrow> v \<in> set vs \<Longrightarrow> val_lookup vs (ProTxHash v) = Some v"
  by (induction vs) (auto dest: hashesI)

lemma change_result:
  assumes L: "ssorted L" and look: "val_lookup L = (val_lookup V ++ val_lookup U) |` (- X)"
  shows "set L \<subseteq> set V \<union> set U" "hashes L \<subseteq> hashes V \<union> hashes U" "length L \<le> length V + length U"
proof -
  have "v \<in> set V \<union> set U" if "v \<in> set L" for v
  proof -
    have "(val_lookup V ++ val_lookup U) (ProTxHash v) = Some v"
      using val_lookup_mem [OF L that] unfolding look by (simp add: restrict_map_def split: if_splits)
    then show ?thesis unfolding map_add_Some_iff using val_lookup_SomeD by blast
  qed
  then show sub: "set L \<subseteq> set V \<union> set U" by blast
  then show "hashes L \<subseteq> hashes V \<union> hashes U" by (auto simp: hashes_def)
  have "distinct L" using L unfolding ssorted_def by (metis distinct_map strict_sorted_distinct)
  then have "length L = card (set L)" by (simp add: distinct_card)
  also have "\<dots> \<le> card (set (V @ U))" using sub by (intro card_mono) auto
  also have "\<dots> \<le> length (V @ U)" by (rule card_length)
  finally show "length L \<le> length V + length U" by simp
qed

lemma applyRemovals_fields:
  assumes "applyRemovals ds (applyUpdates us vals) = Ret s'"
  shows "s' = vals\<lparr>vs_Validators := vs_Validators s'\<rparr>"
  using assms by (auto simp: applyRemovals_def applyUpdates_def exec_bind_Ret_iff split: if_splits)

lemma updateWithChangeSet_run:
  assumes "cs \<noteq> []" "processChanges cs = Inr (us, ds)" "allowDeletes \<or> ds = []"
    "\<not> (numNewValidators us vals = 0 \<and> length (vs_Validators vals) = length ds)"
    "verifyRemovals ds vals = Ret (Inr r)" "verifyUpdates us vals r = Ret (Inr t)"
    "applyRemovals ds (applyUpdates us vals) = Ret s'" "ssorted (vs_Validators s')"
  shows "updateWithChangeSet cs allowDeletes (Some tpk) (Some qh) vals
     = Ret (Inr (s'\<lparr>ThresholdPublicKey := Some tpk, vs_QuorumHash := Some qh\<rparr>))"
  using assms by (auto simp: updateWithChangeSet_def)

lemma updateWithChangeSet_accepts:
  assumes wf: "wf_vals vals" and ne: "cs \<noteq> []"
    and size: "int (length cs) + int (length (vs_Validators vals)) \<le> MaxInt32"
    and spec: "spec_change cs allowDeletes (val_lookup (vs_Validators vals)) = Some m"
  obtains vals' where
    "updateWithChangeSet cs allowDeletes (Some tpk) (Some qh) vals = Ret (Inr vals')"
    "wf_vals vals'" "vs_Validators vals' \<noteq> []" "val_lookup (vs_Validators vals') = m"
    "ThresholdPublicKey vals' = Some tpk" "vs_QuorumHash vals' = Some qh"
    "proposerIndex vals' = proposerIndex vals"
proof -
  let ?U = "filter (\<lambda>v. VotingPower v \<noteq> 0) cs" and ?D = "filter (\<lambda>v. VotingPower v = 0) cs"
  let ?us = "filter (\<lambda>v. VotingPower v \<noteq> 0) (sort_key ProTxHash cs)"
    and ?ds = "filter (\<lambda>v. VotingPower v = 0) (sort_key ProTxHash cs)"
  let ?H = "hashes (vs_Validators vals)"
  have cs: "distinct (map ProTxHash cs)" "[] \<notin> hashes cs"
      "\<forall>v \<in> set cs. VotingPower v = 0 \<or> VotingPower v = 100" "allowDeletes \<or> ?D = []" "hashes ?D \<subseteq> ?H"
    and m: "m = (val_lookup (vs_Validators vals) ++ val_lookup ?U) |` (- hashes ?D)" "m \<noteq> Map.empty"
    using spec unfolding spec_change_def Let_def by (auto split: if_splits)
  note us = changes_split [OF cs(1), of "\<lambda>v. VotingPower v \<noteq> 0"]
  note ds = changes_split [OF cs(1), of "\<lambda>v. VotingPower v = 0"]
  have pc: "processChanges cs = Inr (?us, ?ds)"
    unfolding processChanges_iff using cs by fastforce
  have "dom m \<noteq> {}" using m(2) by simp
  then have nonempty: "\<not> (?H \<union> hashes ?us \<subseteq> hashes ?ds)"
    unfolding m(1) us(3) ds(3) by (auto simp: hashes_def)
  have disj: "hashes ?us \<inter> hashes ?ds = {}"
    unfolding us(3) ds(3) hashes_def using cs(1) by (auto simp: distinct_map inj_on_def)
  have nil: "[] \<notin> hashes ?us" using cs(2) unfolding us(3) by (auto simp: hashes_def)
  have sub: "hashes ?ds \<subseteq> ?H" using cs(5) ds(3) by simp
  have full: "\<not> (numNewValidators ?us vals = 0 \<and> length (vs_Validators vals) = length ?ds)"
    using empty_result_iff [OF wf ds(1) sub disj nil] nonempty by simp
  have len: "length ?ds \<le> length (vs_Validators vals)"
    using card_mono [OF hashes_simps(3) sub] ssorted_card [OF ds(1)] ssorted_card wf by (simp add: wf_vals_def)
  have lu: "length ?us \<le> length cs" unfolding us(4) by simp
  obtain t where vu: "verifyUpdates ?us vals (100 * int (length ?ds)) = Ret (Inr t)"
  proof -
    have "\<forall>v \<in> set ?us. VotingPower v \<noteq> 0" "\<forall>v \<in> set ?us. VotingPower v = 100" using cs(3) by auto
    moreover have "int (length ?us) + int (length (vs_Validators vals)) \<le> MaxInt32" using size lu by linarith
    moreover have "0 \<le> 100 * int (length ?ds)" "100 * int (length ?ds) \<le> 100 * int (length (vs_Validators vals))"
      using len by linarith+
    ultimately show ?thesis using verifyUpdates_spec [OF wf] that by metis
  qed
  have sorted: "ssorted (vs_Validators vals)" using wf by (simp add: wf_vals_def)
  have "ProTxHash ` set ?ds \<subseteq> dom (val_lookup (vs_Validators vals))"
    using sub unfolding dom_val_lookup hashes_def [of ?ds] .
  then obtain s' where s': "applyRemovals ?ds (applyUpdates ?us vals) = Ret s'" "ssorted (vs_Validators s')"
      "val_lookup (vs_Validators s') = (val_lookup (vs_Validators vals) ++ val_lookup ?us) |` (- hashes ?ds)"
    unfolding hashes_def [of ?ds] val_lookup_def [of ?us]
    by (rule vdir.change_ok [OF sorted us(1) ds(1)])
  have m': "val_lookup (vs_Validators s') = m" unfolding m(1) s'(3) us(2) ds(3) ..
  let ?r = "s'\<lparr>ThresholdPublicKey := Some tpk, vs_QuorumHash := Some qh\<rparr>"
  note res = change_result [OF s'(2,3)]
  show ?thesis
  proof (rule that [of ?r])
    show "updateWithChangeSet cs allowDeletes (Some tpk) (Some qh) vals = Ret (Inr ?r)"
    proof (rule updateWithChangeSet_run [OF ne pc _ full _ vu s'(1,2)])
      show "allowDeletes \<or> ?ds = []" using cs(4) ds(4) by (metis length_0_conv)
      show "verifyRemovals ?ds vals = Ret (Inr (100 * int (length ?ds)))"
        using verifyRemovals_spec [OF wf ds(1)] sub by simp
    qed
    show "wf_vals ?r"
      unfolding wf_vals_def
    proof (intro conjI)
      show "[] \<notin> hashes (vs_Validators ?r)" using res(2) nil wf by (auto simp: wf_vals_def)
      show "\<forall>v \<in> set (vs_Validators ?r). VotingPower v = 100"
        using res(1) cs(3) wf by (auto simp: wf_vals_def)
      show "int (length (vs_Validators ?r)) \<le> MaxInt32" using res(3) lu size by simp
    qed (use s'(2) in simp)
    show "vs_Validators ?r \<noteq> []" using m(2) m' by (auto simp: fun_eq_iff)
    show "val_lookup (vs_Validators ?r) = m" using m' by simp
    show "proposerIndex ?r = proposerIndex vals" by (subst applyRemovals_fields [OF s'(1)]) simp
  qed simp_all
qed

lemma updateWithChangeSet_refuses:
  assumes wf: "wf_vals vals" and ne: "cs \<noteq> []"
    and size: "int (length cs) + int (length (vs_Validators vals)) \<le> MaxInt32"
    and spec: "spec_change cs allowDeletes (val_lookup (vs_Validators vals)) = None"
  shows "\<exists>e. updateWithChangeSet cs allowDeletes (Some tpk) (Some qh) vals = Ret (Inl e)"
proof (cases "processChanges cs")
  case (Inl e)
  then show ?thesis using ne by (simp add: updateWithChangeSet_def)
next
  case (Inr p)
  obtain us ds where p: "p = (us, ds)" by (cases p)
  note pc = Inr [unfolded p processChanges_iff]
  note us = changes_split [of cs "\<lambda>v. VotingPower v \<noteq> 0"]
  note ds = changes_split [of cs "\<lambda>v. VotingPower v = 0"]
  let ?H = "hashes (vs_Validators vals)"
  show ?thesis
  proof (cases "(allowDeletes \<or> ds = []) \<and> hashes ds \<subseteq> ?H
      \<and> \<not> (numNewValidators us vals = 0 \<and> length (vs_Validators vals) = length ds)")
    case True
    have sd: "ssorted ds" using ds(1) pc by simp
    have disj: "hashes us \<inter> hashes ds = {}"
      using pc us(3) ds(3) by (auto simp: hashes_def distinct_map inj_on_def)
    have nil: "[] \<notin> hashes us" using pc by (auto simp: hashes_def)
    have "\<not> (?H \<union> hashes us \<subseteq> hashes ds)"
      using empty_result_iff [OF wf sd _ disj nil] True by simp
    then have "dom ((val_lookup (vs_Validators vals) ++ val_lookup us) |` (- hashes ds)) \<noteq> {}"
      by auto
    then have nonempty: "(val_lookup (vs_Validators vals) ++ val_lookup us) |` (- hashes ds) \<noteq> Map.empty"
      by (metis dom_empty)
    have "\<not> (\<forall>v \<in> set us. VotingPower v = 100)"
    proof
      assume "\<forall>v \<in> set us. VotingPower v = 100"
      then have "\<forall>v \<in> set cs. VotingPower v = 0 \<or> VotingPower v = 100" using pc by auto
      then show False
        using spec pc True nonempty us(2) ds(3,4) unfolding spec_change_def Let_def
        by (auto split: if_splits)
    qed
    moreover have "length ds \<le> length (vs_Validators vals)"
      using card_mono [of ?H "hashes ds"] True ssorted_card [OF sd] ssorted_card wf by (simp add: wf_vals_def)
    moreover have "length us \<le> length cs" using us(4) pc by simp
    moreover have "\<forall>v \<in> set us. VotingPower v \<noteq> 0" using pc by auto
    ultimately have "verifyUpdates us vals (100 * int (length ds)) = Ret (Inl ErrPowerNot0Or100)"
      using verifyUpdates_spec [OF wf, of us "100 * int (length ds)"] size by simp
    then show ?thesis
      using Inr p ne True verifyRemovals_spec [OF wf sd] by (auto simp: updateWithChangeSet_def)
  next
    case False
    have "ssorted ds" using ds(1) pc by simp
    from verifyRemovals_spec [OF wf this] show ?thesis
      using Inr p ne False by (auto simp: updateWithChangeSet_def)
  qed
qed

section \<open>The proposer index\<close>

lemma inc_loop_nonneg: "0 \<le> x \<Longrightarrow> inc_loop x n = Some x"
  by (simp add: inc_loop.simps)

lemma inc_loop_mod:
  assumes "0 < n" "n \<le> MaxInt32" "MinInt64 \<le> x" "x < 0"
  shows "inc_loop x n = Some (x mod n)"
  using assms
proof (induction "nat (- x)" arbitrary: x rule: less_induct)
  case less
  have w: "wrap64 (x + n) = x + n" using less.prems by (simp add: in_int64_def)
  show ?case
  proof (cases "x + n < 0")
    case True
    then have "inc_loop (x + n) n = Some ((x + n) mod n)"
      using less.prems by (intro less.hyps) auto
    then show ?thesis using less.prems(4) by (simp add: inc_loop.simps [of x] w)
  next
    case False
    have "x mod n = (x + n) mod n" by simp
    also have "\<dots> = x + n" using False less.prems by (intro mod_pos_pos_trivial) auto
    finally show ?thesis
      using False less.prems(4) by (simp add: inc_loop.simps [of x] w inc_loop_nonneg)
  qed
qed

lemma SafeConvertInt32_id: "0 \<le> x \<Longrightarrow> x \<le> MaxInt32 \<Longrightarrow> SafeConvertInt32 TInt64 x = Inr x"
  by (subst SafeConvertInt32_spec) (auto simp: in_type_def)

lemma IncProposerIndex_eq:
  assumes "0 < length (vs_Validators vals)" "int (length (vs_Validators vals)) \<le> MaxInt32"
    "in_int64 (proposerIndex vals + n)"
  shows "IncProposerIndex n vals = Some (Ret (vals\<lparr>proposerIndex :=
           (proposerIndex vals + n) mod int (length (vs_Validators vals))\<rparr>))"
proof -
  let ?N = "int (length (vs_Validators vals))" and ?x = "proposerIndex vals + n"
  define y where "y = (if ?x < 0 then ?x mod ?N else ?x)"
  have loop: "inc_loop (wrap64 ?x) ?N = Some y"
    using assms inc_loop_mod [of ?N ?x] inc_loop_nonneg [of ?x] by (auto simp: y_def in_int64_def)
  have y: "0 \<le> y" "y mod ?N = ?x mod ?N" using assms by (auto simp: y_def)
  have "0 \<le> ?x mod ?N" "?x mod ?N < ?N" using assms by auto
  then have "SafeConvertInt32 TInt64 (?x mod ?N) = Inr (?x mod ?N)"
    using assms(2) by (intro SafeConvertInt32_id) linarith+
  moreover have "go_rem y ?N = ?x mod ?N" using y assms by (subst go_rem_pos) auto
  ultimately have "SafeConvertInt32 TInt64 (go_rem y ?N) = Inr (?x mod ?N)" by simp
  then show ?thesis
    using assms loop by (simp add: IncProposerIndex_def ValidatorSet_Size_def)
qed

lemma SetProposer_spec:
  assumes "int (length (vs_Validators vals)) \<le> MaxInt32"
  shows "if h \<in> hashes (vs_Validators vals)
         then \<exists>vals'. SetProposer h vals = Ret (Inr vals') \<and> vs_Validators vals' = vs_Validators vals
                \<and> Proposer vals' = Ret (val_lookup (vs_Validators vals) h)
         else SetProposer h vals = Ret (Inl ErrProposerNotFound)"
proof -
  obtain idx where g: "GetByProTxHash (Some vals) h = Ret (idx, val_lookup (vs_Validators vals) h)"
    "idx < 0 \<longleftrightarrow> h \<notin> hashes (vs_Validators vals)"
    "0 \<le> idx \<Longrightarrow> GetByIndex (Some vals) idx = val_lookup (vs_Validators vals) h"
    using GetByProTxHash_lookup [OF assms, of h] by metis
  show ?thesis
  proof (cases "h \<in> hashes (vs_Validators vals)")
    case True
    then have "vs_Validators vals \<noteq> []" by auto
    moreover have "0 \<le> idx" using True g(2) by simp
    ultimately show ?thesis
      using g True by (auto simp: SetProposer_def Proposer_def IsNilOrEmpty_def GetByIndex_def)
  next
    case False
    then show ?thesis using g by (simp add: SetProposer_def)
  qed
qed

section \<open>Thresholds\<close>

lemma TotalVotingPower_eq:
  "int (length (vs_Validators vals)) \<le> MaxInt32 \<Longrightarrow>
     TotalVotingPower vals = 100 * int (length (vs_Validators vals))"
  by (simp add: TotalVotingPower_def ValidatorSet_Size_def in_int64_def)

lemma QuorumParams_range: "QuorumParams t = Some (m, k) \<Longrightarrow> 0 < k \<and> k < m \<and> m \<le> 400"
  by (cases t) auto

lemma QuorumTypeThresholdVotingPower_eq:
  assumes "int (length (vs_Validators vals)) \<le> MaxInt32"
  shows "QuorumTypeThresholdVotingPower vals =
     100 * (case QuorumParams (QuorumType vals) of
              None \<Rightarrow> int (length (vs_Validators vals)) * 2 div 3 + 1 | Some (_, k) \<Rightarrow> k)"
proof (cases "QuorumParams (QuorumType vals)")
  case None
  then have "QuorumTypeThresholdCount vals = int (length (vs_Validators vals)) * 2 div 3 + 1"
    by (simp add: QuorumTypeThresholdCount_def go_quot_pos)
  moreover have "0 \<le> int (length (vs_Validators vals)) * 2 div 3"
    "int (length (vs_Validators vals)) * 2 div 3 \<le> MaxInt32" using assms by auto
  ultimately show ?thesis
    using None by (simp add: QuorumTypeThresholdVotingPower_def in_int64_def)
next
  case (Some p)
  then show ?thesis
    using QuorumParams_range [of "QuorumType vals"]
    by (cases p) (auto simp: QuorumTypeThresholdVotingPower_def QuorumTypeThresholdCount_def in_int64_def)
qed

lemma validateThreshold_range:
  assumes "validateThreshold vals = Ret (Inr ())"
  obtains t where "QuorumVotingThresholdPower vals = Ret t" "0 < t" "t \<le> TotalVotingPower vals"
  using assms by (auto simp: validateThreshold_def exec_bind_Ret_iff Let_def split: if_splits)

lemma two_thirds_floor: "2 * n < 3 * (n * 2 div 3 + 1)" for n :: int
  by presburger

lemma validateThreshold_two_thirds:
  assumes "validateThreshold vals = Ret (Inr ())" "VotingPowerThreshold vals = 0"
    "int (length (vs_Validators vals)) \<le> MaxInt32"
    "case QuorumParams (QuorumType vals) of None \<Rightarrow> True | Some (m, k) \<Rightarrow> 2 * m < 3 * k"
  shows "2 * TotalVotingPower vals < 3 * QuorumTypeThresholdVotingPower vals"
proof -
  let ?n = "int (length (vs_Validators vals))"
  show ?thesis
  proof (cases "QuorumParams (QuorumType vals)")
    case None
    have "2 * ?n < 3 * (?n * 2 div 3 + 1)" by (rule two_thirds_floor)
    then show ?thesis
      using None by (simp add: TotalVotingPower_eq [OF assms(3)] QuorumTypeThresholdVotingPower_eq [OF assms(3)])
  next
    case (Some p)
    obtain m k where p: "p = (m, k)" by (cases p)
    then have "?n \<le> m"
      using assms(1,2) Some
      by (auto simp: validateThreshold_def QuorumVotingThresholdPower_def Let_def ValidatorSet_Size_def split: if_splits)
    then show ?thesis
      using Some p assms(4)
      by (simp add: TotalVotingPower_eq [OF assms(3)] QuorumTypeThresholdVotingPower_eq [OF assms(3)])
  qed
qed

lemma ValidateBasic_sound:
  assumes "ValidatorSet_ValidateBasic addr_ok recover llmq_valid vals = Ret (Inr ())"
    "int (length (vs_Validators vals)) \<le> MaxInt64"
  shows "int (length (vs_Validators vals)) \<le> MaxInt32" "0 \<le> proposerIndex vals"
    "proposerIndex vals < int (length (vs_Validators vals))" "validateThreshold vals = Ret (Inr ())"
proof -
  let ?n = "int (length (vs_Validators vals))"
  have ne: "vs_Validators vals \<noteq> []"
    using assms by (auto simp: ValidatorSet_ValidateBasic_def IsNilOrEmpty_def split: if_splits)
  obtain nVals where conv: "SafeConvertInt32 TInt64 ?n = Inr nVals"
    and p: "proposerIndex vals < nVals" and thr: "validateThreshold vals = Ret (Inr ())"
    and pv: "Validator_ValidateBasic addr_ok (GetByIndex (Some vals) (proposerIndex vals)) = Inr ()"
    using assms(1)
    by (auto simp: ValidatorSet_ValidateBasic_def ValidatorSet_Size_def Proposer_def
        try_bind_Inr_iff exec_bind_Ret_iff split: if_splits sum.splits)
  show "validateThreshold vals = Ret (Inr ())" by (rule thr)
  show len: "?n \<le> MaxInt32"
    using conv assms(2) SafeConvertInt32_spec [of TInt64 ?n] by (auto simp: in_type_def split: if_splits)
  have "nVals = ?n" using conv SafeConvertInt32_id [of ?n] len by simp
  then show "proposerIndex vals < ?n" using p by simp
  have "GetByIndex (Some vals) (proposerIndex vals) \<noteq> None"
    using pv by (auto simp: Validator_ValidateBasic_def split: option.splits)
  then show "0 \<le> proposerIndex vals" by (auto simp: GetByIndex_def split: if_splits)
qed

section \<open>Properties\<close>

text \<open>
  C23: A change set is applied exactly when it is well formed. On a well-formed set, and with as many
  members as an \<open>int32\<close> can index, \<open>updateWithChangeSet\<close> returns an error (leaving the set as it
  was) if the changes repeat a hash, have an empty hash, a power other than 0 or 100, a removal that is
  not allowed or not in the set, or would leave the set empty; otherwise the new set is well
  formed, not empty, and denotes the old map overridden by the updates and without the removals.
\<close>

theorem updateWithChangeSet_refines:
  assumes "wf_vals vals" "cs \<noteq> []"
    "int (length cs) + int (length (vs_Validators vals)) \<le> MaxInt32"
  shows "case spec_change cs allowDeletes (val_lookup (vs_Validators vals)) of
      None \<Rightarrow> \<exists>e. updateWithChangeSet cs allowDeletes (Some tpk) (Some qh) vals = Ret (Inl e)
    | Some m \<Rightarrow> \<exists>vals'. updateWithChangeSet cs allowDeletes (Some tpk) (Some qh) vals = Ret (Inr vals')
        \<and> wf_vals vals' \<and> vs_Validators vals' \<noteq> [] \<and> val_lookup (vs_Validators vals') = m
        \<and> ThresholdPublicKey vals' = Some tpk \<and> vs_QuorumHash vals' = Some qh"
proof (cases "spec_change cs allowDeletes (val_lookup (vs_Validators vals))")
  case None
  then show ?thesis using updateWithChangeSet_refuses [OF assms] by simp
next
  case (Some m)
  then show ?thesis using updateWithChangeSet_accepts [OF assms Some, of tpk qh] by auto
qed

lemma replicate_less [simp]: "0 < n \<Longrightarrow> replicate n a < replicate n b \<longleftrightarrow> a < (b :: 'a :: linorder)"
proof (induction n)
  case (Suc n)
  then show ?case by (cases n) auto
qed simp

definition mk_val :: "8 word \<Rightarrow> int \<Rightarrow> Validator" where
  "mk_val h p = \<lparr>ProTxHash = replicate 32 h, PubKey = None, VotingPower = p, NodeAddress = ''''\<rparr>"

definition mk_set :: "Validator list \<Rightarrow> int \<Rightarrow> ValidatorSet" where
  "mk_set vs i = \<lparr>vs_Validators = vs, proposerIndex = i, ThresholdPublicKey = Some (replicate 48 0),
     vs_QuorumHash = Some (replicate 32 0), QuorumType = LLMQ_other 0, HasPublicKeys = False,
     VotingPowerThreshold = 0\<rparr>"

theorem updateWithChangeSet_refines_witness:
  "\<exists>vals'. updateWithChangeSet [mk_val 3 100, mk_val 1 0] True (Some []) (Some [])
       (mk_set [mk_val 1 100, mk_val 2 100] 0) = Ret (Inr vals')
     \<and> wf_vals vals' \<and> val_lookup (vs_Validators vals') (replicate 32 1) = None
     \<and> val_lookup (vs_Validators vals') (replicate 32 2) = Some (mk_val 2 100)
     \<and> val_lookup (vs_Validators vals') (replicate 32 3) = Some (mk_val 3 100)"
proof -
  let ?vs = "[mk_val 1 100, mk_val 2 100]" and ?cs = "[mk_val 3 100, mk_val 1 0]"
  have wf: "wf_vals (mk_set ?vs 0)"
    by (simp add: wf_vals_def mk_set_def mk_val_def)
  let ?m = "(val_lookup ?vs ++ val_lookup [mk_val 3 100]) |` (- hashes [mk_val 1 0])"
  have at: "?m (replicate 32 1) = None" "?m (replicate 32 2) = Some (mk_val 2 100)"
    "?m (replicate 32 3) = Some (mk_val 3 100)"
    by (simp_all add: mk_val_def map_add_def)
  then have "?m \<noteq> Map.empty" by (metis option.distinct(1))
  moreover have parts: "filter (\<lambda>v. VotingPower v \<noteq> 0) ?cs = [mk_val 3 100]"
    "filter (\<lambda>v. VotingPower v = 0) ?cs = [mk_val 1 0]" by (simp_all add: mk_val_def)
  moreover have "distinct (map ProTxHash ?cs)" "[] \<notin> hashes ?cs" "hashes [mk_val 1 0] \<subseteq> hashes ?vs"
    "\<forall>v \<in> set ?cs. VotingPower v = 0 \<or> VotingPower v = 100" by (auto simp: mk_val_def)
  ultimately have m: "spec_change ?cs True (val_lookup ?vs) = Some ?m"
    unfolding spec_change_def Let_def parts dom_val_lookup by (intro if_P) blast
  have vs: "vs_Validators (mk_set ?vs 0) = ?vs" by (simp add: mk_set_def)
  have "int (length ?cs) + int (length ?vs) \<le> MaxInt32" by simp
  then show ?thesis
    using updateWithChangeSet_refines [OF wf, of ?cs True "[]" "[]"] at unfolding vs m by auto
qed

text \<open>
  \<open>UpdateWithChangeSet\<close> leaves \<open>proposerIndex\<close> as it was: in a set of two whose second member is
  the proposer, removing that member gives a set whose \<open>Proposer()\<close> is nil.
\<close>

theorem UpdateWithChangeSet_stale_proposer:
  "UpdateWithChangeSet [mk_val 2 0] (Some (replicate 48 0)) (Some (replicate 32 0))
       (mk_set [mk_val 1 100, mk_val 2 100] 1) = Ret (Inr (mk_set [mk_val 1 100] 1))
   \<and> Proposer (mk_set [mk_val 1 100, mk_val 2 100] 1) = Ret (Some (mk_val 2 100))
   \<and> Proposer (mk_set [mk_val 1 100] 1) = Ret None"
  by code_simp

text \<open>
  C25: \<open>IncProposerIndex\<close> terminates on a non-empty set and turns the index modulo its size, for
  negative steps too, as long as the sum of index and step fits an \<open>int64\<close>.
\<close>

theorem IncProposerIndex_mod:
  assumes "0 < length (vs_Validators vals)" "int (length (vs_Validators vals)) \<le> MaxInt32"
    "in_int64 (proposerIndex vals + n)"
  shows "IncProposerIndex n vals = Some (Ret (vals\<lparr>proposerIndex :=
           (proposerIndex vals + n) mod int (length (vs_Validators vals))\<rparr>))"
  using assms by (rule IncProposerIndex_eq)

theorem IncProposerIndex_mod_witness:
  "IncProposerIndex (- 5) (mk_set [mk_val 1 100, mk_val 2 100, mk_val 3 100] 1)
     = Some (Ret (mk_set [mk_val 1 100, mk_val 2 100, mk_val 3 100] 2))"
  using IncProposerIndex_mod [of "mk_set [mk_val 1 100, mk_val 2 100, mk_val 3 100] 1" "- 5"]
  by (simp add: mk_set_def in_int64_def)

text \<open>
  \<open>SetProposer\<close> succeeds exactly for a member's hash, and then \<open>Proposer\<close> is that member.
\<close>

theorem SetProposer_Proposer:
  assumes "int (length (vs_Validators vals)) \<le> MaxInt32"
  shows "if h \<in> hashes (vs_Validators vals)
         then \<exists>vals'. SetProposer h vals = Ret (Inr vals') \<and> vs_Validators vals' = vs_Validators vals
                \<and> Proposer vals' = Ret (val_lookup (vs_Validators vals) h)
         else SetProposer h vals = Ret (Inl ErrProposerNotFound)"
  using assms by (rule SetProposer_spec)

theorem SetProposer_Proposer_witness:
  "\<exists>vals'. SetProposer (replicate 32 2) (mk_set [mk_val 1 100, mk_val 2 100] 0) = Ret (Inr vals')
     \<and> Proposer vals' = Ret (Some (mk_val 2 100))"
  using SetProposer_Proposer [of "mk_set [mk_val 1 100, mk_val 2 100] 0" "replicate 32 2"]
  by (auto simp: mk_set_def mk_val_def)



end
