(* ===== verification/Proposer_Select.thy ===== *)
theory Proposer_Select
  imports Validators
begin

text \<open>
  \<open>src/internal/consensus/versioned/selectproposer\<close>: who proposes at a height and round. The two
  strategies are \<open>heightProposerSelector\<close> (consensus version 0, the round is not persisted) and
  \<open>heightRoundProposerSelector\<close> (version 1). The block store is an interface of the package, so it
  is the record \<open>BlockStore\<close> of what it answers; \<open>vhash\<close> stands for the SHA-256 based
  \<open>ValidatorSet.Hash\<close>. A call can end in an error, panic or, through the loop of
  \<open>IncProposerIndex\<close>, not return: \<open>('a) run\<close> is the type of such calls.

  The locale \<open>selector\<close> is the contract of the interface \<open>ProposerSelector\<close> within one height:
  the proposer of a round is determined by the round alone, whatever rounds were visited before,
  and consecutive rounds go around the validator list. Both strategies are interpretations of it.
\<close>

section \<open>Definitions\<close>

datatype sel_error = ErrEmptySet | ErrNilStore | ErrDetermineProposer vset_error | ErrHashMismatch
  | ErrNoPreviousMeta | ErrSetProposer vset_error | ErrBackInHeight | ErrJump | ErrConsensusVersion

type_synonym 'a run = "(sel_error + 'a) exec option"

definition run_bind :: "'a run \<Rightarrow> ('a \<Rightarrow> 'b run) \<Rightarrow> 'b run" where
  "run_bind m f =
     (case m of
        None \<Rightarrow> None
      | Some Panic \<Rightarrow> Some Panic
      | Some (Ret (Inl e)) \<Rightarrow> Some (Ret (Inl e))
      | Some (Ret (Inr x)) \<Rightarrow> f x)"

abbreviation run_ok :: "'a \<Rightarrow> 'a run" where "run_ok x \<equiv> Some (Ret (Inr x))"
abbreviation run_err :: "sel_error \<Rightarrow> 'a run" where "run_err e \<equiv> Some (Ret (Inl e))"

text \<open>The parts of \<open>types.BlockMeta\<close> the selectors read, and the store interface.\<close>

record BlockMeta =
  ValidatorsHash :: bytes
  ProposerProTxHash :: bytes
  meta_Round :: int

record BlockStore =
  LoadBlockMeta :: "int \<Rightarrow> BlockMeta option"
  Base :: int

definition set_proposer_run :: "(vset_error \<Rightarrow> sel_error) \<Rightarrow> bytes \<Rightarrow> ValidatorSet \<Rightarrow> ValidatorSet run" where
  "set_proposer_run err h vals =
     (case SetProposer h vals of
        Panic \<Rightarrow> Some Panic
      | Ret (Inl e) \<Rightarrow> run_err (err e)
      | Ret (Inr v) \<Rightarrow> run_ok v)"

definition inc_run :: "int \<Rightarrow> ValidatorSet \<Rightarrow> ValidatorSet run" where
  "inc_run n vals = map_option (\<lambda>r. exec_bind r (\<lambda>v. Ret (Inr v))) (IncProposerIndex n vals)"

definition proposer_run :: "ValidatorSet \<Rightarrow> Validator option run" where
  "proposer_run vals = Some (exec_bind (Proposer vals) (\<lambda>p. Ret (Inr p)))"

subsection \<open>By height\<close>

record heightProposerSelector =
  hp_valSet :: ValidatorSet
  hp_height :: int
  hp_bs :: "BlockStore option"

definition hp_proposerFromStore ::
  "(ValidatorSet \<Rightarrow> bytes) \<Rightarrow> int \<Rightarrow> heightProposerSelector \<Rightarrow> heightProposerSelector run" where
  "hp_proposerFromStore vhash height s =
     (case hp_bs s of
        None \<Rightarrow> run_err ErrNilStore
      | Some bs \<Rightarrow>
          if height = 0 \<or> height = 1 then
            (case vs_Validators (hp_valSet s) of
               [] \<Rightarrow> Some Panic
             | v # _ \<Rightarrow> run_bind (set_proposer_run ErrDetermineProposer (ProTxHash v) (hp_valSet s))
                 (\<lambda>vs. run_ok (s\<lparr>hp_valSet := vs\<rparr>)))
          else
            run_bind
              (case LoadBlockMeta bs height of
                 Some meta \<Rightarrow>
                   if ValidatorsHash meta \<noteq> vhash (hp_valSet s) then run_err ErrHashMismatch
                   else run_ok (ProposerProTxHash meta, wrap32 (- meta_Round meta))
               | None \<Rightarrow>
                   (case LoadBlockMeta bs (wrap64 (height - 1)) of
                      None \<Rightarrow> run_err ErrNoPreviousMeta
                    | Some meta \<Rightarrow>
                        if ValidatorsHash meta = vhash (hp_valSet s)
                        then run_ok (ProposerProTxHash meta, 1 - meta_Round meta)
                        else case GetByIndex (Some (hp_valSet s)) 1 of
                               None \<Rightarrow> Some Panic
                             | Some v \<Rightarrow> run_ok (ProTxHash v, 0)))
              (\<lambda>(proposer, indexIncrement).
                 run_bind (set_proposer_run ErrSetProposer proposer (hp_valSet s)) (\<lambda>vs.
                 run_bind (if indexIncrement \<noteq> 0 then inc_run indexIncrement vs else run_ok vs) (\<lambda>vs.
                   run_ok (s\<lparr>hp_valSet := vs\<rparr>)))))"

definition NewHeightProposerSelector ::
  "(ValidatorSet \<Rightarrow> bytes) \<Rightarrow> ValidatorSet \<Rightarrow> int \<Rightarrow> BlockStore option \<Rightarrow> heightProposerSelector run" where
  "NewHeightProposerSelector vhash vset currentHeight bs =
     (if IsNilOrEmpty (Some vset) then run_err ErrEmptySet
      else let s = \<lparr>hp_valSet = vset, hp_height = currentHeight, hp_bs = bs\<rparr>
           in case bs of
                Some b \<Rightarrow> if Base b > 0 \<and> currentHeight \<ge> Base b
                           then hp_proposerFromStore vhash currentHeight s else run_ok s
              | None \<Rightarrow> run_ok s)"

definition hp_updateScores ::
  "(ValidatorSet \<Rightarrow> bytes) \<Rightarrow> int \<Rightarrow> int \<Rightarrow> heightProposerSelector \<Rightarrow> heightProposerSelector run" where
  "hp_updateScores vhash newHeight newRound s =
     (let heightDiff = wrap64 (newHeight - hp_height s)
      in if heightDiff = 0 then run_ok s
         else if heightDiff < 0 then run_err ErrBackInHeight
         else if heightDiff > 1 then
           (case hp_bs s of
              None \<Rightarrow> run_err ErrJump
            | Some bs \<Rightarrow>
                if Base bs > hp_height s then run_err ErrJump
                else run_bind (hp_proposerFromStore vhash newHeight s) (\<lambda>s.
                       run_ok (s\<lparr>hp_height := newHeight\<rparr>)))
         else run_bind (inc_run 1 (hp_valSet s)) (\<lambda>vs.
                run_ok (s\<lparr>hp_valSet := vs, hp_height := newHeight\<rparr>)))"

definition hp_UpdateHeightRound ::
  "(ValidatorSet \<Rightarrow> bytes) \<Rightarrow> int \<Rightarrow> int \<Rightarrow> heightProposerSelector \<Rightarrow> heightProposerSelector run" where
  "hp_UpdateHeightRound vhash newHeight round s = hp_updateScores vhash newHeight round s"

definition hp_GetProposer ::
  "(ValidatorSet \<Rightarrow> bytes) \<Rightarrow> int \<Rightarrow> int \<Rightarrow> heightProposerSelector
   \<Rightarrow> (heightProposerSelector \<times> Validator option) run" where
  "hp_GetProposer vhash height round s =
     run_bind (hp_updateScores vhash height 0 s) (\<lambda>s.
       if round = 0 then run_bind (proposer_run (hp_valSet s)) (\<lambda>p. run_ok (s, p))
       else run_bind (inc_run round (hp_valSet s)) (\<lambda>vs.
              run_bind (proposer_run vs) (\<lambda>p. run_ok (s, p))))"

subsection \<open>By height and round\<close>

record heightRoundProposerSelector =
  hrp_valSet :: ValidatorSet
  hrp_height :: int
  hrp_round :: int
  hrp_bs :: "BlockStore option"

definition hrp_proposerFromStore ::
  "(ValidatorSet \<Rightarrow> bytes) \<Rightarrow> int \<Rightarrow> int \<Rightarrow> heightRoundProposerSelector
   \<Rightarrow> heightRoundProposerSelector run" where
  "hrp_proposerFromStore vhash height round s =
     (case hrp_bs s of
        None \<Rightarrow> run_err ErrNilStore
      | Some bs \<Rightarrow>
          if height = 0 \<or> height = 1 then
            (case vs_Validators (hrp_valSet s) of
               [] \<Rightarrow> Some Panic
             | v # _ \<Rightarrow> run_bind (set_proposer_run ErrDetermineProposer (ProTxHash v) (hrp_valSet s))
                 (\<lambda>vs. run_ok (s\<lparr>hrp_valSet := vs\<rparr>)))
          else
            run_bind
              (case LoadBlockMeta bs height of
                 Some meta \<Rightarrow>
                   if ValidatorsHash meta \<noteq> vhash (hrp_valSet s) then run_err ErrHashMismatch
                   else run_ok (ProposerProTxHash meta, wrap32 (round - meta_Round meta))
               | None \<Rightarrow>
                   (case LoadBlockMeta bs (wrap64 (height - 1)) of
                      None \<Rightarrow> run_err ErrNoPreviousMeta
                    | Some meta \<Rightarrow>
                        if ValidatorsHash meta = vhash (hrp_valSet s)
                        then run_ok (ProposerProTxHash meta, wrap32 (1 + round))
                        else case GetByIndex (Some (hrp_valSet s)) 0 of
                               None \<Rightarrow> Some Panic
                             | Some v \<Rightarrow> run_ok (ProTxHash v, round)))
              (\<lambda>(proposer, indexIncrement).
                 run_bind (set_proposer_run ErrSetProposer proposer (hrp_valSet s)) (\<lambda>vs.
                 run_bind (if indexIncrement \<noteq> 0 then inc_run indexIncrement vs else run_ok vs) (\<lambda>vs.
                   run_ok (s\<lparr>hrp_valSet := vs\<rparr>)))))"

definition NewHeightRoundProposerSelector ::
  "(ValidatorSet \<Rightarrow> bytes) \<Rightarrow> ValidatorSet \<Rightarrow> int \<Rightarrow> int \<Rightarrow> BlockStore option
   \<Rightarrow> heightRoundProposerSelector run" where
  "NewHeightRoundProposerSelector vhash vset currentHeight currentRound bs =
     (if IsNilOrEmpty (Some vset) then run_err ErrEmptySet
      else let s = \<lparr>hrp_valSet = vset, hrp_height = currentHeight, hrp_round = currentRound, hrp_bs = bs\<rparr>
           in case bs of
                Some b \<Rightarrow> if Base b > 0 \<and> currentHeight \<ge> Base b
                           then hrp_proposerFromStore vhash currentHeight currentRound s else run_ok s
              | None \<Rightarrow> run_ok s)"

definition hrp_updateScores ::
  "(ValidatorSet \<Rightarrow> bytes) \<Rightarrow> int \<Rightarrow> int \<Rightarrow> heightRoundProposerSelector
   \<Rightarrow> heightRoundProposerSelector run" where
  "hrp_updateScores vhash newHeight newRound s =
     (let heightDiff = wrap64 (newHeight - hrp_height s);
          roundDiff = wrap32 (newRound - hrp_round s)
      in if heightDiff = 0 \<and> roundDiff = 0 then run_ok s
         else if heightDiff = 0 \<and> roundDiff \<noteq> 0 then
           run_bind (inc_run roundDiff (hrp_valSet s)) (\<lambda>vs.
             run_ok (s\<lparr>hrp_valSet := vs, hrp_round := newRound\<rparr>))
         else if heightDiff < 0 then run_err ErrBackInHeight
         else if heightDiff > 1 then
           (case hrp_bs s of
              None \<Rightarrow> run_err ErrJump
            | Some bs \<Rightarrow>
                if Base bs > hrp_height s then run_err ErrJump
                else run_bind (hrp_proposerFromStore vhash newHeight newRound s) (\<lambda>s.
                       run_ok (s\<lparr>hrp_height := newHeight, hrp_round := newRound\<rparr>)))
         else run_bind (inc_run (heightDiff + newRound) (hrp_valSet s)) (\<lambda>vs.
                run_ok (s\<lparr>hrp_valSet := vs, hrp_height := newHeight, hrp_round := newRound\<rparr>)))"

definition hrp_UpdateHeightRound ::
  "(ValidatorSet \<Rightarrow> bytes) \<Rightarrow> int \<Rightarrow> int \<Rightarrow> heightRoundProposerSelector
   \<Rightarrow> heightRoundProposerSelector run" where
  "hrp_UpdateHeightRound vhash newHeight newRound s = hrp_updateScores vhash newHeight newRound s"

definition hrp_GetProposer ::
  "(ValidatorSet \<Rightarrow> bytes) \<Rightarrow> int \<Rightarrow> int \<Rightarrow> heightRoundProposerSelector
   \<Rightarrow> (heightRoundProposerSelector \<times> Validator option) run" where
  "hrp_GetProposer vhash height round s =
     run_bind (hrp_updateScores vhash height round s) (\<lambda>s.
       run_bind (proposer_run (hrp_valSet s)) (\<lambda>p. run_ok (s, p)))"

text \<open>\<open>NewProposerSelector\<close> chooses by consensus version.\<close>

datatype ProposerSelector = ByHeight heightProposerSelector | ByHeightRound heightRoundProposerSelector

definition NewProposerSelector ::
  "(ValidatorSet \<Rightarrow> bytes) \<Rightarrow> int \<Rightarrow> ValidatorSet \<Rightarrow> int \<Rightarrow> int \<Rightarrow> BlockStore option
   \<Rightarrow> ProposerSelector run" where
  "NewProposerSelector vhash consensusVersion valSet valsetHeight valsetRound bs =
     (if consensusVersion = 0
      then run_bind (NewHeightProposerSelector vhash valSet valsetHeight bs) (\<lambda>s. run_ok (ByHeight s))
      else if consensusVersion = 1
      then run_bind (NewHeightRoundProposerSelector vhash valSet valsetHeight valsetRound bs)
             (\<lambda>s. run_ok (ByHeightRound s))
      else run_err ErrConsensusVersion)"

section \<open>Shared lemmas\<close>

lemma run_bind_simps [simp]:
  "run_bind None f = None"
  "run_bind (Some Panic) f = Some Panic"
  "run_bind (run_err e) f = run_err e"
  "run_bind (run_ok x) f = f x"
  by (simp_all add: run_bind_def)

definition ok_set :: "ValidatorSet \<Rightarrow> bool" where
  "ok_set vals \<longleftrightarrow> 0 < length (vs_Validators vals) \<and> int (length (vs_Validators vals)) \<le> MaxInt32
     \<and> 0 \<le> proposerIndex vals \<and> proposerIndex vals < int (length (vs_Validators vals))"

lemma inc_run_ok:
  assumes "ok_set vals" "- 5000000000 \<le> n" "n \<le> 5000000000"
  shows "inc_run n vals = run_ok (vals\<lparr>proposerIndex :=
     (proposerIndex vals + n) mod int (length (vs_Validators vals))\<rparr>)"
  using assms by (simp add: inc_run_def IncProposerIndex_eq ok_set_def in_int64_def)

lemma ok_set_turn:
  "ok_set vals \<Longrightarrow> ok_set (vals\<lparr>proposerIndex := k mod int (length (vs_Validators vals))\<rparr>)"
  by (simp add: ok_set_def)

lemma proposer_run_ok:
  "ok_set vals \<Longrightarrow> proposer_run vals = run_ok (Some (vs_Validators vals ! nat (proposerIndex vals)))"
  by (auto simp: proposer_run_def Proposer_def IsNilOrEmpty_def GetByIndex_def ok_set_def)

section \<open>The selector contract within a height\<close>

text \<open>Any sequence of rounds visited at the current height.\<close>

fun visit :: "('s \<Rightarrow> int) \<Rightarrow> (int \<Rightarrow> int \<Rightarrow> 's \<Rightarrow> 's run) \<Rightarrow> int list \<Rightarrow> 's \<Rightarrow> 's run" where
  "visit at_height update [] s = run_ok s"
| "visit at_height update (r # rs) s =
     run_bind (update (at_height s) r s) (visit at_height update rs)"

locale selector =
  fixes inv :: "'s \<Rightarrow> bool"
    and members :: "'s \<Rightarrow> Validator list"
    and at_height :: "'s \<Rightarrow> int"
    and idx :: "'s \<Rightarrow> int \<Rightarrow> int"
    and update :: "int \<Rightarrow> int \<Rightarrow> 's \<Rightarrow> 's run"
    and get :: "int \<Rightarrow> int \<Rightarrow> 's \<Rightarrow> ('s \<times> Validator option) run"
  assumes members_ne: "inv s \<Longrightarrow> members s \<noteq> []"
    and idx_round: "inv s \<Longrightarrow> idx s r = (idx s 0 + r) mod int (length (members s))"
    and update_stays: "inv s \<Longrightarrow> 0 \<le> r \<Longrightarrow> r \<le> MaxInt32 \<Longrightarrow>
          \<exists>s'. update (at_height s) r s = run_ok s' \<and> inv s' \<and> members s' = members s
             \<and> at_height s' = at_height s \<and> idx s' = idx s"
    and get_proposer: "inv s \<Longrightarrow> 0 \<le> r \<Longrightarrow> r \<le> MaxInt32 \<Longrightarrow>
          \<exists>s'. get (at_height s) r s = run_ok (s', Some (members s ! nat (idx s r))) \<and> inv s'
             \<and> members s' = members s \<and> at_height s' = at_height s \<and> idx s' = idx s"
begin

lemma visit_ok:
  assumes "inv s" "\<forall>r \<in> set rs. 0 \<le> r \<and> r \<le> MaxInt32"
  shows "\<exists>s'. visit at_height update rs s = run_ok s' \<and> inv s' \<and> members s' = members s
     \<and> at_height s' = at_height s \<and> idx s' = idx s"
  using assms
proof (induction rs arbitrary: s)
  case (Cons r rs)
  then obtain s' where "update (at_height s) r s = run_ok s'" "inv s'" "members s' = members s"
    "at_height s' = at_height s" "idx s' = idx s"
    using update_stays [of s r] by auto
  then show ?case using Cons.IH [of s'] Cons.prems by auto
qed simp

lemma path_independent:
  assumes "inv s" "\<forall>r \<in> set rs. 0 \<le> r \<and> r \<le> MaxInt32" "0 \<le> r" "r \<le> MaxInt32"
  shows "\<exists>s' s1 s2 p. visit at_height update rs s = run_ok s'
     \<and> get (at_height s) r s' = run_ok (s1, Some p) \<and> get (at_height s) r s = run_ok (s2, Some p)
     \<and> p \<in> set (members s)"
proof -
  obtain s' where s': "visit at_height update rs s = run_ok s'" "inv s'" "members s' = members s"
     "at_height s' = at_height s" "idx s' = idx s" using visit_ok [OF assms(1,2)] by blast
  have n: "0 < int (length (members s))" using members_ne [OF assms(1)] by simp
  have "0 \<le> idx s r" "idx s r < int (length (members s))"
    using n idx_round [OF assms(1), of r] by simp_all
  then have "members s ! nat (idx s r) \<in> set (members s)" by simp
  then show ?thesis
    using s' get_proposer [OF assms(1,3,4)] get_proposer [OF s'(2) assms(3,4)] by metis
qed

lemma round_robin:
  assumes "inv s" "distinct (members s)" "v \<in> set (members s)"
  shows "\<exists>!r. r0 \<le> r \<and> r < r0 + int (length (members s)) \<and> members s ! nat (idx s r) = v"
proof -
  let ?n = "int (length (members s))"
  have n: "0 < ?n" using members_ne [OF assms(1)] by simp
  obtain i where i: "i < length (members s)" "members s ! i = v"
    using assms(3) by (metis in_set_conv_nth)
  have idx: "idx s r = (idx s 0 + r) mod ?n" "0 \<le> idx s r" "idx s r < ?n" for r
    using idx_round [OF assms(1), of r] n by simp_all
  have hit: "members s ! nat (idx s r) = v \<longleftrightarrow> (idx s 0 + r) mod ?n = int i" for r
  proof -
    have "nat (idx s r) < length (members s)" using idx(2,3) [of r] by linarith
    then have "members s ! nat (idx s r) = v \<longleftrightarrow> nat (idx s r) = i"
      using i assms(2) by (metis nth_eq_iff_index_eq)
    then show ?thesis using idx [of r] by auto
  qed
  define r where "r = r0 + (int i - idx s 0 - r0) mod ?n"
  have "(idx s 0 + r) mod ?n = (idx s 0 + r0 + (int i - idx s 0 - r0)) mod ?n"
    unfolding r_def by (metis add.assoc mod_add_right_eq)
  then have r: "(idx s 0 + r) mod ?n = int i" "r0 \<le> r" "r < r0 + ?n"
    using i n by (simp_all add: r_def)
  have "x = r" if "r0 \<le> x" "x < r0 + ?n" "(idx s 0 + x) mod ?n = int i" for x
  proof -
    have "?n dvd x - r" using that(3) r(1) by (metis add_diff_cancel_left mod_eq_dvd_iff)
    moreover have "\<bar>x - r\<bar> < ?n" using that r by linarith
    ultimately show ?thesis using zdvd_imp_le by (metis abs_dvd_iff abs_ge_self dvd_abs_iff abs_of_nonneg eq_iff_diff_eq_0 linorder_not_less zero_less_abs_iff)
  qed
  then show ?thesis using r hit by metis
qed

end

section \<open>The two strategies\<close>

definition hp_inv :: "heightProposerSelector \<Rightarrow> bool" where
  "hp_inv s \<longleftrightarrow> ok_set (hp_valSet s)"

definition hp_idx :: "heightProposerSelector \<Rightarrow> int \<Rightarrow> int" where
  "hp_idx s r = (proposerIndex (hp_valSet s) + r) mod int (length (vs_Validators (hp_valSet s)))"

definition hrp_inv :: "heightRoundProposerSelector \<Rightarrow> bool" where
  "hrp_inv s \<longleftrightarrow> ok_set (hrp_valSet s) \<and> 0 \<le> hrp_round s \<and> hrp_round s \<le> MaxInt32"

definition hrp_idx :: "heightRoundProposerSelector \<Rightarrow> int \<Rightarrow> int" where
  "hrp_idx s r = (proposerIndex (hrp_valSet s) + r - hrp_round s)
     mod int (length (vs_Validators (hrp_valSet s)))"

lemma hp_update_same: "hp_updateScores vhash (hp_height s) r s = run_ok s"
  by (simp add: hp_updateScores_def)

lemma hp_get_same:
  assumes "hp_inv s" "0 \<le> r" "r \<le> MaxInt32"
  shows "hp_GetProposer vhash (hp_height s) r s
     = run_ok (s, Some (vs_Validators (hp_valSet s) ! nat (hp_idx s r)))"
proof -
  let ?vs = "hp_valSet s"
  have ok: "ok_set ?vs" using assms(1) by (simp add: hp_inv_def)
  then have "proposerIndex ?vs = hp_idx s 0" by (simp add: hp_idx_def ok_set_def)
  moreover have "inc_run r ?vs = run_ok (?vs\<lparr>proposerIndex := hp_idx s r\<rparr>)"
    using inc_run_ok [OF ok, of r] assms by (simp add: hp_idx_def)
  moreover have "ok_set (?vs\<lparr>proposerIndex := hp_idx s r\<rparr>)"
    using ok_set_turn [OF ok] by (simp add: hp_idx_def)
  ultimately show ?thesis
    using ok by (simp add: hp_GetProposer_def hp_update_same proposer_run_ok)
qed

lemma hrp_update_same:
  assumes "hrp_inv s" "0 \<le> r" "r \<le> MaxInt32"
  obtains s' where "hrp_updateScores vhash (hrp_height s) r s = run_ok s'" "hrp_inv s'"
    "vs_Validators (hrp_valSet s') = vs_Validators (hrp_valSet s)" "hrp_height s' = hrp_height s"
    "hrp_idx s' = hrp_idx s" "hrp_round s' = r" "proposerIndex (hrp_valSet s') = hrp_idx s r"
proof (cases "r = hrp_round s")
  case True
  then have "hrp_updateScores vhash (hrp_height s) r s = run_ok s" by (simp add: hrp_updateScores_def)
  moreover have "proposerIndex (hrp_valSet s) = hrp_idx s r"
    using assms(1) True by (simp add: hrp_idx_def hrp_inv_def ok_set_def)
  ultimately show ?thesis using assms(1) True by (intro that [of s]) auto
next
  case False
  let ?vs = "hrp_valSet s" and ?n = "int (length (vs_Validators (hrp_valSet s)))"
  let ?i = "(proposerIndex ?vs + (r - hrp_round s)) mod ?n"
  let ?s' = "s\<lparr>hrp_valSet := ?vs\<lparr>proposerIndex := ?i\<rparr>, hrp_round := r\<rparr>"
  have ok: "ok_set ?vs" "0 \<le> hrp_round s" "hrp_round s \<le> MaxInt32"
    using assms(1) by (simp_all add: hrp_inv_def)
  have w: "wrap32 (r - hrp_round s) = r - hrp_round s" using assms ok by (simp add: in_int32_def)
  have "inc_run (r - hrp_round s) ?vs = run_ok (?vs\<lparr>proposerIndex := ?i\<rparr>)"
    using assms ok by (intro inc_run_ok) auto
  then have "hrp_updateScores vhash (hrp_height s) r s = run_ok ?s'"
    using False by (simp add: hrp_updateScores_def w)
  moreover have "hrp_idx ?s' x = hrp_idx s x" for x
  proof -
    have "(?i + x - r) mod ?n = ((proposerIndex ?vs + (r - hrp_round s)) + (x - r)) mod ?n"
      by (metis add_diff_eq mod_add_left_eq)
    then show ?thesis by (simp add: hrp_idx_def algebra_simps)
  qed
  moreover have "ok_set (?vs\<lparr>proposerIndex := ?i\<rparr>)" by (rule ok_set_turn [OF ok(1)])
  ultimately show ?thesis
    using that [of ?s'] assms by (simp add: hrp_inv_def fun_eq_iff) (simp add: hrp_idx_def algebra_simps)
qed

interpretation hp: selector hp_inv "\<lambda>s. vs_Validators (hp_valSet s)" hp_height hp_idx
  "hp_UpdateHeightRound vhash" "hp_GetProposer vhash" for vhash
proof
  fix s r
  assume inv: "hp_inv s"
  then show "vs_Validators (hp_valSet s) \<noteq> []" by (auto simp: hp_inv_def ok_set_def)
  show "hp_idx s r = (hp_idx s 0 + r) mod int (length (vs_Validators (hp_valSet s)))"
    by (simp add: hp_idx_def mod_add_left_eq)
  show "\<exists>s'. hp_UpdateHeightRound vhash (hp_height s) r s = run_ok s' \<and> hp_inv s'
      \<and> vs_Validators (hp_valSet s') = vs_Validators (hp_valSet s)
      \<and> hp_height s' = hp_height s \<and> hp_idx s' = hp_idx s"
    using inv by (simp add: hp_UpdateHeightRound_def hp_update_same)
  assume "0 \<le> r" "r \<le> MaxInt32"
  then show "\<exists>s'. hp_GetProposer vhash (hp_height s) r s
        = run_ok (s', Some (vs_Validators (hp_valSet s) ! nat (hp_idx s r))) \<and> hp_inv s'
      \<and> vs_Validators (hp_valSet s') = vs_Validators (hp_valSet s)
      \<and> hp_height s' = hp_height s \<and> hp_idx s' = hp_idx s"
    using inv hp_get_same by blast
qed

interpretation hrp: selector hrp_inv "\<lambda>s. vs_Validators (hrp_valSet s)" hrp_height hrp_idx
  "hrp_UpdateHeightRound vhash" "hrp_GetProposer vhash" for vhash
proof
  fix s r
  assume inv: "hrp_inv s"
  then show "vs_Validators (hrp_valSet s) \<noteq> []" by (auto simp: hrp_inv_def ok_set_def)
  show "hrp_idx s r = (hrp_idx s 0 + r) mod int (length (vs_Validators (hrp_valSet s)))"
    unfolding hrp_idx_def mod_add_left_eq by (simp add: algebra_simps)
  assume r: "0 \<le> r" "r \<le> MaxInt32"
  obtain s' where s': "hrp_updateScores vhash (hrp_height s) r s = run_ok s'" "hrp_inv s'"
    "vs_Validators (hrp_valSet s') = vs_Validators (hrp_valSet s)" "hrp_height s' = hrp_height s"
    "hrp_idx s' = hrp_idx s" "proposerIndex (hrp_valSet s') = hrp_idx s r"
    by (rule hrp_update_same [OF inv r])
  then show "\<exists>s'. hrp_UpdateHeightRound vhash (hrp_height s) r s = run_ok s' \<and> hrp_inv s'
      \<and> vs_Validators (hrp_valSet s') = vs_Validators (hrp_valSet s)
      \<and> hrp_height s' = hrp_height s \<and> hrp_idx s' = hrp_idx s"
    by (simp add: hrp_UpdateHeightRound_def)
  show "\<exists>s'. hrp_GetProposer vhash (hrp_height s) r s
        = run_ok (s', Some (vs_Validators (hrp_valSet s) ! nat (hrp_idx s r))) \<and> hrp_inv s'
      \<and> vs_Validators (hrp_valSet s') = vs_Validators (hrp_valSet s)
      \<and> hrp_height s' = hrp_height s \<and> hrp_idx s' = hrp_idx s"
    using s' by (auto simp: hrp_GetProposer_def proposer_run_ok hrp_inv_def)
qed

lemma hp_next:
  assumes "hp_inv s" "in_int64 (hp_height s + 1)"
  obtains s' where "hp_updateScores vhash (hp_height s + 1) r s = run_ok s'" "hp_inv s'"
    "vs_Validators (hp_valSet s') = vs_Validators (hp_valSet s)" "hp_height s' = hp_height s + 1"
    "\<And>x. hp_idx s' x = hp_idx s (x + 1)"
proof -
  let ?vs = "hp_valSet s"
  let ?s' = "s\<lparr>hp_valSet := ?vs\<lparr>proposerIndex := hp_idx s 1\<rparr>, hp_height := hp_height s + 1\<rparr>"
  have ok: "ok_set ?vs" using assms(1) by (simp add: hp_inv_def)
  have "inc_run 1 ?vs = run_ok (?vs\<lparr>proposerIndex := hp_idx s 1\<rparr>)"
    unfolding hp_idx_def by (rule inc_run_ok [OF ok]) simp_all
  moreover have "wrap64 1 = 1" by (simp add: in_int64_def)
  ultimately have "hp_updateScores vhash (hp_height s + 1) r s = run_ok ?s'"
    by (simp add: hp_updateScores_def)
  moreover have "hp_idx ?s' x = hp_idx s (x + 1)" for x
    by (simp add: hp_idx_def mod_simps ac_simps)
  moreover have "ok_set (?vs\<lparr>proposerIndex := hp_idx s 1\<rparr>)"
    unfolding hp_idx_def by (rule ok_set_turn [OF ok])
  ultimately show ?thesis by (intro that [of ?s']) (simp_all add: hp_inv_def)
qed

lemma hrp_next:
  assumes "hrp_inv s" "0 \<le> r" "r \<le> MaxInt32"
  obtains s' where "hrp_updateScores vhash (hrp_height s + 1) r s = run_ok s'" "hrp_inv s'"
    "vs_Validators (hrp_valSet s') = vs_Validators (hrp_valSet s)" "hrp_height s' = hrp_height s + 1"
    "proposerIndex (hrp_valSet s') = hrp_idx s (hrp_round s + 1 + r)"
proof -
  let ?vs = "hrp_valSet s" and ?n = "int (length (vs_Validators (hrp_valSet s)))"
  let ?i = "(proposerIndex ?vs + (1 + r)) mod ?n"
  let ?s' = "s\<lparr>hrp_valSet := ?vs\<lparr>proposerIndex := ?i\<rparr>, hrp_height := hrp_height s + 1, hrp_round := r\<rparr>"
  have ok: "ok_set ?vs" using assms(1) by (simp add: hrp_inv_def)
  have "inc_run (1 + r) ?vs = run_ok (?vs\<lparr>proposerIndex := ?i\<rparr>)"
    using assms by (intro inc_run_ok [OF ok]) simp_all
  moreover have "wrap64 1 = 1" by (simp add: in_int64_def)
  ultimately have "hrp_updateScores vhash (hrp_height s + 1) r s = run_ok ?s'"
    by (simp add: hrp_updateScores_def)
  moreover have "proposerIndex (hrp_valSet ?s') = hrp_idx s (hrp_round s + 1 + r)"
    by (simp add: hrp_idx_def algebra_simps)
  moreover have "ok_set (?vs\<lparr>proposerIndex := ?i\<rparr>)" by (rule ok_set_turn [OF ok])
  ultimately show ?thesis using assms by (intro that [of ?s']) (simp_all add: hrp_inv_def)
qed

lemma set_proposer_run_ok:
  assumes "ok_set vals" "h \<in> hashes (vs_Validators vals)"
  obtains i where "set_proposer_run err h vals = run_ok (vals\<lparr>proposerIndex := i\<rparr>)"
    "ok_set (vals\<lparr>proposerIndex := i\<rparr>)" "ProTxHash (vs_Validators vals ! nat i) = h"
proof -
  have len: "int (length (vs_Validators vals)) \<le> MaxInt32" using assms(1) by (simp add: ok_set_def)
  obtain i where i: "GetByProTxHash (Some vals) h = Ret (i, val_lookup (vs_Validators vals) h)"
    "i < 0 \<longleftrightarrow> h \<notin> hashes (vs_Validators vals)"
    "0 \<le> i \<Longrightarrow> GetByIndex (Some vals) i = val_lookup (vs_Validators vals) h"
    using GetByProTxHash_lookup [OF len, of h] by metis
  obtain v where v: "val_lookup (vs_Validators vals) h = Some v" "ProTxHash v = h"
    using assms(2) val_lookup_None_iff val_lookup_SomeD by (metis option.exhaust)
  have "0 \<le> i" using i(2) assms(2) by linarith
  then have g: "GetByIndex (Some vals) i = Some v" using i(3) v(1) by simp
  then have r: "i < int (length (vs_Validators vals))" "vs_Validators vals ! nat i = v"
    by (auto simp: GetByIndex_def split: if_splits)
  show ?thesis
    using that [of i] i(1) \<open>0 \<le> i\<close> r v assms(1) by (simp add: set_proposer_run_def SetProposer_def ok_set_def)
qed

lemma hrp_from_store:
  assumes "ok_set (hrp_valSet s)" "hrp_bs s = Some bs" "1 < height" "LoadBlockMeta bs height = Some meta"
    "ValidatorsHash meta = vhash (hrp_valSet s)"
    "ProposerProTxHash meta \<in> hashes (vs_Validators (hrp_valSet s))"
    "0 \<le> meta_Round meta" "meta_Round meta \<le> MaxInt32" "0 \<le> r" "r \<le> MaxInt32"
  obtains i s' where "hrp_proposerFromStore vhash height r s = run_ok s'"
    "0 \<le> i" "i < int (length (vs_Validators (hrp_valSet s)))"
    "ProTxHash (vs_Validators (hrp_valSet s) ! nat i) = ProposerProTxHash meta"
    "ok_set (hrp_valSet s')" "vs_Validators (hrp_valSet s') = vs_Validators (hrp_valSet s)"
    "proposerIndex (hrp_valSet s')
       = (i + r - meta_Round meta) mod int (length (vs_Validators (hrp_valSet s)))"
proof -
  let ?vs = "hrp_valSet s" and ?n = "int (length (vs_Validators (hrp_valSet s)))"
  let ?d = "r - meta_Round meta"
  have d: "wrap32 ?d = ?d" using assms by (simp add: in_int32_def)
  obtain i where i: "set_proposer_run ErrSetProposer (ProposerProTxHash meta) ?vs
      = run_ok (?vs\<lparr>proposerIndex := i\<rparr>)" "ok_set (?vs\<lparr>proposerIndex := i\<rparr>)"
    "ProTxHash (vs_Validators ?vs ! nat i) = ProposerProTxHash meta"
    by (rule set_proposer_run_ok [OF assms(1,6)])
  have range: "0 \<le> i" "i < ?n" using i(2) by (simp_all add: ok_set_def)
  let ?v' = "?vs\<lparr>proposerIndex := (i + ?d) mod ?n\<rparr>"
  have "(if ?d \<noteq> 0 then inc_run ?d (?vs\<lparr>proposerIndex := i\<rparr>) else run_ok (?vs\<lparr>proposerIndex := i\<rparr>)) = run_ok ?v'"
    using inc_run_ok [OF i(2), of ?d] range assms by auto
  then have "hrp_proposerFromStore vhash height r s = run_ok (s\<lparr>hrp_valSet := ?v'\<rparr>)"
    using assms i(1) d by (simp add: hrp_proposerFromStore_def)
  then show ?thesis
    using i(3) range ok_set_turn [OF i(2), of "i + ?d"]
    by (intro that [of "s\<lparr>hrp_valSet := ?v'\<rparr>" i]) (simp_all add: algebra_simps)
qed

section \<open>Properties\<close>

definition ex_set :: "int \<Rightarrow> ValidatorSet" where
  "ex_set i = mk_set [mk_val 1 100, mk_val 2 100, mk_val 3 100] i"

definition ex_hrp :: heightRoundProposerSelector where
  "ex_hrp = \<lparr>hrp_valSet = ex_set 1, hrp_height = 7, hrp_round = 2, hrp_bs = None\<rparr>"

definition ex_hp :: heightProposerSelector where
  "ex_hp = \<lparr>hp_valSet = ex_set 1, hp_height = 7, hp_bs = None\<rparr>"

lemma ex_inv: "hrp_inv ex_hrp" "hp_inv ex_hp"
  by (simp_all add: hrp_inv_def hp_inv_def ex_hrp_def ex_hp_def ex_set_def mk_set_def ok_set_def)



text \<open>
  C28: Within a height the proposers go around the set: in any window of as many consecutive rounds
  as there are validators, each validator is the proposer of exactly one round. This holds for
  both strategies.
\<close>

theorem proposer_round_robin:
  assumes "0 \<le> r0"
  shows "(hp_inv s \<and> distinct (vs_Validators (hp_valSet s)) \<and> v \<in> set (vs_Validators (hp_valSet s))
      \<and> r0 + int (length (vs_Validators (hp_valSet s))) \<le> MaxInt32 \<longrightarrow>
      (\<exists>!r. r0 \<le> r \<and> r < r0 + int (length (vs_Validators (hp_valSet s)))
         \<and> (\<exists>s'. hp_GetProposer vhash (hp_height s) r s = run_ok (s', Some v))))
    \<and> (hrp_inv t \<and> distinct (vs_Validators (hrp_valSet t)) \<and> v \<in> set (vs_Validators (hrp_valSet t))
      \<and> r0 + int (length (vs_Validators (hrp_valSet t))) \<le> MaxInt32 \<longrightarrow>
      (\<exists>!r. r0 \<le> r \<and> r < r0 + int (length (vs_Validators (hrp_valSet t)))
         \<and> (\<exists>t'. hrp_GetProposer vhash (hrp_height t) r t = run_ok (t', Some v))))"
proof (intro conjI impI; elim conjE)
  assume a: "hp_inv s" "distinct (vs_Validators (hp_valSet s))" "v \<in> set (vs_Validators (hp_valSet s))"
    "r0 + int (length (vs_Validators (hp_valSet s))) \<le> MaxInt32"
  have "(\<exists>s'. hp_GetProposer vhash (hp_height s) r s = run_ok (s', Some v))
      \<longleftrightarrow> vs_Validators (hp_valSet s) ! nat (hp_idx s r) = v"
    if "r0 \<le> r" "r < r0 + int (length (vs_Validators (hp_valSet s)))" for r
    using hp.get_proposer [OF a(1), of r vhash] that assms a(4) by auto
  then show "\<exists>!r. r0 \<le> r \<and> r < r0 + int (length (vs_Validators (hp_valSet s)))
         \<and> (\<exists>s'. hp_GetProposer vhash (hp_height s) r s = run_ok (s', Some v))"
    using hp.round_robin [OF a(1-3), of r0] by (simp cong: conj_cong)
next
  assume a: "hrp_inv t" "distinct (vs_Validators (hrp_valSet t))" "v \<in> set (vs_Validators (hrp_valSet t))"
    "r0 + int (length (vs_Validators (hrp_valSet t))) \<le> MaxInt32"
  have "(\<exists>t'. hrp_GetProposer vhash (hrp_height t) r t = run_ok (t', Some v))
      \<longleftrightarrow> vs_Validators (hrp_valSet t) ! nat (hrp_idx t r) = v"
    if "r0 \<le> r" "r < r0 + int (length (vs_Validators (hrp_valSet t)))" for r
    using hrp.get_proposer [OF a(1), of r vhash] that assms a(4) by auto
  then show "\<exists>!r. r0 \<le> r \<and> r < r0 + int (length (vs_Validators (hrp_valSet t)))
         \<and> (\<exists>t'. hrp_GetProposer vhash (hrp_height t) r t = run_ok (t', Some v))"
    using hrp.round_robin [OF a(1-3), of r0] by (simp cong: conj_cong)
qed

theorem proposer_round_robin_witness:
  "\<exists>!r. 4 \<le> r \<and> r < 4 + int (length (vs_Validators (hp_valSet ex_hp)))
     \<and> (\<exists>s'. hp_GetProposer (\<lambda>_. []) (hp_height ex_hp) r ex_hp = run_ok (s', Some (mk_val 3 100)))"
  using proposer_round_robin [of 4 ex_hp "mk_val 3 100" "\<lambda>_. []" ex_hrp]
  by (simp add: ex_inv) (simp add: ex_hp_def ex_set_def mk_set_def mk_val_def)

text \<open>
  Moving on to the next height. By height, the proposer of round \<open>r\<close> at the next height is the
  proposer of round \<open>r + 1\<close> at this one; by height and round, it is the proposer \<open>r + 1\<close> rounds
  after the last round of this height.
\<close>

theorem proposer_next_height:
  assumes "0 \<le> r" "r < MaxInt32"
  shows "(hp_inv s \<and> in_int64 (hp_height s + 1) \<longrightarrow>
      (\<exists>s1 s2 p. hp_GetProposer vhash (hp_height s + 1) r s = run_ok (s1, Some p)
         \<and> hp_GetProposer vhash (hp_height s) (r + 1) s = run_ok (s2, Some p)))
    \<and> (hrp_inv t \<and> hrp_round t + 1 + r \<le> MaxInt32 \<longrightarrow>
      (\<exists>t1 t2 p. hrp_GetProposer vhash (hrp_height t + 1) r t = run_ok (t1, Some p)
         \<and> hrp_GetProposer vhash (hrp_height t) (hrp_round t + 1 + r) t = run_ok (t2, Some p)))"
proof (intro conjI impI; elim conjE)
  assume a: "hp_inv s" "in_int64 (hp_height s + 1)"
  obtain s' where s': "hp_updateScores vhash (hp_height s + 1) 0 s = run_ok s'" "hp_inv s'"
    "vs_Validators (hp_valSet s') = vs_Validators (hp_valSet s)" "hp_height s' = hp_height s + 1"
    "\<And>x. hp_idx s' x = hp_idx s (x + 1)"
    by (rule hp_next [OF a, of vhash 0]) blast
  have "hp_GetProposer vhash (hp_height s + 1) r s = hp_GetProposer vhash (hp_height s') r s'"
    using s'(1) by (simp add: hp_GetProposer_def hp_update_same)
  then show "\<exists>s1 s2 p. hp_GetProposer vhash (hp_height s + 1) r s = run_ok (s1, Some p)
         \<and> hp_GetProposer vhash (hp_height s) (r + 1) s = run_ok (s2, Some p)"
    using hp_get_same [OF s'(2), of r vhash] hp_get_same [OF a(1), of "r + 1" vhash] assms s'(3,5) by simp
next
  assume a: "hrp_inv t" "hrp_round t + 1 + r \<le> MaxInt32"
  obtain t' where t': "hrp_updateScores vhash (hrp_height t + 1) r t = run_ok t'" "hrp_inv t'"
    "vs_Validators (hrp_valSet t') = vs_Validators (hrp_valSet t)" "hrp_height t' = hrp_height t + 1"
    "proposerIndex (hrp_valSet t') = hrp_idx t (hrp_round t + 1 + r)"
    using hrp_next [OF a(1), of r vhash] assms by (metis less_imp_le)
  moreover have "0 \<le> hrp_round t" using a(1) by (simp add: hrp_inv_def)
  ultimately show "\<exists>t1 t2 p. hrp_GetProposer vhash (hrp_height t + 1) r t = run_ok (t1, Some p)
         \<and> hrp_GetProposer vhash (hrp_height t) (hrp_round t + 1 + r) t = run_ok (t2, Some p)"
    using hrp.get_proposer [OF a(1), of "hrp_round t + 1 + r" vhash] a assms t'(1-3)
    by (auto simp: hrp_GetProposer_def [of vhash "hrp_height t + 1"] proposer_run_ok hrp_inv_def)
qed

theorem proposer_next_height_witness:
  "\<exists>t1 t2 p. hrp_GetProposer (\<lambda>_. []) (hrp_height ex_hrp + 1) 3 ex_hrp = run_ok (t1, Some p)
     \<and> hrp_GetProposer (\<lambda>_. []) (hrp_height ex_hrp) (hrp_round ex_hrp + 1 + 3) ex_hrp = run_ok (t2, Some p)"
  using proposer_next_height [of 3 ex_hp "\<lambda>_. []" ex_hrp] ex_inv
  by (simp add: ex_hrp_def)


definition ex_store :: BlockStore where
  "ex_store = \<lparr>LoadBlockMeta = (\<lambda>h. if h = 5 then Some \<lparr>ValidatorsHash = [], ProposerProTxHash = replicate 32 2,
     meta_Round = 4\<rparr> else None), Base = 1\<rparr>"


text \<open>
  At the first heights the height-round selector ignores the round when it reads the store: a
  selector created at height 1, round 1 has validator 0 as the proposer of round 1, a selector created
  at round 0 and moved to round 1 has validator 1.
\<close>

theorem hrp_genesis_ignores_round:
  "run_bind (NewHeightRoundProposerSelector vhash (ex_set 0) 1 1 (Some ex_store))
     (\<lambda>s. run_bind (hrp_GetProposer vhash 1 1 s) (\<lambda>(_, p). run_ok p)) = run_ok (Some (mk_val 1 100))
   \<and> run_bind (NewHeightRoundProposerSelector vhash (ex_set 0) 1 0 (Some ex_store))
     (\<lambda>s. run_bind (hrp_GetProposer vhash 1 1 s) (\<lambda>(_, p). run_ok p)) = run_ok (Some (mk_val 2 100))"
proof -
  have set: "set_proposer_run ErrDetermineProposer (replicate 32 1) (ex_set 0) = run_ok (ex_set 0)" by code_simp
  have new: "NewHeightRoundProposerSelector vhash (ex_set 0) 1 r (Some ex_store)
      = run_ok \<lparr>hrp_valSet = ex_set 0, hrp_height = 1, hrp_round = r, hrp_bs = Some ex_store\<rparr>" for r
    using set by (simp add: NewHeightRoundProposerSelector_def IsNilOrEmpty_def ex_store_def
        hrp_proposerFromStore_def ex_set_def mk_set_def mk_val_def)
  have turn: "inc_run 1 (ex_set 0) = run_ok (ex_set 1)" 
    by (subst inc_run_ok) (simp_all add: ok_set_def ex_set_def mk_set_def)
  have "proposer_run (ex_set 0) = run_ok (Some (mk_val 1 100))"
    "proposer_run (ex_set 1) = run_ok (Some (mk_val 2 100))" by code_simp+
  moreover have "wrap32 1 = 1" by (simp add: in_int32_def)
  ultimately show ?thesis
    using turn by (simp add: new hrp_GetProposer_def hrp_updateScores_def)
qed

text \<open>
  By height, a quorum rotation makes the second validator the proposer; with a set of one the
  call panics on a nil validator.
\<close>

theorem hp_rotation_single_panics:
  assumes "LoadBlockMeta bs 5 = None" "LoadBlockMeta bs 4 = Some meta" "ValidatorsHash meta \<noteq> vhash vals"
    "length (vs_Validators vals) = 1"
  shows "hp_proposerFromStore vhash 5 \<lparr>hp_valSet = vals, hp_height = 3, hp_bs = Some bs\<rparr> = Some Panic"
  using assms by (simp add: hp_proposerFromStore_def GetByIndex_def in_int64_def)

theorem hp_rotation_single_panics_witness:
  "hp_proposerFromStore (\<lambda>_. [1]) 5 \<lparr>hp_valSet = mk_set [mk_val 1 100] 0, hp_height = 3,
     hp_bs = Some \<lparr>LoadBlockMeta = (\<lambda>h. if h = 4 then Some \<lparr>ValidatorsHash = [2], ProposerProTxHash = [],
       meta_Round = 0\<rparr> else None), Base = 1\<rparr>\<rparr> = Some Panic"
  by (rule hp_rotation_single_panics [where meta = "\<lparr>ValidatorsHash = [2], ProposerProTxHash = [], meta_Round = 0\<rparr>"])
    (simp_all add: mk_set_def)

end
