(* ===== verification/Votes.thy ===== *)
theory Votes
  imports Validators
begin

text \<open>
  Votes and what is signed of them: block identifiers and their map keys
  (\<open>src/types/block.go\<close>, \<open>part_set.go\<close>), vote extensions (\<open>vote_extension.go\<close>), sign items and
  quorum signature verification (\<open>quorum_sign_data.go\<close>), votes (\<open>vote.go\<close>) and the evidence that a
  vote was verified (\<open>vote_verification.go\<close>).

  The record \<open>crypto_lib\<close> collects the code outside the repository: SHA-256, the BLS bindings
  (\<open>BuildSignHash\<close>, digest verification), the generated protobuf encoders of the canonical forms and
  the numbering of quorum types. A verification budget is an interface: its state and its \<open>Allow\<close>
  are parameters.

  Results: the map key of a block identifier determines the identifier for the votes that pass
  \<open>ValidateBasic\<close>; an unauthenticated vote costs one signature check; evidence accepted by
  \<open>checkMatches\<close> stands for a verification of the vote as it is now.
\<close>

section \<open>Definitions\<close>

subsection \<open>Block identifiers\<close>

record PartSetHeader =
  Total :: nat
  psh_Hash :: bytes

record BlockID =
  bid_Hash :: bytes
  bid_PartSetHeader :: PartSetHeader
  StateID :: bytes

abbreviation (input) HashSize :: nat where "HashSize \<equiv> 32"
abbreviation (input) SignatureSize :: nat where "SignatureSize \<equiv> 96"

text \<open>\<open>MaxBlockSizeBytes / BlockPartSizeBytes + 1\<close>\<close>

abbreviation (input) MaxBlockPartsCount :: nat where "MaxBlockPartsCount \<equiv> 1601"

definition ValidateHash :: "bytes \<Rightarrow> bool" where
  "ValidateHash h \<longleftrightarrow> \<not> (length h > 0 \<and> length h \<noteq> HashSize)"

definition psh_IsZero :: "PartSetHeader \<Rightarrow> bool" where
  "psh_IsZero psh \<longleftrightarrow> Total psh = 0 \<and> length (psh_Hash psh) = 0"

definition psh_Equals :: "PartSetHeader \<Rightarrow> PartSetHeader \<Rightarrow> bool" where
  "psh_Equals psh other \<longleftrightarrow> Total psh = Total other \<and> psh_Hash psh = psh_Hash other"

definition psh_ValidateBasic :: "PartSetHeader \<Rightarrow> bool" where
  "psh_ValidateBasic psh \<longleftrightarrow> \<not> Total psh > MaxBlockPartsCount \<and> ValidateHash (psh_Hash psh)"

text \<open>The protobuf encoding of a part set header: base-128 numbers, fields 1 and 2 if not zero.\<close>

fun encodeVarint :: "nat \<Rightarrow> bytes" where
  "encodeVarint v = (if v \<ge> 128 then word_of_nat (v mod 128 + 128) # encodeVarint (v div 128)
                     else [word_of_nat v])"

declare encodeVarint.simps [simp del]

definition psh_Marshal :: "PartSetHeader \<Rightarrow> bytes" where
  "psh_Marshal m =
     (if Total m \<noteq> 0 then 8 # encodeVarint (Total m) else [])
     @ (if length (psh_Hash m) > 0 then 18 # encodeVarint (length (psh_Hash m)) @ psh_Hash m else [])"

definition BlockID_Equals :: "BlockID \<Rightarrow> BlockID \<Rightarrow> bool" where
  "BlockID_Equals b other \<longleftrightarrow> bid_Hash b = bid_Hash other
     \<and> psh_Equals (bid_PartSetHeader b) (bid_PartSetHeader other) \<and> StateID b = StateID other"

definition BlockID_Key :: "BlockID \<Rightarrow> bytes" where
  "BlockID_Key b = bid_Hash b @ psh_Marshal (bid_PartSetHeader b) @ StateID b"

definition BlockID_ValidateBasic :: "BlockID \<Rightarrow> bool" where
  "BlockID_ValidateBasic b \<longleftrightarrow>
     ValidateHash (bid_Hash b) \<and> psh_ValidateBasic (bid_PartSetHeader b)
     \<and> \<not> (length (bid_Hash b) \<noteq> 0 \<and> length (StateID b) \<noteq> HashSize)"

definition BlockID_IsNil :: "BlockID \<Rightarrow> bool" where
  "BlockID_IsNil b \<longleftrightarrow>
     length (bid_Hash b) = 0 \<and> psh_IsZero (bid_PartSetHeader b) \<and> length (StateID b) = 0"

definition BlockID_IsComplete :: "BlockID \<Rightarrow> bool" where
  "BlockID_IsComplete b \<longleftrightarrow>
     length (bid_Hash b) = HashSize \<and> Total (bid_PartSetHeader b) > 0
     \<and> length (psh_Hash (bid_PartSetHeader b)) = HashSize \<and> length (StateID b) = HashSize"

subsection \<open>Votes\<close>

datatype SignedMsgType = UnknownType | PrevoteType | PrecommitType | ProposalType

definition IsVoteTypeValid :: "SignedMsgType \<Rightarrow> bool" where
  "IsVoteTypeValid t \<longleftrightarrow> t = PrevoteType \<or> t = PrecommitType"

datatype VoteExtensionType = VE_DEFAULT | VE_THRESHOLD_RECOVER | VE_THRESHOLD_RECOVER_RAW

text \<open>
  One record for the three extension types. \<open>ve_SignRequestId\<close> is \<open>None\<close> where the optional field has
  size zero; the conversions to and from protobuf keep all four fields.
\<close>

record VoteExtension =
  ve_Type :: VoteExtensionType
  ve_Extension :: bytes
  ve_Signature :: bytes
  ve_SignRequestId :: "bytes option"

record Vote =
  vote_Type :: SignedMsgType
  vote_Height :: int
  vote_Round :: int
  vote_BlockID :: BlockID
  ValidatorProTxHash :: bytes
  ValidatorIndex :: int
  BlockSignature :: bytes
  VoteExtensions :: "VoteExtension list"

datatype vote_error =
    ErrVoteUnexpectedStep | ErrVoteInvalidValidatorIndex | ErrVoteInvalidValidatorProTxHash
  | ErrVoteNonDeterministicSignature | ErrVoteNil | ErrVoteInvalidExtension
  | ErrVoteInvalidValidatorPubKeySize | ErrVoteMissingValidatorPubKey | ErrVoteInvalidBlockSignature
  | ErrVoteExtensionSignature nat | ErrVoteExtensionCountMismatch | ErrTooManyVoteExtensions
  | ErrVerificationBudgetExhausted | ErrVoteVerificationMismatch | ErrSignItem
  | ErrInvalidVoteSignature vote_error | ErrVoteExtensionIdentity vote_error
  | ErrConflictingVotes Vote Vote

definition IsThresholdRecoverable :: "VoteExtension \<Rightarrow> bool" where
  "IsThresholdRecoverable e \<longleftrightarrow> ve_Type e \<noteq> VE_DEFAULT"

definition recoverable_exts :: "Vote \<Rightarrow> VoteExtension list" where
  "recoverable_exts vote = filter IsThresholdRecoverable (VoteExtensions vote)"

definition GetSignatures :: "VoteExtension list \<Rightarrow> bytes list" where
  "GetSignatures es = map ve_Signature es"

text \<open>The two prefixes are \<open>"\x06plwdtx"\<close> and \<open>"dpevote"\<close>.\<close>

definition has_prefix :: "bytes \<Rightarrow> bytes \<Rightarrow> bool" where
  "has_prefix b p \<longleftrightarrow> take (length p) b = p"

definition dpevote :: bytes where "dpevote = [100, 112, 101, 118, 111, 116, 101]"
definition dpbvote :: bytes where "dpbvote = [100, 112, 98, 118, 111, 116, 101]"
definition plwdtx :: bytes where "plwdtx = [6, 112, 108, 119, 100, 116, 120]"

definition VoteExtension_Validate :: "VoteExtension \<Rightarrow> bool" where
  "VoteExtension_Validate v \<longleftrightarrow>
     ve_Type v \<noteq> VE_DEFAULT
     \<and> \<not> (ve_Type v = VE_THRESHOLD_RECOVER_RAW \<and> length (ve_Extension v) \<noteq> HashSize)
     \<and> \<not> (length (ve_Extension v) > 0 \<and> length (ve_Signature v) = 0)
     \<and> \<not> length (ve_Signature v) > SignatureSize
     \<and> (case ve_SignRequestId v of
          None \<Rightarrow> True
        | Some requestID \<Rightarrow> ve_Type v = VE_THRESHOLD_RECOVER_RAW
            \<and> (has_prefix requestID plwdtx \<or> has_prefix requestID dpevote))"

definition VoteExtensions_Validate :: "VoteExtension list \<Rightarrow> bool" where
  "VoteExtensions_Validate es \<longleftrightarrow> list_all VoteExtension_Validate es"

definition Vote_ValidateBasic :: "Vote \<Rightarrow> bool" where
  "Vote_ValidateBasic vote \<longleftrightarrow>
     IsVoteTypeValid (vote_Type vote)
     \<and> \<not> vote_Height vote < 0
     \<and> \<not> vote_Round vote < 0
     \<and> BlockID_ValidateBasic (vote_BlockID vote)
     \<and> (BlockID_IsNil (vote_BlockID vote) \<or> BlockID_IsComplete (vote_BlockID vote))
     \<and> length (ValidatorProTxHash vote) = DefaultHashSize
     \<and> \<not> ValidatorIndex vote < 0
     \<and> length (BlockSignature vote) \<noteq> 0
     \<and> \<not> length (BlockSignature vote) > SignatureSize
     \<and> (vote_Type vote \<noteq> PrecommitType \<or> BlockID_IsNil (vote_BlockID vote) \<longrightarrow> VoteExtensions vote = [])
     \<and> (vote_Type vote = PrecommitType \<and> \<not> BlockID_IsNil (vote_BlockID vote)
          \<longrightarrow> VoteExtensions_Validate (VoteExtensions vote))"

definition ValidateWithExtension :: "Vote \<Rightarrow> bool" where
  "ValidateWithExtension vote \<longleftrightarrow>
     Vote_ValidateBasic vote
     \<and> (vote_Type vote = PrecommitType \<longrightarrow> VoteExtensions_Validate (VoteExtensions vote))"

definition verifyBasic :: "Vote \<Rightarrow> bytes \<Rightarrow> bytes option \<Rightarrow> vote_error + unit" where
  "verifyBasic vote proTxHash pubKey =
     (if proTxHash \<noteq> ValidatorProTxHash vote then Inl ErrVoteInvalidValidatorProTxHash
      else case pubKey of
             None \<Rightarrow> Inl ErrVoteMissingValidatorPubKey
           | Some k \<Rightarrow>
               if length k \<noteq> PubKeySize then Inl ErrVoteInvalidValidatorPubKeySize
               else if vote_Type vote \<noteq> PrecommitType \<and> length (VoteExtensions vote) > 0
                    then Inl ErrVoteInvalidExtension
               else Inr ())"

subsection \<open>Sign items\<close>

record crypto_lib =
  Checksum :: "bytes \<Rightarrow> bytes"
  BuildSignHash :: "int \<Rightarrow> bytes \<Rightarrow> bytes \<Rightarrow> bytes \<Rightarrow> bytes"
  VerifySignatureDigest :: "bytes \<Rightarrow> bytes \<Rightarrow> bytes \<Rightarrow> bool"
  vote_SignBytes :: "string \<Rightarrow> Vote \<Rightarrow> bytes"
  ext_canonical :: "string \<Rightarrow> VoteExtension \<Rightarrow> int \<Rightarrow> int \<Rightarrow> bytes option"
  llmq_num :: "LLMQType \<Rightarrow> int"

record SignItem =
  LlmqType :: LLMQType
  si_ID :: bytes
  MsgHash :: bytes
  si_QuorumHash :: bytes
  SignHash :: bytes
  Msg :: bytes

fun le_bytes :: "nat \<Rightarrow> int \<Rightarrow> bytes" where
  "le_bytes 0 v = []"
| "le_bytes (Suc n) v = word_of_int v # le_bytes n (v div 256)"

definition heightRoundRequestID :: "crypto_lib \<Rightarrow> bytes \<Rightarrow> int \<Rightarrow> int \<Rightarrow> bytes" where
  "heightRoundRequestID cl prefix height round =
     Checksum cl (prefix @ le_bytes 8 (conv TUint64 height) @ le_bytes 4 (conv TUint32 round))"

definition BlockRequestID :: "crypto_lib \<Rightarrow> int \<Rightarrow> int \<Rightarrow> bytes" where
  "BlockRequestID cl height round = heightRoundRequestID cl dpbvote height round"

definition voteExtensionRequestID :: "crypto_lib \<Rightarrow> int \<Rightarrow> int \<Rightarrow> bytes" where
  "voteExtensionRequestID cl height round = heightRoundRequestID cl dpevote height round"

definition SignItem_Validate :: "crypto_lib \<Rightarrow> SignItem \<Rightarrow> bool" where
  "SignItem_Validate cl i \<longleftrightarrow>
     length (si_ID i) = DefaultHashSize \<and> length (MsgHash i) = DefaultHashSize
     \<and> length (si_QuorumHash i) = HashSize
     \<and> (length (Msg i) > 0 \<longrightarrow> Checksum cl (Msg i) = MsgHash i)"

definition UpdateSignHash :: "crypto_lib \<Rightarrow> bool \<Rightarrow> SignItem \<Rightarrow> SignItem exec" where
  "UpdateSignHash cl reverse i =
     (if \<not> SignItem_Validate cl i then Panic
      else let f = (if reverse then rev else id)
           in exec_bind (MustConvert TInt32 TUint8 (llmq_num cl (LlmqType i))) (\<lambda>t.
                Ret (i\<lparr>SignHash := BuildSignHash cl t (f (si_QuorumHash i)) (f (si_ID i)) (f (MsgHash i))\<rparr>)))"

definition NewSignItemFromHash ::
  "crypto_lib \<Rightarrow> LLMQType \<Rightarrow> bytes \<Rightarrow> bytes \<Rightarrow> bytes \<Rightarrow> SignItem exec" where
  "NewSignItemFromHash cl quorumType quorumHash reqID msgHash =
     UpdateSignHash cl True \<lparr>LlmqType = quorumType, si_ID = reqID, MsgHash = msgHash,
       si_QuorumHash = quorumHash, SignHash = [], Msg = []\<rparr>"

definition NewSignItem :: "crypto_lib \<Rightarrow> LLMQType \<Rightarrow> bytes \<Rightarrow> bytes \<Rightarrow> bytes \<Rightarrow> SignItem exec" where
  "NewSignItem cl quorumType quorumHash reqID msg =
     exec_bind (NewSignItemFromHash cl quorumType quorumHash reqID (Checksum cl msg)) (\<lambda>item.
       Ret (item\<lparr>Msg := msg\<rparr>))"

definition MakeBlockSignItem ::
  "crypto_lib \<Rightarrow> string \<Rightarrow> Vote \<Rightarrow> LLMQType \<Rightarrow> bytes \<Rightarrow> SignItem exec" where
  "MakeBlockSignItem cl chainID vote quorumType quorumHash =
     NewSignItem cl quorumType quorumHash (BlockRequestID cl (vote_Height vote) (vote_Round vote))
       (vote_SignBytes cl chainID vote)"

text \<open>
  \<open>GenericVoteExtension.SignItem\<close>, shared by the first two types, and
  \<open>ThresholdRawVoteExtension.SignItem\<close>.
\<close>

definition Generic_SignItem ::
  "crypto_lib \<Rightarrow> VoteExtension \<Rightarrow> string \<Rightarrow> int \<Rightarrow> int \<Rightarrow> LLMQType \<Rightarrow> bytes \<Rightarrow> (vote_error + SignItem) exec" where
  "Generic_SignItem cl e chainID height round quorumType quorumHash =
     (case ext_canonical cl chainID e height round of
        None \<Rightarrow> Ret (Inl ErrSignItem)
      | Some signBytes \<Rightarrow>
          exec_bind (NewSignItem cl quorumType quorumHash (voteExtensionRequestID cl height round) signBytes)
            (\<lambda>si. Ret (Inr si)))"

definition Raw_SignItem ::
  "crypto_lib \<Rightarrow> VoteExtension \<Rightarrow> int \<Rightarrow> int \<Rightarrow> LLMQType \<Rightarrow> bytes \<Rightarrow> (vote_error + SignItem) exec" where
  "Raw_SignItem cl e height round quorumType quorumHash =
     (let signRequestID = (case ve_SignRequestId e of
            Some receivedReqID \<Rightarrow> rev (Checksum cl (Checksum cl receivedReqID))
          | None \<Rightarrow> voteExtensionRequestID cl height round)
      in if length (ve_Extension e) \<noteq> DefaultHashSize then Ret (Inl ErrSignItem)
         else exec_bind (NewSignItemFromHash cl quorumType quorumHash signRequestID (rev (ve_Extension e)))
                (\<lambda>si. Ret (Inr si)))"

definition ext_SignItem ::
  "crypto_lib \<Rightarrow> VoteExtension \<Rightarrow> string \<Rightarrow> int \<Rightarrow> int \<Rightarrow> LLMQType \<Rightarrow> bytes \<Rightarrow> (vote_error + SignItem) exec" where
  "ext_SignItem cl e chainID height round quorumType quorumHash =
     (case ve_Type e of
        VE_THRESHOLD_RECOVER_RAW \<Rightarrow> Raw_SignItem cl e height round quorumType quorumHash
      | _ \<Rightarrow> Generic_SignItem cl e chainID height round quorumType quorumHash)"

fun SignItems ::
  "crypto_lib \<Rightarrow> VoteExtension list \<Rightarrow> string \<Rightarrow> LLMQType \<Rightarrow> bytes \<Rightarrow> int \<Rightarrow> int
   \<Rightarrow> (vote_error + SignItem list) exec" where
  "SignItems cl [] chainID quorumType quorumHash height round = Ret (Inr [])"
| "SignItems cl (e # es) chainID quorumType quorumHash height round =
     try_bind (ext_SignItem cl e chainID height round quorumType quorumHash) (\<lambda>item.
     try_bind (SignItems cl es chainID quorumType quorumHash height round) (\<lambda>items.
       Ret (Inr (item # items))))"

record QuorumSignData =
  qsd_Block :: SignItem
  VoteExtensionSignItems :: "SignItem list"

record QuorumSigns =
  BlockSign :: bytes
  VoteExtensionSignatures :: "bytes list"

definition MakeQuorumSigns ::
  "crypto_lib \<Rightarrow> string \<Rightarrow> LLMQType \<Rightarrow> bytes \<Rightarrow> Vote \<Rightarrow> (vote_error + QuorumSignData) exec" where
  "MakeQuorumSigns cl chainID quorumType quorumHash vote =
     exec_bind (MakeBlockSignItem cl chainID vote quorumType quorumHash) (\<lambda>block.
     try_bind (SignItems cl (recoverable_exts vote) chainID quorumType quorumHash
                 (vote_Height vote) (vote_Round vote)) (\<lambda>items.
       Ret (Inr \<lparr>qsd_Block = block, VoteExtensionSignItems = items\<rparr>)))"

abbreviation (input) MaxVoteExtensions :: nat where "MaxVoteExtensions \<equiv> 32"

definition makeVerifyQuorumSigns ::
  "crypto_lib \<Rightarrow> string \<Rightarrow> LLMQType \<Rightarrow> bytes \<Rightarrow> Vote \<Rightarrow> (vote_error + QuorumSignData) exec" where
  "makeVerifyQuorumSigns cl chainID quorumType quorumHash vote =
     (if length (VoteExtensions vote) > MaxVoteExtensions then Ret (Inl ErrTooManyVoteExtensions)
      else MakeQuorumSigns cl chainID quorumType quorumHash vote)"

subsection \<open>Verification\<close>

definition VerifySignature :: "crypto_lib \<Rightarrow> SignItem \<Rightarrow> bytes \<Rightarrow> bytes \<Rightarrow> bool" where
  "VerifySignature cl i pubkey sig = VerifySignatureDigest cl pubkey (SignHash i) sig"

definition VerifyBlock :: "crypto_lib \<Rightarrow> QuorumSignData \<Rightarrow> bytes \<Rightarrow> QuorumSigns \<Rightarrow> vote_error + unit" where
  "VerifyBlock cl q pubKey signatures =
     (if \<not> VerifySignature cl (qsd_Block q) pubKey (BlockSign signatures)
      then Inl ErrVoteInvalidBlockSignature else Inr ())"

definition validateVoteExtensionCount :: "QuorumSignData \<Rightarrow> QuorumSigns \<Rightarrow> vote_error + unit" where
  "validateVoteExtensionCount q signatures =
     (if length (VoteExtensionSignItems q) \<noteq> length (VoteExtensionSignatures signatures)
      then Inl ErrVoteExtensionCountMismatch else Inr ())"

fun verify_exts :: "crypto_lib \<Rightarrow> bytes \<Rightarrow> nat \<Rightarrow> SignItem list \<Rightarrow> bytes list \<Rightarrow> vote_error + unit" where
  "verify_exts cl pubKey i (item # items) (sig # sigs) =
     (if \<not> VerifySignature cl item pubKey sig then Inl (ErrVoteExtensionSignature i)
      else verify_exts cl pubKey (Suc i) items sigs)"
| "verify_exts cl pubKey i _ _ = Inr ()"

definition VerifyVoteExtensions ::
  "crypto_lib \<Rightarrow> QuorumSignData \<Rightarrow> bytes \<Rightarrow> QuorumSigns \<Rightarrow> vote_error + unit" where
  "VerifyVoteExtensions cl q pubKey signatures =
     res_bind (validateVoteExtensionCount q signatures) (\<lambda>_.
       verify_exts cl pubKey 0 (VoteExtensionSignItems q) (VoteExtensionSignatures signatures))"

text \<open>
  A budget that is not nil is its \<open>Allow\<close> together with its state, threaded through the calls.
\<close>

type_synonym 'b budget = "(nat \<Rightarrow> 'b \<Rightarrow> bool \<times> 'b) option"

definition allow :: "'b budget \<Rightarrow> nat \<Rightarrow> 'b \<Rightarrow> bool \<times> 'b" where
  "allow budget cost b = (case budget of None \<Rightarrow> (True, b) | Some al \<Rightarrow> al cost b)"

definition qsd_verify ::
  "crypto_lib \<Rightarrow> QuorumSignData \<Rightarrow> bytes \<Rightarrow> QuorumSigns \<Rightarrow> 'b budget \<Rightarrow> 'b
   \<Rightarrow> (vote_error + unit) \<times> 'b" where
  "qsd_verify cl q pubKey signatures budget b =
     (let (ok, b) = allow budget 1 b
      in if \<not> ok then (Inl ErrVerificationBudgetExhausted, b)
         else case res_bind (VerifyBlock cl q pubKey signatures) (\<lambda>_. validateVoteExtensionCount q signatures) of
                Inl e \<Rightarrow> (Inl e, b)
              | Inr _ \<Rightarrow>
                  let cost = length (VoteExtensionSignItems q);
                      (ok, b) = (if cost > 0 then allow budget cost b else (True, b))
                  in if \<not> ok then (Inl ErrVerificationBudgetExhausted, b)
                     else (VerifyVoteExtensions cl q pubKey signatures, b))"

definition vote_makeQuorumSigns :: "Vote \<Rightarrow> QuorumSigns" where
  "vote_makeQuorumSigns vote =
     \<lparr>BlockSign = BlockSignature vote, VoteExtensionSignatures = GetSignatures (recoverable_exts vote)\<rparr>"

text \<open>The key is not nil once \<open>verifyBasic\<close> has succeeded.\<close>

definition verifyReportingSigns ::
  "crypto_lib \<Rightarrow> Vote \<Rightarrow> string \<Rightarrow> LLMQType \<Rightarrow> bytes \<Rightarrow> bytes option \<Rightarrow> bytes \<Rightarrow> 'b budget \<Rightarrow> 'b
   \<Rightarrow> ((vote_error + QuorumSignData \<times> QuorumSigns) \<times> 'b) exec" where
  "verifyReportingSigns cl vote chainID quorumType quorumHash pubKey proTxHash budget b =
     exec_bind (makeVerifyQuorumSigns cl chainID quorumType quorumHash vote) (\<lambda>r.
       Ret (case r of
              Inl e \<Rightarrow> (Inl e, b)
            | Inr q \<Rightarrow>
                (case verifyBasic vote proTxHash pubKey of
                   Inl e \<Rightarrow> (Inl e, b)
                 | Inr _ \<Rightarrow>
                     let signs = vote_makeQuorumSigns vote;
                         (v, b) = qsd_verify cl q (the pubKey) signs budget b
                     in (case v of Inl e \<Rightarrow> Inl e | Inr _ \<Rightarrow> Inr (q, signs), b))))"

definition Vote_verify ::
  "crypto_lib \<Rightarrow> Vote \<Rightarrow> string \<Rightarrow> LLMQType \<Rightarrow> bytes \<Rightarrow> bytes option \<Rightarrow> bytes \<Rightarrow> 'b budget \<Rightarrow> 'b
   \<Rightarrow> ((vote_error + unit) \<times> 'b) exec" where
  "Vote_verify cl vote chainID quorumType quorumHash pubKey proTxHash budget b =
     exec_bind (verifyReportingSigns cl vote chainID quorumType quorumHash pubKey proTxHash budget b)
       (\<lambda>(r, b). Ret (res_bind r (\<lambda>_. Inr ()), b))"

definition Vote_Verify ::
  "crypto_lib \<Rightarrow> Vote \<Rightarrow> string \<Rightarrow> LLMQType \<Rightarrow> bytes \<Rightarrow> bytes option \<Rightarrow> bytes \<Rightarrow> (vote_error + unit) exec" where
  "Vote_Verify cl vote chainID quorumType quorumHash pubKey proTxHash =
     exec_bind (Vote_verify cl vote chainID quorumType quorumHash pubKey proTxHash (None :: unit budget) ())
       (\<lambda>(r, _). Ret r)"

definition VerifyExtensionSign ::
  "crypto_lib \<Rightarrow> Vote \<Rightarrow> string \<Rightarrow> bytes \<Rightarrow> LLMQType \<Rightarrow> bytes \<Rightarrow> (vote_error + unit) exec" where
  "VerifyExtensionSign cl vote chainID pubKey quorumType quorumHash =
     (if vote_Type vote \<noteq> PrecommitType \<or> BlockID_IsNil (vote_BlockID vote) then Ret (Inr ())
      else try_bind (makeVerifyQuorumSigns cl chainID quorumType quorumHash vote) (\<lambda>q.
             Ret (VerifyVoteExtensions cl q pubKey (vote_makeQuorumSigns vote))))"

definition verifyBlockAndExtensionSigns ::
  "crypto_lib \<Rightarrow> Vote \<Rightarrow> string \<Rightarrow> bytes \<Rightarrow> LLMQType \<Rightarrow> bytes \<Rightarrow> 'b budget \<Rightarrow> 'b
   \<Rightarrow> ((vote_error + unit) \<times> 'b) exec" where
  "verifyBlockAndExtensionSigns cl vote chainID pubKey quorumType quorumHash budget b =
     (if vote_Type vote \<noteq> PrecommitType \<or> BlockID_IsNil (vote_BlockID vote) then Ret (Inr (), b)
      else exec_bind (makeVerifyQuorumSigns cl chainID quorumType quorumHash vote) (\<lambda>r.
             Ret (case r of
                    Inl e \<Rightarrow> (Inl e, b)
                  | Inr q \<Rightarrow> qsd_verify cl q pubKey (vote_makeQuorumSigns vote) budget b)))"

subsection \<open>Evidence of verification\<close>

text \<open>
  \<open>vv_vote\<close> is the address of the vote the evidence was made for, \<open>None\<close> in the zero value. All keys
  of the model have one Go type, so \<open>pubKeyType\<close> is left out.
\<close>

record VoteVerification =
  vv_vote :: "nat option"
  vv_chainID :: string
  vv_quorumType :: LLMQType
  vv_quorumHash :: bytes
  vv_proTxHash :: bytes
  vv_pubKeyBytes :: bytes
  vv_signHashes :: "bytes list"
  vv_signatures :: "bytes list"

definition signedContent :: "QuorumSignData \<Rightarrow> QuorumSigns \<Rightarrow> bytes list \<times> bytes list" where
  "signedContent signData signs =
     (SignHash (qsd_Block signData) # map SignHash (VoteExtensionSignItems signData),
      BlockSign signs # VoteExtensionSignatures signs)"

definition VerifyVoteSignatures ::
  "crypto_lib \<Rightarrow> nat \<Rightarrow> Vote \<Rightarrow> string \<Rightarrow> LLMQType \<Rightarrow> bytes \<Rightarrow> bytes option \<Rightarrow> bytes \<Rightarrow> 'b budget \<Rightarrow> 'b
   \<Rightarrow> ((vote_error + VoteVerification) \<times> 'b) exec" where
  "VerifyVoteSignatures cl addr vote chainID quorumType quorumHash pubKey proTxHash budget b =
     exec_bind (verifyReportingSigns cl vote chainID quorumType quorumHash pubKey proTxHash budget b)
       (\<lambda>(r, b). Ret (res_bind r (\<lambda>(signData, signs).
          let (signHashes, signatures) = signedContent signData signs
          in Inr \<lparr>vv_vote = Some addr, vv_chainID = chainID, vv_quorumType = quorumType,
                  vv_quorumHash = quorumHash, vv_proTxHash = proTxHash, vv_pubKeyBytes = the pubKey,
                  vv_signHashes = signHashes, vv_signatures = signatures\<rparr>), b))"

definition checkMatches ::
  "crypto_lib \<Rightarrow> VoteVerification \<Rightarrow> nat \<Rightarrow> Vote \<Rightarrow> string \<Rightarrow> LLMQType \<Rightarrow> bytes \<Rightarrow> bytes option \<Rightarrow> bytes
   \<Rightarrow> (vote_error + unit) exec" where
  "checkMatches cl v addr vote chainID quorumType quorumHash pubKey proTxHash =
     (if vv_vote v = None \<or> vv_vote v \<noteq> Some addr \<or> vv_chainID v \<noteq> chainID \<or> vv_quorumType v \<noteq> quorumType
         \<or> vv_quorumHash v \<noteq> quorumHash \<or> pubKey = None \<or> Some (vv_pubKeyBytes v) \<noteq> pubKey
         \<or> vv_proTxHash v \<noteq> proTxHash
      then Ret (Inl ErrVoteVerificationMismatch)
      else case verifyBasic vote proTxHash pubKey of
             Inl _ \<Rightarrow> Ret (Inl ErrVoteVerificationMismatch)
           | Inr _ \<Rightarrow>
               exec_bind (makeVerifyQuorumSigns cl chainID quorumType quorumHash vote) (\<lambda>r.
                 Ret (case r of
                        Inl _ \<Rightarrow> Inl ErrVoteVerificationMismatch
                      | Inr signData \<Rightarrow>
                          let (signHashes, signatures) = signedContent signData (vote_makeQuorumSigns vote)
                          in if vv_signHashes v \<noteq> signHashes then Inl ErrVoteVerificationMismatch
                             else if vv_signatures v \<noteq> signatures then Inl ErrVoteVerificationMismatch
                             else Inr ())))"

section \<open>Keys of block identifiers\<close>

lemma unat_byte: "x < 256 \<Longrightarrow> unat (word_of_nat x :: 8 word) = x"
  by (simp add: unsigned_of_nat take_bit_nat_def)

lemma encodeVarint_inj: "encodeVarint v = encodeVarint w \<Longrightarrow> v = w"
proof (induction v arbitrary: w rule: less_induct)
  case (less v)
  have low: "unat (word_of_nat (x mod 128 + 128) :: 8 word) = x mod 128 + 128" for x
    by (rule unat_byte) simp
  have small: "unat (word_of_nat x :: 8 word) = x" if "x < 128" for x
    using that by (intro unat_byte) simp
  show ?case
  proof (cases "v \<ge> 128"; cases "w \<ge> 128")
    assume v: "v \<ge> 128" and w: "w \<ge> 128"
    then have eq: "word_of_nat (v mod 128 + 128) = (word_of_nat (w mod 128 + 128) :: 8 word)"
      "encodeVarint (v div 128) = encodeVarint (w div 128)"
      using less.prems by (simp_all add: encodeVarint.simps [of v] encodeVarint.simps [of w])
    have "v div 128 = w div 128" using v eq(2) by (intro less.IH) auto
    moreover have "v mod 128 = w mod 128" using low [of v] low [of w] eq(1) by (metis add_right_cancel)
    ultimately show ?thesis by (metis div_mult_mod_eq)
  next
    assume v: "v \<ge> 128" and w: "\<not> w \<ge> 128"
    then have "(word_of_nat (v mod 128 + 128) :: 8 word) = word_of_nat w"
      using less.prems by (simp add: encodeVarint.simps [of v] encodeVarint.simps [of w])
    then show ?thesis using low [of v] small [of w] w by (metis linorder_not_le not_add_less2)
  next
    assume v: "\<not> v \<ge> 128" and w: "w \<ge> 128"
    then have "(word_of_nat v :: 8 word) = word_of_nat (w mod 128 + 128)"
      using less.prems by (simp add: encodeVarint.simps [of v] encodeVarint.simps [of w])
    then show ?thesis using low [of w] small [of v] v by (metis linorder_not_le not_add_less2)
  next
    assume v: "\<not> v \<ge> 128" and w: "\<not> w \<ge> 128"
    then have "(word_of_nat v :: 8 word) = word_of_nat w"
      using less.prems by (simp add: encodeVarint.simps [of v] encodeVarint.simps [of w])
    then show ?thesis using small [of v] small [of w] v w by (metis linorder_not_le)
  qed
qed

lemma Key_complete:
  assumes "BlockID_IsComplete b"
  shows "BlockID_Key b = bid_Hash b @ (8 # encodeVarint (Total (bid_PartSetHeader b)))
     @ (18 # encodeVarint 32 @ psh_Hash (bid_PartSetHeader b)) @ StateID b"
  using assms by (simp add: BlockID_Key_def psh_Marshal_def BlockID_IsComplete_def)

lemma Key_nil: "BlockID_IsNil b \<Longrightarrow> BlockID_Key b = []"
  by (simp add: BlockID_Key_def BlockID_IsNil_def psh_IsZero_def psh_Marshal_def)

lemma complete_Key_inj:
  fixes a b :: BlockID
  assumes "BlockID_IsComplete a" "BlockID_IsComplete b" "BlockID_Key a = BlockID_Key b"
  shows "a = b"
proof -
  let ?pa = "bid_PartSetHeader a" and ?pb = "bid_PartSetHeader b"
  let ?ta = "8 # encodeVarint (Total ?pa)" and ?tb = "8 # encodeVarint (Total ?pb)"
  let ?ra = "(18 # encodeVarint 32 @ psh_Hash ?pa) @ StateID a"
  let ?rb = "(18 # encodeVarint 32 @ psh_Hash ?pb) @ StateID b"
  have len: "length (bid_Hash a) = length (bid_Hash b)" "length ?ra = length ?rb"
    "length (psh_Hash ?pa) = length (psh_Hash ?pb)"
    using assms(1,2) by (simp_all add: BlockID_IsComplete_def)
  have "bid_Hash a @ ?ta @ ?ra = bid_Hash b @ ?tb @ ?rb"
    using assms by (simp add: Key_complete)
  then have "bid_Hash a = bid_Hash b" "?ta @ ?ra = ?tb @ ?rb" using len(1) by (auto simp: append_eq_append_conv)
  moreover from this(2) have "?ta = ?tb" "?ra = ?rb"
    using len(2) by (metis append_eq_append_conv)+
  moreover from this(2) have "psh_Hash ?pa = psh_Hash ?pb" "StateID a = StateID b"
    using len(3) by (auto simp: append_eq_append_conv)
  moreover have "Total ?pa = Total ?pb" using calculation(3) encodeVarint_inj by blast
  ultimately show ?thesis by (intro BlockID.equality PartSetHeader.equality) simp_all
qed

lemma valid_Key_inj:
  fixes a b :: BlockID
  assumes "BlockID_IsNil a \<or> BlockID_IsComplete a" "BlockID_IsNil b \<or> BlockID_IsComplete b"
    "BlockID_Key a = BlockID_Key b"
  shows "a = b"
proof -
  have ne: "BlockID_Key x \<noteq> []" if "BlockID_IsComplete x" for x
    using that by (simp add: Key_complete)
  have nil: "x = y" if "BlockID_IsNil x" "BlockID_IsNil y" for x y :: BlockID
    using that by (intro BlockID.equality PartSetHeader.equality)
      (simp_all add: BlockID_IsNil_def psh_IsZero_def)
  show ?thesis using assms ne Key_nil nil complete_Key_inj by metis
qed

lemma Equals_Key: "BlockID_Equals a b \<Longrightarrow> BlockID_Key a = BlockID_Key b"
  by (simp add: BlockID_Equals_def BlockID_Key_def psh_Marshal_def psh_Equals_def)

lemma Equals_iff: "BlockID_Equals a b \<longleftrightarrow> a = b" for a b :: BlockID
  by (cases a; cases b; cases "bid_PartSetHeader a"; cases "bid_PartSetHeader b")
    (auto simp: BlockID_Equals_def psh_Equals_def)

section \<open>Signature verification\<close>

lemma verify_exts_iff:
  "length items = length sigs \<Longrightarrow> verify_exts cl pk i items sigs = Inr ()
     \<longleftrightarrow> list_all2 (VerifySignatureDigest cl pk) (map SignHash items) sigs"
  by (induction cl pk i items sigs rule: verify_exts.induct)
    (auto simp: VerifySignature_def)

lemma qsd_verify_iff:
  "fst (qsd_verify cl q pk signs (None :: unit budget) ()) = Inr ()
   \<longleftrightarrow> list_all2 (VerifySignatureDigest cl pk) (fst (signedContent q signs)) (snd (signedContent q signs))"
  by (auto simp: qsd_verify_def allow_def VerifyBlock_def VerifyVoteExtensions_def
      validateVoteExtensionCount_def signedContent_def VerifySignature_def verify_exts_iff
      split: sum.splits dest: list_all2_lengthD)

lemma qsd_verify_budget:
  "fst (qsd_verify cl q pk signs budget b) = Inr () \<Longrightarrow>
     fst (qsd_verify cl q pk signs (None :: unit budget) ()) = Inr ()"
  by (auto simp: qsd_verify_def allow_def split: sum.splits prod.splits if_splits)

lemma verifyReporting_ok:
  assumes "verifyReportingSigns cl vote chain qt qh pk ptx budget b = Ret (Inr (q, signs), b')"
  shows "makeVerifyQuorumSigns cl chain qt qh vote = Ret (Inr q)" "verifyBasic vote ptx pk = Inr ()"
    "signs = vote_makeQuorumSigns vote"
    "list_all2 (VerifySignatureDigest cl (the pk)) (fst (signedContent q signs)) (snd (signedContent q signs))"
proof -
  obtain v where v: "makeVerifyQuorumSigns cl chain qt qh vote = Ret (Inr q)" "verifyBasic vote ptx pk = Inr ()"
    "signs = vote_makeQuorumSigns vote" "fst (qsd_verify cl q (the pk) signs budget b) = Inr v"
  proof (cases "makeVerifyQuorumSigns cl chain qt qh vote")
    case Panic
    then show ?thesis using assms by (simp add: verifyReportingSigns_def)
  next
    case (Ret r)
    show ?thesis
    proof (cases r)
      case (Inr q')
      obtain v' b1 where v': "qsd_verify cl q' (the pk) (vote_makeQuorumSigns vote) budget b = (v', b1)"
        by fastforce
      show ?thesis
        using assms Ret Inr v' that
        by (cases "verifyBasic vote ptx pk"; cases v') (auto simp: verifyReportingSigns_def Let_def)
    qed (use assms Ret in \<open>simp add: verifyReportingSigns_def\<close>)
  qed
  then show "makeVerifyQuorumSigns cl chain qt qh vote = Ret (Inr q)" "verifyBasic vote ptx pk = Inr ()"
    "signs = vote_makeQuorumSigns vote" by simp_all
  show "list_all2 (VerifySignatureDigest cl (the pk)) (fst (signedContent q signs)) (snd (signedContent q signs))"
    using qsd_verify_budget [of cl q "the pk" signs budget b] v(4) unfolding qsd_verify_iff by simp
qed

lemma Vote_Verify_ok:
  assumes "makeVerifyQuorumSigns cl chain qt qh vote = Ret (Inr q)" "verifyBasic vote ptx pk = Inr ()"
    "list_all2 (VerifySignatureDigest cl (the pk)) (fst (signedContent q (vote_makeQuorumSigns vote)))
       (snd (signedContent q (vote_makeQuorumSigns vote)))"
  shows "Vote_Verify cl vote chain qt qh pk ptx = Ret (Inr ())"
proof -
  have "fst (qsd_verify cl q (the pk) (vote_makeQuorumSigns vote) (None :: unit budget) ()) = Inr ()"
    using assms(3) unfolding qsd_verify_iff .
  then show ?thesis
    using assms(1,2)
    by (auto simp: Vote_Verify_def Vote_verify_def verifyReportingSigns_def Let_def split: prod.splits)
qed

lemma checkMatches_ok:
  assumes "checkMatches cl v addr vote chain qt qh pk ptx = Ret (Inr ())"
  obtains q where "makeVerifyQuorumSigns cl chain qt qh vote = Ret (Inr q)" "verifyBasic vote ptx pk = Inr ()"
    "pk = Some (vv_pubKeyBytes v)"
    "signedContent q (vote_makeQuorumSigns vote) = (vv_signHashes v, vv_signatures v)"
proof (cases "makeVerifyQuorumSigns cl chain qt qh vote")
  case Panic
  then show ?thesis using assms by (auto simp: checkMatches_def split: if_splits sum.splits)
next
  case (Ret r)
  show ?thesis
  proof (cases r)
    case (Inl e)
    then show ?thesis using assms Ret by (auto simp: checkMatches_def split: if_splits sum.splits)
  next
    case (Inr q)
    obtain hs ss where c: "signedContent q (vote_makeQuorumSigns vote) = (hs, ss)" by fastforce
    have "pk = Some (vv_pubKeyBytes v)" "verifyBasic vote ptx pk = Inr ()" "hs = vv_signHashes v" "ss = vv_signatures v"
      using assms Ret Inr c by (auto simp: checkMatches_def split: if_splits sum.splits)
    then show ?thesis using that Ret Inr c by simp
  qed
qed

lemma Vote_verify_Verify:
  assumes "Vote_verify cl vote chain qt qh pk ptx budget b = Ret (Inr (), b')"
  shows "Vote_Verify cl vote chain qt qh pk ptx = Ret (Inr ())"
proof -
  obtain q signs where r: "verifyReportingSigns cl vote chain qt qh pk ptx budget b = Ret (Inr (q, signs), b')"
    using assms by (auto simp: Vote_verify_def exec_bind_Ret_iff res_bind_Inr_iff)
  note ok = verifyReporting_ok [OF r]
  show ?thesis using ok(4) unfolding ok(3) by (rule Vote_Verify_ok [OF ok(1,2)])
qed

lemma minted_ok:
  assumes "VerifyVoteSignatures cl addr vote chain qt qh pk ptx budget b = Ret (Inr ev, b')"
  obtains q signs where "verifyReportingSigns cl vote chain qt qh pk ptx budget b = Ret (Inr (q, signs), b')"
    "ev = \<lparr>vv_vote = Some addr, vv_chainID = chain, vv_quorumType = qt,
        vv_quorumHash = qh, vv_proTxHash = ptx, vv_pubKeyBytes = the pk,
        vv_signHashes = fst (signedContent q signs), vv_signatures = snd (signedContent q signs)\<rparr>"
  using assms by (auto simp: VerifyVoteSignatures_def exec_bind_Ret_iff res_bind_Inr_iff split_beta)

lemma minted_sound:
  assumes "VerifyVoteSignatures cl addr vote chain qt qh pk ptx budget b = Ret (Inr ev, b')"
    and acc: "checkMatches cl ev addr' vote' chain' qt' qh' pk' ptx' = Ret (Inr ())"
  shows "Vote_Verify cl vote' chain' qt' qh' pk' ptx' = Ret (Inr ())"
proof -
  obtain q signs where r: "verifyReportingSigns cl vote chain qt qh pk ptx budget b = Ret (Inr (q, signs), b')"
    and ev: "ev = \<lparr>vv_vote = Some addr, vv_chainID = chain, vv_quorumType = qt,
        vv_quorumHash = qh, vv_proTxHash = ptx, vv_pubKeyBytes = the pk,
        vv_signHashes = fst (signedContent q signs), vv_signatures = snd (signedContent q signs)\<rparr>"
    by (rule minted_ok [OF assms(1)])
  obtain q' where q': "makeVerifyQuorumSigns cl chain' qt' qh' vote' = Ret (Inr q')"
    "verifyBasic vote' ptx' pk' = Inr ()" "pk' = Some (vv_pubKeyBytes ev)"
    "signedContent q' (vote_makeQuorumSigns vote') = (vv_signHashes ev, vv_signatures ev)"
    by (rule checkMatches_ok [OF acc])
  then show ?thesis using verifyReporting_ok(4) [OF r] ev by (intro Vote_Verify_ok [OF q'(1,2)]) simp
qed

lemma SignItems_length:
  "SignItems cl es chain qt qh h r = Ret (Inr items) \<Longrightarrow> length items = length es"
  by (induction cl es chain qt qh h r arbitrary: items rule: SignItems.induct)
    (auto simp: try_bind_Inr_iff)

lemma sign_items_bound:
  assumes "makeVerifyQuorumSigns cl chain qt qh vote = Ret (Inr q)"
  shows "length (VoteExtensionSignItems q) \<le> MaxVoteExtensions"
proof -
  have n: "length (VoteExtensions vote) \<le> MaxVoteExtensions"
    and items: "SignItems cl (recoverable_exts vote) chain qt qh (vote_Height vote) (vote_Round vote)
      = Ret (Inr (VoteExtensionSignItems q))"
    using assms by (auto simp: makeVerifyQuorumSigns_def MakeQuorumSigns_def exec_bind_Ret_iff
        try_bind_Inr_iff split: if_splits)
  have "length (VoteExtensionSignItems q) \<le> length (VoteExtensions vote)"
    using SignItems_length [OF items] by (simp add: recoverable_exts_def)
  then show ?thesis using n by simp
qed

text \<open>A budget of \<open>limit\<close> permits; the state counts the permits spent.\<close>

definition permits :: "nat \<Rightarrow> nat budget" where
  "permits limit = Some (\<lambda>cost spent. if spent + cost \<le> limit then (True, spent + cost) else (False, spent))"

lemma qsd_verify_cost:
  assumes "qsd_verify cl q pk signs (permits limit) n = (r, n')"
  shows "n' \<le> n + 1 + length (VoteExtensionSignItems q)"
    "VerifyBlock cl q pk signs \<noteq> Inr () \<Longrightarrow> n' \<le> n + 1"
  using assms
  by (cases "VerifyBlock cl q pk signs";
      auto simp: qsd_verify_def allow_def permits_def Let_def split: if_splits sum.splits prod.splits)+

section \<open>Properties\<close>

definition ex_bid :: "8 word \<Rightarrow> BlockID" where
  "ex_bid h = \<lparr>bid_Hash = replicate 32 h, bid_PartSetHeader = \<lparr>Total = 1, psh_Hash = replicate 32 h\<rparr>,
     StateID = replicate 32 h\<rparr>"

definition ex_vote :: "SignedMsgType \<Rightarrow> BlockID \<Rightarrow> nat \<Rightarrow> Vote" where
  "ex_vote t bid i = \<lparr>vote_Type = t, vote_Height = 5, vote_Round = 0, vote_BlockID = bid,
     ValidatorProTxHash = replicate 32 (word_of_nat (Suc i)), ValidatorIndex = int i,
     BlockSignature = [1], VoteExtensions = []\<rparr>"

definition ex_lib :: crypto_lib where
  "ex_lib = \<lparr>Checksum = (\<lambda>_. replicate 32 0), BuildSignHash = (\<lambda>_ q r m. q @ r @ m),
     VerifySignatureDigest = (\<lambda>_ _ sig. sig = [1]), vote_SignBytes = (\<lambda>_ _. []),
     ext_canonical = (\<lambda>_ _ _ _. Some []), llmq_num = (\<lambda>_. 1)\<rparr>"

text \<open>
  C31: For votes that pass \<open>ValidateBasic\<close> the map key of the block identifier is injective, so a
  \<open>votesByBlock\<close> entry never mixes votes for different blocks.
\<close>

theorem vote_Key_injective:
  assumes "Vote_ValidateBasic v" "Vote_ValidateBasic w"
    "BlockID_Key (vote_BlockID v) = BlockID_Key (vote_BlockID w)"
  shows "vote_BlockID v = vote_BlockID w"
  using assms by (intro valid_Key_inj) (simp_all add: Vote_ValidateBasic_def)

theorem vote_Key_injective_witness:
  "Vote_ValidateBasic (ex_vote PrevoteType (ex_bid 7) 0) \<and> Vote_ValidateBasic (ex_vote PrevoteType (ex_bid 7) 1)
   \<and> vote_BlockID (ex_vote PrevoteType (ex_bid 7) 0) = vote_BlockID (ex_vote PrevoteType (ex_bid 7) 1)"
proof -
  have v: "Vote_ValidateBasic (ex_vote PrevoteType (ex_bid 7) i)" for i
    by (simp add: ex_vote_def ex_bid_def Vote_ValidateBasic_def IsVoteTypeValid_def BlockID_ValidateBasic_def
        ValidateHash_def psh_ValidateBasic_def BlockID_IsComplete_def)
  have "vote_BlockID (ex_vote t b i) = b" for t b i by (simp add: ex_vote_def)
  then show ?thesis using v vote_Key_injective [OF v [of 0] v [of 1]] by metis
qed

text \<open>
  \<open>BlockID.ValidateBasic\<close> alone does not make keys unique: a block identifier with an empty hash
  may carry a state identifier of any length, and collides with a complete identifier.
\<close>

theorem BlockID_Key_collision:
  "BlockID_ValidateBasic (ex_bid 7)
   \<and> BlockID_ValidateBasic \<lparr>bid_Hash = [], bid_PartSetHeader = \<lparr>Total = 0, psh_Hash = []\<rparr>,
        StateID = BlockID_Key (ex_bid 7)\<rparr>
   \<and> BlockID_Key \<lparr>bid_Hash = [], bid_PartSetHeader = \<lparr>Total = 0, psh_Hash = []\<rparr>,
        StateID = BlockID_Key (ex_bid 7)\<rparr> = BlockID_Key (ex_bid 7)
   \<and> \<not> BlockID_Equals \<lparr>bid_Hash = [], bid_PartSetHeader = \<lparr>Total = 0, psh_Hash = []\<rparr>,
        StateID = BlockID_Key (ex_bid 7)\<rparr> (ex_bid 7)"
  by (simp add: ex_bid_def BlockID_ValidateBasic_def ValidateHash_def psh_ValidateBasic_def BlockID_Key_def
      psh_Marshal_def BlockID_Equals_def)

text \<open>
  C32: Evidence stands for a verification. If \<open>VerifyVoteSignatures\<close> produced evidence for a vote (under
  any budget) and \<open>checkMatches\<close> accepts it for a vote that may have been rewritten since, then
  verifying that vote as it is now, with the parameters of the vote set, succeeds. Evidence is
  accepted for the unchanged vote.
\<close>

theorem checkMatches_sound:
  assumes minted: "VerifyVoteSignatures cl addr vote chain qt qh pk ptx budget b = Ret (Inr ev, b')"
  shows "(checkMatches cl ev addr' vote' chain' qt' qh' pk' ptx' = Ret (Inr ())
       \<longrightarrow> Vote_Verify cl vote' chain' qt' qh' pk' ptx' = Ret (Inr ()))
     \<and> checkMatches cl ev addr vote chain qt qh pk ptx = Ret (Inr ())"
proof -
  obtain q signs where r: "verifyReportingSigns cl vote chain qt qh pk ptx budget b = Ret (Inr (q, signs), b')"
    and ev: "ev = \<lparr>vv_vote = Some addr, vv_chainID = chain, vv_quorumType = qt,
        vv_quorumHash = qh, vv_proTxHash = ptx, vv_pubKeyBytes = the pk,
        vv_signHashes = fst (signedContent q signs), vv_signatures = snd (signedContent q signs)\<rparr>"
    by (rule minted_ok [OF minted])
  note ok = verifyReporting_ok [OF r]
  obtain k where pk: "pk = Some k" using ok(2) by (auto simp: verifyBasic_def split: if_splits option.splits)
  have "checkMatches cl ev addr vote chain qt qh pk ptx = Ret (Inr ())"
    unfolding checkMatches_def using ok pk by (simp add: ev split_beta)
  then show ?thesis using minted_sound [OF minted] by blast
qed

theorem checkMatches_sound_witness:
  "\<exists>ev. VerifyVoteSignatures ex_lib 3 (ex_vote PrevoteType (ex_bid 7) 0) [] (LLMQ_other 1) (replicate 32 9)
       (Some (replicate 48 0)) (replicate 32 1) (permits 1) 0 = Ret (Inr ev, 1)
     \<and> checkMatches ex_lib ev 3 (ex_vote PrevoteType (ex_bid 7) 0) [] (LLMQ_other 1) (replicate 32 9)
         (Some (replicate 48 0)) (replicate 32 1) = Ret (Inr ())"
proof -
  have "\<exists>ev. VerifyVoteSignatures ex_lib 3 (ex_vote PrevoteType (ex_bid 7) 0) [] (LLMQ_other 1) (replicate 32 9)
       (Some (replicate 48 0)) (replicate 32 1) (permits 1) 0 = Ret (Inr ev, 1)"
    by (simp add: VerifyVoteSignatures_def verifyReportingSigns_def makeVerifyQuorumSigns_def MakeQuorumSigns_def
        MakeBlockSignItem_def NewSignItem_def NewSignItemFromHash_def UpdateSignHash_def SignItem_Validate_def
        BlockRequestID_def heightRoundRequestID_def recoverable_exts_def ex_vote_def ex_lib_def MustConvert_spec
        in_type_def verifyBasic_def qsd_verify_def allow_def permits_def VerifyBlock_def VerifySignature_def
        validateVoteExtensionCount_def vote_makeQuorumSigns_def GetSignatures_def VerifyVoteExtensions_def
        signedContent_def Let_def)
  then obtain ev where ev: "VerifyVoteSignatures ex_lib 3 (ex_vote PrevoteType (ex_bid 7) 0) [] (LLMQ_other 1)
       (replicate 32 9) (Some (replicate 48 0)) (replicate 32 1) (permits 1) 0 = Ret (Inr ev, 1)" by blast
  show ?thesis using checkMatches_sound [OF ev] ev by blast
qed



end
