(* ===== verification/Vote_Set.thy ===== *)
theory Vote_Set
  imports Bit_Array Votes "HOL-Library.AList"
begin

text \<open>
  \<open>src/types/vote_set.go\<close> and \<open>src/types/signs_recoverer.go\<close>: the set of votes of one height, round
  and type, the detection of a majority, and the recovery of the threshold signatures a commit is
  made of.

  A Go map is an association list with distinct keys. Every operation runs under the mutex of the
  set, so it is one function from state to state; the receiver is never nil. Votes are immutable
  once added, as the source asks of its callers. The recovery of a BLS signature from shares is the
  parameter \<open>recover\<close>; nothing below depends on what it returns. Go iterates over the share map of
  an extension in an unspecified order; here the shares are passed in the order they were added.
  Error texts are not modelled.

  \<open>vset_inv\<close> is the invariant: both stores of votes hold only verified votes, each in the slot of its
  validator, the bit arrays mirror the slots, the sums are the power of the slots in use, the
  extension groups split the votes of a block by the content they sign, and a recorded majority is
  backed by the quorum power of verified votes for that block.
\<close>

section \<open>Definitions\<close>

subsection \<open>Recovery of threshold signatures\<close>

type_synonym bls_recover = "bytes list \<Rightarrow> bytes list \<Rightarrow> bytes option"

datatype rec_error =
    ErrShareValidator | ErrShareSize | ErrNilPrecommitExtensions | ErrExtensionCount
  | ErrRecoverBlock | ErrRecoverExtension | ErrNoShares | ErrSingleVote | ErrNoCanonicalGroup
  | ErrSignData vote_error | ErrThresholdSignature vote_error

text \<open>A threshold vote extension with the shares collected for it.\<close>

type_synonym ext_shares = "VoteExtension \<times> (bytes \<times> bytes) list"

definition AddThresholdSignature :: "bytes \<Rightarrow> bytes \<Rightarrow> ext_shares \<Rightarrow> rec_error + ext_shares" where
  "AddThresholdSignature validator sig e =
     (if length validator \<noteq> DefaultHashSize then Inl ErrShareValidator
      else if length sig \<noteq> SignatureSize then Inl ErrShareSize
      else Inr (fst e, AList.update validator sig (snd e)))"

definition ThresholdRecover :: "bls_recover \<Rightarrow> ext_shares \<Rightarrow> rec_error + bytes" where
  "ThresholdRecover recover e =
     (if snd e = [] then Inl ErrNoShares
      else case recover (map snd (snd e)) (map fst (snd e)) of
             None \<Rightarrow> Inl ErrRecoverExtension
           | Some sig \<Rightarrow> Inr sig)"

record SignsRecoverer =
  blockSigs :: "bytes list"
  validatorProTxHashes :: "bytes list"
  voteExtensions :: "ext_shares list"
  canonicalVoteExtVoters :: "bytes set option"
  canonicalVoteExtCount :: "nat option"
  quorumReached :: bool

fun add_shares :: "bytes \<Rightarrow> VoteExtension list \<Rightarrow> ext_shares list \<Rightarrow> rec_error + ext_shares list" where
  "add_shares validator (ext # exts) (e # es) =
     res_bind (AddThresholdSignature validator (ve_Signature ext) e) (\<lambda>e'.
     res_bind (add_shares validator exts es) (\<lambda>es'. Inr (e' # es')))"
| "add_shares validator _ es = Inr es"

definition addVoteExtensionSigs :: "Vote \<Rightarrow> SignsRecoverer \<Rightarrow> rec_error + SignsRecoverer" where
  "addVoteExtensionSigs vote v =
     (if (case canonicalVoteExtVoters v of
            Some voters \<Rightarrow> ValidatorProTxHash vote \<notin> voters
          | None \<Rightarrow> (case canonicalVoteExtCount v of
                       Some n \<Rightarrow> length (VoteExtensions vote) \<noteq> n
                     | None \<Rightarrow> False))
      then Inr v
      else if length (VoteExtensions vote) = 0 then Inr v
      else if vote_Type vote \<noteq> PrecommitType \<or> BlockID_IsNil (vote_BlockID vote)
      then Inl ErrNilPrecommitExtensions
      else let recoverableExtensions = recoverable_exts vote
           in if length recoverableExtensions = 0 then Inr v
              else let exts = (if voteExtensions v = [] then map (\<lambda>e. (e, [])) recoverableExtensions
                               else voteExtensions v)
                   in if length recoverableExtensions \<noteq> length exts then Inl ErrExtensionCount
                      else res_bind (add_shares (ValidatorProTxHash vote) recoverableExtensions exts) (\<lambda>es.
                             Inr (v\<lparr>voteExtensions := es\<rparr>)))"

definition addVoteSigs :: "Vote option \<Rightarrow> SignsRecoverer \<Rightarrow> rec_error + SignsRecoverer" where
  "addVoteSigs vote v =
     (case vote of
        None \<Rightarrow> Inr v
      | Some w \<Rightarrow> addVoteExtensionSigs w
          (v\<lparr>blockSigs := blockSigs v @ [BlockSignature w],
             validatorProTxHashes := validatorProTxHashes v @ [ValidatorProTxHash w]\<rparr>))"

fun init_sigs :: "Vote option list \<Rightarrow> SignsRecoverer \<Rightarrow> rec_error + SignsRecoverer" where
  "init_sigs [] v = Inr v"
| "init_sigs (vote # votes) v = res_bind (addVoteSigs vote v) (init_sigs votes)"

text \<open>With the options \<open>WithQuorumReached\<close> and \<open>WithCanonicalVoteExtensionVoters\<close> of its caller.\<close>

definition NewSignsRecoverer :: "Vote option list \<Rightarrow> bool \<Rightarrow> bytes set \<Rightarrow> rec_error + SignsRecoverer" where
  "NewSignsRecoverer votes reached voters =
     init_sigs votes \<lparr>blockSigs = [], validatorProTxHashes = [], voteExtensions = [],
       canonicalVoteExtVoters = Some voters, canonicalVoteExtCount = None, quorumReached = reached\<rparr>"

definition recoverBlockSig :: "bls_recover \<Rightarrow> SignsRecoverer \<Rightarrow> rec_error + bytes" where
  "recoverBlockSig recover v =
     (case recover (blockSigs v) (validatorProTxHashes v) of
        None \<Rightarrow> Inl ErrRecoverBlock
      | Some sig \<Rightarrow> Inr sig)"

fun recover_exts :: "bls_recover \<Rightarrow> ext_shares list \<Rightarrow> rec_error + bytes list" where
  "recover_exts recover [] = Inr []"
| "recover_exts recover (e # es) =
     res_bind (ThresholdRecover recover e) (\<lambda>sig.
     res_bind (recover_exts recover es) (\<lambda>sigs. Inr (sig # sigs)))"

definition recoverVoteExtensionSigs :: "bls_recover \<Rightarrow> SignsRecoverer \<Rightarrow> rec_error + bytes list" where
  "recoverVoteExtensionSigs recover v =
     (if \<not> quorumReached v then Inr [] else recover_exts recover (voteExtensions v))"

definition Recover :: "bls_recover \<Rightarrow> SignsRecoverer \<Rightarrow> rec_error + QuorumSigns" where
  "Recover recover v =
     res_bind (recoverBlockSig recover v) (\<lambda>sig.
     res_bind (recoverVoteExtensionSigs recover v) (\<lambda>sigs.
       Inr \<lparr>BlockSign = sig, VoteExtensionSignatures = sigs\<rparr>))"

definition GetVoteExtensions :: "SignsRecoverer \<Rightarrow> QuorumSigns \<Rightarrow> VoteExtension list exec" where
  "GetVoteExtensions v qs =
     (if length (VoteExtensionSignatures qs) \<noteq> length (voteExtensions v) then Panic
      else Ret (map2 (\<lambda>e sig. fst e\<lparr>ve_Signature := sig\<rparr>) (voteExtensions v) (VoteExtensionSignatures qs)))"

subsection \<open>Votes for one block\<close>

record voteExtensionGroup =
  grp_power :: int
  representative :: Vote
  voters :: "bytes set"

record blockVotes =
  peerMaj23 :: bool
  bv_bitArray :: "BitArray option"
  bv_votes :: "Vote option list"
  bv_sum :: int
  voteExtensionGroups :: "(bytes \<times> voteExtensionGroup) list"

definition newBlockVotes :: "bool \<Rightarrow> int \<Rightarrow> blockVotes" where
  "newBlockVotes peer numValidators =
     \<lparr>peerMaj23 = peer, bv_bitArray = NewBitArray numValidators,
      bv_votes = replicate (nat numValidators) None, bv_sum = 0, voteExtensionGroups = []\<rparr>"

definition bv_addVerifiedVote ::
  "Vote \<Rightarrow> bytes \<Rightarrow> int \<Rightarrow> int \<Rightarrow> blockVotes \<Rightarrow> (blockVotes \<times> bool) exec" where
  "bv_addVerifiedVote vote identity votingPower recoveryThreshold vs =
     exec_bind (go_index (bv_votes vs) (ValidatorIndex vote)) (\<lambda>existing.
       case existing of
         Some _ \<Rightarrow> Ret (vs, False)
       | None \<Rightarrow>
           exec_bind (SetIndex (bv_bitArray vs) (ValidatorIndex vote) True) (\<lambda>(bits, _).
             let g = (case map_of (voteExtensionGroups vs) identity of
                            Some g \<Rightarrow> g
                          | None \<Rightarrow> \<lparr>grp_power = 0, representative = vote, voters = {}\<rparr>);
                 previousPower = grp_power g;
                 g' = g\<lparr>grp_power := wrap64 (previousPower + votingPower),
                                voters := insert (ValidatorProTxHash vote) (voters g)\<rparr>
             in Ret (vs\<lparr>bv_bitArray := bits, bv_votes := (bv_votes vs)[nat (ValidatorIndex vote) := Some vote],
                        bv_sum := wrap64 (bv_sum vs + votingPower),
                        voteExtensionGroups := AList.update identity g' (voteExtensionGroups vs)\<rparr>,
                     previousPower < recoveryThreshold \<and> grp_power g' \<ge> recoveryThreshold)))"

definition bv_getByIndex :: "blockVotes option \<Rightarrow> int \<Rightarrow> Vote option exec" where
  "bv_getByIndex vs index = (case vs of None \<Rightarrow> Ret None | Some b \<Rightarrow> go_index (bv_votes b) index)"

subsection \<open>The vote set\<close>

record maj23Info =
  mi_BlockID :: BlockID
  mi_Height :: int
  mi_Round :: int

record VoteSet =
  vset_chainID :: string
  vset_height :: int
  vset_round :: int
  signedMsgType :: SignedMsgType
  valSet :: ValidatorSet
  votesBitArray :: "BitArray option"
  vset_votes :: "Vote option list"
  vset_sum :: int
  maj23 :: "BlockID option"
  votesByBlock :: "(bytes \<times> blockVotes) list"
  peerMaj23s :: "(string \<times> maj23Info) list"
  thresholdBlockSig :: "bytes option"
  thresholdVoteExtSigs :: "VoteExtension list"

abbreviation (input) maxPeerMaj23s :: nat where "maxPeerMaj23s \<equiv> 4096"

definition NewVoteSet :: "string \<Rightarrow> int \<Rightarrow> int \<Rightarrow> SignedMsgType \<Rightarrow> ValidatorSet \<Rightarrow> VoteSet exec" where
  "NewVoteSet chainID height round t vals =
     (if height = 0 then Panic
      else if \<not> HasPublicKeys vals then Panic
      else Ret \<lparr>vset_chainID = chainID, vset_height = height, vset_round = round, signedMsgType = t,
                valSet = vals, votesBitArray = NewBitArray (ValidatorSet_Size (Some vals)),
                vset_votes = replicate (nat (ValidatorSet_Size (Some vals))) None, vset_sum = 0,
                maj23 = None, votesByBlock = [], peerMaj23s = [], thresholdBlockSig = None,
                thresholdVoteExtSigs = []\<rparr>)"

text \<open>The quorum hash as the bytes that \<open>valSet.QuorumHash\<close> passes; a nil slice has none.\<close>

definition quorum_hash :: "ValidatorSet \<Rightarrow> bytes" where
  "quorum_hash vals = (case vs_QuorumHash vals of None \<Rightarrow> [] | Some h \<Rightarrow> h)"

definition vset_IsQuorumReached :: "VoteSet \<Rightarrow> bool" where
  "vset_IsQuorumReached vs = (case maj23 vs of None \<Rightarrow> False | Some b \<Rightarrow> bid_Hash b \<noteq> [])"

definition makeQuorumSigns :: "VoteSet \<Rightarrow> QuorumSigns" where
  "makeQuorumSigns vs =
     \<lparr>BlockSign = (case thresholdBlockSig vs of None \<Rightarrow> [] | Some s \<Rightarrow> s),
      VoteExtensionSignatures = GetSignatures (thresholdVoteExtSigs vs)\<rparr>"

definition MakeQuorumSignsWithVoteSet ::
  "crypto_lib \<Rightarrow> VoteSet \<Rightarrow> Vote \<Rightarrow> (vote_error + QuorumSignData) exec" where
  "MakeQuorumSignsWithVoteSet cl vs vote =
     MakeQuorumSigns cl (vset_chainID vs) (QuorumType (valSet vs)) (quorum_hash (valSet vs)) vote"

text \<open>The loop over the groups, keeping the least identity among those at the recovery threshold.\<close>

fun least_group ::
  "int \<Rightarrow> (bytes \<times> voteExtensionGroup) list \<Rightarrow> (bytes \<times> voteExtensionGroup) option
   \<Rightarrow> (bytes \<times> voteExtensionGroup) option" where
  "least_group threshold [] canonical = canonical"
| "least_group threshold ((identity, g) # groups) canonical =
     least_group threshold groups
       (if grp_power g \<ge> threshold \<and> (case canonical of None \<Rightarrow> True | Some (c, _) \<Rightarrow> identity < c)
        then Some (identity, g) else canonical)"

definition canonicalVoteExtensionGroup :: "VoteSet \<Rightarrow> blockVotes \<Rightarrow> (Vote \<times> bytes set) option" where
  "canonicalVoteExtensionGroup vs bv =
     map_option (\<lambda>(_, g). (representative g, voters g))
       (least_group (QuorumTypeThresholdVotingPower (valSet vs)) (voteExtensionGroups bv) None)"

definition recoverThresholdSigns ::
  "bls_recover \<Rightarrow> blockVotes \<Rightarrow> VoteSet \<Rightarrow> ((rec_error + Vote) \<times> VoteSet) exec" where
  "recoverThresholdSigns recover bv vs =
     (if length (bv_votes bv) < 2 then Ret (Inl ErrSingleVote, vs)
      else case canonicalVoteExtensionGroup vs bv of
             None \<Rightarrow> Ret (Inl ErrNoCanonicalGroup, vs)
           | Some (canonicalVote, canonicalVoters) \<Rightarrow>
               (case NewSignsRecoverer (bv_votes bv) (vset_IsQuorumReached vs) canonicalVoters of
                  Inl e \<Rightarrow> Ret (Inl e, vs)
                | Inr signsRecoverer \<Rightarrow>
                    (case Recover recover signsRecoverer of
                       Inl e \<Rightarrow> Ret (Inl e, vs)
                     | Inr thresholdSigns \<Rightarrow>
                         exec_bind (GetVoteExtensions signsRecoverer thresholdSigns) (\<lambda>exts.
                           Ret (Inr canonicalVote,
                                vs\<lparr>thresholdBlockSig := Some (BlockSign thresholdSigns),
                                   thresholdVoteExtSigs := exts\<rparr>)))))"

definition recoverThresholdSignsAndVerify ::
  "crypto_lib \<Rightarrow> bls_recover \<Rightarrow> blockVotes \<Rightarrow> VoteSet \<Rightarrow> ((rec_error + unit) \<times> VoteSet) exec" where
  "recoverThresholdSignsAndVerify cl recover bv vs =
     (if length (bv_votes bv) = 0 then Ret (Inr (), vs)
      else if length (bv_votes bv) = 1 then
        (case bv_votes bv ! 0 of
           None \<Rightarrow> Panic
         | Some vote \<Rightarrow> Ret (Inr (), vs\<lparr>thresholdBlockSig := Some (BlockSignature vote),
                                       thresholdVoteExtSigs := recoverable_exts vote\<rparr>))
      else exec_bind (recoverThresholdSigns recover bv vs) (\<lambda>(r, vs).
             case r of
               Inl e \<Rightarrow> Ret (Inl e, vs)
             | Inr canonicalVote \<Rightarrow>
                 exec_bind (MakeQuorumSignsWithVoteSet cl vs canonicalVote) (\<lambda>d.
                   case d of
                     Inl e \<Rightarrow> Ret (Inl (ErrSignData e), vs)
                   | Inr signData \<Rightarrow>
                       (case ThresholdPublicKey (valSet vs) of
                          None \<Rightarrow> Panic
                        | Some pk \<Rightarrow>
                            (case fst (qsd_verify cl signData pk (makeQuorumSigns vs) (None :: unit budget) ()) of
                               Inl e \<Rightarrow> Ret (Inl (ErrThresholdSignature e), vs)
                             | Inr _ \<Rightarrow> Ret (Inr (), vs))))))"

definition ve_num :: "VoteExtensionType \<Rightarrow> int" where
  "ve_num t = (case t of VE_DEFAULT \<Rightarrow> 0 | VE_THRESHOLD_RECOVER \<Rightarrow> 1 | VE_THRESHOLD_RECOVER_RAW \<Rightarrow> 2)"

text \<open>The types are small numbers, so \<open>SafeConvertUint32\<close> does not fail on them.\<close>

definition voteExtensionIdentity :: "crypto_lib \<Rightarrow> VoteSet \<Rightarrow> Vote \<Rightarrow> (vote_error + bytes) exec" where
  "voteExtensionIdentity cl vs vote =
     (let recoverableExtensions = recoverable_exts vote
      in try_bind (SignItems cl recoverableExtensions (vset_chainID vs) (QuorumType (valSet vs))
                     (quorum_hash (valSet vs)) (vote_Height vote) (vote_Round vote)) (\<lambda>items.
           Ret (Inr (concat (map2 (\<lambda>e item. rev (le_bytes 4 (ve_num (ve_Type e))) @ SignHash item)
                       recoverableExtensions items)))))"

definition getVote :: "VoteSet \<Rightarrow> int \<Rightarrow> bytes \<Rightarrow> Vote option exec" where
  "getVote vs valIndex blockKey =
     exec_bind (go_index (vset_votes vs) valIndex) (\<lambda>existing.
       case existing of
         Some e \<Rightarrow> if BlockID_Key (vote_BlockID e) = blockKey then Ret (Some e)
                   else bv_getByIndex (map_of (votesByBlock vs) blockKey) valIndex
       | None \<Rightarrow> bv_getByIndex (map_of (votesByBlock vs) blockKey) valIndex)"

text \<open>\<open>voteSet.votes[valIndex] = vote; voteSet.votesBitArray.SetIndex(int(valIndex), true)\<close>\<close>

definition put_vote :: "Vote \<Rightarrow> VoteSet \<Rightarrow> VoteSet exec" where
  "put_vote vote vs =
     exec_bind (SetIndex (votesBitArray vs) (ValidatorIndex vote) True) (\<lambda>(bits, _).
       Ret (vs\<lparr>vset_votes := (vset_votes vs)[nat (ValidatorIndex vote) := Some vote],
               votesBitArray := bits\<rparr>))"

text \<open>The first part of \<open>addVerifiedVote\<close>: the slot of the validator, and the vote it conflicts with.\<close>

definition record_vote :: "Vote \<Rightarrow> bytes \<Rightarrow> int \<Rightarrow> VoteSet \<Rightarrow> (VoteSet \<times> Vote option) exec" where
  "record_vote vote blockKey votingPower vs =
     exec_bind (go_index (vset_votes vs) (ValidatorIndex vote)) (\<lambda>slot.
       case slot of
         Some existing \<Rightarrow>
           if BlockID_Equals (vote_BlockID existing) (vote_BlockID vote) then Panic
           else exec_bind (if (case maj23 vs of None \<Rightarrow> False | Some m \<Rightarrow> BlockID_Key m = blockKey)
                           then put_vote vote vs else Ret vs) (\<lambda>vs.
                  Ret (vs, Some existing))
       | None \<Rightarrow>
           exec_bind (put_vote vote vs) (\<lambda>vs.
             Ret (vs\<lparr>vset_sum := wrap64 (vset_sum vs + votingPower)\<rparr>, None)))"

text \<open>Its last part: the majority, recovered and published or rolled back.\<close>

definition try_finalize ::
  "crypto_lib \<Rightarrow> bls_recover \<Rightarrow> BlockID \<Rightarrow> blockVotes \<Rightarrow> VoteSet \<Rightarrow> VoteSet exec" where
  "try_finalize cl recover bid bv vs =
     (let publish = (\<lambda>vs. vs\<lparr>vset_votes := map2 (\<lambda>v old. if v \<noteq> None then v else old)
                                               (bv_votes bv) (vset_votes vs)\<rparr>);
          vs = vs\<lparr>maj23 := Some bid\<rparr>
      in if signedMsgType vs = PrecommitType then
           exec_bind (recoverThresholdSignsAndVerify cl recover bv vs) (\<lambda>(r, vs).
             case r of
               Inl _ \<Rightarrow> Ret (vs\<lparr>maj23 := None, thresholdBlockSig := None, thresholdVoteExtSigs := []\<rparr>)
             | Inr _ \<Rightarrow> Ret (publish vs))
         else Ret (publish vs))"

definition addVerifiedVote ::
  "crypto_lib \<Rightarrow> bls_recover \<Rightarrow> Vote \<Rightarrow> bytes \<Rightarrow> bytes \<Rightarrow> int \<Rightarrow> VoteSet
   \<Rightarrow> (VoteSet \<times> bool \<times> Vote option) exec" where
  "addVerifiedVote cl recover vote blockKey identity votingPower vs =
     exec_bind (record_vote vote blockKey votingPower vs) (\<lambda>(vs, conflicting).
       let tracked = map_of (votesByBlock vs) blockKey
       in if conflicting \<noteq> None \<and> (case tracked of None \<Rightarrow> True | Some bv \<Rightarrow> \<not> peerMaj23 bv)
          then Ret (vs, False, conflicting)
          else let bv = (case tracked of
                           Some bv \<Rightarrow> bv
                         | None \<Rightarrow> newBlockVotes False (ValidatorSet_Size (Some (valSet vs))))
               in exec_bind (QuorumVotingThresholdPower (valSet vs)) (\<lambda>quorum.
                  let previousPower = bv_sum bv
                  in exec_bind (bv_addVerifiedVote vote identity votingPower
                                  (QuorumTypeThresholdVotingPower (valSet vs)) bv)
                       (\<lambda>(bv, groupReachedRecoveryThreshold).
                     let vs = vs\<lparr>votesByBlock := AList.update blockKey bv (votesByBlock vs)\<rparr>;
                         blockReachedQuorum = (previousPower < quorum \<and> quorum \<le> bv_sum bv)
                     in if maj23 vs = None \<and> quorum \<le> bv_sum bv
                           \<and> (blockReachedQuorum \<or> groupReachedRecoveryThreshold)
                        then exec_bind (try_finalize cl recover (vote_BlockID vote) bv vs) (\<lambda>vs.
                               Ret (vs, True, conflicting))
                        else Ret (vs, True, conflicting))))"

text \<open>
  How a caller has the signatures of a vote checked: by the set, against a budget or not, or by
  evidence for the vote at an address.
\<close>

datatype 'b sig_check = Check "'b budget" | Evidence nat VoteVerification

definition check_vote ::
  "crypto_lib \<Rightarrow> 'b sig_check \<Rightarrow> 'b \<Rightarrow> Vote \<Rightarrow> VoteSet \<Rightarrow> Validator \<Rightarrow> ((vote_error + unit) \<times> 'b) exec" where
  "check_vote cl how b vote vs val =
     (case how of
        Evidence addr verified \<Rightarrow>
          exec_bind (checkMatches cl verified addr vote (vset_chainID vs) (QuorumType (valSet vs))
                       (quorum_hash (valSet vs)) (PubKey val) (ProTxHash val)) (\<lambda>r. Ret (r, b))
      | Check budget \<Rightarrow>
          exec_bind (Vote_verify cl vote (vset_chainID vs) (QuorumType (valSet vs))
                       (quorum_hash (valSet vs)) (PubKey val) (ProTxHash val) budget b) (\<lambda>(r, b).
            Ret (case r of
                   Inr _ \<Rightarrow> Inr ()
                 | Inl e \<Rightarrow> if e = ErrVerificationBudgetExhausted then Inl e
                            else Inl (ErrInvalidVoteSignature e), b)))"

definition addVote ::
  "crypto_lib \<Rightarrow> bls_recover \<Rightarrow> 'b sig_check \<Rightarrow> 'b \<Rightarrow> Vote option \<Rightarrow> VoteSet
   \<Rightarrow> (VoteSet \<times> bool \<times> vote_error option \<times> 'b) exec" where
  "addVote cl recover how b v vs =
     (case v of
        None \<Rightarrow> Ret (vs, False, Some ErrVoteNil, b)
      | Some vote \<Rightarrow>
          let valIndex = ValidatorIndex vote;
              valProTxHash = ValidatorProTxHash vote;
              blockKey = BlockID_Key (vote_BlockID vote)
          in if valIndex < 0 then Ret (vs, False, Some ErrVoteInvalidValidatorIndex, b)
             else if length valProTxHash = 0 then Ret (vs, False, Some ErrVoteInvalidValidatorProTxHash, b)
             else if vote_Height vote \<noteq> vset_height vs \<or> vote_Round vote \<noteq> vset_round vs
                     \<or> vote_Type vote \<noteq> signedMsgType vs
             then Ret (vs, False, Some ErrVoteUnexpectedStep, b)
             else case GetByIndex (Some (valSet vs)) valIndex of
               None \<Rightarrow> Ret (vs, False, Some ErrVoteInvalidValidatorIndex, b)
             | Some val \<Rightarrow>
                 if valProTxHash \<noteq> ProTxHash val
                 then Ret (vs, False, Some ErrVoteInvalidValidatorProTxHash, b)
                 else exec_bind (getVote vs valIndex blockKey) (\<lambda>known.
                   case known of
                     Some existing \<Rightarrow>
                       if BlockSignature existing = BlockSignature vote then Ret (vs, False, None, b)
                       else Ret (vs, False, Some ErrVoteNonDeterministicSignature, b)
                   | None \<Rightarrow>
                       exec_bind (check_vote cl how b vote vs val) (\<lambda>(r, b).
                         case r of
                           Inl e \<Rightarrow> Ret (vs, False, Some e, b)
                         | Inr _ \<Rightarrow>
                             exec_bind (if signedMsgType vs = PrecommitType
                                        then voteExtensionIdentity cl vs vote else Ret (Inr [])) (\<lambda>i.
                               case i of
                                 Inl e \<Rightarrow> Ret (vs, False, Some (ErrVoteExtensionIdentity e), b)
                               | Inr identity \<Rightarrow>
                                   exec_bind (addVerifiedVote cl recover vote blockKey identity (VotingPower val) vs)
                                     (\<lambda>(vs, added, conflicting).
                                       case conflicting of
                                         Some c \<Rightarrow> Ret (vs, added, Some (ErrConflictingVotes c vote), b)
                                       | None \<Rightarrow> if \<not> added then Panic else Ret (vs, added, None, b))))))"

datatype peer_error = ErrHeightMismatch | ErrConflictingBlockID

definition SetPeerMaj23 :: "string \<Rightarrow> BlockID \<Rightarrow> int \<Rightarrow> int \<Rightarrow> VoteSet \<Rightarrow> VoteSet \<times> peer_error option" where
  "SetPeerMaj23 peerID blockID height round vs =
     (if vset_height vs \<noteq> height then (vs, Some ErrHeightMismatch)
      else case map_of (peerMaj23s vs) peerID of
             Some existing \<Rightarrow>
               if BlockID_Equals (mi_BlockID existing) blockID then (vs, None)
               else (vs, Some ErrConflictingBlockID)
           | None \<Rightarrow>
               if length (peerMaj23s vs) \<ge> maxPeerMaj23s then (vs, None)
               else let blockKey = BlockID_Key blockID;
                        vs = vs\<lparr>peerMaj23s := AList.update peerID
                                 \<lparr>mi_BlockID = blockID, mi_Height = height, mi_Round = round\<rparr> (peerMaj23s vs)\<rparr>
                    in case map_of (votesByBlock vs) blockKey of
                         Some bv \<Rightarrow>
                           if peerMaj23 bv then (vs, None)
                           else (vs\<lparr>votesByBlock := AList.update blockKey (bv\<lparr>peerMaj23 := True\<rparr>)
                                      (votesByBlock vs)\<rparr>, None)
                       | None \<Rightarrow>
                           (vs\<lparr>votesByBlock := AList.update blockKey
                                 (newBlockVotes True (ValidatorSet_Size (Some (valSet vs))))
                                 (votesByBlock vs)\<rparr>, None))"

definition vset_BitArray :: "VoteSet option \<Rightarrow> BitArray option" where
  "vset_BitArray vs = (case vs of None \<Rightarrow> None | Some s \<Rightarrow> Copy (votesBitArray s))"

definition BitArrayByBlockID :: "VoteSet option \<Rightarrow> BlockID \<Rightarrow> BitArray option" where
  "BitArrayByBlockID vs blockID =
     (case vs of
        None \<Rightarrow> None
      | Some s \<Rightarrow> (case map_of (votesByBlock s) (BlockID_Key blockID) of
                     None \<Rightarrow> None
                   | Some bv \<Rightarrow> Copy (bv_bitArray bv)))"

definition vset_GetByIndex :: "VoteSet option \<Rightarrow> int \<Rightarrow> Vote option exec" where
  "vset_GetByIndex vs valIndex =
     (case vs of
        None \<Rightarrow> Ret None
      | Some s \<Rightarrow> if valIndex \<ge> int (length (vset_votes s)) then Ret None
                  else go_index (vset_votes s) valIndex)"

definition vset_List :: "VoteSet option \<Rightarrow> Vote list" where
  "vset_List vs = (case vs of None \<Rightarrow> [] | Some s \<Rightarrow> map the (filter (\<lambda>v. v \<noteq> None) (vset_votes s)))"

definition vset_GetByProTxHash :: "VoteSet option \<Rightarrow> bytes \<Rightarrow> Vote option exec" where
  "vset_GetByProTxHash vs proTxHash =
     (case vs of
        None \<Rightarrow> Ret None
      | Some s \<Rightarrow>
          exec_bind (GetByProTxHash (Some (valSet s)) proTxHash) (\<lambda>(valIndex, val).
            case val of None \<Rightarrow> Panic | Some _ \<Rightarrow> go_index (vset_votes s) valIndex))"

definition HasTwoThirdsMajority :: "VoteSet option \<Rightarrow> bool" where
  "HasTwoThirdsMajority vs = (case vs of None \<Rightarrow> False | Some s \<Rightarrow> maj23 s \<noteq> None)"

definition vset_IsCommit :: "VoteSet option \<Rightarrow> bool" where
  "vset_IsCommit vs =
     (case vs of
        None \<Rightarrow> False
      | Some s \<Rightarrow> if signedMsgType s \<noteq> PrecommitType then False else maj23 s \<noteq> None)"

definition HasTwoThirdsAny :: "VoteSet option \<Rightarrow> bool exec" where
  "HasTwoThirdsAny vs =
     (case vs of
        None \<Rightarrow> Ret False
      | Some s \<Rightarrow> exec_bind (QuorumVotingThresholdPower (valSet s)) (\<lambda>t. Ret (vset_sum s \<ge> t)))"

definition vset_HasAll :: "VoteSet option \<Rightarrow> bool" where
  "vset_HasAll vs = (case vs of None \<Rightarrow> False | Some s \<Rightarrow> vset_sum s = TotalVotingPower (valSet s))"

definition empty_bid :: BlockID where
  "empty_bid = \<lparr>bid_Hash = [], bid_PartSetHeader = \<lparr>Total = 0, psh_Hash = []\<rparr>, StateID = []\<rparr>"

definition TwoThirdsMajority :: "VoteSet option \<Rightarrow> BlockID \<times> bool" where
  "TwoThirdsMajority vs =
     (case vs of
        None \<Rightarrow> (empty_bid, False)
      | Some s \<Rightarrow> (case maj23 s of Some b \<Rightarrow> (b, True) | None \<Rightarrow> (empty_bid, False)))"

section \<open>Slots, power and bit arrays\<close>

definition held :: "'a option list \<Rightarrow> nat set" where
  "held xs = {i. i < length xs \<and> xs ! i \<noteq> None}"

definition vpower :: "ValidatorSet \<Rightarrow> nat set \<Rightarrow> int" where
  "vpower vals S = (\<Sum>i \<in> S. VotingPower (vs_Validators vals ! i))"

definition mirrors :: "BitArray option \<Rightarrow> 'a option list \<Rightarrow> bool" where
  "mirrors x xs \<longleftrightarrow> ba_inv x \<and> Size x = int (length xs)
     \<and> (\<forall>i. 0 \<le> i \<and> i < Size x \<longrightarrow> GetIndex x i = Ret (xs ! nat i \<noteq> None))"

lemma held_finite [simp]: "finite (held xs)"
  by (simp add: held_def)

lemma held_bound: "held xs \<subseteq> {..<length xs}"
  by (auto simp: held_def)

lemma held_replicate [simp]: "held (replicate n None) = {}"
  by (auto simp: held_def)

lemma held_update: "i < length xs \<Longrightarrow> held (xs[i := Some v]) = insert i (held xs)"
  by (auto simp: held_def nth_list_update)

lemma vpower_empty [simp]: "vpower vals {} = 0"
  by (simp add: vpower_def)

lemma vpower_insert: "finite S \<Longrightarrow> i \<notin> S \<Longrightarrow>
    vpower vals (insert i S) = VotingPower (vs_Validators vals ! i) + vpower vals S"
  by (simp add: vpower_def)

lemma vpower_card:
  assumes "wf_vals vals" "S \<subseteq> {..<length (vs_Validators vals)}"
  shows "vpower vals S = 100 * int (card S)"
proof -
  have "VotingPower (vs_Validators vals ! i) = 100" if "i \<in> S" for i
    using assms that by (auto simp: wf_vals_def)
  then show ?thesis by (simp add: vpower_def)
qed

lemma vpower_range:
  assumes "wf_vals vals" "S \<subseteq> {..<length (vs_Validators vals)}"
  shows "0 \<le> vpower vals S" "vpower vals S \<le> TotalVotingPower vals" "in_int64 (vpower vals S)"
proof -
  have "card S \<le> length (vs_Validators vals)" using card_mono [OF _ assms(2)] by simp
  moreover have "int (length (vs_Validators vals)) \<le> MaxInt32" using assms(1) by (simp add: wf_vals_def)
  ultimately show "0 \<le> vpower vals S" "vpower vals S \<le> TotalVotingPower vals" "in_int64 (vpower vals S)"
    by (simp_all add: vpower_card [OF assms] TotalVotingPower_eq in_int64_def)
qed

lemma vpower_mono:
  assumes "wf_vals vals" "S \<subseteq> T" "T \<subseteq> {..<length (vs_Validators vals)}"
  shows "vpower vals S \<le> vpower vals T"
proof -
  have "card S \<le> card T" using assms card_mono [of T S] finite_subset by blast
  moreover have "S \<subseteq> {..<length (vs_Validators vals)}" using assms(2,3) by blast
  ultimately show ?thesis using assms by (simp add: vpower_card)
qed

lemma mirrors_new:
  assumes "0 < n" "int n \<le> MaxInt32"
  shows "mirrors (NewBitArray (int n)) (replicate n None)"
proof -
  obtain b where b: "NewBitArray (int n) = Some b" "valid_ba b" "Bits b = int n" "ba_set b = {}" "clean_ba b"
    by (rule NewBitArray_valid [of "int n"]) (use assms in auto)
  then show ?thesis by (auto simp: mirrors_def ba_inv_def Size_def GetIndex_def getIndex_valid)
qed

lemma mirrors_set:
  assumes "mirrors x xs" "i < length xs"
  shows "\<exists>x'. SetIndex x (int i) True = Ret (x', True) \<and> mirrors x' (xs[i := Some v])"
proof -
  have "\<exists>x'. SetIndex x (int i) True = Ret (x', True) \<and> ba_inv x' \<and> Size x' = Size x
     \<and> (\<forall>k. 0 \<le> k \<and> k < Size x \<longrightarrow> GetIndex x' k = Ret (((\<lambda>k. xs ! nat k \<noteq> None)(int i := True)) k))"
    using assms by (intro ba.mirror_set) (auto simp: mirrors_def)
  then obtain x' where x': "SetIndex x (int i) True = Ret (x', True)" "ba_inv x'" "Size x' = Size x"
    "\<And>k. 0 \<le> k \<Longrightarrow> k < Size x \<Longrightarrow> GetIndex x' k = Ret (((\<lambda>k. xs ! nat k \<noteq> None)(int i := True)) k)"
    by blast
  have "GetIndex x' k = Ret (xs[i := Some v] ! nat k \<noteq> None)" if "0 \<le> k" "k < Size x" for k
    using x'(4) [OF that] assms that by (cases "k = int i") (auto simp: mirrors_def nth_list_update)
  then show ?thesis using x' assms by (auto simp: mirrors_def)
qed

lemma mirrors_cong:
  "mirrors x xs \<Longrightarrow> length ys = length xs \<Longrightarrow> held ys = held xs \<Longrightarrow> mirrors x ys"
  by (auto simp: mirrors_def held_def set_eq_iff)

lemma update_new: "k \<notin> fst ` set al \<Longrightarrow> AList.update k v al = al @ [(k, v)]"
  by (induction al) auto

lemma map_of_AList_update [simp]: "map_of (AList.update k v al) = (map_of al)(k \<mapsto> v)"
  by (rule update_conv')

section \<open>No panic in building sign data\<close>

text \<open>
  What the set relies on from the libraries: checksums have 32 bytes and an LLMQ type fits a byte.
\<close>

definition crypto_ok :: "crypto_lib \<Rightarrow> bool" where
  "crypto_ok cl \<longleftrightarrow> (\<forall>b. length (Checksum cl b) = 32) \<and> (\<forall>t. 0 \<le> llmq_num cl t \<and> llmq_num cl t \<le> 255)"

lemma UpdateSignHash_total:
  assumes "crypto_ok cl" "SignItem_Validate cl i"
  shows "\<exists>j. UpdateSignHash cl r i = Ret j"
proof -
  have "0 \<le> llmq_num cl (LlmqType i)" "llmq_num cl (LlmqType i) \<le> 255"
    using assms(1) by (simp_all add: crypto_ok_def)
  then have "MustConvert TInt32 TUint8 (llmq_num cl (LlmqType i)) = Ret (llmq_num cl (LlmqType i))"
    by (simp add: MustConvert_spec in_type_def)
  then show ?thesis using assms(2) by (simp add: UpdateSignHash_def Let_def)
qed

lemma NewSignItemFromHash_total:
  assumes "crypto_ok cl" "length qh = 32" "length reqID = 32" "length msgHash = 32"
  shows "\<exists>j. NewSignItemFromHash cl qt qh reqID msgHash = Ret j"
  unfolding NewSignItemFromHash_def
  by (rule UpdateSignHash_total [OF assms(1)]) (use assms in \<open>simp add: SignItem_Validate_def\<close>)

lemma ext_SignItem_total:
  assumes "crypto_ok cl" "length qh = 32"
  shows "\<exists>r. ext_SignItem cl e chain h rd qt qh = Ret r"
proof -
  have len: "length (Checksum cl b) = 32" for b using assms(1) by (simp add: crypto_ok_def)
  have new: "\<exists>j. NewSignItemFromHash cl qt qh reqID msgHash = Ret j"
    if "length reqID = 32" "length msgHash = 32" for reqID msgHash
    by (rule NewSignItemFromHash_total [OF assms that])
  have gen: "\<exists>r. Generic_SignItem cl e chain h rd qt qh = Ret r"
    using new [of "voteExtensionRequestID cl h rd" "Checksum cl m" for m]
    by (auto simp: Generic_SignItem_def NewSignItem_def voteExtensionRequestID_def heightRoundRequestID_def
        len exec_bind_Ret_iff split: option.splits)
  have raw: "\<exists>r. Raw_SignItem cl e h rd qt qh = Ret r"
    using new [of _ "rev (ve_Extension e)"]
    by (auto simp: Raw_SignItem_def Let_def voteExtensionRequestID_def heightRoundRequestID_def len
        exec_bind_Ret_iff split: option.splits)
  show ?thesis using gen raw by (auto simp: ext_SignItem_def split: VoteExtensionType.splits)
qed

lemma SignItems_total:
  assumes "crypto_ok cl" "length qh = 32"
  shows "\<exists>r. SignItems cl es chain qt qh h rd = Ret r"
proof (induction es)
  case (Cons e es)
  obtain r s where "ext_SignItem cl e chain h rd qt qh = Ret r" "SignItems cl es chain qt qh h rd = Ret s"
    using ext_SignItem_total [OF assms] Cons.IH by metis
  then show ?case by (cases r; cases s) simp_all
qed simp

lemma MakeQuorumSigns_total:
  assumes "crypto_ok cl" "length qh = 32"
  shows "\<exists>r. MakeQuorumSigns cl chain qt qh vote = Ret r"
proof -
  have "\<exists>j. NewSignItemFromHash cl qt qh (BlockRequestID cl (vote_Height vote) (vote_Round vote))
      (Checksum cl (vote_SignBytes cl chain vote)) = Ret j"
    using assms by (intro NewSignItemFromHash_total)
      (auto simp: crypto_ok_def BlockRequestID_def heightRoundRequestID_def)
  then obtain b where "MakeBlockSignItem cl chain vote qt qh = Ret b"
    by (auto simp: MakeBlockSignItem_def NewSignItem_def)
  moreover obtain r where "SignItems cl (recoverable_exts vote) chain qt qh (vote_Height vote) (vote_Round vote) = Ret r"
    using SignItems_total [OF assms] by blast
  ultimately show ?thesis by (cases r) (simp_all add: MakeQuorumSigns_def)
qed

lemma makeVerifyQuorumSigns_total:
  assumes "crypto_ok cl" "length qh = 32"
  shows "\<exists>r. makeVerifyQuorumSigns cl chain qt qh vote = Ret r"
  using MakeQuorumSigns_total [OF assms] by (simp add: makeVerifyQuorumSigns_def)

lemma Vote_verify_total:
  assumes "crypto_ok cl" "length qh = 32"
  shows "\<exists>r b'. Vote_verify cl vote chain qt qh pk ptx budget b = Ret (r, b')"
proof -
  obtain q where "makeVerifyQuorumSigns cl chain qt qh vote = Ret q"
    using makeVerifyQuorumSigns_total [OF assms] by blast
  then show ?thesis by (auto simp: Vote_verify_def verifyReportingSigns_def split: prod.splits)
qed

lemma checkMatches_total:
  assumes "crypto_ok cl" "length qh = 32"
  shows "\<exists>r. checkMatches cl ev addr vote chain qt qh pk ptx = Ret r"
proof -
  obtain q where "makeVerifyQuorumSigns cl chain qt qh vote = Ret q"
    using makeVerifyQuorumSigns_total [OF assms] by blast
  then show ?thesis by (auto simp: checkMatches_def split: sum.splits)
qed

lemma voteExtensionIdentity_total:
  assumes "crypto_ok cl" "length (quorum_hash (valSet vs)) = 32"
  shows "\<exists>r. voteExtensionIdentity cl vs vote = Ret r"
proof -
  obtain r where "SignItems cl (recoverable_exts vote) (vset_chainID vs) (QuorumType (valSet vs))
      (quorum_hash (valSet vs)) (vote_Height vote) (vote_Round vote) = Ret r"
    using SignItems_total [OF assms] by blast
  then show ?thesis by (cases r) (simp_all add: voteExtensionIdentity_def)
qed

section \<open>The invariant\<close>

text \<open>
  The validator sets a vote set is made for: well formed, with public keys, a quorum hash and an
  accepted threshold.
\<close>

definition quorum_set :: "ValidatorSet \<Rightarrow> bool" where
  "quorum_set vals \<longleftrightarrow> wf_vals vals \<and> vs_Validators vals \<noteq> [] \<and> HasPublicKeys vals
     \<and> ThresholdPublicKey vals \<noteq> None \<and> length (quorum_hash vals) = 32
     \<and> validateThreshold vals = Ret (Inr ())"

definition nvals :: "VoteSet \<Rightarrow> nat" where
  "nvals vs = length (vs_Validators (valSet vs))"

definition vote_ok :: "crypto_lib \<Rightarrow> VoteSet \<Rightarrow> nat \<Rightarrow> Vote \<Rightarrow> bool" where
  "vote_ok cl vs i v \<longleftrightarrow> i < nvals vs \<and> Vote_ValidateBasic v \<and> ValidatorIndex v = int i
     \<and> vote_Height v = vset_height vs \<and> vote_Round v = vset_round vs \<and> vote_Type v = signedMsgType vs
     \<and> ValidatorProTxHash v = ProTxHash (vs_Validators (valSet vs) ! i)
     \<and> Vote_Verify cl v (vset_chainID vs) (QuorumType (valSet vs)) (quorum_hash (valSet vs))
         (PubKey (vs_Validators (valSet vs) ! i)) (ProTxHash (vs_Validators (valSet vs) ! i)) = Ret (Inr ())"

definition identity :: "crypto_lib \<Rightarrow> VoteSet \<Rightarrow> Vote \<Rightarrow> (vote_error + bytes) exec" where
  "identity cl vs v =
     (if signedMsgType vs = PrecommitType then voteExtensionIdentity cl vs v else Ret (Inr []))"

definition group_slots :: "crypto_lib \<Rightarrow> VoteSet \<Rightarrow> Vote option list \<Rightarrow> bytes \<Rightarrow> nat set" where
  "group_slots cl vs xs idn = {i. i < length xs \<and> (\<exists>v. xs ! i = Some v \<and> identity cl vs v = Ret (Inr idn))}"

definition group_ok :: "crypto_lib \<Rightarrow> VoteSet \<Rightarrow> Vote option list \<Rightarrow> bytes \<Rightarrow> voteExtensionGroup \<Rightarrow> bool" where
  "group_ok cl vs xs idn g \<longleftrightarrow> grp_power g = vpower (valSet vs) (group_slots cl vs xs idn)
     \<and> voters g = (\<lambda>i. ValidatorProTxHash (the (xs ! i))) ` group_slots cl vs xs idn
     \<and> (\<exists>i \<in> group_slots cl vs xs idn. xs ! i = Some (representative g))"

definition bv_ok :: "crypto_lib \<Rightarrow> VoteSet \<Rightarrow> bytes \<Rightarrow> blockVotes \<Rightarrow> bool" where
  "bv_ok cl vs k bv \<longleftrightarrow> length (bv_votes bv) = nvals vs \<and> mirrors (bv_bitArray bv) (bv_votes bv)
     \<and> bv_sum bv = vpower (valSet vs) (held (bv_votes bv))
     \<and> (\<forall>i v. i < nvals vs \<and> bv_votes bv ! i = Some v \<longrightarrow> BlockID_Key (vote_BlockID v) = k \<and> vote_ok cl vs i v)
     \<and> distinct (map fst (voteExtensionGroups bv))
     \<and> (\<forall>idn. case map_of (voteExtensionGroups bv) idn of
                None \<Rightarrow> group_slots cl vs (bv_votes bv) idn = {}
              | Some g \<Rightarrow> group_ok cl vs (bv_votes bv) idn g)"

definition vset_core :: "crypto_lib \<Rightarrow> VoteSet \<Rightarrow> bool" where
  "vset_core cl vs \<longleftrightarrow> quorum_set (valSet vs) \<and> length (vset_votes vs) = nvals vs
     \<and> mirrors (votesBitArray vs) (vset_votes vs)
     \<and> vset_sum vs = vpower (valSet vs) (held (vset_votes vs))
     \<and> (\<forall>i v. i < nvals vs \<and> vset_votes vs ! i = Some v \<longrightarrow> vote_ok cl vs i v)
     \<and> distinct (map fst (votesByBlock vs))
     \<and> (\<forall>k bv. map_of (votesByBlock vs) k = Some bv \<longrightarrow>
           bv_ok cl vs k bv \<and> held (bv_votes bv) \<subseteq> held (vset_votes vs))
     \<and> distinct (map fst (peerMaj23s vs)) \<and> length (peerMaj23s vs) \<le> maxPeerMaj23s"

text \<open>
  The threshold signatures: they verify under the threshold key for the representative of a group of
  votes for the block that has the recovery power, and the recovered extensions are those of a
  member of the group.
\<close>

definition no_sig :: "VoteExtension \<Rightarrow> VoteExtension" where
  "no_sig e = e\<lparr>ve_Signature := []\<rparr>"

definition signs_ok :: "crypto_lib \<Rightarrow> VoteSet \<Rightarrow> blockVotes \<Rightarrow> bool" where
  "signs_ok cl vs bv \<longleftrightarrow> thresholdBlockSig vs \<noteq> None
     \<and> list_all IsThresholdRecoverable (thresholdVoteExtSigs vs)
     \<and> (2 \<le> nvals vs \<longrightarrow>
         (\<exists>idn g q i w. map_of (voteExtensionGroups bv) idn = Some g
            \<and> QuorumTypeThresholdVotingPower (valSet vs) \<le> grp_power g
            \<and> MakeQuorumSignsWithVoteSet cl vs (representative g) = Ret (Inr q)
            \<and> fst (qsd_verify cl q (the (ThresholdPublicKey (valSet vs))) (makeQuorumSigns vs)
                     (None :: unit budget) ()) = Inr ()
            \<and> i < nvals vs \<and> bv_votes bv ! i = Some w \<and> identity cl vs w = Ret (Inr idn)
            \<and> map no_sig (thresholdVoteExtSigs vs) = map no_sig (recoverable_exts w)))"

definition majority_ok :: "crypto_lib \<Rightarrow> VoteSet \<Rightarrow> BlockID \<Rightarrow> bool" where
  "majority_ok cl vs b \<longleftrightarrow>
     (\<exists>bv q. map_of (votesByBlock vs) (BlockID_Key b) = Some bv
        \<and> QuorumVotingThresholdPower (valSet vs) = Ret q \<and> q \<le> bv_sum bv
        \<and> (\<exists>i v. i < nvals vs \<and> bv_votes bv ! i = Some v \<and> vote_BlockID v = b)
        \<and> (signedMsgType vs = PrecommitType \<longrightarrow> signs_ok cl vs bv))"

definition vset_inv :: "crypto_lib \<Rightarrow> VoteSet \<Rightarrow> bool" where
  "vset_inv cl vs \<longleftrightarrow> vset_core cl vs \<and> (\<forall>b. maj23 vs = Some b \<longrightarrow> majority_ok cl vs b)"

text \<open>A later state of the votes for a block: slots and groups only grow.\<close>

definition bv_le :: "blockVotes \<Rightarrow> blockVotes \<Rightarrow> bool" where
  "bv_le bv bv' \<longleftrightarrow> bv_sum bv \<le> bv_sum bv'
     \<and> (\<forall>i v. bv_votes bv ! i = Some v \<longrightarrow> bv_votes bv' ! i = Some v)
     \<and> (\<forall>j g. map_of (voteExtensionGroups bv) j = Some g \<longrightarrow>
          (\<exists>g'. map_of (voteExtensionGroups bv') j = Some g' \<and> representative g' = representative g
             \<and> grp_power g \<le> grp_power g'))"

lemma nvals_simps [simp]:
  "nvals (vset_votes_update f1 vs) = nvals vs" "nvals (votesBitArray_update f2 vs) = nvals vs"
  "nvals (vset_sum_update f3 vs) = nvals vs" "nvals (maj23_update f4 vs) = nvals vs"
  "nvals (votesByBlock_update f5 vs) = nvals vs" "nvals (peerMaj23s_update f6 vs) = nvals vs"
  "nvals (thresholdBlockSig_update f7 vs) = nvals vs" "nvals (thresholdVoteExtSigs_update f8 vs) = nvals vs"
  by (simp_all add: nvals_def)

lemma vote_ok_simps [simp]:
  "vote_ok cl (vset_votes_update f1 vs) = vote_ok cl vs" "vote_ok cl (votesBitArray_update f2 vs) = vote_ok cl vs"
  "vote_ok cl (vset_sum_update f3 vs) = vote_ok cl vs" "vote_ok cl (maj23_update f4 vs) = vote_ok cl vs"
  "vote_ok cl (votesByBlock_update f5 vs) = vote_ok cl vs" "vote_ok cl (peerMaj23s_update f6 vs) = vote_ok cl vs"
  "vote_ok cl (thresholdBlockSig_update f7 vs) = vote_ok cl vs"
  "vote_ok cl (thresholdVoteExtSigs_update f8 vs) = vote_ok cl vs"
  by (simp_all add: vote_ok_def fun_eq_iff)

lemma identity_simps [simp]:
  "identity cl (vset_votes_update f1 vs) = identity cl vs" "identity cl (votesBitArray_update f2 vs) = identity cl vs"
  "identity cl (vset_sum_update f3 vs) = identity cl vs" "identity cl (maj23_update f4 vs) = identity cl vs"
  "identity cl (votesByBlock_update f5 vs) = identity cl vs" "identity cl (peerMaj23s_update f6 vs) = identity cl vs"
  "identity cl (thresholdBlockSig_update f7 vs) = identity cl vs"
  "identity cl (thresholdVoteExtSigs_update f8 vs) = identity cl vs"
  by (simp_all add: identity_def voteExtensionIdentity_def fun_eq_iff)

lemma bv_ok_simps [simp]:
  "bv_ok cl (vset_votes_update f1 vs) = bv_ok cl vs" "bv_ok cl (votesBitArray_update f2 vs) = bv_ok cl vs"
  "bv_ok cl (vset_sum_update f3 vs) = bv_ok cl vs" "bv_ok cl (maj23_update f4 vs) = bv_ok cl vs"
  "bv_ok cl (votesByBlock_update f5 vs) = bv_ok cl vs" "bv_ok cl (peerMaj23s_update f6 vs) = bv_ok cl vs"
  "bv_ok cl (thresholdBlockSig_update f7 vs) = bv_ok cl vs"
  "bv_ok cl (thresholdVoteExtSigs_update f8 vs) = bv_ok cl vs"
  by (simp_all add: bv_ok_def group_slots_def group_ok_def fun_eq_iff cong: option.case_cong)

lemma quorum_set_facts:
  assumes "quorum_set vals"
  shows "wf_vals vals" "0 < length (vs_Validators vals)" "int (length (vs_Validators vals)) \<le> MaxInt32"
    "length (quorum_hash vals) = 32" "\<exists>pk. ThresholdPublicKey vals = Some pk"
    "\<exists>q. QuorumVotingThresholdPower vals = Ret q \<and> 0 < q \<and> q \<le> TotalVotingPower vals"
  using assms by (auto simp: quorum_set_def wf_vals_def elim: validateThreshold_range)

lemma new_bv_ok:
  assumes "quorum_set (valSet vs)"
  shows "bv_ok cl vs k (newBlockVotes p (ValidatorSet_Size (Some (valSet vs))))"
  using quorum_set_facts [OF assms] mirrors_new [of "nvals vs"]
  by (auto simp: bv_ok_def newBlockVotes_def ValidatorSet_Size_def nvals_def group_slots_def)

section \<open>Votes for one block\<close>

lemma group_slots_update:
  assumes "i < length xs" "xs ! i = None" "identity cl vs v = Ret (Inr idn)"
  shows "group_slots cl vs (xs[i := Some v]) j =
     (if j = idn then insert i (group_slots cl vs xs j) else group_slots cl vs xs j)"
  using assms by (auto simp: group_slots_def nth_list_update)

lemma group_slots_bound: "group_slots cl vs xs j \<subseteq> {..<length xs}" "finite (group_slots cl vs xs j)"
  by (auto simp: group_slots_def intro: finite_subset [of _ "{..<length xs}"])

lemma group_ok_other:
  assumes "i < length xs" "xs ! i = None" "identity cl vs v = Ret (Inr idn)" "j \<noteq> idn" "group_ok cl vs xs j g"
  shows "group_ok cl vs (xs[i := Some v]) j g"
proof -
  have eq: "group_slots cl vs (xs[i := Some v]) j = group_slots cl vs xs j"
    using group_slots_update [OF assms(1-3)] assms(4) by simp
  have "xs[i := Some v] ! k = xs ! k" if "k \<in> group_slots cl vs xs j" for k
    using that assms(2) by (cases "k = i") (auto simp: group_slots_def)
  then show ?thesis using assms(5) by (simp add: group_ok_def eq)
qed

lemma group_ok_add:
  assumes "quorum_set (valSet vs)" "length xs = nvals vs" "i < length xs" "xs ! i = None"
    "identity cl vs v = Ret (Inr idn)" "VotingPower (vs_Validators (valSet vs) ! i) = p"
    and g: "case grp of None \<Rightarrow> group_slots cl vs xs idn = {} \<and> g = \<lparr>grp_power = 0, representative = v, voters = {}\<rparr>
            | Some h \<Rightarrow> g = h \<and> group_ok cl vs xs idn h"
  shows "group_ok cl vs (xs[i := Some v]) idn
     (g\<lparr>grp_power := wrap64 (grp_power g + p), voters := insert (ValidatorProTxHash v) (voters g)\<rparr>)"
proof -
  let ?S = "group_slots cl vs xs idn" and ?xs = "xs[i := Some v]"
  have S: "group_slots cl vs ?xs idn = insert i ?S" using group_slots_update [OF assms(3-5)] by simp
  have i: "i \<notin> ?S" using assms(4) by (simp add: group_slots_def)
  have same: "?xs ! k = xs ! k" if "k \<in> ?S" for k using that i by (cases "k = i") auto
  have pw: "grp_power g = vpower (valSet vs) ?S" and vt: "voters g = (\<lambda>k. ValidatorProTxHash (the (xs ! k))) ` ?S"
    using g by (auto simp: group_ok_def split: option.splits)
  have rp: "\<exists>k \<in> insert i ?S. ?xs ! k = Some (representative g)"
    using g same assms(3) by (auto simp: group_ok_def split: option.splits)
  have sub: "insert i ?S \<subseteq> {..<length (vs_Validators (valSet vs))}"
    using group_slots_bound(1) [of cl vs xs idn] assms(2,3) by (auto simp: nvals_def)
  have "in_int64 (vpower (valSet vs) (insert i ?S))"
    by (rule vpower_range(3) [OF quorum_set_facts(1) [OF assms(1)] sub])
  then have "wrap64 (grp_power g + p) = vpower (valSet vs) (insert i ?S)"
    using pw assms(6) i group_slots_bound(2) by (simp add: vpower_insert add.commute)
  moreover have "insert (ValidatorProTxHash v) (voters g) = (\<lambda>k. ValidatorProTxHash (the (?xs ! k))) ` insert i ?S"
    using vt same assms(3) by (auto simp: image_iff)
  ultimately show ?thesis using rp by (simp add: group_ok_def S)
qed

lemma bv_add_ok:
  assumes "quorum_set (valSet vs)" "bv_ok cl vs k bv" "vote_ok cl vs i v"
    "BlockID_Key (vote_BlockID v) = k" "identity cl vs v = Ret (Inr idn)" "bv_votes bv ! i = None"
    "VotingPower (vs_Validators (valSet vs) ! i) = p"
  obtains bv' r where "bv_addVerifiedVote v idn p t bv = Ret (bv', r)" "bv_ok cl vs k bv'"
    "bv_votes bv' = (bv_votes bv)[i := Some v]" "peerMaj23 bv' = peerMaj23 bv" "bv_le bv bv'"
proof -
  let ?xs = "bv_votes bv" and ?gs = "voteExtensionGroups bv"
  have i: "i < nvals vs" "ValidatorIndex v = int i" "length ?xs = nvals vs" "mirrors (bv_bitArray bv) ?xs"
    and sum: "bv_sum bv = vpower (valSet vs) (held ?xs)"
    and grp: "case map_of ?gs j of None \<Rightarrow> group_slots cl vs ?xs j = {} | Some g \<Rightarrow> group_ok cl vs ?xs j g" for j
    using assms(2,3) by (auto simp: vote_ok_def bv_ok_def)
  have ix: "i < length ?xs" using i by simp
  obtain x' where x': "SetIndex (bv_bitArray bv) (int i) True = Ret (x', True)" "mirrors x' (?xs[i := Some v])"
    using mirrors_set [OF i(4) ix, of v] by blast
  define g where "g = (case map_of ?gs idn of Some g \<Rightarrow> g
      | None \<Rightarrow> \<lparr>grp_power = 0, representative = v, voters = {}\<rparr>)"
  define g' where "g' = g\<lparr>grp_power := wrap64 (grp_power g + p), voters := insert (ValidatorProTxHash v) (voters g)\<rparr>"
  let ?bv = "bv\<lparr>bv_bitArray := x', bv_votes := ?xs[i := Some v], bv_sum := wrap64 (bv_sum bv + p),
      voteExtensionGroups := AList.update idn g' ?gs\<rparr>"
  have run: "bv_addVerifiedVote v idn p t bv = Ret (?bv, grp_power g < t \<and> grp_power g' \<ge> t)"
    using i assms(6) x' by (simp add: bv_addVerifiedVote_def go_index_def g_def g'_def Let_def)
  have new: "i \<notin> held ?xs" using assms(6) by (simp add: held_def)
  have sub: "insert i (held ?xs) \<subseteq> {..<length (vs_Validators (valSet vs))}"
    using held_bound [of ?xs] i by (auto simp: nvals_def)
  note wf = quorum_set_facts(1) [OF assms(1)]
  have sum': "wrap64 (bv_sum bv + p) = vpower (valSet vs) (held (?xs[i := Some v]))"
    using vpower_range(3) [OF wf sub] assms(7) new
    by (simp add: sum held_update [OF ix] vpower_insert add.commute)
  have gok: "group_ok cl vs (?xs[i := Some v]) idn g'"
    unfolding g'_def using grp [of idn]
    by (intro group_ok_add [OF assms(1) i(3) ix assms(6,5,7), where grp = "map_of ?gs idn"])
      (auto simp: g_def split: option.splits)
  have "case map_of ?gs j of None \<Rightarrow> group_slots cl vs (?xs[i := Some v]) j = {}
      | Some g \<Rightarrow> group_ok cl vs (?xs[i := Some v]) j g" if "j \<noteq> idn" for j
    using grp [of j] group_slots_update [OF ix assms(6,5), of j] group_ok_other [OF ix assms(6,5) that] that
    by (auto split: option.splits)
  then have all: "case map_of (AList.update idn g' ?gs) j of
      None \<Rightarrow> group_slots cl vs (?xs[i := Some v]) j = {}
    | Some g \<Rightarrow> group_ok cl vs (?xs[i := Some v]) j g" for j
    using gok by (cases "j = idn") simp_all
  have "distinct (map fst (AList.update idn g' ?gs))"
    using assms(2) by (intro distinct_update) (simp add: bv_ok_def)
  moreover have "BlockID_Key (vote_BlockID w) = k \<and> vote_ok cl vs j w"
    if "j < nvals vs" "?xs[i := Some v] ! j = Some w" for j w
    using assms(2,3,4) that i by (cases "j = i") (auto simp: bv_ok_def)
  ultimately have "bv_ok cl vs k ?bv"
    unfolding bv_ok_def using x' sum' i all
    by (simp del: map_of_AList_update cong: option.case_cong) blast
  moreover have "bv_sum bv \<le> bv_sum ?bv"
    using vpower_mono [OF wf subset_insertI sub] sum' unfolding sum by (simp add: held_update [OF ix])
  moreover have "grp_power h \<le> grp_power g' \<and> representative g' = representative h"
    if "map_of ?gs idn = Some h" for h
  proof -
    have "grp_power g' = vpower (valSet vs) (insert i (group_slots cl vs ?xs idn))"
      using gok group_slots_update [OF ix assms(6,5)] by (simp add: group_ok_def)
    moreover have "insert i (group_slots cl vs ?xs idn) \<subseteq> {..<length (vs_Validators (valSet vs))}"
      using group_slots_bound(1) [of cl vs ?xs idn] i by (auto simp: nvals_def)
    ultimately show ?thesis
      using vpower_mono [OF wf subset_insertI, of i "group_slots cl vs ?xs idn"] grp [of idn] that
      by (simp add: group_ok_def g'_def g_def)
  qed
  moreover have "?xs[i := Some v] ! j = Some w" if "?xs ! j = Some w" for j w
    using that assms(6) by (cases "j = i") auto
  ultimately show ?thesis
    using run by (intro that [of ?bv]) (auto simp: bv_le_def)
qed

section \<open>Recovery\<close>

lemma add_shares_fst:
  "add_shares h exts es = Inr es' \<Longrightarrow> map fst es' = map fst es"
  by (induction h exts es arbitrary: es' rule: add_shares.induct)
    (auto simp: res_bind_Inr_iff AddThresholdSignature_def split: if_splits)

lemma recoverable_exts_empty: "VoteExtensions w = [] \<Longrightarrow> recoverable_exts w = []"
  by (simp add: recoverable_exts_def)

lemma addVoteSigs_spec:
  assumes "addVoteSigs (Some w) v = Inr v'" "canonicalVoteExtVoters v = Some vt"
  shows "canonicalVoteExtVoters v' = Some vt" "quorumReached v' = quorumReached v"
    "map fst (voteExtensions v') = map fst (voteExtensions v)
       \<and> (voteExtensions v = [] \<and> ValidatorProTxHash w \<in> vt \<longrightarrow> recoverable_exts w = [])
     \<or> voteExtensions v = [] \<and> ValidatorProTxHash w \<in> vt \<and> map fst (voteExtensions v') = recoverable_exts w"
  using assms
  by (auto simp: addVoteSigs_def addVoteExtensionSigs_def Let_def res_bind_Inr_iff recoverable_exts_empty comp_def
      dest!: add_shares_fst split: if_splits)

lemma init_sigs_spec:
  assumes "init_sigs votes v = Inr v'" "canonicalVoteExtVoters v = Some vt"
  shows "quorumReached v' = quorumReached v
    \<and> (map fst (voteExtensions v') = map fst (voteExtensions v)
         \<and> (voteExtensions v = [] \<longrightarrow>
              (\<forall>w. Some w \<in> set votes \<and> ValidatorProTxHash w \<in> vt \<longrightarrow> recoverable_exts w = []))
       \<or> (\<exists>w. Some w \<in> set votes \<and> ValidatorProTxHash w \<in> vt \<and> map fst (voteExtensions v') = recoverable_exts w))"
  using assms
proof (induction votes arbitrary: v)
  case (Cons x votes)
  obtain v1 where v1: "addVoteSigs x v = Inr v1" "init_sigs votes v1 = Inr v'"
    using Cons.prems(1) by (auto simp: res_bind_Inr_iff)
  show ?case
  proof (cases x)
    case None
    then have "v1 = v" using v1(1) by (simp add: addVoteSigs_def)
    then show ?thesis using Cons.IH [OF v1(2)] Cons.prems(2) None by auto
  next
    case (Some w)
    note s = addVoteSigs_spec [OF v1(1) [unfolded Some] Cons.prems(2)]
    note IH = Cons.IH [OF v1(2) s(1)]
    have mem: "Some w \<in> set (x # votes)" using Some by simp
    consider "map fst (voteExtensions v1) = map fst (voteExtensions v)"
        "voteExtensions v = [] \<and> ValidatorProTxHash w \<in> vt \<longrightarrow> recoverable_exts w = []"
      | "ValidatorProTxHash w \<in> vt" "map fst (voteExtensions v1) = recoverable_exts w" using s(3) by blast
    then show ?thesis
    proof cases
      case 1
      then have "voteExtensions v1 = [] \<longleftrightarrow> voteExtensions v = []" by (metis map_is_Nil_conv)
      then show ?thesis using IH 1 s(2) Some by auto
    next
      case 2
      then show ?thesis using IH s(2) mem by auto
    qed
  qed
qed simp

lemma init_sigs_nil:
  "init_sigs votes v = Inr v' \<Longrightarrow> voteExtensions v = [] \<Longrightarrow> (\<forall>w. Some w \<in> set votes \<longrightarrow> VoteExtensions w = [])
     \<Longrightarrow> voteExtensions v' = []"
proof (induction votes arbitrary: v)
  case (Cons x votes)
  obtain v1 where v1: "addVoteSigs x v = Inr v1" "init_sigs votes v1 = Inr v'"
    using Cons.prems(1) by (auto simp: res_bind_Inr_iff)
  have "voteExtensions v1 = []"
  proof (cases x)
    case None
    then show ?thesis using v1(1) Cons.prems(2) by (simp add: addVoteSigs_def)
  next
    case (Some w)
    have "Some w \<in> set (x # votes)" unfolding Some by simp
    then have "VoteExtensions w = []" using Cons.prems(3) by blast
    then have "voteExtensions v1 = voteExtensions v"
      using v1(1) Some by (auto simp: addVoteSigs_def addVoteExtensionSigs_def split: if_splits)
    then show ?thesis using Cons.prems(2) by simp
  qed
  then show ?case using Cons.IH [OF v1(2)] Cons.prems(3) by simp
qed simp

lemma recover_exts_length: "recover_exts recover es = Inr sigs \<Longrightarrow> length sigs = length es"
  by (induction recover es arbitrary: sigs rule: recover_exts.induct) (auto simp: res_bind_Inr_iff)

lemma least_group_in:
  assumes "least_group t gs c = Some (idn, g)"
  shows "c = Some (idn, g) \<or> (idn, g) \<in> set gs \<and> t \<le> grp_power g"
  using assms
  by (induction t gs c rule: least_group.induct) (auto split: if_splits)

lemma least_group_least:
  assumes "least_group t gs c = r"
  shows "(\<forall>p. c = Some p \<or> p \<in> set gs \<and> t \<le> grp_power (snd p) \<longrightarrow>
      (\<exists>idn g. r = Some (idn, g) \<and> idn \<le> fst p))"
  using assms
proof (induction t gs c arbitrary: r rule: least_group.induct)
  case (1 t c)
  then show ?case by (cases c) auto
next
  case (2 t idn g gs c)
  let ?c = "if t \<le> grp_power g \<and> (case c of None \<Rightarrow> True | Some (d, _) \<Rightarrow> idn < d) then Some (idn, g) else c"
  have IH: "\<exists>j h. r = Some (j, h) \<and> j \<le> fst p"
    if "?c = Some p \<or> p \<in> set gs \<and> t \<le> grp_power (snd p)" for p
  proof -
    have "least_group t gs ?c = r" using "2.prems" by simp
    then show ?thesis using "2.IH" that by blast
  qed
  show ?case
  proof (intro allI impI)
    fix p
    assume p: "c = Some p \<or> p \<in> set ((idn, g) # gs) \<and> t \<le> grp_power (snd p)"
    show "\<exists>j h. r = Some (j, h) \<and> j \<le> fst p"
    proof (cases "p \<in> set gs \<and> t \<le> grp_power (snd p)")
      case True
      then show ?thesis using IH by blast
    next
      case False
      then have "c = Some p \<or> p = (idn, g) \<and> t \<le> grp_power g" using p by auto
      then have "\<exists>p'. ?c = Some p' \<and> fst p' \<le> fst p" by (cases c) (auto simp: not_less)
      then obtain p' where "?c = Some p'" "fst p' \<le> fst p" by blast
      then show ?thesis using IH [of p'] by fastforce
    qed
  qed
qed

lemma no_sig_recoverable:
  "map no_sig xs = map no_sig ys \<Longrightarrow> list_all IsThresholdRecoverable ys \<Longrightarrow> list_all IsThresholdRecoverable xs"
proof (induction xs arbitrary: ys)
  case (Cons x xs)
  then obtain y ys' where ys: "ys = y # ys'" "no_sig x = no_sig y" "map no_sig xs = map no_sig ys'" by auto
  have "ve_Type x = ve_Type y" using ys(2) by (metis (no_types, lifting) VoteExtension.select_convs(1)
        VoteExtension.surjective VoteExtension.update_convs(3) no_sig_def)
  then show ?case using Cons.IH [OF ys(3)] Cons.prems(2) ys(1) by (simp add: IsThresholdRecoverable_def)
qed simp

lemma recoverable_exts_all: "list_all IsThresholdRecoverable (recoverable_exts w)"
  by (simp add: recoverable_exts_def list_all_iff)

lemma same_block:
  assumes "bv_ok cl vs k bv" "i < nvals vs" "j < nvals vs" "bv_votes bv ! i = Some v" "bv_votes bv ! j = Some w"
  shows "vote_BlockID v = vote_BlockID w"
proof -
  have "BlockID_Key (vote_BlockID v) = BlockID_Key (vote_BlockID w)" "Vote_ValidateBasic v" "Vote_ValidateBasic w"
    using assms by (auto simp: bv_ok_def vote_ok_def)
  then show ?thesis by (intro valid_Key_inj) (simp_all add: Vote_ValidateBasic_def)
qed

lemma nil_votes_no_exts:
  assumes "bv_ok cl vs k bv" "i < nvals vs" "bv_votes bv ! i = Some v" "bid_Hash (vote_BlockID v) = []"
    and w: "Some w \<in> set (bv_votes bv)"
  shows "VoteExtensions w = []"
proof -
  have n: "length (bv_votes bv) = nvals vs" using assms(1) by (simp add: bv_ok_def)
  obtain j where j: "j < nvals vs" "bv_votes bv ! j = Some w" using w n by (metis in_set_conv_nth)
  have ok: "Vote_ValidateBasic w" using assms(1) j by (simp add: bv_ok_def vote_ok_def)
  have "bid_Hash (vote_BlockID w) = []" using same_block [OF assms(1,2) j(1) assms(3) j(2)] assms(4) by simp
  then have "BlockID_IsNil (vote_BlockID w)"
    using ok by (auto simp: Vote_ValidateBasic_def BlockID_IsComplete_def)
  then show ?thesis using ok by (simp add: Vote_ValidateBasic_def)
qed

lemma ProTxHash_inj:
  assumes "wf_vals vals" "i < length (vs_Validators vals)" "j < length (vs_Validators vals)"
    "ProTxHash (vs_Validators vals ! i) = ProTxHash (vs_Validators vals ! j)"
  shows "i = j"
proof -
  have "distinct (map ProTxHash (vs_Validators vals))"
    using assms(1) by (auto simp: wf_vals_def ssorted_def intro: strict_sorted_distinct)
  then show ?thesis using assms(2-4) by (simp add: distinct_conv_nth) metis
qed

lemma voter_in_group:
  assumes "quorum_set (valSet vs)" "bv_ok cl vs k bv" "map_of (voteExtensionGroups bv) idn = Some g"
    "Some w \<in> set (bv_votes bv)" "ValidatorProTxHash w \<in> voters g"
  shows "\<exists>i < nvals vs. bv_votes bv ! i = Some w \<and> identity cl vs w = Ret (Inr idn)"
proof -
  let ?xs = "bv_votes bv"
  have n: "length ?xs = nvals vs" and g: "group_ok cl vs ?xs idn g"
    and ok: "\<And>i v. i < nvals vs \<Longrightarrow> ?xs ! i = Some v \<Longrightarrow> vote_ok cl vs i v"
    using assms(2,3) by (auto simp: bv_ok_def dest: spec [of _ idn])
  obtain j where j: "j < nvals vs" "?xs ! j = Some w" using assms(4) n by (metis in_set_conv_nth)
  obtain i where i: "i \<in> group_slots cl vs ?xs idn" "ValidatorProTxHash w = ValidatorProTxHash (the (?xs ! i))"
    using g assms(5) by (auto simp: group_ok_def)
  obtain v where v: "i < nvals vs" "?xs ! i = Some v" "identity cl vs v = Ret (Inr idn)"
    using i(1) n by (auto simp: group_slots_def)
  have "i = j"
    using ok [OF v(1,2)] ok [OF j] i(2) v(1,2) j(1)
    by (intro ProTxHash_inj [OF quorum_set_facts(1) [OF assms(1)]]) (auto simp: vote_ok_def nvals_def)
  then show ?thesis using v j by auto
qed

lemma Recover_counts:
  assumes "Recover recover sr = Inr qs" "\<not> quorumReached sr \<Longrightarrow> voteExtensions sr = []"
  shows "length (VoteExtensionSignatures qs) = length (voteExtensions sr)"
  using assms
  by (cases "quorumReached sr")
    (auto simp: Recover_def recoverVoteExtensionSigs_def res_bind_Inr_iff dest: recover_exts_length)

lemma no_sig_map2:
  "length es = length sigs \<Longrightarrow> map no_sig (map2 (\<lambda>e sig. fst e\<lparr>ve_Signature := sig\<rparr>) es sigs) = map (no_sig \<circ> fst) es"
  by (induction es sigs rule: list_induct2) (auto simp: no_sig_def)

lemma recovered_exts:
  assumes "quorum_set (valSet vs)" "bv_ok cl vs k bv" "map_of (voteExtensionGroups bv) idn = Some g"
    "NewSignsRecoverer (bv_votes bv) reached (voters g) = Inr sr"
  shows "\<exists>i < nvals vs. \<exists>w. bv_votes bv ! i = Some w \<and> identity cl vs w = Ret (Inr idn)
     \<and> map fst (voteExtensions sr) = recoverable_exts w"
proof -
  let ?xs = "bv_votes bv"
  have n: "length ?xs = nvals vs" and g: "group_ok cl vs ?xs idn g"
    using assms(2,3) by (auto simp: bv_ok_def dest: spec [of _ idn])
  obtain i where i: "i \<in> group_slots cl vs ?xs idn" "?xs ! i = Some (representative g)"
    using g by (auto simp: group_ok_def)
  have rep: "i < nvals vs" "identity cl vs (representative g) = Ret (Inr idn)"
      "Some (representative g) \<in> set ?xs" "ValidatorProTxHash (representative g) \<in> voters g"
    using i n g by (auto simp: group_slots_def group_ok_def in_set_conv_nth intro!: image_eqI [of _ _ i])
  have "map fst (voteExtensions sr) = []
      \<and> (\<forall>w. Some w \<in> set ?xs \<and> ValidatorProTxHash w \<in> voters g \<longrightarrow> recoverable_exts w = [])
    \<or> (\<exists>w. Some w \<in> set ?xs \<and> ValidatorProTxHash w \<in> voters g \<and> map fst (voteExtensions sr) = recoverable_exts w)"
    using init_sigs_spec [OF assms(4) [unfolded NewSignsRecoverer_def], of "voters g"] by simp
  then obtain w where w: "Some w \<in> set ?xs" "ValidatorProTxHash w \<in> voters g"
      "map fst (voteExtensions sr) = recoverable_exts w"
    using rep(3,4) by metis
  then show ?thesis using voter_in_group [OF assms(1,2,3) w(1,2)] by blast
qed

lemma signs_ok_single:
  assumes "bv_ok cl vs k bv" "nvals vs = 1" "bv_votes bv ! 0 = Some v"
  shows "signs_ok cl (vs\<lparr>thresholdBlockSig := Some (BlockSignature v), thresholdVoteExtSigs := recoverable_exts v\<rparr>) bv"
  using assms recoverable_exts_all by (simp add: signs_ok_def)

lemma canonical_group:
  assumes "bv_ok cl vs k bv" "canonicalVoteExtensionGroup vs bv = Some (cv, vt)"
  obtains idn g where "map_of (voteExtensionGroups bv) idn = Some g" "cv = representative g" "vt = voters g"
    "QuorumTypeThresholdVotingPower (valSet vs) \<le> grp_power g"
proof -
  obtain idn g where g: "least_group (QuorumTypeThresholdVotingPower (valSet vs)) (voteExtensionGroups bv) None = Some (idn, g)"
    "cv = representative g" "vt = voters g"
    using assms(2) by (auto simp: canonicalVoteExtensionGroup_def)
  have "map_of (voteExtensionGroups bv) idn = Some g"
    using assms(1) least_group_in [OF g(1)] by (auto simp: bv_ok_def)
  then show ?thesis using g least_group_in [OF g(1)] by (intro that [of idn g]) auto
qed

lemma recoverThresholdSigns_ok:
  assumes "quorum_set (valSet vs)" "bv_ok cl vs k bv" "maj23 vs = Some (vote_BlockID v)"
    "i < nvals vs" "bv_votes bv ! i = Some v" "2 \<le> nvals vs"
  obtains (fail) e where "recoverThresholdSigns recover bv vs = Ret (Inl e, vs)"
    | (rec) idn g s exts j w where
      "recoverThresholdSigns recover bv vs =
         Ret (Inr (representative g), vs\<lparr>thresholdBlockSig := Some s, thresholdVoteExtSigs := exts\<rparr>)"
      "map_of (voteExtensionGroups bv) idn = Some g" "QuorumTypeThresholdVotingPower (valSet vs) \<le> grp_power g"
      "j < nvals vs" "bv_votes bv ! j = Some w" "identity cl vs w = Ret (Inr idn)"
      "map no_sig exts = map no_sig (recoverable_exts w)"
proof (cases "canonicalVoteExtensionGroup vs bv")
  case None
  then show ?thesis using assms(2,6) by (intro fail) (simp add: recoverThresholdSigns_def bv_ok_def)
next
  case (Some p)
  have n: "\<not> length (bv_votes bv) < 2" using assms(2,6) by (simp add: bv_ok_def)
  obtain cv vt where p: "p = (cv, vt)" by (cases p)
  obtain idn g where g: "map_of (voteExtensionGroups bv) idn = Some g" "cv = representative g" "vt = voters g"
    "QuorumTypeThresholdVotingPower (valSet vs) \<le> grp_power g"
    by (rule canonical_group [OF assms(2) Some [unfolded p]])
  show ?thesis
  proof (cases "NewSignsRecoverer (bv_votes bv) (vset_IsQuorumReached vs) vt")
    case (Inl e)
    then show ?thesis using n Some p by (intro fail) (simp add: recoverThresholdSigns_def)
  next
    case (Inr sr)
    show ?thesis
    proof (cases "Recover recover sr")
      case (Inl e)
      then show ?thesis using n Some p \<open>_ = Inr sr\<close> by (intro fail) (simp add: recoverThresholdSigns_def)
    next
      case rc: (Inr qs)
      note new = Inr [unfolded NewSignsRecoverer_def]
      have reached: "quorumReached sr = (bid_Hash (vote_BlockID v) \<noteq> [])"
        using init_sigs_spec [OF new, of vt] assms(3) by (simp add: vset_IsQuorumReached_def)
      have "voteExtensions sr = []" if "\<not> quorumReached sr"
        using init_sigs_nil [OF new] nil_votes_no_exts [OF assms(2,4,5)] that reached by simp
      then have len: "length (VoteExtensionSignatures qs) = length (voteExtensions sr)"
        by (rule Recover_counts [OF rc])
      define exts where "exts = map2 (\<lambda>e sig. fst e\<lparr>ve_Signature := sig\<rparr>) (voteExtensions sr) (VoteExtensionSignatures qs)"
      have run: "recoverThresholdSigns recover bv vs =
         Ret (Inr (representative g), vs\<lparr>thresholdBlockSig := Some (BlockSign qs), thresholdVoteExtSigs := exts\<rparr>)"
        using n Some p Inr rc len g(2) by (simp add: recoverThresholdSigns_def GetVoteExtensions_def exts_def)
      obtain j w where w: "j < nvals vs" "bv_votes bv ! j = Some w" "identity cl vs w = Ret (Inr idn)"
          "map fst (voteExtensions sr) = recoverable_exts w"
        using recovered_exts [OF assms(1,2) g(1) Inr [unfolded g(3)]] by blast
      have "map no_sig exts = map no_sig (recoverable_exts w)"
        using no_sig_map2 [of "voteExtensions sr" "VoteExtensionSignatures qs"] len
        by (simp add: exts_def w(4) [symmetric])
      then show ?thesis by (rule rec [OF run g(1,4) w(1-3)])
    qed
  qed
qed

text \<open>
  Recovery never panics on a quorum of valid votes, touches only the two threshold fields, and what
  it accepts verifies.
\<close>

lemma recover_ok:
  assumes "crypto_ok cl" "quorum_set (valSet vs)" "bv_ok cl vs k bv" "maj23 vs = Some (vote_BlockID v)"
    "i < nvals vs" "bv_votes bv ! i = Some v"
  shows "\<exists>r s e. recoverThresholdSignsAndVerify cl recover bv vs
      = Ret (r, vs\<lparr>thresholdBlockSig := s, thresholdVoteExtSigs := e\<rparr>)
    \<and> (r = Inr () \<longrightarrow> signs_ok cl (vs\<lparr>thresholdBlockSig := s, thresholdVoteExtSigs := e\<rparr>) bv)"
proof -
  have n: "length (bv_votes bv) = nvals vs" using assms(3) by (simp add: bv_ok_def)
  show ?thesis
  proof (cases "nvals vs = 1")
    case True
    then have v: "bv_votes bv ! 0 = Some v" using assms(5,6) by simp
    then show ?thesis
      using n True signs_ok_single [OF assms(3) True v] unfolding recoverThresholdSignsAndVerify_def by auto
  next
    case False
    then have n2: "2 \<le> nvals vs" "length (bv_votes bv) \<noteq> 0" "length (bv_votes bv) \<noteq> 1" using assms(5) n by simp_all
    show ?thesis
    proof (cases rule: recoverThresholdSigns_ok [OF assms(2-6) n2(1), of recover])
      case (1 e)
      then have "recoverThresholdSignsAndVerify cl recover bv vs = Ret (Inl e,
          vs\<lparr>thresholdBlockSig := thresholdBlockSig vs, thresholdVoteExtSigs := thresholdVoteExtSigs vs\<rparr>)"
        using n2 by (simp add: recoverThresholdSignsAndVerify_def)
      then show ?thesis by blast
    next
      case (2 idn g s exts j w)
      let ?vs = "vs\<lparr>thresholdBlockSig := Some s, thresholdVoteExtSigs := exts\<rparr>"
      obtain d where d: "MakeQuorumSignsWithVoteSet cl ?vs (representative g) = Ret d"
        using MakeQuorumSigns_total [OF assms(1) quorum_set_facts(4) [OF assms(2)],
            of "vset_chainID vs" "QuorumType (valSet vs)" "representative g"] by (auto simp: MakeQuorumSignsWithVoteSet_def)
      obtain pk where pk: "ThresholdPublicKey (valSet vs) = Some pk" using quorum_set_facts(5) [OF assms(2)] by blast
      have "list_all IsThresholdRecoverable exts"
        by (rule no_sig_recoverable [OF 2(7) recoverable_exts_all])
      then have ok: "signs_ok cl ?vs bv" if "d = Inr q"
          "fst (qsd_verify cl q pk (makeQuorumSigns ?vs) (None :: unit budget) ()) = Inr ()" for q
        unfolding signs_ok_def using 2(2-7) d that pk
        by (intro conjI impI exI [of _ idn] exI [of _ g] exI [of _ q] exI [of _ j] exI [of _ w]) simp_all
      have run: "\<exists>r. recoverThresholdSignsAndVerify cl recover bv vs = Ret (r, ?vs) \<and> (r = Inr () \<longrightarrow> signs_ok cl ?vs bv)"
      proof (cases d)
        case (Inl e)
        then show ?thesis using 2(1) n2 d by (simp add: recoverThresholdSignsAndVerify_def)
      next
        case (Inr q)
        then show ?thesis
          using 2(1) n2 d pk ok [OF Inr]
          by (cases "fst (qsd_verify cl q pk (makeQuorumSigns ?vs) (None :: unit budget) ())")
            (auto simp: recoverThresholdSignsAndVerify_def)
      qed
      then show ?thesis by blast
    qed
  qed
qed

section \<open>Adding a vote\<close>

lemma vset_core_simps [simp]:
  "vset_core cl (maj23_update f4 vs) = vset_core cl vs"
  "vset_core cl (thresholdBlockSig_update f7 vs) = vset_core cl vs"
  "vset_core cl (thresholdVoteExtSigs_update f8 vs) = vset_core cl vs"
  by (simp_all add: vset_core_def)

lemma signs_ok_simps [simp]:
  "signs_ok cl (vset_votes_update f1 vs) bv = signs_ok cl vs bv" "signs_ok cl (votesBitArray_update f2 vs) bv = signs_ok cl vs bv"
  "signs_ok cl (vset_sum_update f3 vs) bv = signs_ok cl vs bv" "signs_ok cl (maj23_update f4 vs) bv = signs_ok cl vs bv"
  "signs_ok cl (votesByBlock_update f5 vs) bv = signs_ok cl vs bv" "signs_ok cl (peerMaj23s_update f6 vs) bv = signs_ok cl vs bv"
  by (simp_all add: signs_ok_def MakeQuorumSignsWithVoteSet_def makeQuorumSigns_def)

lemma majority_ok_simps [simp]:
  "majority_ok cl (vset_votes_update f1 vs) b = majority_ok cl vs b"
  "majority_ok cl (votesBitArray_update f2 vs) b = majority_ok cl vs b"
  "majority_ok cl (vset_sum_update f3 vs) b = majority_ok cl vs b"
  "majority_ok cl (maj23_update f4 vs) b = majority_ok cl vs b"
  "majority_ok cl (peerMaj23s_update f6 vs) b = majority_ok cl vs b"
  by (simp_all add: majority_ok_def)

lemma signs_ok_le:
  assumes "signs_ok cl vs bv" "bv_le bv bv'"
  shows "signs_ok cl vs bv'"
proof -
  have "\<exists>idn g q i w. map_of (voteExtensionGroups bv') idn = Some g
            \<and> QuorumTypeThresholdVotingPower (valSet vs) \<le> grp_power g
            \<and> MakeQuorumSignsWithVoteSet cl vs (representative g) = Ret (Inr q)
            \<and> fst (qsd_verify cl q (the (ThresholdPublicKey (valSet vs))) (makeQuorumSigns vs)
                     (None :: unit budget) ()) = Inr ()
            \<and> i < nvals vs \<and> bv_votes bv' ! i = Some w \<and> identity cl vs w = Ret (Inr idn)
            \<and> map no_sig (thresholdVoteExtSigs vs) = map no_sig (recoverable_exts w)"
    if n: "2 \<le> nvals vs"
  proof -
    obtain idn g q i w where g: "map_of (voteExtensionGroups bv) idn = Some g"
      "QuorumTypeThresholdVotingPower (valSet vs) \<le> grp_power g"
      "MakeQuorumSignsWithVoteSet cl vs (representative g) = Ret (Inr q)"
      "fst (qsd_verify cl q (the (ThresholdPublicKey (valSet vs))) (makeQuorumSigns vs) (None :: unit budget) ()) = Inr ()"
      "i < nvals vs" "bv_votes bv ! i = Some w" "identity cl vs w = Ret (Inr idn)"
      "map no_sig (thresholdVoteExtSigs vs) = map no_sig (recoverable_exts w)"
      using assms(1) n unfolding signs_ok_def by blast
    obtain g' where "map_of (voteExtensionGroups bv') idn = Some g'" "representative g' = representative g"
      "grp_power g \<le> grp_power g'" "bv_votes bv' ! i = Some w"
      using assms(2) g(1,6) unfolding bv_le_def by blast
    then show ?thesis using g
      by (intro exI [of _ idn] exI [of _ g'] exI [of _ q] exI [of _ i] exI [of _ w]) simp
  qed
  then show ?thesis using assms(1) by (simp add: signs_ok_def)
qed

lemma majority_ok_le:
  assumes "majority_ok cl vs b"
    "\<And>bv. map_of (votesByBlock vs) (BlockID_Key b) = Some bv \<Longrightarrow>
       \<exists>bv'. map_of vbb (BlockID_Key b) = Some bv' \<and> bv_le bv bv'"
  shows "majority_ok cl (vs\<lparr>votesByBlock := vbb\<rparr>) b"
proof -
  obtain bv q i v where bv: "map_of (votesByBlock vs) (BlockID_Key b) = Some bv"
    "QuorumVotingThresholdPower (valSet vs) = Ret q" "q \<le> bv_sum bv"
    "i < nvals vs" "bv_votes bv ! i = Some v" "vote_BlockID v = b"
    "signedMsgType vs = PrecommitType \<longrightarrow> signs_ok cl vs bv"
    using assms(1) unfolding majority_ok_def by blast
  obtain bv' where bv': "map_of vbb (BlockID_Key b) = Some bv'" "bv_le bv bv'" using assms(2) [OF bv(1)] by blast
  have "q \<le> bv_sum bv'" "bv_votes bv' ! i = Some v" using bv(3,5) bv'(2) by (auto simp: bv_le_def)
  moreover have "signedMsgType vs = PrecommitType \<longrightarrow> signs_ok cl vs bv'" using bv(7) signs_ok_le bv'(2) by blast
  ultimately show ?thesis unfolding majority_ok_def using bv(2,4,6) bv'(1) by auto
qed

lemma put_vote_ok:
  assumes "vset_core cl vs" "vote_ok cl vs i v"
  obtains x where "put_vote v vs = Ret (vs\<lparr>vset_votes := (vset_votes vs)[i := Some v], votesBitArray := x\<rparr>)"
    "vset_core cl (vs\<lparr>vset_votes := (vset_votes vs)[i := Some v], votesBitArray := x,
       vset_sum := vpower (valSet vs) (insert i (held (vset_votes vs)))\<rparr>)"
proof -
  have i: "i < length (vset_votes vs)" "ValidatorIndex v = int i" "mirrors (votesBitArray vs) (vset_votes vs)"
    using assms by (auto simp: vset_core_def vote_ok_def)
  obtain x where x: "SetIndex (votesBitArray vs) (int i) True = Ret (x, True)" "mirrors x ((vset_votes vs)[i := Some v])"
    using mirrors_set [OF i(3,1)] by blast
  have run: "put_vote v vs = Ret (vs\<lparr>vset_votes := (vset_votes vs)[i := Some v], votesBitArray := x\<rparr>)"
    using x(1) i(2) by (simp add: put_vote_def)
  have "vote_ok cl vs j w" if "j < nvals vs" "(vset_votes vs)[i := Some v] ! j = Some w" for j w
    using assms that i(1) by (cases "j = i") (auto simp: vset_core_def)
  moreover have "held (bv_votes bv) \<subseteq> insert i (held (vset_votes vs))"
    if "map_of (votesByBlock vs) k = Some bv" for k bv
    using assms(1) that unfolding vset_core_def by blast
  ultimately have "vset_core cl (vs\<lparr>vset_votes := (vset_votes vs)[i := Some v], votesBitArray := x,
       vset_sum := vpower (valSet vs) (insert i (held (vset_votes vs)))\<rparr>)"
    using assms(1) x(2) i(1) unfolding vset_core_def by (simp add: held_update)
  then show ?thesis using run that by blast
qed

lemma record_vote_ok:
  assumes "vset_core cl vs" "vote_ok cl vs i v" "VotingPower (vs_Validators (valSet vs) ! i) = p"
    "\<And>e. vset_votes vs ! i = Some e \<Longrightarrow> vote_BlockID e \<noteq> vote_BlockID v"
  obtains xs x s where "record_vote v k p vs =
      Ret (vs\<lparr>vset_votes := xs, votesBitArray := x, vset_sum := s\<rparr>, vset_votes vs ! i)"
    "vset_core cl (vs\<lparr>vset_votes := xs, votesBitArray := x, vset_sum := s\<rparr>)" "i \<in> held xs"
proof -
  have i: "i < length (vset_votes vs)" "ValidatorIndex v = int i"
    and sum: "vset_sum vs = vpower (valSet vs) (held (vset_votes vs))"
    using assms(1,2) by (auto simp: vset_core_def vote_ok_def)
  obtain x where x: "put_vote v vs = Ret (vs\<lparr>vset_votes := (vset_votes vs)[i := Some v], votesBitArray := x\<rparr>)"
    "vset_core cl (vs\<lparr>vset_votes := (vset_votes vs)[i := Some v], votesBitArray := x,
       vset_sum := vpower (valSet vs) (insert i (held (vset_votes vs)))\<rparr>)"
    by (rule put_vote_ok [OF assms(1,2)])
  have mem: "i \<in> held ((vset_votes vs)[i := Some v])" using i(1) by (simp add: held_def)
  show ?thesis
  proof (cases "vset_votes vs ! i")
    case None
    have "i \<notin> held (vset_votes vs)" using None by (simp add: held_def)
    moreover have "insert i (held (vset_votes vs)) \<subseteq> {..<length (vs_Validators (valSet vs))}"
      using held_bound [of "vset_votes vs"] i assms(1) by (auto simp: vset_core_def nvals_def)
    ultimately have "wrap64 (vset_sum vs + p) = vpower (valSet vs) (insert i (held (vset_votes vs)))"
      using vpower_range(3) [of "valSet vs" "insert i (held (vset_votes vs))"] assms(1,3) sum
      by (simp add: vset_core_def quorum_set_def vpower_insert add.commute)
    then have "record_vote v k p vs = Ret (vs\<lparr>vset_votes := (vset_votes vs)[i := Some v], votesBitArray := x,
       vset_sum := vpower (valSet vs) (insert i (held (vset_votes vs)))\<rparr>, vset_votes vs ! i)"
      using x(1) i None by (simp add: record_vote_def go_index_def)
    then show ?thesis by (rule that [OF _ x(2) mem])
  next
    case (Some e)
    have neq: "\<not> BlockID_Equals (vote_BlockID e) (vote_BlockID v)" using assms(4) [OF Some] by (simp add: Equals_iff)
    have held: "i \<in> held (vset_votes vs)" using Some i(1) by (simp add: held_def)
    then have same: "vpower (valSet vs) (insert i (held (vset_votes vs))) = vset_sum vs"
      using sum by (simp add: insert_absorb)
    show ?thesis
    proof (cases "case maj23 vs of None \<Rightarrow> False | Some m \<Rightarrow> BlockID_Key m = k")
      case True
      then have "record_vote v k p vs = Ret (vs\<lparr>vset_votes := (vset_votes vs)[i := Some v], votesBitArray := x,
          vset_sum := vpower (valSet vs) (insert i (held (vset_votes vs)))\<rparr>, vset_votes vs ! i)"
        using x(1) i Some neq same by (simp add: record_vote_def go_index_def)
      then show ?thesis by (rule that [OF _ x(2) mem])
    next
      case False
      then have "record_vote v k p vs = Ret (vs\<lparr>vset_votes := vset_votes vs, votesBitArray := votesBitArray vs,
          vset_sum := vset_sum vs\<rparr>, vset_votes vs ! i)"
        using i Some neq by (simp add: record_vote_def go_index_def)
      then show ?thesis using assms(1) held
        by (intro that [of "vset_sum vs" "votesBitArray vs" "vset_votes vs"]) simp_all
    qed
  qed
qed

text \<open>What no operation changes.\<close>

definition same_step :: "VoteSet \<Rightarrow> VoteSet \<Rightarrow> bool" where
  "same_step vs vs' \<longleftrightarrow> vset_chainID vs' = vset_chainID vs \<and> vset_height vs' = vset_height vs
     \<and> vset_round vs' = vset_round vs \<and> signedMsgType vs' = signedMsgType vs \<and> valSet vs' = valSet vs"

lemma core_track:
  assumes "vset_core cl vs" "bv_ok cl vs k bv" "held (bv_votes bv) \<subseteq> held (vset_votes vs)"
  shows "vset_core cl (vs\<lparr>votesByBlock := AList.update k bv (votesByBlock vs)\<rparr>)"
proof -
  have "distinct (map fst (AList.update k bv (votesByBlock vs)))"
    using assms(1) by (intro distinct_update) (simp add: vset_core_def)
  moreover have "bv_ok cl vs j b \<and> held (bv_votes b) \<subseteq> held (vset_votes vs)"
    if "map_of (AList.update k bv (votesByBlock vs)) j = Some b" for j b
    using assms that by (cases "j = k") (auto simp: vset_core_def)
  ultimately show ?thesis using assms(1) unfolding vset_core_def by (simp del: map_of_AList_update)
qed

lemma core_votes:
  assumes "vset_core cl vs" "length ys = nvals vs" "held ys = held (vset_votes vs)"
    "\<And>i v. i < nvals vs \<Longrightarrow> ys ! i = Some v \<Longrightarrow> vote_ok cl vs i v"
  shows "vset_core cl (vs\<lparr>vset_votes := ys\<rparr>)"
proof -
  have "mirrors (votesBitArray vs) ys"
    by (rule mirrors_cong [OF _ _ assms(3)]) (use assms(1,2) in \<open>simp_all add: vset_core_def\<close>)
  then show ?thesis using assms unfolding vset_core_def by simp
qed

lemma core_publish:
  assumes "vset_core cl vs" "map_of (votesByBlock vs) k = Some bv"
  shows "vset_core cl (vs\<lparr>vset_votes := map2 (\<lambda>v old. if v \<noteq> None then v else old) (bv_votes bv) (vset_votes vs)\<rparr>)"
proof -
  let ?ys = "map2 (\<lambda>v old. if v \<noteq> None then v else old) (bv_votes bv) (vset_votes vs)"
  have bv: "bv_ok cl vs k bv" "held (bv_votes bv) \<subseteq> held (vset_votes vs)"
    using assms unfolding vset_core_def by blast+
  have len: "length (bv_votes bv) = nvals vs" "length (vset_votes vs) = nvals vs"
    using bv(1) assms(1) by (simp_all add: bv_ok_def vset_core_def)
  have nth: "?ys ! i = (if bv_votes bv ! i \<noteq> None then bv_votes bv ! i else vset_votes vs ! i)" if "i < nvals vs" for i
    using that len by simp
  have "i \<in> held ?ys \<longleftrightarrow> i \<in> held (bv_votes bv) \<or> i \<in> held (vset_votes vs)" for i
    using nth [of i] len by (auto simp: held_def simp del: nth_map split: if_splits)
  then have held: "held ?ys = held (vset_votes vs)" using bv(2) by blast
  have "vote_ok cl vs i v" if "i < nvals vs" "?ys ! i = Some v" for i v
    using nth [OF that(1)] that bv(1) assms(1) by (auto simp: bv_ok_def vset_core_def split: if_splits)
  then show ?thesis using len held by (intro core_votes [OF assms(1)]) simp_all
qed

lemma try_finalize_ok:
  assumes "crypto_ok cl" "vset_core cl vs" "BlockID_Key (vote_BlockID v) = k"
    "map_of (votesByBlock vs) k = Some bv" "QuorumVotingThresholdPower (valSet vs) = Ret q" "q \<le> bv_sum bv"
    "i < nvals vs" "bv_votes bv ! i = Some v"
  obtains vs' where "try_finalize cl recover (vote_BlockID v) bv vs = Ret vs'" "vset_inv cl vs'"
    "same_step vs vs'"
proof -
  let ?vs = "vs\<lparr>maj23 := Some (vote_BlockID v)\<rparr>"
  let ?pub = "\<lambda>vs. vs\<lparr>vset_votes := map2 (\<lambda>v old. if v \<noteq> None then v else old) (bv_votes bv) (vset_votes vs)\<rparr>"
  have bv: "bv_ok cl vs k bv" and qs: "quorum_set (valSet vs)" using assms(2,4) by (auto simp: vset_core_def)
  have final: "vset_inv cl (?pub w)" if w: "vset_core cl w" "votesByBlock w = votesByBlock vs" "valSet w = valSet vs"
      "signedMsgType w = signedMsgType vs" "maj23 w = Some (vote_BlockID v)"
      "signedMsgType vs = PrecommitType \<longrightarrow> signs_ok cl w bv" for w
  proof -
    have "majority_ok cl w (vote_BlockID v)"
      unfolding majority_ok_def using w assms(3-8) by (auto simp: nvals_def)
    then show ?thesis using w(2,5) core_publish [OF w(1), of k bv] assms(4) by (simp add: vset_inv_def)
  qed
  show ?thesis
  proof (cases "signedMsgType vs = PrecommitType")
    case False
    then have "try_finalize cl recover (vote_BlockID v) bv vs = Ret (?pub ?vs)" by (simp add: try_finalize_def Let_def)
    moreover have "vset_inv cl (?pub ?vs)" using False assms(2) by (intro final) simp_all
    ultimately show ?thesis by (rule that) (simp add: same_step_def)
  next
    case True
    obtain r s e where r: "recoverThresholdSignsAndVerify cl recover bv ?vs
        = Ret (r, ?vs\<lparr>thresholdBlockSig := s, thresholdVoteExtSigs := e\<rparr>)"
      "r = Inr () \<longrightarrow> signs_ok cl (?vs\<lparr>thresholdBlockSig := s, thresholdVoteExtSigs := e\<rparr>) bv"
      using recover_ok [OF assms(1), of ?vs k bv v i recover] qs bv assms(7,8) by auto
    show ?thesis
    proof (cases r)
      case (Inl err)
      let ?vs' = "?vs\<lparr>thresholdBlockSig := s, thresholdVoteExtSigs := e\<rparr>
          \<lparr>maj23 := None, thresholdBlockSig := None, thresholdVoteExtSigs := []\<rparr>"
      have "try_finalize cl recover (vote_BlockID v) bv vs = Ret ?vs'"
        using True r(1) Inl by (simp add: try_finalize_def Let_def)
      moreover have "vset_inv cl ?vs'" using assms(2) by (simp add: vset_inv_def)
      ultimately show ?thesis by (rule that) (simp add: same_step_def)
    next
      case (Inr u)
      let ?w = "?vs\<lparr>thresholdBlockSig := s, thresholdVoteExtSigs := e\<rparr>"
      have "try_finalize cl recover (vote_BlockID v) bv vs = Ret (?pub ?w)"
        using True r(1) Inr by (simp add: try_finalize_def Let_def)
      moreover have "vset_inv cl (?pub ?w)" using True r(2) Inr assms(2) by (intro final) simp_all
      ultimately show ?thesis by (rule that) (simp add: same_step_def)
    qed
  qed
qed

lemma addVerifiedVote_ok:
  assumes "crypto_ok cl" "vset_inv cl vs" "vote_ok cl vs i v" "BlockID_Key (vote_BlockID v) = k"
    "VotingPower (vs_Validators (valSet vs) ! i) = p" "identity cl vs v = Ret (Inr idn)"
    "\<And>e. vset_votes vs ! i = Some e \<Longrightarrow> vote_BlockID e \<noteq> vote_BlockID v"
    "\<And>bv. map_of (votesByBlock vs) k = Some bv \<Longrightarrow> bv_votes bv ! i = None"
  obtains vs' added where "addVerifiedVote cl recover v k idn p vs = Ret (vs', added, vset_votes vs ! i)"
    "vset_inv cl vs'" "same_step vs vs'" "vset_votes vs ! i = None \<Longrightarrow> added" "maj23 vs \<noteq> None \<Longrightarrow> maj23 vs' = maj23 vs"
proof -
  have core: "vset_core cl vs" and qs: "quorum_set (valSet vs)" using assms(2) by (auto simp: vset_inv_def vset_core_def)
  obtain xs x s where rv: "record_vote v k p vs =
      Ret (vs\<lparr>vset_votes := xs, votesBitArray := x, vset_sum := s\<rparr>, vset_votes vs ! i)"
    "vset_core cl (vs\<lparr>vset_votes := xs, votesBitArray := x, vset_sum := s\<rparr>)" "i \<in> held xs"
    by (rule record_vote_ok [OF core assms(3,5,7)])
  let ?vs = "vs\<lparr>vset_votes := xs, votesBitArray := x, vset_sum := s\<rparr>"
  let ?c = "vset_votes vs ! i" and ?t = "map_of (votesByBlock vs) k"
  have maj: "\<forall>b. maj23 ?vs = Some b \<longrightarrow> majority_ok cl ?vs b" using assms(2) by (simp add: vset_inv_def)
  show ?thesis
  proof (cases "?c \<noteq> None \<and> (case ?t of None \<Rightarrow> True | Some bv \<Rightarrow> \<not> peerMaj23 bv)")
    case True
    then have "addVerifiedVote cl recover v k idn p vs = Ret (?vs, False, ?c)"
      using rv(1) by (simp add: addVerifiedVote_def Let_def)
    then show ?thesis using True rv(2) maj
      by (intro that [of ?vs False]) (auto simp: vset_inv_def same_step_def)
  next
    case False
    define bv where "bv = (case ?t of Some bv \<Rightarrow> bv
        | None \<Rightarrow> newBlockVotes False (ValidatorSet_Size (Some (valSet vs))))"
    have bv: "bv_ok cl vs k bv" "bv_votes bv ! i = None" "held (bv_votes bv) \<subseteq> held xs"
      using rv(2) new_bv_ok [OF qs, of cl k False] assms(3,8)
      by (auto simp: bv_def vset_core_def vote_ok_def newBlockVotes_def ValidatorSet_Size_def nvals_def
          split: option.splits)
    obtain q where q: "QuorumVotingThresholdPower (valSet vs) = Ret q" using quorum_set_facts(6) [OF qs] by blast
    obtain bv' r where b': "bv_addVerifiedVote v idn p (QuorumTypeThresholdVotingPower (valSet vs)) bv = Ret (bv', r)"
      "bv_ok cl vs k bv'" "bv_votes bv' = (bv_votes bv)[i := Some v]" "peerMaj23 bv' = peerMaj23 bv" "bv_le bv bv'"
      by (rule bv_add_ok [OF qs bv(1) assms(3,4,6) bv(2) assms(5)])
    let ?vs2 = "?vs\<lparr>votesByBlock := AList.update k bv' (votesByBlock vs)\<rparr>"
    have i: "i < nvals vs" "bv_votes bv' ! i = Some v"
      using assms(3) bv(1) b'(3) by (auto simp: vote_ok_def bv_ok_def)
    have "held (bv_votes bv') \<subseteq> held xs"
      using b'(3) bv(1,3) i(1) rv(3) by (simp add: held_update bv_ok_def)
    then have core2: "vset_core cl ?vs2" using core_track [OF rv(2), of k bv'] b'(2) by simp
    have inv2: "vset_inv cl ?vs2"
    proof -
      have "majority_ok cl ?vs2 b" if "maj23 vs = Some b" for b
      proof (rule majority_ok_le)
        show "majority_ok cl ?vs b" using maj that by simp
        show "\<exists>bw'. map_of (AList.update k bv' (votesByBlock vs)) (BlockID_Key b) = Some bw' \<and> bv_le bw bw'"
          if "map_of (votesByBlock ?vs) (BlockID_Key b) = Some bw" for bw
          using that b'(5) by (cases "BlockID_Key b = k") (auto simp: bv_def bv_le_def)
      qed
      then show ?thesis using core2 by (simp add: vset_inv_def)
    qed
    have run: "addVerifiedVote cl recover v k idn p vs =
       (if maj23 vs = None \<and> q \<le> bv_sum bv' \<and> ((bv_sum bv < q \<and> q \<le> bv_sum bv') \<or> r)
        then exec_bind (try_finalize cl recover (vote_BlockID v) bv' ?vs2) (\<lambda>vs. Ret (vs, True, ?c))
        else Ret (?vs2, True, ?c))"
    proof (cases ?c)
      case None
      then show ?thesis using rv(1) q b'(1) by (simp add: addVerifiedVote_def Let_def flip: bv_def cong: option.case_cong)
    next
      case (Some e)
      then obtain bw where "?t = Some bw" "peerMaj23 bw" using False by (auto split: option.splits)
      then show ?thesis using Some rv(1) q b'(1) by (simp add: addVerifiedVote_def Let_def bv_def)
    qed
    show ?thesis
    proof (cases "maj23 vs = None \<and> q \<le> bv_sum bv' \<and> ((bv_sum bv < q \<and> q \<le> bv_sum bv') \<or> r)")
      case True
      obtain vs' where f: "try_finalize cl recover (vote_BlockID v) bv' ?vs2 = Ret vs'" "vset_inv cl vs'" "same_step ?vs2 vs'"
        by (rule try_finalize_ok [OF assms(1) core2 assms(4), of bv' q i recover])
          (use True i q in simp_all)
      have "addVerifiedVote cl recover v k idn p vs = Ret (vs', True, ?c)" unfolding run if_P [OF True] f(1) by simp
      then show ?thesis using True f by (intro that [of vs' True]) (simp_all add: same_step_def)
    next
      case False
      have "addVerifiedVote cl recover v k idn p vs = Ret (?vs2, True, ?c)" unfolding run if_not_P [OF False] by simp
      then show ?thesis using inv2 by (intro that [of ?vs2 True]) (simp_all add: same_step_def)
    qed
  qed
qed

lemma check_vote_ok:
  assumes "crypto_ok cl" "quorum_set (valSet vs)"
    and ev: "\<And>addr ev. how = Evidence addr ev \<Longrightarrow>
       \<exists>addr' vote' chain qt qh pk ptx (bdg :: 'c budget) b b'.
         VerifyVoteSignatures cl addr' vote' chain qt qh pk ptx bdg b = Ret (Inr ev, b')"
  obtains r b' where "check_vote cl how b v vs val = Ret (r, b')"
    "r = Inr () \<Longrightarrow> Vote_Verify cl v (vset_chainID vs) (QuorumType (valSet vs)) (quorum_hash (valSet vs))
         (PubKey val) (ProTxHash val) = Ret (Inr ())"
proof (cases how)
  case (Check bdg)
  obtain r b' where r: "Vote_verify cl v (vset_chainID vs) (QuorumType (valSet vs)) (quorum_hash (valSet vs))
      (PubKey val) (ProTxHash val) bdg b = Ret (r, b')"
    using Vote_verify_total [OF assms(1) quorum_set_facts(4) [OF assms(2)],
        of v "vset_chainID vs" "QuorumType (valSet vs)" "PubKey val" "ProTxHash val" bdg b] by blast
  show ?thesis
  proof (cases r)
    case (Inl e)
    then show ?thesis using Check r
      by (intro that [of "Inl (if e = ErrVerificationBudgetExhausted then e else ErrInvalidVoteSignature e)" b'])
        (simp_all add: check_vote_def)
  next
    case (Inr u)
    then show ?thesis using Check r Vote_verify_Verify [of cl v]
      by (intro that [of "Inr ()" b']) (simp_all add: check_vote_def)
  qed
next
  case (Evidence addr e)
  obtain r where r: "checkMatches cl e addr v (vset_chainID vs) (QuorumType (valSet vs)) (quorum_hash (valSet vs))
      (PubKey val) (ProTxHash val) = Ret r"
    using checkMatches_total [OF assms(1) quorum_set_facts(4) [OF assms(2)]] by blast
  show ?thesis
    using Evidence r ev [OF Evidence] minted_sound
    by (intro that [of r b]) (auto simp: check_vote_def)
qed


text \<open>
  Evidence is only made by \<open>VerifyVoteSignatures\<close>: no other code can fill in its fields.
\<close>

definition minted :: "crypto_lib \<Rightarrow> 'b sig_check \<Rightarrow> bool" where
  "minted cl how \<longleftrightarrow> (\<forall>addr ev. how = Evidence addr ev \<longrightarrow>
     (\<exists>addr' vote' chain qt qh pk ptx (bdg :: nat budget) b b'.
        VerifyVoteSignatures cl addr' vote' chain qt qh pk ptx bdg b = Ret (Inr ev, b')))"

definition valid_vote :: "Vote option \<Rightarrow> bool" where
  "valid_vote v = (case v of None \<Rightarrow> True | Some w \<Rightarrow> Vote_ValidateBasic w)"

lemma getVote_None:
  assumes "getVote vs (int i) k = Ret None"
  shows "\<And>e. vset_votes vs ! i = Some e \<Longrightarrow> BlockID_Key (vote_BlockID e) \<noteq> k"
    "\<And>bv. map_of (votesByBlock vs) k = Some bv \<Longrightarrow> bv_votes bv ! i = None"
  using assms
  by (auto simp: getVote_def exec_bind_Ret_iff go_index_def bv_getByIndex_def split: option.splits if_splits)

lemma getVote_total:
  assumes "vset_core cl vs" "i < nvals vs"
  shows "\<exists>r. getVote vs (int i) k = Ret r"
proof -
  have "i < length (vset_votes vs)" using assms by (simp add: vset_core_def)
  moreover have "i < length (bv_votes bv)" if "map_of (votesByBlock vs) k = Some bv" for bv
    using assms that by (auto simp: vset_core_def bv_ok_def)
  ultimately show ?thesis
    by (auto simp: getVote_def go_index_def bv_getByIndex_def split: option.splits)
qed

lemma same_step_refl [simp]: "same_step vs vs"
  by (simp add: same_step_def)

text \<open>The checks before the signature: the slot the vote is for.\<close>

definition slot_for :: "VoteSet \<Rightarrow> Vote \<Rightarrow> nat \<Rightarrow> bool" where
  "slot_for vs w i \<longleftrightarrow> i < nvals vs \<and> ValidatorIndex w = int i \<and> ValidatorProTxHash w \<noteq> []
     \<and> vote_Height w = vset_height vs \<and> vote_Round w = vset_round vs \<and> vote_Type w = signedMsgType vs
     \<and> ValidatorProTxHash w = ProTxHash (vs_Validators (valSet vs) ! i)"

lemma addVote_rejects:
  assumes "\<nexists>i. slot_for vs w i"
  shows "\<exists>e. addVote cl recover how b (Some w) vs = Ret (vs, False, Some e, b)"
proof -
  have "\<not> slot_for vs w (nat (ValidatorIndex w))" using assms by blast
  then show ?thesis by (auto simp: addVote_def Let_def slot_for_def nvals_def GetByIndex_def)
qed

lemma addVote_slot:
  assumes "slot_for vs w i"
  shows "addVote cl recover how b (Some w) vs =
    exec_bind (getVote vs (int i) (BlockID_Key (vote_BlockID w))) (\<lambda>known.
      case known of
        Some existing \<Rightarrow>
          if BlockSignature existing = BlockSignature w then Ret (vs, False, None, b)
          else Ret (vs, False, Some ErrVoteNonDeterministicSignature, b)
      | None \<Rightarrow>
          exec_bind (check_vote cl how b w vs (vs_Validators (valSet vs) ! i)) (\<lambda>(r, b).
            case r of
              Inl e \<Rightarrow> Ret (vs, False, Some e, b)
            | Inr _ \<Rightarrow>
                exec_bind (identity cl vs w) (\<lambda>i'.
                  case i' of
                    Inl e \<Rightarrow> Ret (vs, False, Some (ErrVoteExtensionIdentity e), b)
                  | Inr idn \<Rightarrow>
                      exec_bind (addVerifiedVote cl recover w (BlockID_Key (vote_BlockID w)) idn
                                   (VotingPower (vs_Validators (valSet vs) ! i)) vs)
                        (\<lambda>(vs, added, conflicting).
                          case conflicting of
                            Some c \<Rightarrow> Ret (vs, added, Some (ErrConflictingVotes c w), b)
                          | None \<Rightarrow> if \<not> added then Panic else Ret (vs, added, None, b)))))"
proof -
  have "ProTxHash (vs_Validators (valSet vs) ! i) \<noteq> []" using assms by (auto simp: slot_for_def)
  then show ?thesis
    using assms unfolding addVote_def identity_def
    by (simp add: Let_def slot_for_def GetByIndex_def nvals_def cong: option.case_cong sum.case_cong)
qed

lemma identity_total:
  "crypto_ok cl \<Longrightarrow> quorum_set (valSet vs) \<Longrightarrow> \<exists>r. identity cl vs w = Ret r"
  using voteExtensionIdentity_total [of cl vs w] by (simp add: identity_def quorum_set_def)

definition add_post :: "crypto_lib \<Rightarrow> VoteSet \<Rightarrow> VoteSet \<Rightarrow> bool" where
  "add_post cl vs vs' \<longleftrightarrow> vset_inv cl vs' \<and> same_step vs vs' \<and> (maj23 vs \<noteq> None \<longrightarrow> maj23 vs' = maj23 vs)"

lemma addVote_ok:
  assumes "crypto_ok cl" "vset_inv cl vs" "minted cl how" "valid_vote v"
  shows "\<exists>vs' added err b'. addVote cl recover how b v vs = Ret (vs', added, err, b') \<and> add_post cl vs vs'"
proof -
  have core: "vset_core cl vs" and qs: "quorum_set (valSet vs)" using assms(2) by (auto simp: vset_inv_def vset_core_def)
  have stay: "add_post cl vs vs" using assms(2) by (simp add: add_post_def)
  show ?thesis
  proof (cases "\<exists>w i. v = Some w \<and> slot_for vs w i")
    case False
    show ?thesis
    proof (cases v)
      case None
      then show ?thesis using stay by (auto simp: addVote_def)
    next
      case (Some w)
      then show ?thesis using addVote_rejects [of vs w cl recover how b] False stay by auto
    qed
  next
    case True
    then obtain w i where w: "v = Some w" "slot_for vs w i" by blast
    note run = addVote_slot [OF w(2), of cl recover how b]
    let ?k = "BlockID_Key (vote_BlockID w)" and ?val = "vs_Validators (valSet vs) ! i"
    obtain known where known: "getVote vs (int i) ?k = Ret known"
      using getVote_total [OF core] w(2) by (auto simp: slot_for_def)
    obtain r b' where r: "check_vote cl how b w vs ?val = Ret (r, b')"
      "r = Inr () \<Longrightarrow> Vote_Verify cl w (vset_chainID vs) (QuorumType (valSet vs)) (quorum_hash (valSet vs))
         (PubKey ?val) (ProTxHash ?val) = Ret (Inr ())"
      by (rule check_vote_ok [OF assms(1) qs, of how b w ?val]) (use assms(3) in \<open>auto simp: minted_def\<close>)
    obtain idr where idr: "identity cl vs w = Ret idr" using identity_total [OF assms(1) qs] by blast
    show ?thesis
    proof (cases "known = None \<and> r = Inr () \<and> (\<exists>idn. idr = Inr idn)")
      case False
      then show ?thesis using run known r(1) idr w(1) stay
        by (cases known; cases r; cases idr) auto
    next
      case True
      then obtain idn where idn: "idr = Inr idn" by blast
      note none = getVote_None [OF known [unfolded conjunct1 [OF True]]]
      have ok: "vote_ok cl vs i w"
        using w(1,2) assms(4) r(2) True by (auto simp: vote_ok_def slot_for_def valid_vote_def)
      obtain vs' added where a: "addVerifiedVote cl recover w ?k idn (VotingPower ?val) vs = Ret (vs', added, vset_votes vs ! i)"
        "vset_inv cl vs'" "same_step vs vs'" "vset_votes vs ! i = None \<Longrightarrow> added" "maj23 vs \<noteq> None \<Longrightarrow> maj23 vs' = maj23 vs"
        by (rule addVerifiedVote_ok [OF assms(1,2) ok refl refl idr [unfolded idn], of recover])
          (use none in auto)
      have "add_post cl vs vs'" using a by (simp add: add_post_def)
      then show ?thesis using run known True r(1) idr idn a(1,4) w(1)
        by (cases "vset_votes vs ! i") auto
    qed
  qed
qed

lemma NewVoteSet_ok:
  assumes "quorum_set vals" "h \<noteq> 0"
  shows "\<exists>vs. NewVoteSet chain h r t vals = Ret vs \<and> vset_inv cl vs \<and> maj23 vs = None
     \<and> vset_chainID vs = chain \<and> vset_height vs = h \<and> vset_round vs = r \<and> signedMsgType vs = t \<and> valSet vs = vals"
  using assms quorum_set_facts [OF assms(1)] mirrors_new [of "length (vs_Validators vals)"]
  by (auto simp: NewVoteSet_def quorum_set_def vset_inv_def vset_core_def nvals_def ValidatorSet_Size_def)

lemma bv_peer_simps [simp]:
  "bv_ok cl vs k (peerMaj23_update f bv) = bv_ok cl vs k bv"
  "held (bv_votes (newBlockVotes p n)) = {}"
  by (simp_all add: bv_ok_def newBlockVotes_def cong: option.case_cong)

lemma SetPeerMaj23_ok:
  assumes "vset_inv cl vs" "SetPeerMaj23 peer bid h r vs = (vs', err)"
  shows "add_post cl vs vs'" "maj23 vs' = maj23 vs"
proof -
  have core: "vset_core cl vs" and qs: "quorum_set (valSet vs)" using assms(1) by (auto simp: vset_inv_def vset_core_def)
  have stay: "add_post cl vs vs" using assms(1) by (simp add: add_post_def)
  show "maj23 vs' = maj23 vs"
    using assms(2) by (auto simp: SetPeerMaj23_def Let_def split: if_splits option.splits)
  let ?mi = "\<lparr>mi_BlockID = bid, mi_Height = h, mi_Round = r\<rparr>" and ?k = "BlockID_Key bid"
  let ?vs = "vs\<lparr>peerMaj23s := AList.update peer ?mi (peerMaj23s vs)\<rparr>"
  show "add_post cl vs vs'"
  proof (cases "vset_height vs = h \<and> map_of (peerMaj23s vs) peer = None \<and> length (peerMaj23s vs) < maxPeerMaj23s")
    case False
    then have "vs' = vs" using assms(2) by (auto simp: SetPeerMaj23_def split: if_splits option.splits)
    then show ?thesis using stay by simp
  next
    case True
    then have "peer \<notin> fst ` set (peerMaj23s vs)" by (simp add: map_of_eq_None_iff)
    then have "length (AList.update peer ?mi (peerMaj23s vs)) \<le> maxPeerMaj23s"
      "distinct (map fst (AList.update peer ?mi (peerMaj23s vs)))"
      using True core by (simp_all add: update_new vset_core_def)
    then have core1: "vset_core cl ?vs" using core unfolding vset_core_def by simp
    then have inv1: "vset_inv cl ?vs" using assms(1) by (simp add: vset_inv_def)
    define bv where "bv = (case map_of (votesByBlock vs) ?k of Some bv \<Rightarrow> bv\<lparr>peerMaj23 := True\<rparr>
      | None \<Rightarrow> newBlockVotes True (ValidatorSet_Size (Some (valSet vs))))"
    have bv: "bv_ok cl vs ?k bv" "held (bv_votes bv) \<subseteq> held (vset_votes vs)"
      using core new_bv_ok [OF qs, of cl ?k True] by (auto simp: bv_def vset_core_def split: option.splits)
    have le: "bv_le bw bv" if "map_of (votesByBlock vs) ?k = Some bw" for bw
      using that by (simp add: bv_def bv_le_def)
    have "majority_ok cl (?vs\<lparr>votesByBlock := AList.update ?k bv (votesByBlock vs)\<rparr>) b" if "maj23 vs = Some b" for b
    proof (rule majority_ok_le)
      show "majority_ok cl ?vs b" using assms(1) that by (simp add: vset_inv_def)
      show "\<exists>bw'. map_of (AList.update ?k bv (votesByBlock vs)) (BlockID_Key b) = Some bw' \<and> bv_le bw bw'"
        if "map_of (votesByBlock ?vs) (BlockID_Key b) = Some bw" for bw
        using that le by (cases "BlockID_Key b = ?k") (auto simp: bv_le_def)
    qed
    then have inv2: "vset_inv cl (?vs\<lparr>votesByBlock := AList.update ?k bv (votesByBlock vs)\<rparr>)"
      using core_track [OF core1, of ?k bv] bv by (simp add: vset_inv_def)
    have "vs' = ?vs \<or> vs' = ?vs\<lparr>votesByBlock := AList.update ?k bv (votesByBlock vs)\<rparr>"
      using assms(2) True by (auto simp: SetPeerMaj23_def Let_def bv_def split: option.splits if_splits)
    then show ?thesis using inv1 inv2 by (auto simp: add_post_def same_step_def)
  qed
qed

section \<open>Reachable vote sets\<close>

text \<open>
  The operations that change a set: adding a vote that passed \<open>ValidateBasic\<close> (messages are validated
  when they are decoded, own votes when they are signed), and a peer's claim.
\<close>

inductive vset_step :: "crypto_lib \<Rightarrow> bls_recover \<Rightarrow> VoteSet \<Rightarrow> VoteSet \<Rightarrow> bool" for cl recover where
  add: "minted cl (how :: nat sig_check) \<Longrightarrow> valid_vote v \<Longrightarrow> addVote cl recover how b v vs = Ret (vs', added, err, b')
        \<Longrightarrow> vset_step cl recover vs vs'"
| peer: "SetPeerMaj23 peerID bid h r vs = (vs', e) \<Longrightarrow> vset_step cl recover vs vs'"

inductive vset_reach :: "crypto_lib \<Rightarrow> bls_recover \<Rightarrow> VoteSet \<Rightarrow> bool" for cl recover where
  new: "quorum_set vals \<Longrightarrow> NewVoteSet chain h r t vals = Ret vs \<Longrightarrow> vset_reach cl recover vs"
| step: "vset_reach cl recover vs \<Longrightarrow> vset_step cl recover vs vs' \<Longrightarrow> vset_reach cl recover vs'"

lemma vset_step_post:
  assumes "crypto_ok cl" "vset_inv cl vs" "vset_step cl recover vs vs'"
  shows "add_post cl vs vs'"
  using assms(3)
proof (cases rule: vset_step.cases)
  case (add how v b added err b')
  obtain vs2 a2 e2 b2 where "addVote cl recover how b v vs = Ret (vs2, a2, e2, b2)" "add_post cl vs vs2"
    using addVote_ok [OF assms(1,2) add(1,2), of recover b] by blast
  then show ?thesis using add(3) by simp
next
  case (peer peerID bid h r e)
  then show ?thesis using SetPeerMaj23_ok(1) [OF assms(2)] by blast
qed

lemma vset_reach_inv:
  assumes "crypto_ok cl" "vset_reach cl recover vs"
  shows "vset_inv cl vs"
  using assms(2)
proof induction
  case (new vals chain h r t vs)
  have "h \<noteq> 0" using new(2) by (auto simp: NewVoteSet_def)
  then show ?case using NewVoteSet_ok [OF new(1), of h chain r t cl] new(2) by auto
next
  case (step vs vs')
  then show ?case using vset_step_post [OF assms(1)] by (auto simp: add_post_def)
qed

lemma vset_steps_post:
  assumes "crypto_ok cl" "vset_inv cl vs" "(vset_step cl recover)\<^sup>*\<^sup>* vs vs'"
  shows "add_post cl vs vs'"
  using assms(3)
proof induction
  case base
  then show ?case using assms(2) by (simp add: add_post_def)
next
  case (step y z)
  then show ?case using vset_step_post [OF assms(1), of y recover z] by (auto simp: add_post_def same_step_def)
qed

text \<open>What a recorded majority stands for: a set of slots with the quorum power and a verified vote each.\<close>

definition backed :: "crypto_lib \<Rightarrow> VoteSet \<Rightarrow> BlockID \<Rightarrow> nat set \<Rightarrow> bool" where
  "backed cl vs b S \<longleftrightarrow> S \<subseteq> {..<nvals vs}
     \<and> (\<exists>q. QuorumVotingThresholdPower (valSet vs) = Ret q \<and> q \<le> vpower (valSet vs) S)
     \<and> (\<forall>i \<in> S. \<exists>v. vote_ok cl vs i v \<and> vote_BlockID v = b)"

lemma majority_backed:
  assumes "vset_inv cl vs" "maj23 vs = Some b"
  shows "\<exists>S. backed cl vs b S"
proof -
  obtain bv q i v where bv: "map_of (votesByBlock vs) (BlockID_Key b) = Some bv"
    "QuorumVotingThresholdPower (valSet vs) = Ret q" "q \<le> bv_sum bv"
    "i < nvals vs" "bv_votes bv ! i = Some v" "vote_BlockID v = b"
    using assms by (auto simp: vset_inv_def majority_ok_def)
  have ok: "bv_ok cl vs (BlockID_Key b) bv" using assms(1) bv(1) by (auto simp: vset_inv_def vset_core_def)
  then have n: "length (bv_votes bv) = nvals vs" and s: "bv_sum bv = vpower (valSet vs) (held (bv_votes bv))"
    by (simp_all add: bv_ok_def)
  have "\<exists>w. vote_ok cl vs j w \<and> vote_BlockID w = b" if j: "j \<in> held (bv_votes bv)" for j
  proof -
    obtain w where w: "j < nvals vs" "bv_votes bv ! j = Some w" using j n by (auto simp: held_def)
    then have "vote_ok cl vs j w" using ok by (simp add: bv_ok_def)
    then show ?thesis using same_block [OF ok bv(4) w(1) bv(5) w(2)] bv(6) by metis
  qed
  then have "backed cl vs b (held (bv_votes bv))"
    unfolding backed_def using held_bound [of "bv_votes bv"] n s bv(2,3) by auto
  then show ?thesis by blast
qed

lemma least_group_set:
  assumes "set gs = set gs'" "distinct (map fst gs)" "distinct (map fst gs')"
  shows "least_group t gs None = least_group t gs' None"
proof -
  have one: "\<exists>j' g'. least_group t ys None = Some (j', g') \<and> j' \<le> j \<and> (j', g') \<in> set xs"
    if "least_group t xs None = Some (j, g)" "set xs = set ys" for xs ys j g
  proof -
    have "(j, g) \<in> set ys" "t \<le> grp_power g" using least_group_in [OF that(1)] that(2) by auto
    then obtain j' g' where "least_group t ys None = Some (j', g')" "j' \<le> j"
      using least_group_least [where t = t and gs = ys and c = None, OF refl] by fastforce
    then show ?thesis using least_group_in [of t ys None j' g'] that(2) by auto
  qed
  show ?thesis
  proof (cases "least_group t gs None")
    case None
    then show ?thesis using one [of gs' _ _ gs] assms(1) by (cases "least_group t gs' None") auto
  next
    case (Some p)
    obtain j g where p: "p = (j, g)" by (cases p)
    obtain j' g' where q: "least_group t gs' None = Some (j', g')" "j' \<le> j" "(j', g') \<in> set gs"
      using one [OF Some [unfolded p] assms(1)] by blast
    moreover obtain g2 where "j \<le> j'" using one [OF q(1) assms(1) [symmetric]] Some p by auto
    moreover have "(j, g) \<in> set gs" using least_group_in [OF Some [unfolded p]] by simp
    ultimately have "j' = j" "g' = g" using assms(2) by (auto simp: eq_key_imp_eq_value)
    then show ?thesis using q(1) Some p by simp
  qed
qed

section \<open>The interface of a tally\<close>

text \<open>
  What the users of a vote set rely on: a majority, once recorded, is never replaced. They see it
  through a sequence of operations.
\<close>

locale tally =
  fixes inv :: "'s \<Rightarrow> bool"
    and steps :: "'s \<Rightarrow> 's \<Rightarrow> bool"
    and maj :: "'s \<Rightarrow> 'v option"
  assumes inv_step: "inv s \<Longrightarrow> steps s s' \<Longrightarrow> inv s'"
    and maj_step: "inv s \<Longrightarrow> steps s s' \<Longrightarrow> maj s = Some v \<Longrightarrow> maj s' = Some v"
begin

lemma inv_steps:
  assumes "steps\<^sup>*\<^sup>* s s'" "inv s"
  shows "inv s'"
  using assms
proof (induction rule: rtranclp_induct)
  case (step y z)
  then show ?case using inv_step by blast
qed

lemma maj_steps:
  assumes "steps\<^sup>*\<^sup>* s s'" "inv s" "maj s = Some v"
  shows "maj s' = Some v"
  using assms
proof (induction rule: rtranclp_induct)
  case (step y z)
  then show ?case using inv_steps [OF step.hyps(1)] maj_step [of y z v] by blast
qed

lemma maj_unique:
  assumes "inv s" "steps\<^sup>*\<^sup>* s s1" "steps\<^sup>*\<^sup>* s1 s2" "maj s1 = Some v" "maj s2 = Some w"
  shows "v = w"
  using maj_steps [OF assms(3) inv_steps [OF assms(2,1)] assms(4)] assms(5) by simp

end

interpretation vset: tally "\<lambda>vs. crypto_ok cl \<and> vset_inv cl vs" "vset_step cl recover" maj23
  by unfold_locales (use vset_step_post in \<open>auto simp: add_post_def\<close>)

section \<open>Properties\<close>

definition ex_val :: "nat \<Rightarrow> Validator" where
  "ex_val i = \<lparr>ProTxHash = replicate 32 (word_of_nat (Suc i)), PubKey = Some (replicate 48 0), VotingPower = 100,
     NodeAddress = ''''\<rparr>"

text \<open>Three validators with a threshold of two.\<close>

definition ex_vals :: ValidatorSet where
  "ex_vals = \<lparr>vs_Validators = map ex_val [0, 1, 2], proposerIndex = 0, ThresholdPublicKey = Some (replicate 48 0),
     vs_QuorumHash = Some (replicate 32 9), QuorumType = LLMQType_TEST_V17, HasPublicKeys = True,
     VotingPowerThreshold = 0\<rparr>"

definition ex_recover :: bls_recover where
  "ex_recover sigs hs = Some [1]"

fun add_all :: "Vote list \<Rightarrow> VoteSet \<Rightarrow> VoteSet exec" where
  "add_all [] vs = Ret vs"
| "add_all (v # votes) vs =
     exec_bind (addVote ex_lib ex_recover (Check None) (0 :: nat) (Some v) vs) (\<lambda>(vs, _). add_all votes vs)"

definition ex_run :: "SignedMsgType \<Rightarrow> Vote list \<Rightarrow> VoteSet exec" where
  "ex_run t votes = exec_bind (NewVoteSet ''c'' 5 0 t ex_vals) (add_all votes)"

lemma ex_lib_ok: "crypto_ok ex_lib"
  by (simp add: crypto_ok_def ex_lib_def)

lemma ex_vals_ok: "quorum_set ex_vals"
proof -
  have "validateThreshold ex_vals = Ret (Inr ())" by code_simp
  moreover have "wf_vals ex_vals" by code_simp
  ultimately show ?thesis by (simp add: quorum_set_def ex_vals_def quorum_hash_def)
qed

lemma add_all_reach:
  "vset_reach ex_lib ex_recover vs \<Longrightarrow> list_all Vote_ValidateBasic votes \<Longrightarrow> add_all votes vs = Ret vs'
     \<Longrightarrow> vset_reach ex_lib ex_recover vs'"
proof (induction votes arbitrary: vs)
  case (Cons v votes)
  obtain vs1 r where vs1: "addVote ex_lib ex_recover (Check None) (0 :: nat) (Some v) vs = Ret (vs1, r)" "add_all votes vs1 = Ret vs'"
    using Cons.prems(3) by (auto simp: exec_bind_Ret_iff)
  have "vset_step ex_lib ex_recover vs vs1"
    using vs1(1) Cons.prems(2) by (cases r) (auto intro!: vset_step.add simp: minted_def valid_vote_def)
  then show ?case using Cons.IH [OF vset_reach.step [OF Cons.prems(1)] _ vs1(2)] Cons.prems(2) by simp
qed simp

lemma ex_run_reach:
  "ex_run t votes = Ret vs \<Longrightarrow> list_all Vote_ValidateBasic votes \<Longrightarrow> vset_reach ex_lib ex_recover vs"
  using vset_reach.new [OF ex_vals_ok, of "''c''" 5 0 t]
  by (auto simp: ex_run_def exec_bind_Ret_iff intro: add_all_reach)

definition after :: "VoteSet exec \<Rightarrow> (VoteSet \<Rightarrow> 'a) \<Rightarrow> 'a option" where
  "after x f = (case x of Panic \<Rightarrow> None | Ret vs \<Rightarrow> Some (f vs))"

lemma afterD: "after x f = Some y \<Longrightarrow> \<exists>vs. x = Ret vs \<and> f vs = y"
  by (cases x) (auto simp: after_def)

definition ex_prevotes :: "Vote list" where
  "ex_prevotes = [ex_vote PrevoteType (ex_bid 8) 0, ex_vote PrevoteType (ex_bid 7) 1, ex_vote PrevoteType (ex_bid 7) 2]"

lemma ex_prevotes_valid: "list_all Vote_ValidateBasic ex_prevotes"
  by code_simp

lemma ex_prevotes_run:
  "\<exists>vs. ex_run PrevoteType ex_prevotes = Ret vs \<and> maj23 vs = Some (ex_bid 7) \<and> vset_sum vs = 300"
proof -
  have "after (ex_run PrevoteType ex_prevotes) (\<lambda>vs. (maj23 vs, vset_sum vs)) = Some (Some (ex_bid 7), 300)"
    by code_simp
  then show ?thesis by (auto dest: afterD)
qed

text \<open>
  C1: A majority is always earned. In every vote set that can be reached by adding valid votes and by
  peers' claims, a recorded majority for a block is backed by validators whose power reaches the
  quorum threshold, each with a vote for that block at this height, round and type whose signatures
  verify under the validator's key.
\<close>

theorem vote_set_majority_earned:
  assumes "crypto_ok cl" "vset_reach cl recover vs" "TwoThirdsMajority (Some vs) = (b, True)"
  shows "\<exists>S q. S \<subseteq> {..<nvals vs} \<and> QuorumVotingThresholdPower (valSet vs) = Ret q \<and> q \<le> vpower (valSet vs) S
    \<and> (\<forall>i \<in> S. \<exists>v. vote_ok cl vs i v \<and> vote_BlockID v = b)"
proof -
  have "maj23 vs = Some b" using assms(3) by (auto simp: TwoThirdsMajority_def split: option.splits)
  then show ?thesis using majority_backed [OF vset_reach_inv [OF assms(1,2)]] unfolding backed_def by blast
qed

theorem vote_set_majority_earned_witness:
  "\<exists>vs S q. ex_run PrevoteType ex_prevotes = Ret vs \<and> QuorumVotingThresholdPower (valSet vs) = Ret q
    \<and> q \<le> vpower (valSet vs) S \<and> (\<forall>i \<in> S. \<exists>v. vote_ok ex_lib vs i v \<and> vote_BlockID v = ex_bid 7)"
proof -
  obtain vs where vs: "ex_run PrevoteType ex_prevotes = Ret vs" "maj23 vs = Some (ex_bid 7)"
    using ex_prevotes_run by blast
  have "TwoThirdsMajority (Some vs) = (ex_bid 7, True)" using vs(2) by (simp add: TwoThirdsMajority_def)
  from vote_set_majority_earned [OF ex_lib_ok ex_run_reach [OF vs(1) ex_prevotes_valid] this] vs(1)
  show ?thesis by blast
qed

text \<open>
  C3: No input makes a vote set panic. On a reachable set, adding any vote that passed
  \<open>ValidateBasic\<close>, with any budget or any evidence that was really produced by a verification, returns:
  neither of the two panics in the code, the index accesses, nor the recovery of the threshold
  signatures is ever reached in a bad state.
\<close>

theorem vote_set_never_panics:
  fixes how :: "nat sig_check"
  assumes "crypto_ok cl" "vset_reach cl recover vs" "minted cl how" "valid_vote v"
  shows "\<exists>vs' added err b'. addVote cl recover how b v vs = Ret (vs', added, err, b') \<and> vset_reach cl recover vs'"
proof -
  obtain vs' added err b' where a: "addVote cl recover how b v vs = Ret (vs', added, err, b')"
    using addVote_ok [OF assms(1) vset_reach_inv [OF assms(1,2)] assms(3,4)] by blast
  then show ?thesis using vset_reach.step [OF assms(2) vset_step.add [OF assms(3,4) a]] by blast
qed

theorem vote_set_never_panics_witness:
  "\<exists>vs vs' added err b'. ex_run PrevoteType ex_prevotes = Ret vs \<and>
     addVote ex_lib ex_recover (Check None) 0 (Some (ex_vote PrevoteType (ex_bid 7) 0)) vs = Ret (vs', added, err, b' :: nat)"
proof -
  obtain vs where vs: "ex_run PrevoteType ex_prevotes = Ret vs" using ex_prevotes_run by blast
  have "valid_vote (Some (ex_vote PrevoteType (ex_bid 7) 0))" by code_simp
  moreover have "minted ex_lib (Check None)" by (simp add: minted_def)
  ultimately show ?thesis
    using vote_set_never_panics [OF ex_lib_ok ex_run_reach [OF vs ex_prevotes_valid], of "Check None"
        "Some (ex_vote PrevoteType (ex_bid 7) 0)" 0] vs by blast
qed

text \<open>
  C2: The first majority is final: whatever is added or claimed later, \<open>TwoThirdsMajority\<close> keeps
  returning the block it returned, although recovery sets and clears it tentatively.
\<close>

theorem vote_set_majority_final:
  assumes "crypto_ok cl" "vset_reach cl recover vs" "(vset_step cl recover)\<^sup>*\<^sup>* vs vs'"
    "TwoThirdsMajority (Some vs) = (b, True)"
  shows "TwoThirdsMajority (Some vs') = (b, True)"
proof -
  have "maj23 vs = Some b" using assms(4) by (auto simp: TwoThirdsMajority_def split: option.splits)
  then have "maj23 vs' = Some b"
    using vset.maj_steps [OF assms(3)] vset_reach_inv [OF assms(1,2)] assms(1) by blast
  then show ?thesis by (simp add: TwoThirdsMajority_def)
qed

theorem vote_set_majority_final_witness:
  "\<exists>vs. ex_run PrevoteType ex_prevotes = Ret vs \<and> TwoThirdsMajority (Some vs) = (ex_bid 7, True)"
proof -
  obtain vs where vs: "ex_run PrevoteType ex_prevotes = Ret vs" "maj23 vs = Some (ex_bid 7)"
    using ex_prevotes_run by blast
  have "TwoThirdsMajority (Some vs) = (ex_bid 7, True)" using vs(2) by (simp add: TwoThirdsMajority_def)
  then show ?thesis
    using vote_set_majority_final [OF ex_lib_ok ex_run_reach [OF vs(1) ex_prevotes_valid] rtranclp.rtrancl_refl] vs(1) by blast
qed

text \<open>
  C4: The books balance. In a reachable set the bit array has a bit exactly for the validators whose
  vote \<open>GetByIndex\<close> returns, the sum is the power of those validators, never more than the total, so
  \<open>HasAll\<close> and \<open>HasTwoThirdsAny\<close> say that all, or a quorum, have voted; and claims of at most
  \<open>maxPeerMaj23s\<close> peers are kept.
\<close>

theorem vote_set_accounting:
  assumes "crypto_ok cl" "vset_reach cl recover vs"
  shows "(\<forall>i < nvals vs. GetIndex (vset_BitArray (Some vs)) (int i) = Ret (i \<in> held (vset_votes vs)))
    \<and> vset_sum vs = vpower (valSet vs) (held (vset_votes vs))
    \<and> (vset_HasAll (Some vs) \<longleftrightarrow> held (vset_votes vs) = {..<nvals vs})
    \<and> (\<exists>q. QuorumVotingThresholdPower (valSet vs) = Ret q
          \<and> HasTwoThirdsAny (Some vs) = Ret (q \<le> vpower (valSet vs) (held (vset_votes vs))))
    \<and> length (peerMaj23s vs) \<le> maxPeerMaj23s"
proof -
  have core: "vset_core cl vs" using vset_reach_inv [OF assms] by (simp add: vset_inv_def)
  then have qs: "quorum_set (valSet vs)" and n: "length (vset_votes vs) = nvals vs"
    and m: "mirrors (votesBitArray vs) (vset_votes vs)" and s: "vset_sum vs = vpower (valSet vs) (held (vset_votes vs))"
    and peers: "length (peerMaj23s vs) \<le> maxPeerMaj23s" by (auto simp: vset_core_def)
  have sub: "held (vset_votes vs) \<subseteq> {..<nvals vs}" using held_bound [of "vset_votes vs"] n by simp
  note wf = quorum_set_facts(1) [OF qs]
  have copy: "Copy x = x" if "ba_inv x" for x
    using that by (cases x) (auto simp: Copy_def ba_inv_def)
  have bits: "GetIndex (vset_BitArray (Some vs)) (int i) = Ret (i \<in> held (vset_votes vs))" if "i < nvals vs" for i
    using m that n copy [of "votesBitArray vs"] by (simp add: vset_BitArray_def mirrors_def held_def)
  have tot: "TotalVotingPower (valSet vs) = vpower (valSet vs) {..<nvals vs}"
    using wf by (simp add: vpower_card nvals_def TotalVotingPower_eq wf_vals_def)
  have "vset_HasAll (Some vs) \<longleftrightarrow> card (held (vset_votes vs)) = card {..<nvals vs}"
    unfolding vset_HasAll_def using vpower_card [OF wf, of "held (vset_votes vs)"]
      vpower_card [OF wf, of "{..<nvals vs}"] sub by (simp add: s tot nvals_def)
  moreover have "card (held (vset_votes vs)) = card {..<nvals vs} \<longleftrightarrow> held (vset_votes vs) = {..<nvals vs}"
    by (metis card_subset_eq [OF finite_lessThan sub])
  moreover obtain q where "QuorumVotingThresholdPower (valSet vs) = Ret q" using quorum_set_facts(6) [OF qs] by blast
  ultimately show ?thesis using bits s peers by (simp add: HasTwoThirdsAny_def)
qed

theorem vote_set_accounting_witness:
  "\<exists>vs. ex_run PrevoteType ex_prevotes = Ret vs \<and> vset_sum vs = 300
    \<and> vset_sum vs = vpower (valSet vs) (held (vset_votes vs))"
proof -
  obtain vs where vs: "ex_run PrevoteType ex_prevotes = Ret vs" "vset_sum vs = 300" using ex_prevotes_run by blast
  then show ?thesis using vote_set_accounting [OF ex_lib_ok ex_run_reach [OF vs(1) ex_prevotes_valid]] by blast
qed


definition ex_group :: "nat \<Rightarrow> voteExtensionGroup" where
  "ex_group i = \<lparr>grp_power = 200, representative = ex_vote PrecommitType (ex_bid 7) i, voters = {}\<rparr>"

definition ex_groups :: "(bytes \<times> voteExtensionGroup) list \<Rightarrow> blockVotes" where
  "ex_groups gs = (newBlockVotes False 3)\<lparr>voteExtensionGroups := gs\<rparr>"



end
