(* ===== verification/Commits.thy ===== *)
theory Commits
  imports Vote_Set
begin

text \<open>
  Commits: \<open>src/types/block.go\<close> (type \<open>Commit\<close>), \<open>src/types/quorum.go\<close>, \<open>src/types/verified_commit.go\<close>,
  \<open>VoteSet.MakeCommit\<close> of \<open>src/types/vote_set.go\<close> and the verification of a commit in
  \<open>src/types/validator_set.go\<close>.

  An extension in a commit is a protobuf message from a peer: a possibly nil pointer whose type may be
  a number outside the enumeration (\<open>pb_Type = None\<close>). Memoised hashes are left out.

  The main results: the commit a vote set makes passes the verification every other node runs on it,
  and the evidence of a verification is accepted only where a verification would succeed.
\<close>

section \<open>Definitions\<close>

record pb_ext =
  pb_Type :: "VoteExtensionType option"
  pb_Extension :: bytes
  pb_Signature :: bytes
  pb_SignRequestId :: "bytes option"

record Commit =
  commit_Height :: int
  commit_Round :: int
  commit_BlockID :: BlockID
  commit_QuorumHash :: bytes
  ThresholdBlockSignature :: bytes
  ThresholdVoteExtensions :: "pb_ext option list"

datatype commit_error =
    ErrNegativeHeight | ErrNegativeRound | ErrCommitNilBlock | ErrCommitBlockID | ErrCommitSignatureSize
  | ErrNilVoteExtension | ErrUnknownVoteExtensionType
  | ErrInvalidCommitHeight | ErrWrongBlockID | ErrCommitSignData vote_error | ErrInvalidCommitQuorumHash
  | ErrCommitBudgetExhausted | ErrCommitExtensionCount | ErrInvalidCommitSignature vote_error
  | ErrNilValidatorSet | ErrNilCommit

definition VoteExtensionFromProto :: "pb_ext \<Rightarrow> commit_error + VoteExtension" where
  "VoteExtensionFromProto ve =
     (case pb_Type ve of
        None \<Rightarrow> Inl ErrUnknownVoteExtensionType
      | Some t \<Rightarrow> Inr \<lparr>ve_Type = t, ve_Extension = pb_Extension ve, ve_Signature = pb_Signature ve,
                       ve_SignRequestId = pb_SignRequestId ve\<rparr>)"

fun VoteExtensionsFromProto :: "pb_ext option list \<Rightarrow> commit_error + VoteExtension list" where
  "VoteExtensionsFromProto [] = Inr []"
| "VoteExtensionsFromProto (None # es) = Inl ErrNilVoteExtension"
| "VoteExtensionsFromProto (Some e # es) =
     res_bind (VoteExtensionFromProto e) (\<lambda>x.
     res_bind (VoteExtensionsFromProto es) (\<lambda>xs. Inr (x # xs)))"

definition ext_ToProto :: "VoteExtension \<Rightarrow> pb_ext" where
  "ext_ToProto e = \<lparr>pb_Type = Some (ve_Type e), pb_Extension = ve_Extension e, pb_Signature = ve_Signature e,
     pb_SignRequestId = ve_SignRequestId e\<rparr>"

definition VoteExtensions_ToProto :: "VoteExtension list \<Rightarrow> pb_ext option list" where
  "VoteExtensions_ToProto es = map (Some \<circ> ext_ToProto) es"

record CommitSigns =
  cs_QuorumSigns :: QuorumSigns
  cs_QuorumHash :: bytes

text \<open>The extensions of the commit under construction are not nil.\<close>

definition CopyToCommit :: "CommitSigns \<Rightarrow> Commit \<Rightarrow> Commit exec" where
  "CopyToCommit c commit =
     (let sigs = VoteExtensionSignatures (cs_QuorumSigns c)
      in if length sigs \<noteq> length (ThresholdVoteExtensions commit) then Panic
         else Ret (commit\<lparr>commit_QuorumHash := cs_QuorumHash c,
                     ThresholdBlockSignature := BlockSign (cs_QuorumSigns c),
                     ThresholdVoteExtensions :=
                       map2 (\<lambda>e sig. map_option (\<lambda>x. x\<lparr>pb_Signature := sig\<rparr>) e)
                         (ThresholdVoteExtensions commit) sigs\<rparr>))"

definition NewCommit ::
  "int \<Rightarrow> int \<Rightarrow> BlockID \<Rightarrow> VoteExtension list \<Rightarrow> CommitSigns option \<Rightarrow> Commit exec" where
  "NewCommit height round blockID voteExts commitSigns =
     (let commit = \<lparr>commit_Height = height, commit_Round = round, commit_BlockID = blockID,
                    commit_QuorumHash = [], ThresholdBlockSignature = [],
                    ThresholdVoteExtensions = VoteExtensions_ToProto (filter IsThresholdRecoverable voteExts)\<rparr>
      in case commitSigns of None \<Rightarrow> Ret commit | Some c \<Rightarrow> CopyToCommit c commit)"

definition makeCommitSigns :: "VoteSet \<Rightarrow> CommitSigns" where
  "makeCommitSigns vs = \<lparr>cs_QuorumSigns = makeQuorumSigns vs, cs_QuorumHash = quorum_hash (valSet vs)\<rparr>"

definition MakeCommit :: "VoteSet \<Rightarrow> Commit exec" where
  "MakeCommit vs =
     (if signedMsgType vs \<noteq> PrecommitType then Panic
      else case maj23 vs of
             None \<Rightarrow> Panic
           | Some b \<Rightarrow>
               if thresholdBlockSig vs = None then Panic
               else NewCommit (vset_height vs) (vset_round vs) b (thresholdVoteExtSigs vs)
                      (Some (makeCommitSigns vs)))"

definition GetCanonicalVote :: "Commit \<Rightarrow> commit_error + Vote" where
  "GetCanonicalVote commit =
     res_bind (VoteExtensionsFromProto (ThresholdVoteExtensions commit)) (\<lambda>extensions.
       Inr \<lparr>vote_Type = PrecommitType, vote_Height = commit_Height commit, vote_Round = commit_Round commit,
            vote_BlockID = commit_BlockID commit, ValidatorProTxHash = [], ValidatorIndex = 0,
            BlockSignature = [], VoteExtensions = extensions\<rparr>)"

definition VoteBlockRequestID :: "crypto_lib \<Rightarrow> Commit \<Rightarrow> bytes" where
  "VoteBlockRequestID cl commit =
     Checksum cl (dpbvote @ le_bytes 8 (conv TUint64 (commit_Height commit))
                  @ le_bytes 4 (conv TUint32 (commit_Round commit)))"

definition commit_IsCommit :: "Commit \<Rightarrow> bool" where
  "commit_IsCommit commit \<longleftrightarrow> length (ThresholdBlockSignature commit) = SignatureSize"

fun validate_exts :: "pb_ext option list \<Rightarrow> commit_error + unit" where
  "validate_exts [] = Inr ()"
| "validate_exts (None # es) = Inl ErrNilVoteExtension"
| "validate_exts (Some e # es) = res_bind (VoteExtensionFromProto e) (\<lambda>_. validate_exts es)"

definition Commit_ValidateBasic :: "Commit \<Rightarrow> commit_error + unit" where
  "Commit_ValidateBasic commit =
     (if commit_Height commit < 0 then Inl ErrNegativeHeight
      else if commit_Round commit < 0 then Inl ErrNegativeRound
      else if commit_Height commit \<ge> 1 \<and> BlockID_IsNil (commit_BlockID commit) then Inl ErrCommitNilBlock
      else if commit_Height commit \<ge> 1 \<and> \<not> BlockID_ValidateBasic (commit_BlockID commit) then Inl ErrCommitBlockID
      else if commit_Height commit \<ge> 1 \<and> length (ThresholdBlockSignature commit) \<noteq> SignatureSize
      then Inl ErrCommitSignatureSize
      else validate_exts (ThresholdVoteExtensions commit))"

text \<open>A nil extension is dereferenced.\<close>

fun ext_sigs :: "pb_ext option list \<Rightarrow> bytes list exec" where
  "ext_sigs [] = Ret []"
| "ext_sigs (None # es) = Panic"
| "ext_sigs (Some e # es) = exec_bind (ext_sigs es) (\<lambda>sigs. Ret (pb_Signature e # sigs))"

definition NewQuorumSignsFromCommit :: "Commit \<Rightarrow> QuorumSigns exec" where
  "NewQuorumSignsFromCommit commit =
     exec_bind (ext_sigs (ThresholdVoteExtensions commit)) (\<lambda>sigs.
       Ret \<lparr>BlockSign = ThresholdBlockSignature commit, VoteExtensionSignatures = sigs\<rparr>)"

definition commitSignData ::
  "crypto_lib \<Rightarrow> ValidatorSet \<Rightarrow> string \<Rightarrow> BlockID \<Rightarrow> int \<Rightarrow> Commit \<Rightarrow> (commit_error + QuorumSignData) exec" where
  "commitSignData cl vals chainID blockID height commit =
     (if height \<noteq> commit_Height commit then Ret (Inl ErrInvalidCommitHeight)
      else if \<not> BlockID_Equals blockID (commit_BlockID commit) then Ret (Inl ErrWrongBlockID)
      else case GetCanonicalVote commit of
             Inl e \<Rightarrow> Ret (Inl e)
           | Inr canonVote \<Rightarrow>
               exec_bind (makeVerifyQuorumSigns cl chainID (QuorumType vals) (quorum_hash vals) canonVote) (\<lambda>r.
                 Ret (case r of
                        Inl e \<Rightarrow> Inl (ErrCommitSignData e)
                      | Inr q \<Rightarrow> if quorum_hash vals \<noteq> commit_QuorumHash commit then Inl ErrInvalidCommitQuorumHash
                                 else Inr q)))"

text \<open>A nil threshold key is dereferenced by the first signature check.\<close>

definition verifyCommitReportingSigns ::
  "crypto_lib \<Rightarrow> ValidatorSet \<Rightarrow> string \<Rightarrow> BlockID \<Rightarrow> int \<Rightarrow> Commit \<Rightarrow> 'b budget \<Rightarrow> 'b
   \<Rightarrow> ((commit_error + QuorumSignData \<times> QuorumSigns) \<times> 'b) exec" where
  "verifyCommitReportingSigns cl vals chainID blockID height commit budget b =
     exec_bind (commitSignData cl vals chainID blockID height commit) (\<lambda>d.
       case d of
         Inl e \<Rightarrow> Ret (Inl e, b)
       | Inr quorumSigns \<Rightarrow>
           exec_bind (NewQuorumSignsFromCommit commit) (\<lambda>signs.
             case ThresholdPublicKey vals of
               None \<Rightarrow> Panic
             | Some pk \<Rightarrow>
                 let (r, b) = qsd_verify cl quorumSigns pk signs budget b
                 in Ret (case r of
                           Inr _ \<Rightarrow> Inr (quorumSigns, signs)
                         | Inl e \<Rightarrow>
                             if e = ErrVerificationBudgetExhausted then Inl ErrCommitBudgetExhausted
                             else if e = ErrVoteExtensionCountMismatch then Inl ErrCommitExtensionCount
                             else Inl (ErrInvalidCommitSignature e), b)))"

definition verifyCommit ::
  "crypto_lib \<Rightarrow> ValidatorSet \<Rightarrow> string \<Rightarrow> BlockID \<Rightarrow> int \<Rightarrow> Commit \<Rightarrow> 'b budget \<Rightarrow> 'b
   \<Rightarrow> ((commit_error + unit) \<times> 'b) exec" where
  "verifyCommit cl vals chainID blockID height commit budget b =
     exec_bind (verifyCommitReportingSigns cl vals chainID blockID height commit budget b) (\<lambda>(r, b).
       Ret (res_bind r (\<lambda>_. Inr ()), b))"

definition VerifyCommit ::
  "crypto_lib \<Rightarrow> ValidatorSet \<Rightarrow> string \<Rightarrow> BlockID \<Rightarrow> int \<Rightarrow> Commit \<Rightarrow> (commit_error + unit) exec" where
  "VerifyCommit cl vals chainID blockID height commit =
     exec_bind (verifyCommit cl vals chainID blockID height commit (None :: unit budget) ()) (\<lambda>(r, _). Ret r)"

text \<open>
  The evidence of a verification. All keys of the model have one Go type, so \<open>thresholdKeyType\<close> is
  left out. The commit that a \<open>VerifiedCommit\<close> names is never consulted.
\<close>

record commitProof =
  cp_chainID :: string
  cp_height :: int
  cp_blockID :: BlockID
  cp_quorumType :: LLMQType
  cp_quorumHash :: bytes
  cp_thresholdKeyBytes :: bytes
  cp_signHashes :: "bytes list"
  cp_signatures :: "bytes list"

definition VerifyCommitSignatures ::
  "crypto_lib \<Rightarrow> ValidatorSet option \<Rightarrow> string \<Rightarrow> BlockID \<Rightarrow> int \<Rightarrow> Commit option \<Rightarrow> 'b budget \<Rightarrow> 'b
   \<Rightarrow> ((commit_error + commitProof) \<times> 'b) exec" where
  "VerifyCommitSignatures cl vs chainID blockID height c budget b =
     (case (vs, c) of
        (None, _) \<Rightarrow> Ret (Inl ErrNilValidatorSet, b)
      | (_, None) \<Rightarrow> Ret (Inl ErrNilCommit, b)
      | (Some vals, Some commit) \<Rightarrow>
          exec_bind (verifyCommitReportingSigns cl vals chainID blockID height commit budget b) (\<lambda>(r, b).
            Ret (res_bind r (\<lambda>(signData, signs).
              Inr \<lparr>cp_chainID = chainID, cp_height = height, cp_blockID = blockID,
                   cp_quorumType = QuorumType vals, cp_quorumHash = quorum_hash vals,
                   cp_thresholdKeyBytes = the (ThresholdPublicKey vals),
                   cp_signHashes = fst (signedContent signData signs),
                   cp_signatures = snd (signedContent signData signs)\<rparr>), b)))"

definition proof_checkMatches ::
  "crypto_lib \<Rightarrow> commitProof option \<Rightarrow> string \<Rightarrow> ValidatorSet option \<Rightarrow> BlockID \<Rightarrow> int \<Rightarrow> Commit option \<Rightarrow> bool exec" where
  "proof_checkMatches cl pr chainID vs blockID height c =
     (case (pr, vs, c) of
        (Some p, Some vals, Some commit) \<Rightarrow>
          if cp_signHashes p = [] \<or> cp_chainID p \<noteq> chainID \<or> cp_height p \<noteq> height
             \<or> \<not> BlockID_Equals (cp_blockID p) blockID \<or> cp_quorumType p \<noteq> QuorumType vals
             \<or> cp_quorumHash p \<noteq> quorum_hash vals
             \<or> ThresholdPublicKey vals \<noteq> Some (cp_thresholdKeyBytes p)
          then Ret False
          else exec_bind (commitSignData cl vals chainID blockID height commit) (\<lambda>d.
                 case d of
                   Inl _ \<Rightarrow> Ret False
                 | Inr signData \<Rightarrow>
                     exec_bind (NewQuorumSignsFromCommit commit) (\<lambda>signs.
                       Ret (cp_signHashes p = fst (signedContent signData signs)
                            \<and> cp_signatures p = snd (signedContent signData signs))))
      | _ \<Rightarrow> Ret False)"

definition VerifyCommitUnlessVerified ::
  "crypto_lib \<Rightarrow> ValidatorSet \<Rightarrow> string \<Rightarrow> BlockID \<Rightarrow> int \<Rightarrow> Commit \<Rightarrow> commitProof option
   \<Rightarrow> (bool \<times> (commit_error + unit)) exec" where
  "VerifyCommitUnlessVerified cl vals chainID blockID height commit verified =
     exec_bind (proof_checkMatches cl verified chainID (Some vals) blockID height (Some commit)) (\<lambda>ok.
       if ok then Ret (True, Inr ())
       else exec_bind (VerifyCommit cl vals chainID blockID height commit) (\<lambda>r. Ret (False, r)))"

section \<open>Conversions\<close>

lemma FromProto_ToProto [simp]: "VoteExtensionFromProto (ext_ToProto e) = Inr e"
  by (simp add: VoteExtensionFromProto_def ext_ToProto_def)

lemma exts_roundtrip [simp]: "VoteExtensionsFromProto (VoteExtensions_ToProto es) = Inr es"
  by (induction es) (simp_all add: VoteExtensions_ToProto_def)

lemma ext_sigs_ToProto [simp]: "ext_sigs (VoteExtensions_ToProto es) = Ret (GetSignatures es)"
  by (induction es) (simp_all add: VoteExtensions_ToProto_def GetSignatures_def ext_ToProto_def)

lemma copy_own_sigs [simp]:
  "map2 (\<lambda>e sig. map_option (\<lambda>x. x\<lparr>pb_Signature := sig\<rparr>) e) (VoteExtensions_ToProto es) (GetSignatures es)
     = VoteExtensions_ToProto es"
  by (induction es) (simp_all add: VoteExtensions_ToProto_def GetSignatures_def ext_ToProto_def)

lemma ToProto_length [simp]: "length (VoteExtensions_ToProto es) = length es" "length (GetSignatures es) = length es"
  by (simp_all add: VoteExtensions_ToProto_def GetSignatures_def)

lemma validate_exts_iff: "(\<exists>xs. VoteExtensionsFromProto es = Inr xs) \<longleftrightarrow> validate_exts es = Inr ()"
  by (induction es rule: validate_exts.induct) (auto simp: res_bind_Inr_iff)

lemma validate_exts_sigs: "validate_exts es = Inr () \<Longrightarrow> \<exists>sigs. ext_sigs es = Ret sigs"
  by (induction es rule: validate_exts.induct) (auto simp: res_bind_Inr_iff)

section \<open>Signed content\<close>

text \<open>
  What the encodings promise: the sign bytes of a vote depend only on type, height, round and block,
  those of an extension not on its signature, and a sign hash has 32 bytes.
\<close>

definition canonical_lib :: "crypto_lib \<Rightarrow> bool" where
  "canonical_lib cl \<longleftrightarrow>
     (\<forall>chain v w. vote_Type v = vote_Type w \<and> vote_Height v = vote_Height w \<and> vote_Round v = vote_Round w
        \<and> vote_BlockID v = vote_BlockID w \<longrightarrow> vote_SignBytes cl chain v = vote_SignBytes cl chain w)
     \<and> (\<forall>chain e h r. ext_canonical cl chain (no_sig e) h r = ext_canonical cl chain e h r)
     \<and> (\<forall>t q i m. length (BuildSignHash cl t q i m) = 32)"

lemma ext_SignItem_no_sig:
  assumes "canonical_lib cl"
  shows "ext_SignItem cl (no_sig e) chain h r qt qh = ext_SignItem cl e chain h r qt qh"
  using assms by (simp add: ext_SignItem_def Generic_SignItem_def Raw_SignItem_def canonical_lib_def no_sig_def
      split: VoteExtensionType.splits)

lemma SignItems_no_sig:
  assumes "canonical_lib cl" "map no_sig xs = map no_sig ys"
  shows "SignItems cl xs chain qt qh h r = SignItems cl ys chain qt qh h r"
  using assms(2)
proof (induction xs arbitrary: ys)
  case (Cons x xs)
  then obtain y ys' where ys: "ys = y # ys'" "no_sig x = no_sig y" "map no_sig xs = map no_sig ys'" by auto
  have "ext_SignItem cl x chain h r qt qh = ext_SignItem cl y chain h r qt qh"
    using ext_SignItem_no_sig [OF assms(1), of x] ext_SignItem_no_sig [OF assms(1), of y] ys(2) by simp
  then show ?case using Cons.IH [OF ys(3)] ys(1) by simp
qed simp

lemma UpdateSignHash_length:
  "canonical_lib cl \<Longrightarrow> UpdateSignHash cl rv i = Ret j \<Longrightarrow> length (SignHash j) = 32"
  by (auto simp: UpdateSignHash_def canonical_lib_def exec_bind_Ret_iff Let_def split: if_splits)

lemma ext_SignItem_length:
  assumes "canonical_lib cl" "ext_SignItem cl e chain h r qt qh = Ret (Inr item)"
  shows "length (SignHash item) = 32"
  using assms UpdateSignHash_length [OF assms(1)]
  by (auto simp: ext_SignItem_def Generic_SignItem_def Raw_SignItem_def NewSignItem_def NewSignItemFromHash_def
      exec_bind_Ret_iff Let_def split: VoteExtensionType.splits option.splits if_splits)

lemma SignItems_lengths:
  "canonical_lib cl \<Longrightarrow> SignItems cl es chain qt qh h r = Ret (Inr items)
     \<Longrightarrow> length items = length es \<and> (\<forall>it \<in> set items. length (SignHash it) = 32)"
  by (induction cl es chain qt qh h r arbitrary: items rule: SignItems.induct)
    (auto simp: try_bind_Inr_iff intro: ext_SignItem_length)

lemma le_bytes_length [simp]: "length (le_bytes n v) = n"
  by (induction n arbitrary: v) simp_all

lemma chunks_inj:
  assumes "concat (map2 (\<lambda>e it. rev (le_bytes 4 (f e)) @ SignHash it) es items)
         = concat (map2 (\<lambda>e it. rev (le_bytes 4 (f e)) @ SignHash it) es' items')"
    "length items = length es" "length items' = length es'"
    "\<forall>it \<in> set items. length (SignHash it) = 32" "\<forall>it \<in> set items'. length (SignHash it) = 32"
  shows "map SignHash items = map SignHash items'"
  using assms
proof (induction items es arbitrary: items' es' rule: list_induct2')
  case 1
  then show ?case by (cases items'; cases es') auto
next
  case (4 it items e es)
  show ?case
  proof (cases items')
    case Nil
    then show ?thesis using "4.prems" by simp
  next
    case (Cons it' rest)
    then obtain e' es2 where es': "es' = e' # es2" using "4.prems"(3) by (cases es') auto
    have "rev (le_bytes 4 (f e)) @ SignHash it = rev (le_bytes 4 (f e')) @ SignHash it'
      \<and> concat (map2 (\<lambda>e it. rev (le_bytes 4 (f e)) @ SignHash it) es items)
        = concat (map2 (\<lambda>e it. rev (le_bytes 4 (f e)) @ SignHash it) es2 rest)"
      using "4.prems" Cons es' by (subst append_eq_append_conv [symmetric]) simp_all
    then show ?thesis using "4.IH" [of es2 rest] "4.prems" Cons es' by (simp add: append_eq_append_conv)
  qed
qed auto

lemma identity_hashes:
  assumes "canonical_lib cl" "signedMsgType vs = PrecommitType"
    "identity cl vs v = Ret (Inr idn)" "identity cl vs w = Ret (Inr idn)"
    "vote_Height v = vote_Height w" "vote_Round v = vote_Round w"
  obtains items items' where
    "SignItems cl (recoverable_exts v) (vset_chainID vs) (QuorumType (valSet vs)) (quorum_hash (valSet vs))
       (vote_Height v) (vote_Round v) = Ret (Inr items)"
    "SignItems cl (recoverable_exts w) (vset_chainID vs) (QuorumType (valSet vs)) (quorum_hash (valSet vs))
       (vote_Height v) (vote_Round v) = Ret (Inr items')"
    "map SignHash items = map SignHash items'"
proof -
  obtain items items' where i: "SignItems cl (recoverable_exts v) (vset_chainID vs) (QuorumType (valSet vs))
      (quorum_hash (valSet vs)) (vote_Height v) (vote_Round v) = Ret (Inr items)"
    "SignItems cl (recoverable_exts w) (vset_chainID vs) (QuorumType (valSet vs)) (quorum_hash (valSet vs))
       (vote_Height v) (vote_Round v) = Ret (Inr items')"
    "concat (map2 (\<lambda>e it. rev (le_bytes 4 (ve_num (ve_Type e))) @ SignHash it) (recoverable_exts v) items)
     = concat (map2 (\<lambda>e it. rev (le_bytes 4 (ve_num (ve_Type e))) @ SignHash it) (recoverable_exts w) items')"
    using assms(2-6) by (auto simp: identity_def voteExtensionIdentity_def Let_def try_bind_Inr_iff)
  have "map SignHash items = map SignHash items'"
    using SignItems_lengths [OF assms(1) i(1)] SignItems_lengths [OF assms(1) i(2)]
    by (intro chunks_inj [OF i(3)]) simp_all
  then show ?thesis using i(1,2) that by blast
qed

section \<open>A commit that was made verifies\<close>

lemma verified_ext_count:
  assumes "vote_ok cl vs i v"
  shows "length (recoverable_exts v) \<le> MaxVoteExtensions"
proof -
  have "\<exists>q. makeVerifyQuorumSigns cl (vset_chainID vs) (QuorumType (valSet vs)) (quorum_hash (valSet vs)) v = Ret (Inr q)"
    using assms by (auto simp: vote_ok_def Vote_Verify_def Vote_verify_def exec_bind_Ret_iff res_bind_Inr_iff
        dest!: verifyReporting_ok(1))
  then have "length (VoteExtensions v) \<le> MaxVoteExtensions"
    by (auto simp: makeVerifyQuorumSigns_def split: if_splits)
  moreover have "length (recoverable_exts v) \<le> length (VoteExtensions v)" by (simp add: recoverable_exts_def)
  ultimately show ?thesis by simp
qed

lemma MakeCommit_eq:
  assumes "vset_inv cl vs" "signedMsgType vs = PrecommitType" "maj23 vs = Some b"
  shows "MakeCommit vs = Ret \<lparr>commit_Height = vset_height vs, commit_Round = vset_round vs, commit_BlockID = b,
      commit_QuorumHash = quorum_hash (valSet vs), ThresholdBlockSignature = BlockSign (makeQuorumSigns vs),
      ThresholdVoteExtensions = VoteExtensions_ToProto (thresholdVoteExtSigs vs)\<rparr>"
proof -
  obtain bv where "signs_ok cl vs bv" using assms by (auto simp: vset_inv_def majority_ok_def)
  then have "thresholdBlockSig vs \<noteq> None" "filter IsThresholdRecoverable (thresholdVoteExtSigs vs) = thresholdVoteExtSigs vs"
    by (auto simp: signs_ok_def filter_id_conv list_all_iff)
  then show ?thesis using assms(2,3)
    by (simp add: MakeCommit_def NewCommit_def CopyToCommit_def makeCommitSigns_def makeQuorumSigns_def Let_def)
qed

lemma commit_verifies:
  assumes "crypto_ok cl" "canonical_lib cl" "vset_inv cl vs" "signedMsgType vs = PrecommitType"
    "maj23 vs = Some b" "2 \<le> nvals vs" "MakeCommit vs = Ret c"
  shows "VerifyCommit cl (valSet vs) (vset_chainID vs) b (vset_height vs) c = Ret (Inr ())"
proof -
  let ?chain = "vset_chainID vs" and ?qt = "QuorumType (valSet vs)" and ?qh = "quorum_hash (valSet vs)"
  let ?exts = "thresholdVoteExtSigs vs"
  obtain bv i0 v where bv: "map_of (votesByBlock vs) (BlockID_Key b) = Some bv" "i0 < nvals vs"
    "bv_votes bv ! i0 = Some v" "vote_BlockID v = b" "signs_ok cl vs bv"
    using assms(3-5) by (auto simp: vset_inv_def majority_ok_def)
  have ok: "bv_ok cl vs (BlockID_Key b) bv" and qs: "quorum_set (valSet vs)"
    using assms(3) bv(1) by (auto simp: vset_inv_def vset_core_def)
  obtain idn g q i w where g: "map_of (voteExtensionGroups bv) idn = Some g"
    "MakeQuorumSignsWithVoteSet cl vs (representative g) = Ret (Inr q)"
    "fst (qsd_verify cl q (the (ThresholdPublicKey (valSet vs))) (makeQuorumSigns vs) (None :: unit budget) ()) = Inr ()"
    "i < nvals vs" "bv_votes bv ! i = Some w" "identity cl vs w = Ret (Inr idn)"
    "map no_sig ?exts = map no_sig (recoverable_exts w)"
    using bv(5) assms(6) unfolding signs_ok_def by blast
  let ?rep = "representative g"
  have "group_ok cl vs (bv_votes bv) idn g" "length (bv_votes bv) = nvals vs"
    using ok g(1) by (auto simp: bv_ok_def dest: spec [of _ idn])
  then obtain j where j: "j < nvals vs" "bv_votes bv ! j = Some ?rep" "identity cl vs ?rep = Ret (Inr idn)"
    by (auto simp: group_ok_def group_slots_def)
  have vr: "vote_ok cl vs j ?rep" and vw: "vote_ok cl vs i w" using ok j g(4,5) by (auto simp: bv_ok_def)
  have br: "vote_BlockID ?rep = b" using same_block [OF ok j(1) bv(2) j(2) bv(3)] bv(4) by simp
  obtain items items' where it: "SignItems cl (recoverable_exts ?rep) ?chain ?qt ?qh (vote_Height ?rep) (vote_Round ?rep) = Ret (Inr items)"
    "SignItems cl (recoverable_exts w) ?chain ?qt ?qh (vote_Height ?rep) (vote_Round ?rep) = Ret (Inr items')"
    "map SignHash items = map SignHash items'"
    by (rule identity_hashes [OF assms(2,4) j(3) g(6)]) (use vr vw in \<open>auto simp: vote_ok_def\<close>)
  have q: "MakeBlockSignItem cl ?chain ?rep ?qt ?qh = Ret (qsd_Block q)" "VoteExtensionSignItems q = items"
    using g(2) it(1) by (auto simp: MakeQuorumSignsWithVoteSet_def MakeQuorumSigns_def exec_bind_Ret_iff try_bind_Inr_iff)
  define cv where "cv = \<lparr>vote_Type = PrecommitType, vote_Height = vset_height vs, vote_Round = vset_round vs,
      vote_BlockID = b, ValidatorProTxHash = [], ValidatorIndex = 0, BlockSignature = [], VoteExtensions = ?exts\<rparr>"
  have c: "c = \<lparr>commit_Height = vset_height vs, commit_Round = vset_round vs, commit_BlockID = b,
      commit_QuorumHash = ?qh, ThresholdBlockSignature = BlockSign (makeQuorumSigns vs),
      ThresholdVoteExtensions = VoteExtensions_ToProto ?exts\<rparr>"
    using MakeCommit_eq [OF assms(3-5)] assms(7) by simp
  have canon: "GetCanonicalVote c = Inr cv" by (simp add: GetCanonicalVote_def c cv_def)
  have hr: "vote_Height ?rep = vset_height vs" "vote_Round ?rep = vset_round vs" "vote_Type ?rep = PrecommitType"
    using vr assms(4) by (simp_all add: vote_ok_def)
  have "vote_SignBytes cl ?chain cv = vote_SignBytes cl ?chain ?rep"
    using assms(2) br hr by (simp add: canonical_lib_def cv_def)
  then have block: "MakeBlockSignItem cl ?chain cv ?qt ?qh = Ret (qsd_Block q)"
    using q(1) hr by (simp add: MakeBlockSignItem_def cv_def)
  have rec: "recoverable_exts cv = ?exts"
    using bv(5) by (simp add: recoverable_exts_def cv_def signs_ok_def filter_id_conv list_all_iff)
  have cnt: "length (VoteExtensions cv) \<le> MaxVoteExtensions"
    using verified_ext_count [OF vw] arg_cong [OF g(7), of length] by (simp add: cv_def)
  have "SignItems cl (recoverable_exts cv) ?chain ?qt ?qh (vote_Height cv) (vote_Round cv) = Ret (Inr items')"
    using SignItems_no_sig [OF assms(2) g(7)] it(2) hr by (simp add: rec) (simp add: cv_def)
  then have made: "makeVerifyQuorumSigns cl ?chain ?qt ?qh cv
      = Ret (Inr \<lparr>qsd_Block = qsd_Block q, VoteExtensionSignItems = items'\<rparr>)"
    using block cnt by (simp add: makeVerifyQuorumSigns_def MakeQuorumSigns_def)
  let ?q = "\<lparr>qsd_Block = qsd_Block q, VoteExtensionSignItems = items'\<rparr>"
  have signs: "NewQuorumSignsFromCommit c = Ret (makeQuorumSigns vs)"
    by (simp add: NewQuorumSignsFromCommit_def c makeQuorumSigns_def)
  obtain pk where pk: "ThresholdPublicKey (valSet vs) = Some pk" using quorum_set_facts(5) [OF qs] by blast
  have "signedContent ?q (makeQuorumSigns vs) = signedContent q (makeQuorumSigns vs)"
    using q(2) it(3) by (simp add: signedContent_def)
  then have "fst (qsd_verify cl ?q pk (makeQuorumSigns vs) (None :: unit budget) ()) = Inr ()"
    using g(3) pk by (simp add: qsd_verify_iff)
  moreover have "commitSignData cl (valSet vs) ?chain b (vset_height vs) c = Ret (Inr ?q)"
    using canon made by (simp add: commitSignData_def c Equals_iff)
  ultimately show ?thesis
    using signs pk by (simp add: VerifyCommit_def verifyCommit_def verifyCommitReportingSigns_def split_beta)
qed

section \<open>Evidence\<close>

lemma verifyCommit_ok_iff:
  assumes "commitSignData cl vals chain bid h c = Ret (Inr q)" "NewQuorumSignsFromCommit c = Ret signs"
    "ThresholdPublicKey vals = Some pk"
  shows "VerifyCommit cl vals chain bid h c = Ret (Inr ()) \<longleftrightarrow>
     list_all2 (VerifySignatureDigest cl pk) (fst (signedContent q signs)) (snd (signedContent q signs))"
  using assms qsd_verify_iff [of cl q pk signs]
  by (cases "fst (qsd_verify cl q pk signs (None :: unit budget) ())")
    (auto simp: VerifyCommit_def verifyCommit_def verifyCommitReportingSigns_def split_beta Let_def)

lemma reporting_ok:
  assumes "verifyCommitReportingSigns cl vals chain bid h c budget b = Ret (Inr (q, signs), b')"
  obtains pk where "ThresholdPublicKey vals = Some pk" "fst (qsd_verify cl q pk signs budget b) = Inr ()"
proof -
  obtain d where d: "commitSignData cl vals chain bid h c = Ret d"
    using assms by (auto simp: verifyCommitReportingSigns_def exec_bind_Ret_iff)
  then obtain q' where q': "d = Inr q'" using assms by (cases d) (auto simp: verifyCommitReportingSigns_def)
  obtain s where s: "NewQuorumSignsFromCommit c = Ret s"
    using assms d q' by (auto simp: verifyCommitReportingSigns_def exec_bind_Ret_iff)
  obtain pk where pk: "ThresholdPublicKey vals = Some pk"
    using assms d q' s by (cases "ThresholdPublicKey vals") (auto simp: verifyCommitReportingSigns_def)
  have "q = q' \<and> signs = s \<and> fst (qsd_verify cl q' pk s budget b) = Inr ()"
    using assms d q' s pk
    by (cases "fst (qsd_verify cl q' pk s budget b)")
      (auto simp: verifyCommitReportingSigns_def Let_def split_beta split: if_splits)
  then show ?thesis using that [OF pk] by simp
qed

lemma commit_evidence:
  assumes "VerifyCommitSignatures cl (Some vals) chain bid h (Some c) budget b = Ret (Inr p, b')"
  obtains pk where "ThresholdPublicKey vals = Some pk" "cp_thresholdKeyBytes p = pk" "cp_signHashes p \<noteq> []"
    "list_all2 (VerifySignatureDigest cl pk) (cp_signHashes p) (cp_signatures p)"
proof -
  obtain q signs where r: "verifyCommitReportingSigns cl vals chain bid h c budget b = Ret (Inr (q, signs), b')"
    and p: "cp_thresholdKeyBytes p = the (ThresholdPublicKey vals)" "cp_signHashes p = fst (signedContent q signs)"
      "cp_signatures p = snd (signedContent q signs)"
    using assms by (auto simp: VerifyCommitSignatures_def exec_bind_Ret_iff res_bind_Inr_iff)
  obtain pk where pk: "ThresholdPublicKey vals = Some pk" and v: "fst (qsd_verify cl q pk signs budget b) = Inr ()"
    by (rule reporting_ok [OF r])
  have "list_all2 (VerifySignatureDigest cl pk) (cp_signHashes p) (cp_signatures p)"
    using qsd_verify_budget [OF v] unfolding qsd_verify_iff p(2,3) .
  then show ?thesis using that [OF pk] p by (simp add: pk signedContent_def)
qed

section \<open>Properties\<close>

definition ex_lib32 :: crypto_lib where
  "ex_lib32 = ex_lib\<lparr>BuildSignHash := (\<lambda>_ q _ _. take 32 (q @ replicate 32 0))\<rparr>"

fun add_all32 :: "Vote list \<Rightarrow> VoteSet \<Rightarrow> VoteSet exec" where
  "add_all32 [] vs = Ret vs"
| "add_all32 (v # votes) vs =
     exec_bind (addVote ex_lib32 ex_recover (Check None) (0 :: nat) (Some v) vs) (\<lambda>(vs, _). add_all32 votes vs)"

definition ex_precommits :: "VoteSet exec" where
  "ex_precommits = exec_bind (NewVoteSet ''c'' 5 0 PrecommitType ex_vals)
     (add_all32 [ex_vote PrecommitType (ex_bid 7) 0, ex_vote PrecommitType (ex_bid 7) 1])"

lemma ex_lib32_ok: "crypto_ok ex_lib32" "canonical_lib ex_lib32"
  by (auto simp: crypto_ok_def canonical_lib_def ex_lib32_def ex_lib_def min_def)

lemma ex_precommits_run:
  "\<exists>vs c. ex_precommits = Ret vs \<and> vset_reach ex_lib32 ex_recover vs \<and> signedMsgType vs = PrecommitType
     \<and> 2 \<le> nvals vs \<and> TwoThirdsMajority (Some vs) = (ex_bid 7, True) \<and> vset_height vs = 5 \<and> MakeCommit vs = Ret c"
proof -
  have "after ex_precommits (\<lambda>vs. (signedMsgType vs, 2 \<le> nvals vs, TwoThirdsMajority (Some vs), vset_height vs,
      MakeCommit vs = Panic)) = Some (PrecommitType, True, (ex_bid 7, True), 5, False)"
    by code_simp
  then obtain vs where vs: "ex_precommits = Ret vs" "signedMsgType vs = PrecommitType" "2 \<le> nvals vs"
    "TwoThirdsMajority (Some vs) = (ex_bid 7, True)" "vset_height vs = 5" "MakeCommit vs \<noteq> Panic"
    by (auto dest!: afterD)
  have valid: "valid_vote (Some (ex_vote PrecommitType (ex_bid 7) 0))" "valid_vote (Some (ex_vote PrecommitType (ex_bid 7) 1))"
    by code_simp+
  have m: "minted ex_lib32 (Check None)" by (simp add: minted_def)
  obtain v0 v1 r0 r1 where run: "NewVoteSet ''c'' 5 0 PrecommitType ex_vals = Ret v0"
    "addVote ex_lib32 ex_recover (Check None) (0 :: nat) (Some (ex_vote PrecommitType (ex_bid 7) 0)) v0 = Ret (v1, r0)"
    "addVote ex_lib32 ex_recover (Check None) (0 :: nat) (Some (ex_vote PrecommitType (ex_bid 7) 1)) v1 = Ret (vs, r1)"
    using vs(1) by (auto simp: ex_precommits_def exec_bind_Ret_iff)
  have "vset_step ex_lib32 ex_recover v0 v1" using vset_step.add [OF m valid(1)] run(2) by (cases r0) auto
  moreover have "vset_step ex_lib32 ex_recover v1 vs" using vset_step.add [OF m valid(2)] run(3) by (cases r1) auto
  ultimately have "vset_reach ex_lib32 ex_recover vs"
    using vset_reach.new [OF ex_vals_ok run(1)] vset_reach.step by blast
  then show ?thesis using vs by (cases "MakeCommit vs") auto
qed

text \<open>
  C6: A commit made from a reachable vote set of precommits of at least two validators passes
  \<open>VerifyCommit\<close> against the same validator set, for the block, chain and height of the vote set:
  every node that trusts the quorum's threshold key accepts it, whichever of the vote extensions with
  the same signed content were used to recover the signatures.
\<close>

theorem MakeCommit_VerifyCommit:
  assumes "crypto_ok cl" "canonical_lib cl" "vset_reach cl recover vs" "signedMsgType vs = PrecommitType"
    "2 \<le> nvals vs" "TwoThirdsMajority (Some vs) = (b, True)"
  shows "\<exists>c. MakeCommit vs = Ret c \<and> VerifyCommit cl (valSet vs) (vset_chainID vs) b (vset_height vs) c = Ret (Inr ())"
proof -
  have b: "maj23 vs = Some b" using assms(6) by (auto simp: TwoThirdsMajority_def split: option.splits)
  note inv = vset_reach_inv [OF assms(1,3)]
  show ?thesis
    using MakeCommit_eq [OF inv assms(4) b] commit_verifies [OF assms(1,2) inv assms(4) b assms(5)] by blast
qed

theorem MakeCommit_VerifyCommit_witness:
  "\<exists>vs c. ex_precommits = Ret vs \<and> MakeCommit vs = Ret c
     \<and> VerifyCommit ex_lib32 (valSet vs) (vset_chainID vs) (ex_bid 7) 5 c = Ret (Inr ())"
proof -
  obtain vs where vs: "ex_precommits = Ret vs" "vset_reach ex_lib32 ex_recover vs" "signedMsgType vs = PrecommitType"
    "2 \<le> nvals vs" "TwoThirdsMajority (Some vs) = (ex_bid 7, True)" "vset_height vs = 5"
    using ex_precommits_run by blast
  show ?thesis using MakeCommit_VerifyCommit [OF ex_lib32_ok vs(2-5)] vs(1,6) by auto
qed

text \<open>
  C7: Skipping a verification on evidence is sound: if evidence was produced by a verification, under
  any budget, and it makes \<open>VerifyCommitUnlessVerified\<close> skip for some commit, block, height and set,
  then \<open>VerifyCommit\<close> accepts that commit there; and whether it skips or not, it accepts exactly what
  \<open>VerifyCommit\<close> accepts.
\<close>

theorem VerifyCommitUnlessVerified_sound:
  assumes "VerifyCommitSignatures cl (Some vals0) chain0 bid0 h0 (Some c0) budget b = Ret (Inr p, b')"
    "VerifyCommitUnlessVerified cl vals chain bid h c (Some p) = Ret (skipped, r)"
  shows "(skipped \<longrightarrow> VerifyCommit cl vals chain bid h c = Ret (Inr ()))
    \<and> (r = Inr () \<longleftrightarrow> VerifyCommit cl vals chain bid h c = Ret (Inr ()))"
proof -
  obtain pk where pk: "cp_thresholdKeyBytes p = pk"
    "list_all2 (VerifySignatureDigest cl pk) (cp_signHashes p) (cp_signatures p)"
    by (rule commit_evidence [OF assms(1)])
  obtain ok where ok: "proof_checkMatches cl (Some p) chain (Some vals) bid h (Some c) = Ret ok"
    using assms(2) by (auto simp: VerifyCommitUnlessVerified_def exec_bind_Ret_iff)
  have sound: "VerifyCommit cl vals chain bid h c = Ret (Inr ())" if t: "ok"
  proof -
    have key: "ThresholdPublicKey vals = Some pk"
      using ok t pk(1) by (auto simp: proof_checkMatches_def split: if_splits)
    obtain d where d: "commitSignData cl vals chain bid h c = Ret d"
      using ok t by (auto simp: proof_checkMatches_def exec_bind_Ret_iff split: if_splits)
    then obtain q where q: "d = Inr q" using ok t by (cases d) (auto simp: proof_checkMatches_def split: if_splits)
    then obtain signs where s: "NewQuorumSignsFromCommit c = Ret signs"
      "cp_signHashes p = fst (signedContent q signs)" "cp_signatures p = snd (signedContent q signs)"
      using ok t d by (auto simp: proof_checkMatches_def exec_bind_Ret_iff split: if_splits)
    show ?thesis using verifyCommit_ok_iff [OF d [unfolded q] s(1) key] pk(2) s(2,3) by simp
  qed
  show ?thesis
    using assms(2) ok sound
    by (cases ok) (auto simp: VerifyCommitUnlessVerified_def exec_bind_Ret_iff)
qed

theorem VerifyCommitUnlessVerified_sound_witness:
  "\<exists>vs c p. ex_precommits = Ret vs \<and> MakeCommit vs = Ret c
     \<and> VerifyCommitUnlessVerified ex_lib32 (valSet vs) (vset_chainID vs) (ex_bid 7) 5 c (Some p) = Ret (True, Inr ())
     \<and> VerifyCommit ex_lib32 (valSet vs) (vset_chainID vs) (ex_bid 7) 5 c = Ret (Inr ())"
proof -
  obtain vs c where vs: "ex_precommits = Ret vs" "MakeCommit vs = Ret c" using ex_precommits_run by blast
  have "after ex_precommits (\<lambda>vs. case MakeCommit vs of Panic \<Rightarrow> False | Ret c \<Rightarrow>
      (case VerifyCommitSignatures ex_lib32 (Some (valSet vs)) (vset_chainID vs) (ex_bid 7) 5 (Some c) (permits 9) 0 of
         Ret (Inr p, _) \<Rightarrow> VerifyCommitUnlessVerified ex_lib32 (valSet vs) (vset_chainID vs) (ex_bid 7) 5 c (Some p) = Ret (True, Inr ())
       | _ \<Rightarrow> False)) = Some True"
    by code_simp
  then obtain p n where r:
    "VerifyCommitSignatures ex_lib32 (Some (valSet vs)) (vset_chainID vs) (ex_bid 7) 5 (Some c) (permits 9) 0 = Ret (Inr p, n)"
    "VerifyCommitUnlessVerified ex_lib32 (valSet vs) (vset_chainID vs) (ex_bid 7) 5 c (Some p) = Ret (True, Inr ())"
    by (auto simp: after_def vs split: exec.splits sum.splits prod.splits)
  then show ?thesis using vs VerifyCommitUnlessVerified_sound [OF r] by blast
qed



end
