(* ===== verification/Height_Votes.thy ===== *)
theory Height_Votes
  imports Safe_Math Commits
begin

text \<open>
  \<open>src/internal/consensus/types/height_vote_set.go\<close>: the vote sets of all rounds of a height.
  A pointer to a vote set that the caller mutates is the entry of the round, which every operation
  writes back. The map from validators to catch-up rounds is keyed by the ProTxHash itself, of which
  the source takes the hexadecimal string. The field \<open>Commit\<close> of \<open>RoundVoteSet\<close> is never assigned
  and left out.

  Shown: every vote set that a height vote set hands out is a reachable vote set for that height,
  round and type, so the results on vote sets apply to it; adding a vote never panics; the rounds
  that peers can make a node track are bounded by two per validator; majorities are final; and
  \<open>POLInfo\<close> finds the last round with a majority.
\<close>

section \<open>Definitions\<close>

record RoundVoteSet =
  rvs_Prevotes :: "VoteSet option"
  rvs_Precommits :: "VoteSet option"

record HeightVoteSet =
  hvs_chainID :: string
  hvs_height :: int
  hvs_valSet :: ValidatorSet
  hvs_round :: int
  roundVoteSets :: "(int \<times> RoundVoteSet) list"
  peerCatchupRounds :: "(bytes \<times> int list) list"

datatype hvs_error =
    ErrGotVoteFromUnwantedRound | ErrHvsVote vote_error | ErrHvsVoteType | ErrHvsPeer peer_error

definition hvs_addRound :: "int \<Rightarrow> HeightVoteSet \<Rightarrow> HeightVoteSet exec" where
  "hvs_addRound round hvs =
     (if map_of (roundVoteSets hvs) round \<noteq> None then Panic
      else if HasPublicKeys (hvs_valSet hvs) then
        exec_bind (NewVoteSet (hvs_chainID hvs) (hvs_height hvs) round PrevoteType (hvs_valSet hvs)) (\<lambda>prevotes.
        exec_bind (NewVoteSet (hvs_chainID hvs) (hvs_height hvs) round PrecommitType (hvs_valSet hvs)) (\<lambda>precommits.
          Ret (hvs\<lparr>roundVoteSets := AList.update round
                     \<lparr>rvs_Prevotes = Some prevotes, rvs_Precommits = Some precommits\<rparr> (roundVoteSets hvs)\<rparr>)))
      else Ret (hvs\<lparr>roundVoteSets := AList.update round
                     \<lparr>rvs_Prevotes = None, rvs_Precommits = None\<rparr> (roundVoteSets hvs)\<rparr>))"

definition hvs_Reset :: "int \<Rightarrow> ValidatorSet \<Rightarrow> HeightVoteSet \<Rightarrow> HeightVoteSet exec" where
  "hvs_Reset height vals hvs =
     exec_bind (hvs_addRound 0 (hvs\<lparr>hvs_height := height, hvs_valSet := vals, roundVoteSets := [],
                                   peerCatchupRounds := []\<rparr>)) (\<lambda>hvs.
       Ret (hvs\<lparr>hvs_round := 0\<rparr>))"

definition NewHeightVoteSet :: "string \<Rightarrow> int \<Rightarrow> ValidatorSet \<Rightarrow> HeightVoteSet exec" where
  "NewHeightVoteSet chainID height vals =
     hvs_Reset height vals
       \<lparr>hvs_chainID = chainID, hvs_height = 0, hvs_valSet = vals, hvs_round = 0, roundVoteSets = [],
        peerCatchupRounds = []\<rparr>"

text \<open>The loop over rounds counts in \<open>int32\<close>, so it has no end for the largest round.\<close>

partial_function (option) set_round_loop :: "int \<Rightarrow> int \<Rightarrow> HeightVoteSet \<Rightarrow> HeightVoteSet exec option" where
  "set_round_loop r round hvs =
     (if r \<le> round then
        (if map_of (roundVoteSets hvs) r \<noteq> None then set_round_loop (wrap32 (r + 1)) round hvs
         else case hvs_addRound r hvs of
                Panic \<Rightarrow> Some Panic
              | Ret hvs \<Rightarrow> set_round_loop (wrap32 (r + 1)) round hvs)
      else Some (Ret hvs))"

declare set_round_loop.simps [code]

definition hvs_SetRound :: "int \<Rightarrow> HeightVoteSet \<Rightarrow> HeightVoteSet exec option" where
  "hvs_SetRound round hvs =
     (case SafeSubInt32 (hvs_round hvs) 1 of
        Inl _ \<Rightarrow> Some Panic
      | Inr newRound \<Rightarrow>
          if hvs_round hvs \<noteq> 0 \<and> round < newRound then Some Panic
          else map_option (\<lambda>x. exec_bind x (\<lambda>hvs. Ret (hvs\<lparr>hvs_round := round\<rparr>)))
                 (set_round_loop newRound round hvs))"

definition getVoteSet :: "HeightVoteSet \<Rightarrow> int \<Rightarrow> SignedMsgType \<Rightarrow> VoteSet option exec" where
  "getVoteSet hvs round voteType =
     (case map_of (roundVoteSets hvs) round of
        None \<Rightarrow> Ret None
      | Some rvs \<Rightarrow>
          (case voteType of
             PrevoteType \<Rightarrow> Ret (rvs_Prevotes rvs)
           | PrecommitType \<Rightarrow> Ret (rvs_Precommits rvs)
           | _ \<Rightarrow> Panic))"

definition hvs_Prevotes :: "HeightVoteSet \<Rightarrow> int \<Rightarrow> VoteSet option" where
  "hvs_Prevotes hvs round = (case map_of (roundVoteSets hvs) round of None \<Rightarrow> None | Some rvs \<Rightarrow> rvs_Prevotes rvs)"

definition hvs_Precommits :: "HeightVoteSet \<Rightarrow> int \<Rightarrow> VoteSet option" where
  "hvs_Precommits hvs round = (case map_of (roundVoteSets hvs) round of None \<Rightarrow> None | Some rvs \<Rightarrow> rvs_Precommits rvs)"

text \<open>What a mutation of the vote set of a round and type does to the map.\<close>

definition putVoteSet :: "int \<Rightarrow> SignedMsgType \<Rightarrow> VoteSet \<Rightarrow> HeightVoteSet \<Rightarrow> HeightVoteSet" where
  "putVoteSet round voteType vs hvs =
     (case map_of (roundVoteSets hvs) round of
        None \<Rightarrow> hvs
      | Some rvs \<Rightarrow>
          hvs\<lparr>roundVoteSets := AList.update round
                (if voteType = PrevoteType then rvs\<lparr>rvs_Prevotes := Some vs\<rparr> else rvs\<lparr>rvs_Precommits := Some vs\<rparr>)
                (roundVoteSets hvs)\<rparr>)"

definition checkVoteClaim :: "Vote \<Rightarrow> HeightVoteSet \<Rightarrow> hvs_error + unit" where
  "checkVoteClaim vote hvs =
     (if ValidatorIndex vote < 0 then Inl (ErrHvsVote ErrVoteInvalidValidatorIndex)
      else if length (ValidatorProTxHash vote) = 0 then Inl (ErrHvsVote ErrVoteInvalidValidatorProTxHash)
      else if vote_Height vote \<noteq> hvs_height hvs then Inl (ErrHvsVote ErrVoteUnexpectedStep)
      else case GetByIndex (Some (hvs_valSet hvs)) (ValidatorIndex vote) of
             None \<Rightarrow> Inl (ErrHvsVote ErrVoteInvalidValidatorIndex)
           | Some val \<Rightarrow>
               if ValidatorProTxHash vote \<noteq> ProTxHash val
               then Inl (ErrHvsVote ErrVoteInvalidValidatorProTxHash)
               else Inr ())"

definition catchup_rounds :: "HeightVoteSet \<Rightarrow> bytes \<Rightarrow> int list" where
  "catchup_rounds hvs p = (case map_of (peerCatchupRounds hvs) p of None \<Rightarrow> [] | Some rs \<Rightarrow> rs)"

text \<open>\<open>AddVote\<close>, \<open>AddVoteWithVerificationBudget\<close> and \<open>AddVerifiedVote\<close> differ in \<open>how\<close>.\<close>

definition hvs_addVote ::
  "crypto_lib \<Rightarrow> bls_recover \<Rightarrow> 'b sig_check \<Rightarrow> 'b \<Rightarrow> Vote \<Rightarrow> HeightVoteSet
   \<Rightarrow> (HeightVoteSet \<times> bool \<times> hvs_error option \<times> 'b) exec" where
  "hvs_addVote cl recover how b vote hvs =
     (if \<not> HasPublicKeys (hvs_valSet hvs) then Ret (hvs, False, None, b)
      else if \<not> IsVoteTypeValid (vote_Type vote) then Ret (hvs, False, None, b)
      else
        let round = vote_Round vote;
            t = vote_Type vote;
            add = (\<lambda>vs hvs.
              exec_bind (addVote cl recover how b (Some vote) vs) (\<lambda>(vs', added, err, b).
                Ret (putVoteSet round t vs' hvs, added, map_option ErrHvsVote err, b)))
        in exec_bind (getVoteSet hvs round t) (\<lambda>voteSet.
          case voteSet of
            Some vs \<Rightarrow> add vs hvs
          | None \<Rightarrow>
              (case checkVoteClaim vote hvs of
                 Inl e \<Rightarrow> Ret (hvs, False, Some e, b)
               | Inr _ \<Rightarrow>
                   let proTxHash = ValidatorProTxHash vote
                   in if length (catchup_rounds hvs proTxHash) \<ge> 2
                      then Ret (hvs, False, Some ErrGotVoteFromUnwantedRound, b)
                      else exec_bind (hvs_addRound round hvs) (\<lambda>hvs.
                        exec_bind (getVoteSet hvs round t) (\<lambda>voteSet.
                          case voteSet of
                            None \<Rightarrow> Panic
                          | Some vs \<Rightarrow>
                              exec_bind (add vs hvs) (\<lambda>(hvs, added, err, b).
                                Ret (if added
                                     then hvs\<lparr>peerCatchupRounds := AList.update proTxHash
                                                (catchup_rounds hvs proTxHash @ [round]) (peerCatchupRounds hvs)\<rparr>
                                     else hvs\<lparr>roundVoteSets := AList.delete round (roundVoteSets hvs)\<rparr>,
                                     added, err, b)))))))"

fun pol_loop :: "HeightVoteSet \<Rightarrow> nat \<Rightarrow> int \<times> BlockID" where
  "pol_loop hvs 0 = (- 1, empty_bid)"
| "pol_loop hvs (Suc n) =
     (let (polBlockID, ok) = TwoThirdsMajority (hvs_Prevotes hvs (int n))
      in if ok then (int n, polBlockID) else pol_loop hvs n)"

definition POLInfo :: "HeightVoteSet \<Rightarrow> int \<times> BlockID" where
  "POLInfo hvs = pol_loop hvs (nat (hvs_round hvs + 1))"

definition hvs_SetPeerMaj23 ::
  "int \<Rightarrow> int \<Rightarrow> SignedMsgType \<Rightarrow> string \<Rightarrow> BlockID \<Rightarrow> HeightVoteSet \<Rightarrow> (HeightVoteSet \<times> hvs_error option) exec" where
  "hvs_SetPeerMaj23 height round voteType peerID blockID hvs =
     (if \<not> IsVoteTypeValid voteType then Ret (hvs, Some ErrHvsVoteType)
      else exec_bind (getVoteSet hvs round voteType) (\<lambda>voteSet.
        Ret (case voteSet of
               None \<Rightarrow> (hvs, None)
             | Some vs \<Rightarrow>
                 let (vs', e) = SetPeerMaj23 peerID blockID height round vs
                 in (putVoteSet round voteType vs' hvs, map_option ErrHvsPeer e))))"

section \<open>Invariant\<close>

definition set_for :: "crypto_lib \<Rightarrow> bls_recover \<Rightarrow> HeightVoteSet \<Rightarrow> int \<Rightarrow> SignedMsgType \<Rightarrow> VoteSet \<Rightarrow> bool" where
  "set_for cl recover h r t vs \<longleftrightarrow> vset_reach cl recover vs \<and> vset_chainID vs = hvs_chainID h
     \<and> vset_height vs = hvs_height h \<and> vset_round vs = r \<and> signedMsgType vs = t \<and> valSet vs = hvs_valSet h"

definition round_ok :: "crypto_lib \<Rightarrow> bls_recover \<Rightarrow> HeightVoteSet \<Rightarrow> int \<Rightarrow> RoundVoteSet \<Rightarrow> bool" where
  "round_ok cl recover h r rvs \<longleftrightarrow>
     (\<exists>p c. rvs = \<lparr>rvs_Prevotes = Some p, rvs_Precommits = Some c\<rparr>
        \<and> set_for cl recover h r PrevoteType p \<and> set_for cl recover h r PrecommitType c)"

definition sets_ok :: "crypto_lib \<Rightarrow> bls_recover \<Rightarrow> HeightVoteSet \<Rightarrow> bool" where
  "sets_ok cl recover h \<longleftrightarrow> quorum_set (hvs_valSet h) \<and> hvs_height h \<noteq> 0
     \<and> distinct (map fst (roundVoteSets h))
     \<and> (\<forall>r rvs. map_of (roundVoteSets h) r = Some rvs \<longrightarrow> round_ok cl recover h r rvs)"

definition catchup_ok :: "HeightVoteSet \<Rightarrow> bool" where
  "catchup_ok h \<longleftrightarrow> distinct (map fst (peerCatchupRounds h))
     \<and> (\<forall>p rs. map_of (peerCatchupRounds h) p = Some rs \<longrightarrow>
          length rs \<le> 2 \<and> p \<in> ProTxHash ` set (vs_Validators (hvs_valSet h)))"

definition tracked_ok :: "HeightVoteSet \<Rightarrow> bool" where
  "tracked_ok h \<longleftrightarrow> 0 \<le> hvs_round h \<and> hvs_round h < MaxInt32
     \<and> (\<forall>r. map_of (roundVoteSets h) r \<noteq> None \<longrightarrow>
          (- 1 \<le> r \<and> r \<le> hvs_round h) \<or> (\<exists>p. r \<in> set (catchup_rounds h p)))"

definition hvs_inv :: "crypto_lib \<Rightarrow> bls_recover \<Rightarrow> HeightVoteSet \<Rightarrow> bool" where
  "hvs_inv cl recover h \<longleftrightarrow> sets_ok cl recover h \<and> catchup_ok h \<and> tracked_ok h"

definition same_height :: "HeightVoteSet \<Rightarrow> HeightVoteSet \<Rightarrow> bool" where
  "same_height h h' \<longleftrightarrow> hvs_chainID h' = hvs_chainID h \<and> hvs_height h' = hvs_height h \<and> hvs_valSet h' = hvs_valSet h"

definition hvs_maj :: "HeightVoteSet \<Rightarrow> int \<Rightarrow> SignedMsgType \<Rightarrow> BlockID option" where
  "hvs_maj h r t = Option.bind (if t = PrevoteType then hvs_Prevotes h r else hvs_Precommits h r) maj23"

definition hvs_post :: "crypto_lib \<Rightarrow> bls_recover \<Rightarrow> HeightVoteSet \<Rightarrow> HeightVoteSet \<Rightarrow> bool" where
  "hvs_post cl recover h h' \<longleftrightarrow> hvs_inv cl recover h' \<and> same_height h h'
     \<and> (\<forall>r t b. hvs_maj h r t = Some b \<longrightarrow> hvs_maj h' r t = Some b)"

lemma round_ok_fields [simp]:
  "round_ok cl recover (roundVoteSets_update f h) = round_ok cl recover h"
  "round_ok cl recover (peerCatchupRounds_update g h) = round_ok cl recover h"
  "round_ok cl recover (hvs_round_update k h) = round_ok cl recover h"
  by (simp_all add: round_ok_def set_for_def fun_eq_iff)

lemma same_height_simps [simp]:
  "same_height h h" "same_height h (roundVoteSets_update f h)" "same_height h (peerCatchupRounds_update g h)"
  "same_height h (hvs_round_update k h)"
  by (simp_all add: same_height_def)

lemma catchup_rounds_simps [simp]:
  "catchup_rounds (roundVoteSets_update f h) = catchup_rounds h" "catchup_rounds (hvs_round_update k h) = catchup_rounds h"
  by (simp_all add: catchup_rounds_def fun_eq_iff)

lemma new_set_for:
  assumes "quorum_set (hvs_valSet h)" "hvs_height h \<noteq> 0"
  shows "\<exists>vs. NewVoteSet (hvs_chainID h) (hvs_height h) r t (hvs_valSet h) = Ret vs \<and> set_for cl recover h r t vs \<and> maj23 vs = None"
proof -
  have "HasPublicKeys (hvs_valSet h)" using assms(1) by (simp add: quorum_set_def)
  then obtain vs where vs: "NewVoteSet (hvs_chainID h) (hvs_height h) r t (hvs_valSet h) = Ret vs"
    using assms(2) by (simp add: NewVoteSet_def)
  then show ?thesis
    using vset_reach.new [OF assms(1) vs] assms(2) by (auto simp: NewVoteSet_def set_for_def split: if_splits)
qed

lemma addRound_ok:
  assumes "sets_ok cl recover h" "map_of (roundVoteSets h) r = None"
  shows "\<exists>p c. hvs_addRound r h = Ret (h\<lparr>roundVoteSets := AList.update r \<lparr>rvs_Prevotes = Some p, rvs_Precommits = Some c\<rparr>
      (roundVoteSets h)\<rparr>) \<and> set_for cl recover h r PrevoteType p \<and> set_for cl recover h r PrecommitType c
      \<and> maj23 p = None \<and> maj23 c = None"
proof -
  have q: "quorum_set (hvs_valSet h)" "hvs_height h \<noteq> 0" "HasPublicKeys (hvs_valSet h)"
    using assms(1) by (simp_all add: sets_ok_def quorum_set_def)
  obtain p where p: "NewVoteSet (hvs_chainID h) (hvs_height h) r PrevoteType (hvs_valSet h) = Ret p"
    "set_for cl recover h r PrevoteType p" "maj23 p = None" using new_set_for [OF q(1,2)] by blast
  obtain c where c: "NewVoteSet (hvs_chainID h) (hvs_height h) r PrecommitType (hvs_valSet h) = Ret c"
    "set_for cl recover h r PrecommitType c" "maj23 c = None" using new_set_for [OF q(1,2)] by blast
  show ?thesis using assms(2) q(3) p c by (auto simp: hvs_addRound_def)
qed

lemma sets_ok_update:
  assumes "sets_ok cl recover h" "round_ok cl recover h r rvs"
  shows "sets_ok cl recover (h\<lparr>roundVoteSets := AList.update r rvs (roundVoteSets h)\<rparr>)"
  using assms by (auto simp: sets_ok_def distinct_update update_conv')

lemma sets_ok_delete:
  "sets_ok cl recover h \<Longrightarrow> sets_ok cl recover (h\<lparr>roundVoteSets := AList.delete r (roundVoteSets h)\<rparr>)"
  by (auto simp: sets_ok_def distinct_delete map_of_delete delete_conv' split: if_splits)

lemma sets_ok_fields [simp]:
  "sets_ok cl recover (peerCatchupRounds_update g h) = sets_ok cl recover h"
  "sets_ok cl recover (hvs_round_update k h) = sets_ok cl recover h"
  by (simp_all add: sets_ok_def)

lemma vset_reach_same:
  assumes "crypto_ok cl" "set_for cl recover h r t vs" "vset_step cl recover vs vs'"
  shows "set_for cl recover h r t vs'" "maj23 vs = Some b \<Longrightarrow> maj23 vs' = Some b"
proof -
  have "add_post cl vs vs'"
    using vset_step_post [OF assms(1) _ assms(3)] vset_reach_inv [OF assms(1)] assms(2) by (auto simp: set_for_def)
  then show "set_for cl recover h r t vs'" "maj23 vs = Some b \<Longrightarrow> maj23 vs' = Some b"
    using assms(2) vset_reach.step [OF _ assms(3)] by (auto simp: set_for_def add_post_def same_step_def)
qed

lemma put_ok:
  assumes "sets_ok cl recover h" "map_of (roundVoteSets h) r = Some rvs" "set_for cl recover h r t vs'" "IsVoteTypeValid t"
  shows "\<exists>rvs'. putVoteSet r t vs' h = h\<lparr>roundVoteSets := AList.update r rvs' (roundVoteSets h)\<rparr>
     \<and> round_ok cl recover h r rvs' \<and> (t = PrevoteType \<longrightarrow> rvs' = rvs\<lparr>rvs_Prevotes := Some vs'\<rparr>)
     \<and> (t = PrecommitType \<longrightarrow> rvs' = rvs\<lparr>rvs_Precommits := Some vs'\<rparr>)"
proof -
  have "round_ok cl recover h r rvs" using assms(1,2) by (auto simp: sets_ok_def)
  then show ?thesis using assms(2-4) by (auto simp: putVoteSet_def round_ok_def IsVoteTypeValid_def)
qed

lemma getVoteSet_some:
  assumes "sets_ok cl recover h" "map_of (roundVoteSets h) r = Some rvs" "IsVoteTypeValid t"
  shows "\<exists>vs. getVoteSet h r t = Ret (Some vs) \<and> set_for cl recover h r t vs
     \<and> (t = PrevoteType \<longrightarrow> rvs_Prevotes rvs = Some vs) \<and> (t = PrecommitType \<longrightarrow> rvs_Precommits rvs = Some vs)"
proof -
  have "round_ok cl recover h r rvs" using assms(1,2) by (auto simp: sets_ok_def)
  then show ?thesis using assms(2,3) by (auto simp: getVoteSet_def round_ok_def IsVoteTypeValid_def)
qed

text \<open>A step of one vote set, written back, is a step of the whole.\<close>

lemma put_sets:
  assumes "crypto_ok cl" "sets_ok cl recover h" "getVoteSet h r t = Ret (Some vs)" "IsVoteTypeValid t"
    "vset_step cl recover vs vs'"
  shows "\<exists>rvs rvs'. map_of (roundVoteSets h) r = Some rvs
     \<and> putVoteSet r t vs' h = h\<lparr>roundVoteSets := AList.update r rvs' (roundVoteSets h)\<rparr>
     \<and> sets_ok cl recover (putVoteSet r t vs' h)
     \<and> (\<forall>r' t' b. hvs_maj h r' t' = Some b \<longrightarrow> hvs_maj (putVoteSet r t vs' h) r' t' = Some b)"
proof -
  obtain rvs where rvs: "map_of (roundVoteSets h) r = Some rvs"
    using assms(3) by (auto simp: getVoteSet_def split: option.splits)
  have vs: "set_for cl recover h r t vs" "t = PrevoteType \<Longrightarrow> rvs_Prevotes rvs = Some vs"
    "t = PrecommitType \<Longrightarrow> rvs_Precommits rvs = Some vs"
    using getVoteSet_some [OF assms(2) rvs assms(4)] assms(3) by auto
  note vs' = vset_reach_same [OF assms(1) vs(1) assms(5)]
  obtain rvs' where p: "putVoteSet r t vs' h = h\<lparr>roundVoteSets := AList.update r rvs' (roundVoteSets h)\<rparr>"
    "round_ok cl recover h r rvs'" "t = PrevoteType \<longrightarrow> rvs' = rvs\<lparr>rvs_Prevotes := Some vs'\<rparr>"
    "t = PrecommitType \<longrightarrow> rvs' = rvs\<lparr>rvs_Precommits := Some vs'\<rparr>"
    using put_ok [OF assms(2) rvs vs'(1) assms(4)] by blast
  have so: "sets_ok cl recover (putVoteSet r t vs' h)" using sets_ok_update [OF assms(2) p(2)] p(1) by simp
  have "hvs_maj (putVoteSet r t vs' h) r' t' = Some b" if m: "hvs_maj h r' t' = Some b" for r' t' b
  proof (cases "t = PrevoteType")
    case True
    then show ?thesis using m rvs p(1,3) vs(2) vs'(2)
      by (auto simp: hvs_maj_def hvs_Prevotes_def hvs_Precommits_def update_conv' split: if_splits)
  next
    case False
    then have "t = PrecommitType" using assms(4) by (simp add: IsVoteTypeValid_def)
    then show ?thesis using m rvs p(1,4) vs(3) vs'(2)
      by (auto simp: hvs_maj_def hvs_Prevotes_def hvs_Precommits_def update_conv' split: if_splits)
  qed
  then show ?thesis using so rvs p(1) by blast
qed

lemma put_post:
  assumes "crypto_ok cl" "hvs_inv cl recover h" "getVoteSet h r t = Ret (Some vs)" "IsVoteTypeValid t"
    "vset_step cl recover vs vs'"
  shows "hvs_post cl recover h (putVoteSet r t vs' h)"
proof -
  have so: "sets_ok cl recover h" and co: "catchup_ok h" and tr: "tracked_ok h" using assms(2) by (auto simp: hvs_inv_def)
  obtain rvs rvs' where p: "map_of (roundVoteSets h) r = Some rvs"
    "putVoteSet r t vs' h = h\<lparr>roundVoteSets := AList.update r rvs' (roundVoteSets h)\<rparr>"
    "sets_ok cl recover (putVoteSet r t vs' h)"
    "\<forall>r' t' b. hvs_maj h r' t' = Some b \<longrightarrow> hvs_maj (putVoteSet r t vs' h) r' t' = Some b"
    using put_sets [OF assms(1) so assms(3-5)] by blast
  have "catchup_ok (putVoteSet r t vs' h)" using co p(2) by (simp add: catchup_ok_def)
  moreover have "tracked_ok (putVoteSet r t vs' h)" using tr p(1,2) by (auto simp: tracked_ok_def update_conv')
  ultimately show ?thesis using p by (simp add: hvs_post_def hvs_inv_def)
qed

lemma hvs_maj_new:
  "map_of (roundVoteSets h) r = None \<Longrightarrow> hvs_maj h r' t = Some b
     \<Longrightarrow> hvs_maj (h\<lparr>roundVoteSets := AList.update r rvs (roundVoteSets h)\<rparr>) r' t = Some b"
  by (auto simp: hvs_maj_def hvs_Prevotes_def hvs_Precommits_def update_conv' split: if_splits)

lemma hvs_maj_fields [simp]:
  "hvs_maj (peerCatchupRounds_update g h) = hvs_maj h" "hvs_maj (hvs_round_update k h) = hvs_maj h"
  by (simp_all add: hvs_maj_def hvs_Prevotes_def hvs_Precommits_def fun_eq_iff)

lemma hvs_maj_delete:
  "map_of (roundVoteSets h) r = None
     \<Longrightarrow> hvs_maj (h\<lparr>roundVoteSets := AList.delete r (AList.update r rvs (roundVoteSets h))\<rparr>) = hvs_maj h"
  by (simp add: hvs_maj_def hvs_Prevotes_def hvs_Precommits_def fun_eq_iff delete_conv' update_conv')

lemma catchup_admitted:
  assumes "catchup_ok h" "p \<in> ProTxHash ` set (vs_Validators (hvs_valSet h))" "length (catchup_rounds h p) < 2"
  shows "catchup_ok (h\<lparr>peerCatchupRounds := AList.update p (catchup_rounds h p @ [r]) (peerCatchupRounds h)\<rparr>)"
  using assms by (auto simp: catchup_ok_def distinct_update update_conv' split: if_splits)

lemma catchup_rounds_update:
  "catchup_rounds (h\<lparr>peerCatchupRounds := AList.update p rs (peerCatchupRounds h)\<rparr>) p'
     = (if p' = p then rs else catchup_rounds h p')"
  by (simp add: catchup_rounds_def update_conv')

lemma claim_member:
  "checkVoteClaim vote h = Inr () \<Longrightarrow> ValidatorProTxHash vote \<in> ProTxHash ` set (vs_Validators (hvs_valSet h))"
  by (auto simp: checkVoteClaim_def GetByIndex_def nth_mem split: if_splits option.splits)

lemma addVote_step:
  assumes "crypto_ok cl" "set_for cl recover h r t vs" "minted cl (how :: nat sig_check)" "Vote_ValidateBasic vote"
  shows "\<exists>vs' added err b'. addVote cl recover how b (Some vote) vs = Ret (vs', added, err, b') \<and> vset_step cl recover vs vs'"
proof -
  have v: "valid_vote (Some vote)" using assms(4) by (simp add: valid_vote_def)
  have "vset_inv cl vs" using vset_reach_inv [OF assms(1)] assms(2) by (auto simp: set_for_def)
  then obtain vs' added err b' where "addVote cl recover how b (Some vote) vs = Ret (vs', added, err, b')"
    using addVote_ok [OF assms(1) _ assms(3) v] by blast
  then show ?thesis using vset_step.add [OF assms(3) v] by blast
qed

lemma hvs_addVote_known:
  assumes "crypto_ok cl" "hvs_inv cl recover h" "minted cl (how :: nat sig_check)" "Vote_ValidateBasic vote"
    "map_of (roundVoteSets h) (vote_Round vote) = Some rvs"
  shows "\<exists>h' added err b'. hvs_addVote cl recover how b vote h = Ret (h', added, err, b') \<and> hvs_post cl recover h h'"
proof -
  have so: "sets_ok cl recover h" using assms(2) by (simp add: hvs_inv_def)
  have k: "HasPublicKeys (hvs_valSet h)" using so by (simp add: sets_ok_def quorum_set_def)
  have t: "IsVoteTypeValid (vote_Type vote)" using assms(4) by (simp add: Vote_ValidateBasic_def)
  obtain vs where vs: "getVoteSet h (vote_Round vote) (vote_Type vote) = Ret (Some vs)"
    "set_for cl recover h (vote_Round vote) (vote_Type vote) vs"
    using getVoteSet_some [OF so assms(5) t] by blast
  obtain vs' added err b' where a: "addVote cl recover how b (Some vote) vs = Ret (vs', added, err, b')"
    "vset_step cl recover vs vs'" using addVote_step [OF assms(1) vs(2) assms(3,4)] by blast
  show ?thesis using put_post [OF assms(1,2) vs(1) t a(2)] k t vs(1) a(1) by (simp add: hvs_addVote_def Let_def)
qed

text \<open>A provisional round is kept with the validator that caused it, or forgotten.\<close>

lemma admit_post:
  assumes "hvs_inv cl recover h" "map_of (roundVoteSets h) r = None" "length (catchup_rounds h p) < 2"
    "p \<in> ProTxHash ` set (vs_Validators (hvs_valSet h))"
    "h2 = h\<lparr>roundVoteSets := AList.update r rvs (roundVoteSets h)\<rparr>" "sets_ok cl recover h2"
  shows "hvs_post cl recover h
    (h2\<lparr>peerCatchupRounds := AList.update p (catchup_rounds h2 p @ [r]) (peerCatchupRounds h2)\<rparr>)"
    (is "hvs_post cl recover h ?h3")
proof -
  have co: "catchup_ok h2" "hvs_valSet h2 = hvs_valSet h" "catchup_rounds h2 = catchup_rounds h" and tr: "tracked_ok h"
    using assms(1,5) by (simp_all add: hvs_inv_def catchup_ok_def)
  have rounds: "catchup_rounds ?h3 p' = (if p' = p then catchup_rounds h p @ [r] else catchup_rounds h p')" for p'
    using co(3) by (simp add: catchup_rounds_update)
  have "(- 1 \<le> r' \<and> r' \<le> hvs_round h) \<or> (\<exists>p. r' \<in> set (catchup_rounds ?h3 p))"
    if known: "r' \<noteq> r \<longrightarrow> map_of (roundVoteSets h) r' \<noteq> None" for r'
  proof (cases "r' = r \<or> (\<exists>p. r' \<in> set (catchup_rounds h p))")
    case True
    then obtain p' where "r' = r \<and> p' = p \<or> r' \<in> set (catchup_rounds h p')" by blast
    then have "r' \<in> set (catchup_rounds ?h3 p')" unfolding rounds by auto
    then show ?thesis by blast
  next
    case False
    then show ?thesis using tr known unfolding tracked_ok_def by blast
  qed
  moreover have "hvs_round ?h3 = hvs_round h"
    "map_of (roundVoteSets ?h3) r' = ((map_of (roundVoteSets h))(r \<mapsto> rvs)) r'" for r'
    by (simp_all add: assms(5) update_conv')
  ultimately have "tracked_ok ?h3" using tr unfolding tracked_ok_def by simp
  moreover have "catchup_ok ?h3"
    by (rule catchup_admitted [OF co(1)]) (use assms(3,4) co(2,3) in simp_all)
  moreover have "hvs_maj ?h3 r' t' = Some b'" if "hvs_maj h r' t' = Some b'" for r' t' b'
    using hvs_maj_new [OF assms(2) that] by (simp add: assms(5))
  ultimately show ?thesis using assms(5,6) by (simp add: hvs_post_def hvs_inv_def same_height_def)
qed

lemma forget_post:
  assumes "hvs_inv cl recover h" "map_of (roundVoteSets h) r = None"
    "h2 = h\<lparr>roundVoteSets := AList.update r rvs (roundVoteSets h)\<rparr>" "sets_ok cl recover h2"
  shows "hvs_post cl recover h (h2\<lparr>roundVoteSets := AList.delete r (roundVoteSets h2)\<rparr>)"
    (is "hvs_post cl recover h ?h3")
proof -
  have "catchup_ok ?h3" using assms(1,3) by (simp add: hvs_inv_def catchup_ok_def)
  moreover have "tracked_ok ?h3"
    using assms(1,2) unfolding tracked_ok_def hvs_inv_def assms(3) by (auto simp: update_conv' delete_conv' split: if_splits)
  moreover have "sets_ok cl recover ?h3" by (rule sets_ok_delete [OF assms(4)])
  ultimately show ?thesis using hvs_maj_delete [OF assms(2)]
    by (simp add: hvs_post_def hvs_inv_def assms(3) same_height_def)
qed

lemma hvs_addVote_new:
  assumes "crypto_ok cl" "hvs_inv cl recover h" "minted cl (how :: nat sig_check)" "Vote_ValidateBasic vote"
    "map_of (roundVoteSets h) (vote_Round vote) = None"
  shows "\<exists>h' added err b'. hvs_addVote cl recover how b vote h = Ret (h', added, err, b') \<and> hvs_post cl recover h h'"
proof -
  let ?r = "vote_Round vote" and ?t = "vote_Type vote" and ?p = "ValidatorProTxHash vote"
  have so: "sets_ok cl recover h" using assms(2) by (simp add: hvs_inv_def)
  have k: "HasPublicKeys (hvs_valSet h)" using so by (simp add: sets_ok_def quorum_set_def)
  have t: "IsVoteTypeValid ?t" using assms(4) by (simp add: Vote_ValidateBasic_def)
  have n: "getVoteSet h ?r ?t = Ret None" using assms(5) by (simp add: getVoteSet_def)
  have stay: "hvs_post cl recover h h" using assms(2) by (simp add: hvs_post_def)
  show ?thesis
  proof (cases "checkVoteClaim vote h = Inr () \<and> length (catchup_rounds h ?p) < 2")
    case False
    then show ?thesis using stay k t n
      by (cases "checkVoteClaim vote h") (auto simp: hvs_addVote_def Let_def not_less)
  next
    case True
    obtain rvs where a: "hvs_addRound ?r h = Ret (h\<lparr>roundVoteSets := AList.update ?r rvs (roundVoteSets h)\<rparr>)"
      "round_ok cl recover h ?r rvs" using addRound_ok [OF so assms(5)] by (auto simp: round_ok_def)
    define h1 where "h1 = h\<lparr>roundVoteSets := AList.update ?r rvs (roundVoteSets h)\<rparr>"
    have so1: "sets_ok cl recover h1" and m1: "map_of (roundVoteSets h1) ?r = Some rvs"
      using sets_ok_update [OF so a(2)] by (simp_all add: h1_def update_conv')
    obtain vs where vs: "getVoteSet h1 ?r ?t = Ret (Some vs)" "set_for cl recover h1 ?r ?t vs"
      using getVoteSet_some [OF so1 m1 t] by blast
    obtain vs' added err b' where v: "addVote cl recover how b (Some vote) vs = Ret (vs', added, err, b')"
      "vset_step cl recover vs vs'" using addVote_step [OF assms(1) vs(2) assms(3,4)] by blast
    define h2 where "h2 = putVoteSet ?r ?t vs' h1"
    obtain rvs' where h2: "h2 = h\<lparr>roundVoteSets := AList.update ?r rvs' (roundVoteSets h)\<rparr>" and so2: "sets_ok cl recover h2"
      using put_sets [OF assms(1) so1 vs(1) t v(2)] by (auto simp: h2_def h1_def)
    have "hvs_addVote cl recover how b vote h =
      Ret (if added then h2\<lparr>peerCatchupRounds := AList.update ?p (catchup_rounds h2 ?p @ [?r]) (peerCatchupRounds h2)\<rparr>
           else h2\<lparr>roundVoteSets := AList.delete ?r (roundVoteSets h2)\<rparr>, added, map_option ErrHvsVote err, b')"
      using True k t n a(1) vs(1) v(1) by (simp add: hvs_addVote_def Let_def h1_def h2_def)
    then show ?thesis
      using admit_post [OF assms(2,5) _ claim_member h2 so2] forget_post [OF assms(2,5) h2 so2] True by (cases added) auto
  qed
qed

lemma hvs_addVote_ok:
  assumes "crypto_ok cl" "hvs_inv cl recover h" "minted cl (how :: nat sig_check)" "Vote_ValidateBasic vote"
  shows "\<exists>h' added err b'. hvs_addVote cl recover how b vote h = Ret (h', added, err, b') \<and> hvs_post cl recover h h'"
  using hvs_addVote_known [OF assms] hvs_addVote_new [OF assms]
  by (cases "map_of (roundVoteSets h) (vote_Round vote)") blast+

lemma hvs_SetPeerMaj23_ok:
  assumes "crypto_ok cl" "hvs_inv cl recover h"
  shows "\<exists>h' e. hvs_SetPeerMaj23 height r t peerID bid h = Ret (h', e) \<and> hvs_post cl recover h h'"
proof (cases "IsVoteTypeValid t \<and> map_of (roundVoteSets h) r \<noteq> None")
  case False
  then show ?thesis using assms(2) by (auto simp: hvs_SetPeerMaj23_def getVoteSet_def hvs_post_def)
next
  case True
  then obtain rvs where rvs: "map_of (roundVoteSets h) r = Some rvs" by blast
  have so: "sets_ok cl recover h" using assms(2) by (simp add: hvs_inv_def)
  obtain vs where vs: "getVoteSet h r t = Ret (Some vs)" using getVoteSet_some [OF so rvs] True by blast
  obtain vs' e where e: "SetPeerMaj23 peerID bid height r vs = (vs', e)" by fastforce
  show ?thesis using put_post [OF assms vs _ vset_step.peer [OF e]] True vs e
    by (simp add: hvs_SetPeerMaj23_def)
qed

text \<open>The loop of \<open>SetRound\<close> ends for every round below the largest.\<close>

lemma set_round_loop_ok:
  assumes "sets_ok cl recover h" "MinInt32 \<le> r" "r \<le> round + 1" "round < MaxInt32"
  shows "\<exists>sets. set_round_loop r round h = Some (Ret (h\<lparr>roundVoteSets := sets\<rparr>))
    \<and> sets_ok cl recover (h\<lparr>roundVoteSets := sets\<rparr>)
    \<and> (\<forall>k. map_of sets k = None \<longleftrightarrow> map_of (roundVoteSets h) k = None \<and> \<not> (r \<le> k \<and> k \<le> round))
    \<and> (\<forall>k rvs. map_of (roundVoteSets h) k = Some rvs \<longrightarrow> map_of sets k = Some rvs)"
  using assms
proof (induction "nat (round + 1 - r)" arbitrary: r h)
  case 0
  then have "h = h\<lparr>roundVoteSets := roundVoteSets h\<rparr>" by simp
  then show ?case using 0 by (subst set_round_loop.simps) (auto intro!: exI [of _ "roundVoteSets h"])
next
  case (Suc n)
  have r: "r \<le> round" "wrap32 (r + 1) = r + 1" "n = nat (round + 1 - (r + 1))"
    using Suc(2) Suc.prems by (auto simp: in_int32_def)
  have bound: "MinInt32 \<le> r + 1" "r + 1 \<le> round + 1" using Suc.prems r(1) by auto
  show ?case
  proof (cases "map_of (roundVoteSets h) r")
    case (Some rvs)
    have step: "set_round_loop r round h = set_round_loop (r + 1) round h"
      using Some r by (subst set_round_loop.simps) simp
    obtain sets where s: "set_round_loop (r + 1) round h = Some (Ret (h\<lparr>roundVoteSets := sets\<rparr>))"
      "sets_ok cl recover (h\<lparr>roundVoteSets := sets\<rparr>)"
      "\<forall>k. map_of sets k = None \<longleftrightarrow> map_of (roundVoteSets h) k = None \<and> \<not> (r + 1 \<le> k \<and> k \<le> round)"
      "\<forall>k rvs. map_of (roundVoteSets h) k = Some rvs \<longrightarrow> map_of sets k = Some rvs"
      using Suc.hyps(1) [OF r(3) Suc.prems(1) bound Suc.prems(4)] by blast
    have "map_of sets k = None \<longleftrightarrow> map_of (roundVoteSets h) k = None \<and> \<not> (r \<le> k \<and> k \<le> round)" for k
      using spec [OF s(3), of k] Some by (cases "k = r") auto
    then show ?thesis using s step by auto
  next
    case None
    obtain rvs where a: "hvs_addRound r h = Ret (h\<lparr>roundVoteSets := AList.update r rvs (roundVoteSets h)\<rparr>)"
      "round_ok cl recover h r rvs" using addRound_ok [OF Suc.prems(1) None] by (auto simp: round_ok_def)
    let ?h1 = "h\<lparr>roundVoteSets := AList.update r rvs (roundVoteSets h)\<rparr>"
    have step: "set_round_loop r round h = set_round_loop (r + 1) round ?h1"
      using None r a(1) by (subst set_round_loop.simps) simp
    obtain sets where s: "set_round_loop (r + 1) round ?h1 = Some (Ret (?h1\<lparr>roundVoteSets := sets\<rparr>))"
      "sets_ok cl recover (?h1\<lparr>roundVoteSets := sets\<rparr>)"
      "\<forall>k. map_of sets k = None \<longleftrightarrow> map_of (roundVoteSets ?h1) k = None \<and> \<not> (r + 1 \<le> k \<and> k \<le> round)"
      "\<forall>k rvs. map_of (roundVoteSets ?h1) k = Some rvs \<longrightarrow> map_of sets k = Some rvs"
      using Suc.hyps(1) [OF r(3) sets_ok_update [OF Suc.prems(1) a(2)] bound Suc.prems(4)] by blast
    have "map_of sets k = None \<longleftrightarrow> map_of (roundVoteSets h) k = None \<and> \<not> (r \<le> k \<and> k \<le> round)" for k
      using spec [OF s(3), of k] None r(1) by (cases "k = r") (auto simp: update_conv')
    moreover have "map_of sets k = Some rvs'" if "map_of (roundVoteSets h) k = Some rvs'" for k rvs'
      using s(4) None that by (cases "k = r") (auto simp: update_conv')
    ultimately show ?thesis using s(1,2) step by auto
  qed
qed

lemma hvs_SetRound_ok:
  assumes "hvs_inv cl recover h" "hvs_round h \<le> round" "round < MaxInt32"
  shows "\<exists>h'. hvs_SetRound round h = Some (Ret h') \<and> hvs_post cl recover h h' \<and> hvs_round h' = round"
proof -
  have so: "sets_ok cl recover h" and co: "catchup_ok h" and tr: "tracked_ok h" using assms(1) by (auto simp: hvs_inv_def)
  have sub: "SafeSubInt32 (hvs_round h) 1 = Inr (hvs_round h - 1)"
    using tr by (simp add: tracked_ok_def SafeSubInt32_spec in_int32_def)
  have first: "MinInt32 \<le> hvs_round h - 1" "hvs_round h - 1 \<le> round + 1" "- 1 \<le> hvs_round h - 1"
    using tr assms(2) by (simp_all add: tracked_ok_def)
  obtain sets where s: "set_round_loop (hvs_round h - 1) round h = Some (Ret (h\<lparr>roundVoteSets := sets\<rparr>))"
    "sets_ok cl recover (h\<lparr>roundVoteSets := sets\<rparr>)"
    "\<forall>k. map_of sets k = None \<longleftrightarrow> map_of (roundVoteSets h) k = None \<and> \<not> (hvs_round h - 1 \<le> k \<and> k \<le> round)"
    "\<forall>k rvs. map_of (roundVoteSets h) k = Some rvs \<longrightarrow> map_of sets k = Some rvs"
    using set_round_loop_ok [OF so first(1,2) assms(3)] by blast
  define h' where "h' = h\<lparr>roundVoteSets := sets, hvs_round := round\<rparr>"
  have "hvs_SetRound round h = Some (Ret h')"
    using sub s(1) assms(2) by (simp add: hvs_SetRound_def h'_def)
  moreover have "sets_ok cl recover h'" using s(2) by (simp add: h'_def)
  moreover have "catchup_ok h'" using co by (simp add: h'_def catchup_ok_def)
  moreover have "(- 1 \<le> r \<and> r \<le> round) \<or> (\<exists>p. r \<in> set (catchup_rounds h p))" if "map_of sets r \<noteq> None" for r
  proof (cases "map_of (roundVoteSets h) r = None")
    case True
    then have "hvs_round h - 1 \<le> r \<and> r \<le> round" using that spec [OF s(3), of r] by simp
    then show ?thesis using first(3) by linarith
  next
    case False
    then have "(- 1 \<le> r \<and> r \<le> hvs_round h) \<or> (\<exists>p. r \<in> set (catchup_rounds h p))"
      using tr by (simp add: tracked_ok_def)
    then show ?thesis using assms(2) by auto
  qed
  then have "tracked_ok h'" using tr assms(2,3) by (simp add: tracked_ok_def h'_def)
  moreover have "hvs_maj h' r t = Some b" if "hvs_maj h r t = Some b" for r t b
    using that spec [OF s(4), of r] by (auto simp: hvs_maj_def hvs_Prevotes_def hvs_Precommits_def h'_def split: option.splits if_splits)
  ultimately show ?thesis by (simp add: hvs_post_def hvs_inv_def same_height_def h'_def)
qed


section \<open>Reachable height vote sets\<close>

text \<open>
  A height vote set is made for a validator set with public keys, and then changed by votes that pass
  \<open>ValidateBasic\<close>, by peer claims, and by the round of the node, which never decreases.
\<close>

inductive hvs_step :: "crypto_lib \<Rightarrow> bls_recover \<Rightarrow> HeightVoteSet \<Rightarrow> HeightVoteSet \<Rightarrow> bool" for cl recover where
  vote: "minted cl (how :: nat sig_check) \<Longrightarrow> Vote_ValidateBasic v
         \<Longrightarrow> hvs_addVote cl recover how b v h = Ret (h', added, err, b') \<Longrightarrow> hvs_step cl recover h h'"
| peer: "hvs_SetPeerMaj23 height r t peerID bid h = Ret (h', e) \<Longrightarrow> hvs_step cl recover h h'"
| round: "hvs_round h \<le> r \<Longrightarrow> r < MaxInt32 \<Longrightarrow> hvs_SetRound r h = Some (Ret h') \<Longrightarrow> hvs_step cl recover h h'"

inductive hvs_reach :: "crypto_lib \<Rightarrow> bls_recover \<Rightarrow> HeightVoteSet \<Rightarrow> bool" for cl recover where
  new: "quorum_set vals \<Longrightarrow> NewHeightVoteSet chain height vals = Ret h \<Longrightarrow> hvs_reach cl recover h"
| step: "hvs_reach cl recover h \<Longrightarrow> hvs_step cl recover h h' \<Longrightarrow> hvs_reach cl recover h'"

lemma hvs_step_post:
  assumes "crypto_ok cl" "hvs_inv cl recover h" "hvs_step cl recover h h'"
  shows "hvs_post cl recover h h'"
  using assms(3)
proof (cases rule: hvs_step.cases)
  case (vote how v b added err b')
  then show ?thesis using hvs_addVote_ok [OF assms(1,2) vote(1,2), of b] by auto
next
  case (peer height r t peerID bid e)
  then show ?thesis using hvs_SetPeerMaj23_ok [OF assms(1,2), of height r t peerID bid] by auto
next
  case (round r)
  then show ?thesis using hvs_SetRound_ok [OF assms(2) round(1,2)] by auto
qed

lemma NewHeightVoteSet_ok:
  assumes "quorum_set vals" "NewHeightVoteSet chain height vals = Ret h"
  shows "hvs_inv cl recover h"
proof -
  define h0 where "h0 = \<lparr>hvs_chainID = chain, hvs_height = height, hvs_valSet = vals, hvs_round = 0,
    roundVoteSets = [], peerCatchupRounds = []\<rparr>"
  have res: "exec_bind (hvs_addRound 0 h0) (\<lambda>hvs. Ret (hvs\<lparr>hvs_round := 0\<rparr>)) = Ret h"
    using assms(2) by (simp add: NewHeightVoteSet_def hvs_Reset_def h0_def)
  have "height \<noteq> 0"
    using res assms(1) by (auto simp: hvs_addRound_def NewVoteSet_def h0_def quorum_set_def split: if_splits)
  then have so: "sets_ok cl recover h0" using assms(1) by (simp add: sets_ok_def h0_def)
  obtain rvs where a: "hvs_addRound 0 h0 = Ret (h0\<lparr>roundVoteSets := AList.update 0 rvs (roundVoteSets h0)\<rparr>)"
    "round_ok cl recover h0 0 rvs"
    using addRound_ok [OF so, of 0] by (auto simp: round_ok_def h0_def)
  have h: "h = h0\<lparr>roundVoteSets := AList.update 0 rvs (roundVoteSets h0), hvs_round := 0\<rparr>" using res a(1) by simp
  have "sets_ok cl recover h" using sets_ok_update [OF so a(2)] by (simp add: h)
  then show ?thesis by (simp add: hvs_inv_def h catchup_ok_def tracked_ok_def h0_def)
qed

lemma hvs_reach_inv:
  assumes "crypto_ok cl" "hvs_reach cl recover h"
  shows "hvs_inv cl recover h"
  using assms(2)
proof induction
  case (new vals chain height h)
  then show ?case by (rule NewHeightVoteSet_ok)
next
  case (step h h')
  then show ?case using hvs_step_post [OF assms(1)] by (auto simp: hvs_post_def)
qed

text \<open>The majority of each round and type is a tally of the whole height.\<close>

interpretation hvset: tally "\<lambda>h. crypto_ok cl \<and> hvs_inv cl recover h" "hvs_step cl recover" "\<lambda>h. hvs_maj h r t"
  by unfold_locales (use hvs_step_post in \<open>auto simp: hvs_post_def\<close>)

lemma getVoteSet_cases:
  assumes "sets_ok cl recover h" "IsVoteTypeValid t"
  shows "\<exists>v. getVoteSet h r t = Ret v \<and> (\<forall>vs. v = Some vs \<longrightarrow> set_for cl recover h r t vs)
    \<and> hvs_maj h r t = Option.bind v maj23"
proof (cases "map_of (roundVoteSets h) r")
  case None
  then show ?thesis by (auto simp: getVoteSet_def hvs_maj_def hvs_Prevotes_def hvs_Precommits_def)
next
  case (Some rvs)
  obtain vs where vs: "getVoteSet h r t = Ret (Some vs)" "set_for cl recover h r t vs"
    "t = PrevoteType \<longrightarrow> rvs_Prevotes rvs = Some vs" "t = PrecommitType \<longrightarrow> rvs_Precommits rvs = Some vs"
    using getVoteSet_some [OF assms(1) Some assms(2)] by blast
  then show ?thesis using Some assms(2)
    by (cases "t = PrevoteType") (auto simp: hvs_maj_def hvs_Prevotes_def hvs_Precommits_def IsVoteTypeValid_def)
qed

lemma tracked_rounds:
  assumes "hvs_inv cl recover h"
  shows "int (length (roundVoteSets h)) \<le> hvs_round h + 2 + 2 * int (length (vs_Validators (hvs_valSet h)))"
proof -
  have so: "sets_ok cl recover h" and co: "catchup_ok h" and tr: "tracked_ok h" using assms by (auto simp: hvs_inv_def)
  let ?K = "dom (map_of (roundVoteSets h))" and ?P = "dom (map_of (peerCatchupRounds h))"
  have "?K \<subseteq> {- 1..hvs_round h} \<union> (\<Union>p \<in> ?P. set (catchup_rounds h p))"
  proof
    fix r assume "r \<in> ?K"
    then have "(- 1 \<le> r \<and> r \<le> hvs_round h) \<or> (\<exists>p. r \<in> set (catchup_rounds h p))"
      using tr by (simp add: tracked_ok_def domIff)
    moreover have "p \<in> ?P" if "r \<in> set (catchup_rounds h p)" for p
      using that by (cases "map_of (peerCatchupRounds h) p") (auto simp: catchup_rounds_def)
    ultimately show "r \<in> {- 1..hvs_round h} \<union> (\<Union>p \<in> ?P. set (catchup_rounds h p))" by auto
  qed
  then have "card ?K \<le> card ({- 1..hvs_round h} \<union> (\<Union>p \<in> ?P. set (catchup_rounds h p)))"
    by (intro card_mono) (auto simp: finite_dom_map_of)
  also have "\<dots> \<le> card {- 1..hvs_round h} + card (\<Union>p \<in> ?P. set (catchup_rounds h p))" by (rule card_Un_le)
  also have "card (\<Union>p \<in> ?P. set (catchup_rounds h p)) \<le> (\<Sum>p \<in> ?P. card (set (catchup_rounds h p)))"
    by (rule card_UN_le) (simp add: finite_dom_map_of)
  also have "\<dots> \<le> of_nat (card ?P) * 2"
  proof (rule sum_bounded_above)
    fix p assume "p \<in> ?P"
    then obtain rs where "map_of (peerCatchupRounds h) p = Some rs" by blast
    then show "card (set (catchup_rounds h p)) \<le> 2"
      using co card_length [of rs] by (fastforce simp: catchup_ok_def catchup_rounds_def)
  qed
  also have "card ?P \<le> length (vs_Validators (hvs_valSet h))"
  proof -
    have "?P \<subseteq> ProTxHash ` set (vs_Validators (hvs_valSet h))" using co by (auto simp: catchup_ok_def)
    then have "card ?P \<le> card (ProTxHash ` set (vs_Validators (hvs_valSet h)))" by (intro card_mono) auto
    also have "\<dots> \<le> length (vs_Validators (hvs_valSet h))" using card_image_le card_length le_trans by blast
    finally show ?thesis .
  qed
  finally have "card ?K \<le> card {- 1..hvs_round h} + length (vs_Validators (hvs_valSet h)) * 2" by simp
  moreover have "card ?K = length (roundVoteSets h)"
    using so distinct_card [of "map fst (roundVoteSets h)"] by (simp add: sets_ok_def dom_map_of_conv_image_fst)
  moreover have "0 \<le> hvs_round h" using tr by (simp add: tracked_ok_def)
  ultimately show ?thesis by simp
qed

lemma pol_loop_spec:
  "(\<exists>r b. pol_loop h n = (int r, b) \<and> r < n \<and> hvs_maj h (int r) PrevoteType = Some b
      \<and> (\<forall>k. r < k \<and> k < n \<longrightarrow> hvs_maj h (int k) PrevoteType = None))
   \<or> pol_loop h n = (- 1, empty_bid) \<and> (\<forall>k < n. hvs_maj h (int k) PrevoteType = None)"
proof (induction n)
  case (Suc n)
  show ?case
  proof (cases "hvs_maj h (int n) PrevoteType")
    case None
    then have "pol_loop h (Suc n) = pol_loop h n"
      by (cases "hvs_Prevotes h (int n)") (simp_all add: hvs_maj_def TwoThirdsMajority_def)
    then show ?thesis using Suc.IH None less_Suc_eq by (metis (no_types, lifting))
  next
    case (Some b)
    then have "pol_loop h (Suc n) = (int n, b)"
      by (auto simp: hvs_maj_def TwoThirdsMajority_def bind_eq_Some_conv split: option.splits)
    then show ?thesis using Some by auto
  qed
qed simp

section \<open>Examples\<close>

definition ex_heights :: "HeightVoteSet exec option" where
  "ex_heights = (case NewHeightVoteSet ''c'' 5 ex_vals of
     Panic \<Rightarrow> None
   | Ret h \<Rightarrow> hvs_SetRound 1 h)"

fun hvs_add_all :: "Vote list \<Rightarrow> HeightVoteSet \<Rightarrow> HeightVoteSet exec" where
  "hvs_add_all [] h = Ret h"
| "hvs_add_all (v # votes) h =
     exec_bind (hvs_addVote ex_lib ex_recover (Check None) (0 :: nat) v h) (\<lambda>(h, _). hvs_add_all votes h)"

lemma hvs_add_all_reach:
  "hvs_reach ex_lib ex_recover h \<Longrightarrow> list_all Vote_ValidateBasic votes \<Longrightarrow> hvs_add_all votes h = Ret h'
     \<Longrightarrow> hvs_reach ex_lib ex_recover h'"
proof (induction votes arbitrary: h)
  case (Cons v votes)
  have m: "minted ex_lib (Check None :: nat sig_check)" by (simp add: minted_def)
  obtain h1 a e b where "hvs_addVote ex_lib ex_recover (Check None) (0 :: nat) v h = Ret (h1, a, e, b)"
    "hvs_add_all votes h1 = Ret h'" using Cons.prems(3) by (auto simp: exec_bind_Ret_iff)
  then show ?case
    using Cons.IH [OF hvs_reach.step [OF Cons.prems(1) hvs_step.vote [OF m]]] Cons.prems(2) by auto
qed simp

lemma ex_heights_run:
  "\<exists>h. ex_heights = Some (Ret h) \<and> hvs_reach ex_lib ex_recover h \<and> map fst (roundVoteSets h) = [0, - 1, 1]"
proof -
  have "map_option (\<lambda>x. exec_bind x (\<lambda>h. Ret (map fst (roundVoteSets h)))) ex_heights = Some (Ret [0, - 1, 1])"
    by code_simp
  then obtain h where h: "ex_heights = Some (Ret h)" "map fst (roundVoteSets h) = [0, - 1, 1]"
    by (auto simp: exec_bind_Ret_iff)
  obtain h0 where h0: "NewHeightVoteSet ''c'' 5 ex_vals = Ret h0" "hvs_SetRound 1 h0 = Some (Ret h)"
    using h(1) by (auto simp: ex_heights_def split: exec.splits)
  have "hvs_round h0 = 0"
    using h0(1) by (auto simp: NewHeightVoteSet_def hvs_Reset_def exec_bind_Ret_iff)
  then have "hvs_step ex_lib ex_recover h0 h" using hvs_step.round [OF _ _ h0(2)] by simp
  then have "hvs_reach ex_lib ex_recover h" by (rule hvs_reach.step [OF hvs_reach.new [OF ex_vals_ok h0(1)]])
  then show ?thesis using h by (intro exI [of _ h] conjI)
qed

section \<open>Properties\<close>

text \<open>
  C10: Adding a vote that passes \<open>ValidateBasic\<close> to a reachable height vote set never panics, and every
  vote set it then hands out for a round and type is a reachable vote set for exactly that chain,
  height, round, type and validator set: what is shown of vote sets holds of each of them.
\<close>

theorem height_votes_sound:
  assumes "crypto_ok cl" "hvs_reach cl recover h" "minted cl (how :: nat sig_check)" "Vote_ValidateBasic v"
  shows "\<exists>h' added err b'. hvs_addVote cl recover how b v h = Ret (h', added, err, b')
    \<and> (\<forall>r t. IsVoteTypeValid t \<longrightarrow> (\<exists>w. getVoteSet h' r t = Ret w \<and> (\<forall>vs. w = Some vs \<longrightarrow>
          vset_reach cl recover vs \<and> vset_chainID vs = hvs_chainID h \<and> vset_height vs = hvs_height h
          \<and> vset_round vs = r \<and> signedMsgType vs = t \<and> valSet vs = hvs_valSet h)))"
proof -
  obtain h' added err b' where a: "hvs_addVote cl recover how b v h = Ret (h', added, err, b')" "hvs_post cl recover h h'"
    using hvs_addVote_ok [OF assms(1) hvs_reach_inv [OF assms(1,2)] assms(3,4)] by blast
  then show ?thesis using getVoteSet_cases [of cl recover h']
    by (fastforce simp: hvs_post_def hvs_inv_def set_for_def same_height_def)
qed

theorem height_votes_sound_witness:
  "\<exists>h h' added err b'. ex_heights = Some (Ret h)
     \<and> hvs_addVote ex_lib ex_recover (Check None) (0 :: nat) ((ex_vote PrevoteType (ex_bid 7) 0)\<lparr>vote_Round := 9\<rparr>) h
         = Ret (h', added, err, b')
     \<and> (\<forall>vs. getVoteSet h' 9 PrevoteType = Ret (Some vs) \<longrightarrow> vset_reach ex_lib ex_recover vs)"
proof -
  obtain h where h: "ex_heights = Some (Ret h)" "hvs_reach ex_lib ex_recover h" using ex_heights_run by blast
  have m: "minted ex_lib (Check None :: nat sig_check)" by (simp add: minted_def)
  have v: "Vote_ValidateBasic ((ex_vote PrevoteType (ex_bid 7) 0)\<lparr>vote_Round := 9\<rparr>)" by code_simp
  have t: "IsVoteTypeValid PrevoteType" by (simp add: IsVoteTypeValid_def)
  obtain h' added err b' where
    "hvs_addVote ex_lib ex_recover (Check None) (0 :: nat) ((ex_vote PrevoteType (ex_bid 7) 0)\<lparr>vote_Round := 9\<rparr>) h
       = Ret (h', added, err, b')"
    "\<exists>w. getVoteSet h' 9 PrevoteType = Ret w \<and> (\<forall>vs. w = Some vs \<longrightarrow> vset_reach ex_lib ex_recover vs)"
    using height_votes_sound [OF ex_lib_ok h(2) m v, of 0] t by blast
  then show ?thesis using h(1) by auto
qed

text \<open>
  C11: Peers cannot make a node track more than two rounds per validator beyond its own: the number of
  rounds held is at most the rounds up to the node's own, the extra round \<open>-1\<close> that the first
  \<open>SetRound\<close> creates, and twice the size of the validator set.
\<close>

theorem height_votes_bounded:
  assumes "crypto_ok cl" "hvs_reach cl recover h"
  shows "int (length (roundVoteSets h)) \<le> hvs_round h + 2 + 2 * int (length (vs_Validators (hvs_valSet h)))"
  by (rule tracked_rounds [OF hvs_reach_inv [OF assms]])

theorem height_votes_bounded_witness:
  "\<exists>h. ex_heights = Some (Ret h) \<and> map fst (roundVoteSets h) = [0, - 1, 1]
     \<and> int (length (roundVoteSets h)) \<le> hvs_round h + 2 + 2 * int (length (vs_Validators (hvs_valSet h)))"
proof -
  obtain h where h: "ex_heights = Some (Ret h)" "hvs_reach ex_lib ex_recover h" "map fst (roundVoteSets h) = [0, - 1, 1]"
    using ex_heights_run by (elim exE conjE) (rule that)
  show ?thesis using height_votes_bounded [OF ex_lib_ok h(2)] h(1,3) by (intro exI [of _ h] conjI)
qed

text \<open>
  C12: \<open>POLInfo\<close> of a height vote set gives the last round up to the node's own whose prevotes have a
  majority, with its block, or \<open>-1\<close> when there is none; and a majority found once for a round stays
  for as long as the height lasts.
\<close>

theorem POLInfo_last_majority:
  assumes "crypto_ok cl" "hvs_reach cl recover h" "(hvs_step cl recover)\<^sup>*\<^sup>* h h'" "POLInfo h = (r, b)"
  shows "if r = - 1 then \<forall>k. 0 \<le> k \<and> k \<le> hvs_round h \<longrightarrow> hvs_maj h k PrevoteType = None
    else 0 \<le> r \<and> r \<le> hvs_round h \<and> hvs_maj h r PrevoteType = Some b \<and> hvs_maj h' r PrevoteType = Some b
      \<and> (\<forall>k. r < k \<and> k \<le> hvs_round h \<longrightarrow> hvs_maj h k PrevoteType = None)"
proof -
  have inv: "crypto_ok cl \<and> hvs_inv cl recover h" using hvs_reach_inv [OF assms(1,2)] assms(1) by blast
  consider (some) k where "r = int k" "k < nat (hvs_round h + 1)" "hvs_maj h (int k) PrevoteType = Some b"
      "\<forall>j. k < j \<and> j < nat (hvs_round h + 1) \<longrightarrow> hvs_maj h (int j) PrevoteType = None"
    | (none) "r = - 1" "\<forall>j < nat (hvs_round h + 1). hvs_maj h (int j) PrevoteType = None"
    using pol_loop_spec [of h "nat (hvs_round h + 1)"] assms(4) by (auto simp: POLInfo_def)
  then show ?thesis
  proof cases
    case some
    have "hvs_maj h' r PrevoteType = Some b" using hvset.maj_steps [OF assms(3) inv] some(1,3) by simp
    moreover have "hvs_maj h j PrevoteType = None" if "r < j \<and> j \<le> hvs_round h" for j
      using some(4) [rule_format, of "nat j"] some(1) that by (auto simp: zless_nat_eq_int_zless)
    ultimately show ?thesis using some by auto
  next
    case none
    have "hvs_maj h j PrevoteType = None" if "0 \<le> j \<and> j \<le> hvs_round h" for j
      using none(2) [rule_format, of "nat j"] that by simp
    then show ?thesis using none(1) by simp
  qed
qed

theorem POLInfo_last_majority_witness:
  "\<exists>h h'. ex_heights = Some (Ret h) \<and> hvs_add_all (map (ex_vote PrevoteType (ex_bid 7)) [0, 1, 2]) h = Ret h'
     \<and> POLInfo h' = (0, ex_bid 7) \<and> hvs_maj h' 0 PrevoteType = Some (ex_bid 7)"
proof -
  obtain h where h: "ex_heights = Some (Ret h)" "hvs_reach ex_lib ex_recover h" using ex_heights_run by blast
  have "map_option (\<lambda>x. exec_bind x (\<lambda>h. exec_bind (hvs_add_all (map (ex_vote PrevoteType (ex_bid 7)) [0, 1, 2]) h)
      (\<lambda>h'. Ret (POLInfo h')))) ex_heights = Some (Ret (0, ex_bid 7))"
    by code_simp
  then obtain h' where h': "hvs_add_all (map (ex_vote PrevoteType (ex_bid 7)) [0, 1, 2]) h = Ret h'"
    "POLInfo h' = (0, ex_bid 7)" by (auto simp: h(1) exec_bind_Ret_iff)
  have "list_all Vote_ValidateBasic (map (ex_vote PrevoteType (ex_bid 7)) [0, 1, 2])" by code_simp
  then have "hvs_reach ex_lib ex_recover h'" using hvs_add_all_reach [OF h(2)] h'(1) by blast
  then have "hvs_maj h' 0 PrevoteType = Some (ex_bid 7)"
    using POLInfo_last_majority [OF ex_lib_ok _ rtranclp.rtrancl_refl h'(2)] by simp
  then show ?thesis using h(1) h' by blast
qed

end
