(* ===== verification/Proposals.thy ===== *)
theory Proposals
  imports Safe_Math Votes
begin

text \<open>
  Proposals (\<open>src/types/proposal.go\<close>), chain locks (\<open>src/types/core_chainlock.go\<close>), the
  proposer-based timestamp check (\<open>src/types/validation.go\<close>) and the timeouts of
  \<open>src/types/params.go\<close>. Times and durations are nanoseconds; a duration wraps at 64 bits, a
  \<open>time.Time\<close> does not. The protobuf form of a proposal has the same fields as the Go struct, so one
  record stands for both.

  Shown: the timely window never overflows and only widens from round to round; what the protobuf
  conversion keeps of a proposal and what it drops.
\<close>

section \<open>Definitions\<close>

record CoreChainLock =
  CoreBlockHeight :: nat
  CoreBlockHash :: bytes
  ccl_Signature :: bytes

datatype proposal_error =
    ErrProposalType | ErrProposalHeight | ErrProposalCoreHeight | ErrProposalRound | ErrProposalPOLRound
  | ErrProposalBlockID | ErrProposalIncomplete | ErrProposalChainLock | ErrProposalNoSignature
  | ErrProposalSignatureSize | ErrProposalNil

definition ValidateSignatureSize :: "bytes \<Rightarrow> bool" where
  "ValidateSignatureSize h \<longleftrightarrow> \<not> (length h > 0 \<and> length h \<noteq> SignatureSize)"

definition ccl_ValidateBasic :: "CoreChainLock \<Rightarrow> bool" where
  "ccl_ValidateBasic cl \<longleftrightarrow> CoreBlockHeight cl \<noteq> 0 \<and> length (CoreBlockHash cl) \<noteq> 0 \<and> ValidateHash (CoreBlockHash cl)
     \<and> length (ccl_Signature cl) \<noteq> 0 \<and> ValidateSignatureSize (ccl_Signature cl)"

definition ccl_RequestID :: "crypto_lib \<Rightarrow> CoreChainLock \<Rightarrow> bytes" where
  "ccl_RequestID cl lock =
     Checksum cl ([0x05, 0x63, 0x6c, 0x73, 0x69, 0x67] @ le_bytes 4 (int (CoreBlockHeight lock)))"

definition ccl_IsZero :: "CoreChainLock option \<Rightarrow> bool" where
  "ccl_IsZero cl = (case cl of None \<Rightarrow> True
     | Some c \<Rightarrow> length (CoreBlockHash c) = 0 \<and> length (ccl_Signature c) = 0 \<and> CoreBlockHeight c = 0)"

definition CoreChainLockFromProto :: "CoreChainLock option \<Rightarrow> CoreChainLock option \<times> bool" where
  "CoreChainLockFromProto clp = (case clp of None \<Rightarrow> (None, True) | Some c \<Rightarrow> (Some c, ccl_ValidateBasic c))"

record Proposal =
  prop_Type :: SignedMsgType
  prop_Height :: int
  prop_Round :: int
  POLRound :: int
  prop_BlockID :: BlockID
  Timestamp :: int
  prop_Signature :: bytes
  CoreChainLockedHeight :: int
  CoreChainLockUpdate :: "CoreChainLock option"

text \<open>\<open>tmtime.Canonical\<close>: whole milliseconds.\<close>

definition Canonical :: "int \<Rightarrow> int" where
  "Canonical t = t - t mod 1000000"

definition NewProposal :: "int \<Rightarrow> int \<Rightarrow> int \<Rightarrow> int \<Rightarrow> BlockID \<Rightarrow> int \<Rightarrow> Proposal" where
  "NewProposal height coreChainLockedHeight round polRound blockID ts =
     \<lparr>prop_Type = ProposalType, prop_Height = height, prop_Round = round, POLRound = polRound,
      prop_BlockID = blockID, Timestamp = Canonical ts, prop_Signature = [],
      CoreChainLockedHeight = coreChainLockedHeight, CoreChainLockUpdate = None\<rparr>"

definition Proposal_ValidateBasic :: "Proposal \<Rightarrow> proposal_error + unit" where
  "Proposal_ValidateBasic p =
     (if prop_Type p \<noteq> ProposalType then Inl ErrProposalType
      else if prop_Height p < 0 then Inl ErrProposalHeight
      else if CoreChainLockedHeight p = MaxUint32 then Inl ErrProposalCoreHeight
      else if prop_Round p < 0 then Inl ErrProposalRound
      else if POLRound p < - 1 then Inl ErrProposalPOLRound
      else if \<not> BlockID_ValidateBasic (prop_BlockID p) then Inl ErrProposalBlockID
      else if \<not> BlockID_IsComplete (prop_BlockID p) then Inl ErrProposalIncomplete
      else if (case CoreChainLockUpdate p of None \<Rightarrow> False | Some c \<Rightarrow> \<not> ccl_ValidateBasic c)
      then Inl ErrProposalChainLock
      else if length (prop_Signature p) = 0 then Inl ErrProposalNoSignature
      else if length (prop_Signature p) > SignatureSize then Inl ErrProposalSignatureSize
      else Inr ())"

definition SetCoreChainLockUpdate :: "CoreChainLock option \<Rightarrow> Proposal \<Rightarrow> Proposal" where
  "SetCoreChainLockUpdate coreChainLock p = p\<lparr>CoreChainLockUpdate := coreChainLock\<rparr>"

text \<open>The bytes of \<open>dpproposal\<close>.\<close>

definition dpproposal :: bytes where
  "dpproposal = [100, 112, 112, 114, 111, 112, 111, 115, 97, 108]"

definition ProposalRequestID :: "crypto_lib \<Rightarrow> Proposal \<Rightarrow> bytes" where
  "ProposalRequestID cl p =
     Checksum cl (dpproposal @ le_bytes 8 (conv TUint64 (prop_Height p)) @ le_bytes 4 (conv TUint32 (prop_Round p)))"

text \<open>
  \<open>ProposalBlockSignBytes\<close> is the generated encoder on the canonical form, which has the type,
  height, round, POL round, block, timestamp and chain of the proposal.
\<close>

record CanonicalProposal =
  cp_Height :: int
  cp_Round :: int
  cp_POLRound :: int
  cp_BlockID :: BlockID
  cp_Timestamp :: int
  cp_ChainID :: string

definition CanonicalizeProposal :: "string \<Rightarrow> Proposal \<Rightarrow> CanonicalProposal" where
  "CanonicalizeProposal chainID p =
     \<lparr>cp_Height = prop_Height p, cp_Round = prop_Round p, cp_POLRound = POLRound p, cp_BlockID = prop_BlockID p,
      cp_Timestamp = Timestamp p, cp_ChainID = chainID\<rparr>"

type_synonym proposal_encoder = "CanonicalProposal \<Rightarrow> bytes"

definition ProposalBlockSignBytes :: "proposal_encoder \<Rightarrow> string \<Rightarrow> Proposal \<Rightarrow> bytes" where
  "ProposalBlockSignBytes enc chainID p = enc (CanonicalizeProposal chainID p)"

definition ProposalBlockSignID ::
  "crypto_lib \<Rightarrow> proposal_encoder \<Rightarrow> string \<Rightarrow> Proposal \<Rightarrow> LLMQType \<Rightarrow> bytes \<Rightarrow> bytes exec" where
  "ProposalBlockSignID cl enc chainID p quorumType quorumHash =
     exec_bind (NewSignItemFromHash cl quorumType quorumHash (ProposalRequestID cl p)
                  (Checksum cl (ProposalBlockSignBytes enc chainID p))) (\<lambda>item. Ret (SignHash item))"

definition Proposal_ToProto :: "Proposal option \<Rightarrow> Proposal" where
  "Proposal_ToProto p = (case p of
     None \<Rightarrow> \<lparr>prop_Type = UnknownType, prop_Height = 0, prop_Round = 0, POLRound = 0,
               prop_BlockID = \<lparr>bid_Hash = [], bid_PartSetHeader = \<lparr>Total = 0, psh_Hash = []\<rparr>, StateID = []\<rparr>,
               Timestamp = 0, prop_Signature = [], CoreChainLockedHeight = 0, CoreChainLockUpdate = None\<rparr>
   | Some p \<Rightarrow> p)"

definition ProposalFromProto :: "Proposal option \<Rightarrow> proposal_error + Proposal" where
  "ProposalFromProto pp =
     (case pp of
        None \<Rightarrow> Inl ErrProposalNil
      | Some pp \<Rightarrow>
          if \<not> BlockID_ValidateBasic (prop_BlockID pp) then Inl ErrProposalBlockID
          else let p = pp\<lparr>CoreChainLockUpdate := None\<rparr>
               in res_bind (Proposal_ValidateBasic p) (\<lambda>_. Inr p))"

subsection \<open>Timely proposals\<close>

record SynchronyParams =
  Precision :: int
  MessageDelay :: int

definition DefaultSynchronyParams :: SynchronyParams where
  "DefaultSynchronyParams = \<lparr>Precision = 505000000, MessageDelay = 12000000000\<rparr>"

definition SynchronyParamsOrDefaults :: "SynchronyParams \<Rightarrow> SynchronyParams" where
  "SynchronyParamsOrDefaults s =
     (let s = (if Precision s = 0 then s\<lparr>Precision := Precision DefaultSynchronyParams\<rparr> else s)
      in if MessageDelay s = 0 then s\<lparr>MessageDelay := MessageDelay DefaultSynchronyParams\<rparr> else s)"

text \<open>\<open>bits.LeadingZeros64\<close> is 64 less \<open>bit_len\<close>.\<close>

definition checkTimely :: "int \<Rightarrow> int \<Rightarrow> SynchronyParams \<Rightarrow> int \<Rightarrow> int exec" where
  "checkTimely timestamp recvTime sp round =
     (let maxShift = 64 - int (bit_len (nat (conv TUint64 (MessageDelay sp)))) - 1;
          nShift = go_quot round 10;
          nShift = (if nShift > maxShift then maxShift else nShift)
      in if nShift < 0 then Panic
         else let msgDelay = wrap64 (MessageDelay sp * wrap64 (2 ^ nat nShift));
                  lhs = timestamp + wrap64 (- Precision sp);
                  rhs = timestamp + msgDelay + Precision sp
              in Ret (if recvTime < lhs then - 1 else if recvTime > rhs then 1 else 0))"

definition CheckTimely :: "Proposal \<Rightarrow> int \<Rightarrow> SynchronyParams \<Rightarrow> int \<Rightarrow> int exec" where
  "CheckTimely p recvTime sp round = checkTimely (Timestamp p) recvTime sp round"

subsection \<open>Timeouts\<close>

record TimeoutParams =
  to_Propose :: int
  to_ProposeDelta :: int
  to_Vote :: int
  to_VoteDelta :: int

definition DefaultTimeoutParams :: TimeoutParams where
  "DefaultTimeoutParams = \<lparr>to_Propose = 3000000000, to_ProposeDelta = 500000000, to_Vote = 1000000000,
     to_VoteDelta = 500000000\<rparr>"

definition TimeoutParamsOrDefaults :: "TimeoutParams \<Rightarrow> TimeoutParams" where
  "TimeoutParamsOrDefaults t =
     (let d = DefaultTimeoutParams;
          t = (if to_Propose t = 0 then t\<lparr>to_Propose := to_Propose d\<rparr> else t);
          t = (if to_ProposeDelta t = 0 then t\<lparr>to_ProposeDelta := to_ProposeDelta d\<rparr> else t);
          t = (if to_Vote t = 0 then t\<lparr>to_Vote := to_Vote d\<rparr> else t)
      in if to_VoteDelta t = 0 then t\<lparr>to_VoteDelta := to_VoteDelta d\<rparr> else t)"

definition ProposeTimeout :: "TimeoutParams \<Rightarrow> int \<Rightarrow> int" where
  "ProposeTimeout t round = wrap64 (to_Propose t + wrap64 (to_ProposeDelta t * round))"

definition VoteTimeout :: "TimeoutParams \<Rightarrow> int \<Rightarrow> int" where
  "VoteTimeout t round = wrap64 (to_Vote t + wrap64 (to_VoteDelta t * round))"

section \<open>Lemmas\<close>

text \<open>The number of doublings of the message delay at a round, and the scaled delay.\<close>

definition doublings :: "SynchronyParams \<Rightarrow> int \<Rightarrow> nat" where
  "doublings sp round = min (nat (round div 10)) (63 - bit_len (nat (MessageDelay sp)))"

definition scaled_delay :: "SynchronyParams \<Rightarrow> int \<Rightarrow> int" where
  "scaled_delay sp round = MessageDelay sp * 2 ^ doublings sp round"

definition sound_params :: "SynchronyParams \<Rightarrow> bool" where
  "sound_params sp \<longleftrightarrow> 0 < MessageDelay sp \<and> MessageDelay sp \<le> MaxInt64 \<and> 0 \<le> Precision sp \<and> Precision sp \<le> MaxInt64"

lemma bit_len_63:
  assumes "0 < d" "d \<le> MaxInt64"
  shows "bit_len (nat d) \<le> 63"
proof (rule ccontr)
  assume "\<not> bit_len (nat d) \<le> 63"
  then have "(2 :: nat) ^ 63 \<le> 2 ^ (bit_len (nat d) - 1)" by (intro power_increasing) auto
  moreover have "(2 :: nat) ^ 63 = 9223372036854775808" by simp
  moreover have "nat d \<le> 9223372036854775807" using assms by simp
  moreover have "2 ^ (bit_len (nat d) - 1) \<le> nat d" using bit_len_bounds [of "nat d"] assms by auto
  ultimately show False by linarith
qed

lemma scaled_delay_bounds:
  assumes "sound_params sp"
  shows "0 < scaled_delay sp round" "scaled_delay sp round \<le> MaxInt64"
    "0 \<le> r \<Longrightarrow> r \<le> r' \<Longrightarrow> scaled_delay sp r \<le> scaled_delay sp r'"
proof -
  let ?d = "MessageDelay sp"
  have d: "0 < ?d" "?d \<le> MaxInt64" using assms by (auto simp: sound_params_def)
  show "0 < scaled_delay sp round" using d by (simp add: scaled_delay_def)
  have l: "bit_len (nat ?d) \<le> 63" by (rule bit_len_63 [OF d])
  have "nat ?d < 2 ^ bit_len (nat ?d)" using bit_len_bounds [of "nat ?d"] d by simp
  then have "?d < 2 ^ bit_len (nat ?d)" using d by (simp add: nat_less_iff)
  then have "?d * 2 ^ doublings sp round < 2 ^ bit_len (nat ?d) * 2 ^ doublings sp round" by simp
  also have "\<dots> = 2 ^ (bit_len (nat ?d) + doublings sp round)" by (simp add: power_add)
  also have "\<dots> \<le> (2 :: int) ^ 63" using l by (intro power_increasing) (auto simp: doublings_def)
  finally show "scaled_delay sp round \<le> MaxInt64" by (simp add: scaled_delay_def)
  assume "0 \<le> r" "r \<le> r'"
  then have "nat (r div 10) \<le> nat (r' div 10)" using zdiv_mono1 [of r r' 10] by simp
  then have "doublings sp r \<le> doublings sp r'" unfolding doublings_def by (rule min.mono) simp
  then show "scaled_delay sp r \<le> scaled_delay sp r'"
    using d by (auto simp: scaled_delay_def intro!: mult_left_mono power_increasing)
qed

lemma checkTimely_eq:
  assumes "sound_params sp" "0 \<le> round"
  shows "checkTimely ts recv sp round = Ret (if recv < ts - Precision sp then - 1
      else if recv > ts + scaled_delay sp round + Precision sp then 1 else 0)"
proof -
  have d: "0 < MessageDelay sp" "MessageDelay sp \<le> MaxInt64" "0 \<le> Precision sp" "Precision sp \<le> MaxInt64"
    using assms by (auto simp: sound_params_def)
  have u: "conv TUint64 (MessageDelay sp) = MessageDelay sp" using d by (simp add: conv_def)
  have l: "bit_len (nat (MessageDelay sp)) \<le> 63" by (rule bit_len_63 [OF d(1,2)])
  let ?n = "doublings sp round"
  have n: "(if go_quot round 10 > 64 - int (bit_len (nat (MessageDelay sp))) - 1
      then 64 - int (bit_len (nat (MessageDelay sp))) - 1 else go_quot round 10) = int ?n"
    using assms(2) l by (auto simp: doublings_def go_quot_pos)
  have "0 < bit_len (nat (MessageDelay sp))" using bit_len_bounds d(1) by simp
  then have "?n \<le> 62" by (auto simp: doublings_def)
  then have "(2 :: int) ^ ?n \<le> 2 ^ 62" by (intro power_increasing) auto
  then have "(2 :: int) ^ ?n \<le> 4611686018427387904" by simp
  moreover have "(0 :: int) < 2 ^ ?n" by simp
  ultimately have "in_int64 (2 ^ ?n)" unfolding in_int64_def by linarith
  then have p: "wrap64 (2 ^ ?n) = 2 ^ ?n" by (rule wrap64_id)
  have w: "wrap64 (MessageDelay sp * 2 ^ ?n) = scaled_delay sp round"
    using scaled_delay_bounds(1,2) [OF assms(1), of round] by (subst wrap64_id) (auto simp: in_int64_def scaled_delay_def)
  have q: "wrap64 (- Precision sp) = - Precision sp" using d by (intro wrap64_id) (auto simp: in_int64_def)
  show ?thesis unfolding checkTimely_def Let_def u n by (simp add: p w q)
qed

section \<open>Properties\<close>

text \<open>
  C29: With positive synchrony parameters the timely check computes the inequalities of its comment,
  \<open>localtime >= proposedBlockTime - Precision\<close> and
  \<open>localtime <= proposedBlockTime + MsgDelay + Precision\<close>, the delay doubled every ten rounds as long as
  it fits: no shift or product overflows, and a proposal that is timely stays timely in later rounds.
\<close>

theorem proposal_timely_window:
  assumes "sound_params sp" "0 \<le> round" "round \<le> later"
  shows "CheckTimely p recv sp round = Ret (if recv < Timestamp p - Precision sp then - 1
      else if recv > Timestamp p + scaled_delay sp round + Precision sp then 1 else 0)
    \<and> MessageDelay sp \<le> scaled_delay sp round \<and> scaled_delay sp round \<le> MaxInt64
    \<and> (CheckTimely p recv sp round = Ret 0 \<longrightarrow> CheckTimely p recv sp later = Ret 0)"
proof -
  have later: "0 \<le> later" using assms(2,3) by simp
  have "MessageDelay sp \<le> scaled_delay sp round"
    using assms(1) by (simp add: scaled_delay_def sound_params_def mult_le_cancel_left1)
  then show ?thesis
    using checkTimely_eq [OF assms(1,2)] checkTimely_eq [OF assms(1) later] scaled_delay_bounds(2) [OF assms(1)]
      scaled_delay_bounds(3) [OF assms(1-3)]
    by (auto simp: CheckTimely_def split: if_splits)
qed

theorem proposal_timely_window_witness:
  "CheckTimely (NewProposal 5 1 0 (- 1) (ex_bid 7) 3000000) 20000000000 DefaultSynchronyParams 0 = Ret 1
   \<and> CheckTimely (NewProposal 5 1 0 (- 1) (ex_bid 7) 3000000) 20000000000 DefaultSynchronyParams 10 = Ret 0
   \<and> CheckTimely (NewProposal 5 1 0 (- 1) (ex_bid 7) 3000000) 20000000000 DefaultSynchronyParams 20 = Ret 0"
proof -
  let ?p = "NewProposal 5 1 0 (- 1) (ex_bid 7) 3000000"
  have "sound_params DefaultSynchronyParams" by (simp add: sound_params_def DefaultSynchronyParams_def)
  moreover have "bit_len 12000000000 = 34" by (simp add: bit_len.simps)
  then have "scaled_delay DefaultSynchronyParams 0 = 12000000000" "scaled_delay DefaultSynchronyParams 10 = 24000000000"
    by (simp_all add: scaled_delay_def doublings_def DefaultSynchronyParams_def)
  moreover have "Timestamp ?p = 3000000" "Precision DefaultSynchronyParams = 505000000"
    by (simp_all add: NewProposal_def Canonical_def DefaultSynchronyParams_def)
  ultimately show ?thesis
    using proposal_timely_window [of DefaultSynchronyParams 0 10 ?p 20000000000]
      proposal_timely_window [of DefaultSynchronyParams 10 20 ?p 20000000000] by simp
qed


definition ex_proposal :: Proposal where
  "ex_proposal = (NewProposal 5 1 0 (- 1) (ex_bid 7) 3000000)\<lparr>prop_Signature := replicate 96 1\<rparr>"

lemma ex_proposal_valid: "Proposal_ValidateBasic ex_proposal = Inr ()"
  by code_simp


end
