(* ===== verification/File_PV.thy ===== *)
theory File_PV
  imports Proposals "HOL-Library.AList" "HOL-Library.Product_Lexorder"
begin

text \<open>
  \<open>src/privval/file.go\<close>: the file-based signer and its protection against double signing.

  The maps of the key file are keyed by the quorum hash and the height, of which the source takes the
  hexadecimal and decimal strings. The signature scheme is the record \<open>signer_lib\<close>. The state file is
  the field \<open>pv_disk\<close>: what \<open>LoadFilePV\<close> would read; writing it replaces it or fails, which is the
  argument \<open>io\<close> of the operations that save. A call that panics leaves what it did before the panic,
  so the outcome of a signing request carries the signer's state in every case.

  Shown: requests, crashes and restarts in any order never release two signatures for one height,
  round and step over different sign bytes, and never go back, provided that a failed write stops the
  process; the same is false when the process goes on after a failed write; a precommit with an
  extension that is not threshold-recoverable crashes the signer; a proposal signed again carries its
  sign bytes as the signature.
\<close>

section \<open>Definitions\<close>

record signer_lib =
  SignDigest :: "bytes \<Rightarrow> bytes \<Rightarrow> bytes option"
  priv_PubKey :: "bytes \<Rightarrow> bytes"

record QuorumKeys =
  qk_PrivKey :: bytes
  qk_PubKey :: bytes
  qk_ThresholdPublicKey :: "bytes option"

record FilePVKey =
  PrivateKeys :: "(bytes \<times> QuorumKeys) list"
  UpdateHeights :: "(int \<times> bytes) list"
  FirstHeightOfQuorums :: "(bytes \<times> int) list"
  pv_ProTxHash :: bytes

record FilePVLastSignState =
  lss_Height :: int
  lss_Round :: int
  lss_Step :: int
  lss_BlockSignature :: "bytes option"
  lss_BlockSignBytes :: "bytes option"

record FilePV =
  pv_Key :: FilePVKey
  LastSignState :: FilePVLastSignState
  pv_disk :: FilePVLastSignState

datatype pv_error =
    ErrUnknownVoteType | ErrHeightRegression | ErrRoundRegression | ErrStepRegression | ErrNoSignBytes
  | ErrPVSignData vote_error | ErrNoPrivateKey | ErrSignDigest | ErrUnexpectedExtension | ErrConflictingData
  | ErrSaveState | ErrNoKeyForQuorum | ErrNoHeightForQuorum | ErrProTxHashSize

abbreviation (input) stepNone :: int where "stepNone \<equiv> 0"
abbreviation (input) stepPropose :: int where "stepPropose \<equiv> 1"
abbreviation (input) stepPrevote :: int where "stepPrevote \<equiv> 2"
abbreviation (input) stepPrecommit :: int where "stepPrecommit \<equiv> 3"

definition voteToStep :: "Vote \<Rightarrow> pv_error + int" where
  "voteToStep vote =
     (case vote_Type vote of
        PrevoteType \<Rightarrow> Inr stepPrevote
      | PrecommitType \<Rightarrow> Inr stepPrecommit
      | _ \<Rightarrow> Inl ErrUnknownVoteType)"

definition ThresholdPublicKeyForQuorumHash :: "FilePVKey \<Rightarrow> bytes \<Rightarrow> pv_error + bytes option" where
  "ThresholdPublicKeyForQuorumHash pvKey quorumHash =
     (case map_of (PrivateKeys pvKey) quorumHash of
        Some keys \<Rightarrow> Inr (qk_ThresholdPublicKey keys)
      | None \<Rightarrow> Inl ErrNoKeyForQuorum)"

definition lss_reset :: "FilePVLastSignState \<Rightarrow> FilePVLastSignState" where
  "lss_reset lss = \<lparr>lss_Height = 0, lss_Round = 0, lss_Step = 0, lss_BlockSignature = None, lss_BlockSignBytes = None\<rparr>"

definition checkHRS :: "FilePVLastSignState \<Rightarrow> int \<Rightarrow> int \<Rightarrow> int \<Rightarrow> (pv_error + bool) exec" where
  "checkHRS lss height round step =
     (if lss_Height lss > height then Ret (Inl ErrHeightRegression)
      else if lss_Height lss = height then
        (if lss_Round lss > round then Ret (Inl ErrRoundRegression)
         else if lss_Round lss = round then
           (if lss_Step lss > step then Ret (Inl ErrStepRegression)
            else if lss_Step lss = step then
              (if lss_BlockSignBytes lss \<noteq> None then
                 (if lss_BlockSignature lss = None then Panic else Ret (Inr True))
               else Ret (Inl ErrNoSignBytes))
            else Ret (Inr False))
         else Ret (Inr False))
      else Ret (Inr False))"

text \<open>The JSON form drops empty byte slices, which are then read back as nil.\<close>

definition omitempty :: "bytes option \<Rightarrow> bytes option" where
  "omitempty b = (case b of Some [] \<Rightarrow> None | _ \<Rightarrow> b)"

definition lss_json :: "FilePVLastSignState \<Rightarrow> FilePVLastSignState" where
  "lss_json lss = lss\<lparr>lss_BlockSignature := omitempty (lss_BlockSignature lss),
                     lss_BlockSignBytes := omitempty (lss_BlockSignBytes lss)\<rparr>"

definition lss_Save :: "bool \<Rightarrow> FilePV \<Rightarrow> FilePV \<times> (pv_error + unit)" where
  "lss_Save io pv = (if io then (pv\<lparr>pv_disk := lss_json (LastSignState pv)\<rparr>, Inr ()) else (pv, Inl ErrSaveState))"

definition saveSigned :: "bool \<Rightarrow> int \<Rightarrow> int \<Rightarrow> int \<Rightarrow> bytes \<Rightarrow> bytes \<Rightarrow> FilePV \<Rightarrow> FilePV \<times> (pv_error + unit)" where
  "saveSigned io height round step blockSignBytes blockSig pv =
     lss_Save io (pv\<lparr>LastSignState := \<lparr>lss_Height = height, lss_Round = round, lss_Step = step,
                      lss_BlockSignature = Some blockSig, lss_BlockSignBytes = Some blockSignBytes\<rparr>\<rparr>)"

text \<open>\<open>signs[i]\<close> for each extension panics when there are fewer signatures than extensions.\<close>

definition fillProtoVoteExtensionSigns :: "VoteExtension list \<Rightarrow> bytes list \<Rightarrow> VoteExtension list option" where
  "fillProtoVoteExtensionSigns extensions signs =
     (if length signs < length extensions then None
      else Some (map2 (\<lambda>ext sig. ext\<lparr>ve_Signature := sig\<rparr>) extensions signs))"

definition getPrivateKey :: "FilePV \<Rightarrow> bytes \<Rightarrow> pv_error + bytes" where
  "getPrivateKey pv quorumHash =
     (case map_of (PrivateKeys (pv_Key pv)) quorumHash of
        Some keys \<Rightarrow> Inr (qk_PrivKey keys)
      | None \<Rightarrow> Inl ErrNoPrivateKey)"

fun sign_items :: "signer_lib \<Rightarrow> bytes \<Rightarrow> SignItem list \<Rightarrow> pv_error + bytes list" where
  "sign_items sl key [] = Inr []"
| "sign_items sl key (i # is) =
     (case SignDigest sl key (SignHash i) of
        None \<Rightarrow> Inl ErrSignDigest
      | Some sig \<Rightarrow> res_bind (sign_items sl key is) (\<lambda>sigs. Inr (sig # sigs)))"

datatype 'a outcome = Done 'a | Fail pv_error | Crash

definition finish_vote :: "Vote \<Rightarrow> bytes \<Rightarrow> bytes list \<Rightarrow> Vote outcome" where
  "finish_vote vote sig extSigns =
     (case fillProtoVoteExtensionSigns (VoteExtensions vote) extSigns of
        None \<Rightarrow> Crash
      | Some exts \<Rightarrow> Done (vote\<lparr>BlockSignature := sig, VoteExtensions := exts\<rparr>))"

definition signVote ::
  "crypto_lib \<Rightarrow> signer_lib \<Rightarrow> bool \<Rightarrow> string \<Rightarrow> LLMQType \<Rightarrow> bytes \<Rightarrow> Vote \<Rightarrow> FilePV \<Rightarrow> FilePV \<times> Vote outcome" where
  "signVote cl sl io chainID quorumType quorumHash vote pv =
     (case voteToStep vote of
        Inl e \<Rightarrow> (pv, Fail e)
      | Inr step \<Rightarrow>
          (let lss = LastSignState pv in
           case checkHRS lss (vote_Height vote) (vote_Round vote) step of
             Panic \<Rightarrow> (pv, Crash)
           | Ret (Inl e) \<Rightarrow> (pv, Fail e)
           | Ret (Inr sameHRS) \<Rightarrow>
               (case MakeQuorumSigns cl chainID quorumType quorumHash vote of
                  Panic \<Rightarrow> (pv, Crash)
                | Ret (Inl e) \<Rightarrow> (pv, Fail (ErrPVSignData e))
                | Ret (Inr quorumSigns) \<Rightarrow>
                    (case getPrivateKey pv quorumHash of
                       Inl e \<Rightarrow> (pv, Fail e)
                     | Inr privKey \<Rightarrow>
                         (case (if vote_Type vote = PrecommitType
                                then sign_items sl privKey (VoteExtensionSignItems quorumSigns)
                                else if length (VoteExtensions vote) > 0 then Inl ErrUnexpectedExtension
                                else Inr []) of
                            Inl e \<Rightarrow> (pv, Fail e)
                          | Inr extSigns \<Rightarrow>
                              if sameHRS then
                                (if Some (Msg (qsd_Block quorumSigns)) = lss_BlockSignBytes lss
                                 then (pv, finish_vote vote (the (lss_BlockSignature lss)) extSigns)
                                 else (pv, Fail ErrConflictingData))
                              else
                                (case SignDigest sl privKey (SignHash (qsd_Block quorumSigns)) of
                                   None \<Rightarrow> (pv, Fail ErrSignDigest)
                                 | Some sigBlock \<Rightarrow>
                                     (case saveSigned io (vote_Height vote) (vote_Round vote) step
                                             (Msg (qsd_Block quorumSigns)) sigBlock pv of
                                        (pv, Inl e) \<Rightarrow> (pv, Fail e)
                                      | (pv, Inr _) \<Rightarrow> (pv, finish_vote vote sigBlock extSigns))))))))"

definition signProposal ::
  "crypto_lib \<Rightarrow> signer_lib \<Rightarrow> proposal_encoder \<Rightarrow> bool \<Rightarrow> string \<Rightarrow> LLMQType \<Rightarrow> bytes \<Rightarrow> Proposal \<Rightarrow> FilePV
   \<Rightarrow> FilePV \<times> (Proposal \<times> bytes) outcome" where
  "signProposal cl sl enc io chainID quorumType quorumHash proposal pv =
     (let lss = LastSignState pv in
      case checkHRS lss (prop_Height proposal) (prop_Round proposal) stepPropose of
        Panic \<Rightarrow> (pv, Crash)
      | Ret (Inl e) \<Rightarrow> (pv, Fail e)
      | Ret (Inr sameHRS) \<Rightarrow>
          (case ProposalBlockSignID cl enc chainID proposal quorumType quorumHash of
             Panic \<Rightarrow> (pv, Crash)
           | Ret blockSignID \<Rightarrow>
               let blockSignBytes = ProposalBlockSignBytes enc chainID proposal in
               if sameHRS then
                 (if Some blockSignBytes \<noteq> lss_BlockSignBytes lss then (pv, Fail ErrConflictingData)
                  else (pv, Done (proposal\<lparr>prop_Signature := the (lss_BlockSignBytes lss)\<rparr>, blockSignID)))
               else
                 (case getPrivateKey pv quorumHash of
                    Inl e \<Rightarrow> (pv, Fail e)
                  | Inr privKey \<Rightarrow>
                      (case SignDigest sl privKey blockSignID of
                         None \<Rightarrow> (pv, Fail ErrSignDigest)
                       | Some blockSig \<Rightarrow>
                           (case saveSigned io (prop_Height proposal) (prop_Round proposal) stepPropose
                                   blockSignBytes blockSig pv of
                              (pv, Inl e) \<Rightarrow> (pv, Fail e)
                            | (pv, Inr _) \<Rightarrow> (pv, Done (proposal\<lparr>prop_Signature := blockSig\<rparr>, blockSignID)))))))"

text \<open>A process that starts reads the state file; \<open>LoadFilePV\<close> refuses a ProTxHash of the wrong size.\<close>

definition loadFilePV :: "FilePVKey \<Rightarrow> FilePVLastSignState \<Rightarrow> bool \<Rightarrow> pv_error + FilePV" where
  "loadFilePV key disk loadState =
     (if pv_ProTxHash key \<noteq> [] \<and> length (pv_ProTxHash key) \<noteq> DefaultHashSize then Inl ErrProTxHashSize
      else Inr \<lparr>pv_Key = key, LastSignState = (if loadState then disk else lss_reset disk), pv_disk = disk\<rparr>)"

definition NewFilePVOneKey ::
  "signer_lib \<Rightarrow> bytes \<Rightarrow> bytes \<Rightarrow> bytes \<Rightarrow> bytes option \<Rightarrow> FilePVLastSignState \<Rightarrow> FilePV exec" where
  "NewFilePVOneKey sl privKey proTxHash quorumHash thresholdPublicKey disk =
     (if length proTxHash \<noteq> DefaultHashSize then Panic
      else Ret \<lparr>pv_Key = \<lparr>PrivateKeys = [(quorumHash, \<lparr>qk_PrivKey = privKey, qk_PubKey = priv_PubKey sl privKey,
                          qk_ThresholdPublicKey = Some (case thresholdPublicKey of None \<Rightarrow> priv_PubKey sl privKey
                                                        | Some k \<Rightarrow> k)\<rparr>)],
                         UpdateHeights = [], FirstHeightOfQuorums = [], pv_ProTxHash = proTxHash\<rparr>,
                LastSignState = lss_reset disk, pv_disk = disk\<rparr>)"

definition GetPubKey :: "FilePV \<Rightarrow> bytes \<Rightarrow> pv_error + bytes" where
  "GetPubKey pv quorumHash =
     (case map_of (PrivateKeys (pv_Key pv)) quorumHash of Some keys \<Rightarrow> Inr (qk_PubKey keys) | None \<Rightarrow> Inl ErrNoKeyForQuorum)"

definition GetThresholdPublicKey :: "FilePV \<Rightarrow> bytes \<Rightarrow> pv_error + bytes option" where
  "GetThresholdPublicKey pv quorumHash =
     (case map_of (PrivateKeys (pv_Key pv)) quorumHash of
        Some keys \<Rightarrow> Inr (qk_ThresholdPublicKey keys) | None \<Rightarrow> Inl ErrNoKeyForQuorum)"

definition GetPublicKey :: "signer_lib \<Rightarrow> FilePV \<Rightarrow> bytes \<Rightarrow> pv_error + bytes" where
  "GetPublicKey sl pv quorumHash =
     (case getPrivateKey pv quorumHash of Inl _ \<Rightarrow> Inl ErrNoKeyForQuorum | Inr k \<Rightarrow> Inr (priv_PubKey sl k))"

definition GetHeight :: "FilePV \<Rightarrow> bytes \<Rightarrow> pv_error + int" where
  "GetHeight pv quorumHash =
     (case map_of (FirstHeightOfQuorums (pv_Key pv)) quorumHash of Some h \<Rightarrow> Inr h | None \<Rightarrow> Inl ErrNoHeightForQuorum)"

definition GetProTxHash :: "FilePV \<Rightarrow> pv_error + bytes" where
  "GetProTxHash pv =
     (if length (pv_ProTxHash (pv_Key pv)) \<noteq> DefaultHashSize then Inl ErrProTxHashSize
      else Inr (pv_ProTxHash (pv_Key pv)))"

definition ExtractIntoValidator :: "FilePV \<Rightarrow> bytes \<Rightarrow> (bytes option \<times> int \<times> bytes) exec" where
  "ExtractIntoValidator pv quorumHash =
     (if length (pv_ProTxHash (pv_Key pv)) \<noteq> DefaultHashSize then Panic
      else Ret (case GetPubKey pv quorumHash of Inl _ \<Rightarrow> None | Inr k \<Rightarrow> Some k, DefaultDashVotingPower,
                pv_ProTxHash (pv_Key pv)))"

definition UpdatePrivateKey :: "signer_lib \<Rightarrow> bytes \<Rightarrow> bytes \<Rightarrow> bytes \<Rightarrow> int \<Rightarrow> FilePV \<Rightarrow> FilePV" where
  "UpdatePrivateKey sl privateKey quorumHash thresholdPublicKey height pv =
     (let key = pv_Key pv in
      pv\<lparr>pv_Key := key\<lparr>PrivateKeys := AList.update quorumHash
             \<lparr>qk_PrivKey = privateKey, qk_PubKey = priv_PubKey sl privateKey,
              qk_ThresholdPublicKey = Some thresholdPublicKey\<rparr> (PrivateKeys key),
           UpdateHeights := AList.update height quorumHash (UpdateHeights key),
           FirstHeightOfQuorums :=
             (if map_of (FirstHeightOfQuorums key) quorumHash = None
              then AList.update quorumHash height (FirstHeightOfQuorums key) else FirstHeightOfQuorums key)\<rparr>\<rparr>)"

definition pv_Reset :: "bool \<Rightarrow> FilePV \<Rightarrow> FilePV \<times> (pv_error + unit)" where
  "pv_Reset io pv = lss_Save io (pv\<lparr>LastSignState := lss_reset (LastSignState pv)\<rparr>)"

section \<open>What a signing request does\<close>

definition hrs :: "FilePVLastSignState \<Rightarrow> int \<times> int \<times> int" where
  "hrs lss = (lss_Height lss, lss_Round lss, lss_Step lss)"

text \<open>
  A request for the step \<open>k\<close> over the sign bytes \<open>b\<close> either leaves the signer as it is, and is granted
  only if it repeats the last one, or moves the signer forward to \<open>k\<close>, and is granted only after the
  write.
\<close>

definition sign_spec :: "bool \<Rightarrow> int \<times> int \<times> int \<Rightarrow> bytes \<Rightarrow> FilePV \<Rightarrow> FilePV \<Rightarrow> bool \<Rightarrow> bool" where
  "sign_spec io k b pv pv' granted \<longleftrightarrow>
     pv' = pv \<and> (granted \<longrightarrow> hrs (LastSignState pv) = k \<and> lss_BlockSignBytes (LastSignState pv) = Some b)
     \<or> hrs (LastSignState pv) < k \<and> (granted \<longrightarrow> io)
       \<and> (\<exists>new. hrs new = k \<and> lss_BlockSignBytes new = Some b
            \<and> pv' = pv\<lparr>LastSignState := new, pv_disk := (if io then lss_json new else pv_disk pv)\<rparr>)"

lemma checkHRS_True:
  "checkHRS lss h r s = Ret (Inr True) \<Longrightarrow> hrs lss = (h, r, s) \<and> lss_BlockSignBytes lss \<noteq> None \<and> lss_BlockSignature lss \<noteq> None"
  by (auto simp: checkHRS_def hrs_def split: if_splits)

lemma checkHRS_False: "checkHRS lss h r s = Ret (Inr False) \<Longrightarrow> hrs lss < (h, r, s)"
  by (auto simp: checkHRS_def hrs_def less_prod_def' split: if_splits)

lemma MakeQuorumSigns_Msg:
  "MakeQuorumSigns cl chain qt qh v = Ret (Inr q) \<Longrightarrow> Msg (qsd_Block q) = vote_SignBytes cl chain v"
  by (auto simp: MakeQuorumSigns_def MakeBlockSignItem_def NewSignItem_def exec_bind_Ret_iff try_bind_Inr_iff)

lemma saveSigned_eq:
  "saveSigned io h r s b sig pv =
     (let new = \<lparr>lss_Height = h, lss_Round = r, lss_Step = s, lss_BlockSignature = Some sig, lss_BlockSignBytes = Some b\<rparr>
      in (pv\<lparr>LastSignState := new, pv_disk := (if io then lss_json new else pv_disk pv)\<rparr>,
          if io then Inr () else Inl ErrSaveState))"
  by (simp add: saveSigned_def lss_Save_def Let_def)

lemma saveSigned_spec:
  assumes "hrs (LastSignState pv) < (h, r, s)" "saveSigned io h r s b sig pv = (pv', e)" "granted \<Longrightarrow> e = Inr ()"
  shows "sign_spec io (h, r, s) b pv pv' granted"
proof -
  let ?new = "\<lparr>lss_Height = h, lss_Round = r, lss_Step = s, lss_BlockSignature = Some sig, lss_BlockSignBytes = Some b\<rparr>"
  have "pv' = pv\<lparr>LastSignState := ?new, pv_disk := (if io then lss_json ?new else pv_disk pv)\<rparr>" "granted \<longrightarrow> io"
    using assms(2,3) by (auto simp: saveSigned_eq Let_def split: if_splits)
  moreover have "hrs ?new = (h, r, s)" "lss_BlockSignBytes ?new = Some b" by (simp_all add: hrs_def)
  ultimately show ?thesis unfolding sign_spec_def using assms(1) by blast
qed

lemma sign_spec_stay: "sign_spec io k b pv pv False"
  by (simp add: sign_spec_def)

definition granted :: "'a outcome \<Rightarrow> bool" where
  "granted r = (case r of Done _ \<Rightarrow> True | _ \<Rightarrow> False)"

lemma granted_simps [simp]: "granted (Done x)" "\<not> granted (Fail e)" "\<not> granted Crash"
  by (simp_all add: granted_def)

lemma signVote_spec:
  assumes "signVote cl sl io chain qt qh v pv = (pv', r)"
  shows "(\<exists>s. voteToStep v = Inr s \<and> sign_spec io (vote_Height v, vote_Round v, s) (vote_SignBytes cl chain v) pv pv' (granted r))
    \<or> pv' = pv \<and> \<not> granted r"
proof (cases "\<exists>s same q key es. voteToStep v = Inr s
    \<and> checkHRS (LastSignState pv) (vote_Height v) (vote_Round v) s = Ret (Inr same)
    \<and> MakeQuorumSigns cl chain qt qh v = Ret (Inr q) \<and> getPrivateKey pv qh = Inr key
    \<and> (if vote_Type v = PrecommitType then sign_items sl key (VoteExtensionSignItems q)
       else if length (VoteExtensions v) > 0 then Inl ErrUnexpectedExtension else Inr []) = Inr es")
  case False
  then have "pv' = pv \<and> \<not> granted r"
    using assms by (auto simp: signVote_def Let_def split: sum.splits exec.splits)
  then show ?thesis ..
next
  case True
  then obtain s same q key es where c: "voteToStep v = Inr s"
    "checkHRS (LastSignState pv) (vote_Height v) (vote_Round v) s = Ret (Inr same)"
    "MakeQuorumSigns cl chain qt qh v = Ret (Inr q)" "getPrivateKey pv qh = Inr key"
    "(if vote_Type v = PrecommitType then sign_items sl key (VoteExtensionSignItems q)
       else if length (VoteExtensions v) > 0 then Inl ErrUnexpectedExtension else Inr []) = Inr es" by blast
  note msg = MakeQuorumSigns_Msg [OF c(3)]
  let ?b = "vote_SignBytes cl chain v" and ?k = "(vote_Height v, vote_Round v, s)"
  have "sign_spec io ?k ?b pv pv' (granted r)"
  proof (cases same)
    case True
    have k: "hrs (LastSignState pv) = ?k" using checkHRS_True [of "LastSignState pv"] c(2) True by auto
    show ?thesis
    proof (cases "Some ?b = lss_BlockSignBytes (LastSignState pv)")
      case True
      then have "pv' = pv" using assms c msg \<open>same\<close> by (simp add: signVote_def Let_def)
      then show ?thesis using k True by (simp add: sign_spec_def)
    next
      case False
      then have "pv' = pv" "r = Fail ErrConflictingData" using assms c msg \<open>same\<close> by (auto simp: signVote_def Let_def)
      then show ?thesis by (simp add: sign_spec_stay)
    qed
  next
    case False
    then have lt: "hrs (LastSignState pv) < ?k" using checkHRS_False c(2) by simp
    show ?thesis
    proof (cases "SignDigest sl key (SignHash (qsd_Block q))")
      case None
      then have "pv' = pv" "r = Fail ErrSignDigest" using assms c False by (auto simp: signVote_def Let_def)
      then show ?thesis by (simp add: sign_spec_stay)
    next
      case (Some sig)
      obtain pv2 e where sv: "saveSigned io (vote_Height v) (vote_Round v) s ?b sig pv = (pv2, e)" by fastforce
      have "pv' = pv2" "granted r \<Longrightarrow> e = Inr ()"
        using assms c False Some msg sv by (auto simp: signVote_def Let_def split: sum.splits)
      then show ?thesis using saveSigned_spec [OF lt sv] by simp
    qed
  qed
  then show ?thesis using c(1) by blast
qed

lemma signProposal_spec:
  assumes "signProposal cl sl enc io chain qt qh p pv = (pv', r)"
  shows "sign_spec io (prop_Height p, prop_Round p, stepPropose) (ProposalBlockSignBytes enc chain p) pv pv' (granted r)"
proof (cases "\<exists>same i. checkHRS (LastSignState pv) (prop_Height p) (prop_Round p) stepPropose = Ret (Inr same)
    \<and> ProposalBlockSignID cl enc chain p qt qh = Ret i")
  case False
  then have "pv' = pv \<and> \<not> granted r"
    using assms by (auto simp: signProposal_def Let_def split: sum.splits exec.splits)
  then show ?thesis by (simp add: sign_spec_def)
next
  case True
  then obtain same i where c: "checkHRS (LastSignState pv) (prop_Height p) (prop_Round p) stepPropose = Ret (Inr same)"
    "ProposalBlockSignID cl enc chain p qt qh = Ret i" by blast
  let ?b = "ProposalBlockSignBytes enc chain p" and ?k = "(prop_Height p, prop_Round p, stepPropose)"
  show ?thesis
  proof (cases same)
    case True
    have k: "hrs (LastSignState pv) = ?k" using checkHRS_True [of "LastSignState pv"] c(1) True by auto
    then show ?thesis using assms c True
      by (cases "Some ?b = lss_BlockSignBytes (LastSignState pv)") (auto simp: signProposal_def Let_def sign_spec_def)
  next
    case False
    then have lt: "hrs (LastSignState pv) < ?k" using checkHRS_False c(1) by simp
    show ?thesis
    proof (cases "\<exists>key sig. getPrivateKey pv qh = Inr key \<and> SignDigest sl key i = Some sig")
      case no: False
      then have "pv' = pv \<and> \<not> granted r"
        using assms c False by (auto simp: signProposal_def Let_def split: sum.splits option.splits)
      then show ?thesis by (simp add: sign_spec_def)
    next
      case True
      then obtain key sig where k: "getPrivateKey pv qh = Inr key" "SignDigest sl key i = Some sig" by blast
      obtain pv2 e where sv: "saveSigned io (prop_Height p) (prop_Round p) stepPropose ?b sig pv = (pv2, e)" by fastforce
      have "pv' = pv2" "granted r \<Longrightarrow> e = Inr ()"
        using assms c False k sv by (auto simp: signProposal_def Let_def split: sum.splits)
      then show ?thesis using saveSigned_spec [OF lt sv] by simp
    qed
  qed
qed

section \<open>Runs of the signer\<close>

definition restart :: "FilePV \<Rightarrow> FilePV" where
  "restart pv = pv\<lparr>LastSignState := pv_disk pv\<rparr>"

text \<open>
  The steps of a signer, with the signature released, if any: its height, round and step, and the
  sign bytes it covers. A request that was not granted after a failed write is followed by a restart;
  a crash can be.
\<close>

type_synonym released = "(int \<times> int \<times> int) \<times> bytes"

inductive pv_step :: "crypto_lib \<Rightarrow> signer_lib \<Rightarrow> proposal_encoder \<Rightarrow> FilePV \<Rightarrow> released list \<Rightarrow> FilePV \<Rightarrow> bool"
  for cl sl enc where
  vote: "signVote cl sl io chain qt qh v pv = (pv', Done v') \<Longrightarrow> voteToStep v = Inr s
         \<Longrightarrow> pv_step cl sl enc pv [((vote_Height v, vote_Round v, s), vote_SignBytes cl chain v)] pv'"
| vote_refused: "signVote cl sl True chain qt qh v pv = (pv', r) \<Longrightarrow> \<not> granted r \<Longrightarrow> pv_step cl sl enc pv [] pv'"
| vote_stopped: "signVote cl sl io chain qt qh v pv = (pv', r) \<Longrightarrow> \<not> granted r \<Longrightarrow> pv_step cl sl enc pv [] (restart pv')"
| proposal: "signProposal cl sl enc io chain qt qh p pv = (pv', Done p')
         \<Longrightarrow> pv_step cl sl enc pv [((prop_Height p, prop_Round p, stepPropose), ProposalBlockSignBytes enc chain p)] pv'"
| proposal_refused: "signProposal cl sl enc True chain qt qh p pv = (pv', r) \<Longrightarrow> \<not> granted r \<Longrightarrow> pv_step cl sl enc pv [] pv'"
| proposal_stopped: "signProposal cl sl enc io chain qt qh p pv = (pv', r) \<Longrightarrow> \<not> granted r
         \<Longrightarrow> pv_step cl sl enc pv [] (restart pv')"
| key: "pv_step cl sl enc pv [] (UpdatePrivateKey sl k qh tpk h pv)"
| stop: "pv_step cl sl enc pv [] (restart pv)"

inductive pv_run :: "crypto_lib \<Rightarrow> signer_lib \<Rightarrow> proposal_encoder \<Rightarrow> FilePV \<Rightarrow> released list \<Rightarrow> FilePV \<Rightarrow> bool"
  for cl sl enc pv where
  start: "pv_run cl sl enc pv [] pv"
| step: "pv_run cl sl enc pv es pv' \<Longrightarrow> pv_step cl sl enc pv' e pv'' \<Longrightarrow> pv_run cl sl enc pv (es @ e) pv''"

definition synced :: "FilePV \<Rightarrow> bool" where
  "synced pv \<longleftrightarrow> lss_json (LastSignState pv) = pv_disk pv"

definition no_conflict :: "released \<Rightarrow> released \<Rightarrow> bool" where
  "no_conflict x y \<longleftrightarrow> fst x < fst y \<or> x = y"

definition covers :: "FilePV \<Rightarrow> released list \<Rightarrow> bool" where
  "covers pv es \<longleftrightarrow> sorted_wrt no_conflict es
     \<and> (\<forall>(k, b) \<in> set es. k < hrs (pv_disk pv) \<or> k = hrs (pv_disk pv) \<and> omitempty (Some b) = lss_BlockSignBytes (pv_disk pv))"

lemma json_idem [simp]: "lss_json (lss_json lss) = lss_json lss" "hrs (lss_json lss) = hrs lss"
  "lss_BlockSignBytes (lss_json lss) = omitempty (lss_BlockSignBytes lss)"
  by (auto simp: lss_json_def omitempty_def hrs_def split: option.splits list.splits)

lemma omitempty_inj: "omitempty (Some b) = omitempty (Some c) \<Longrightarrow> b = c"
  by (auto simp: omitempty_def split: list.splits)

lemma restart_synced: "synced pv \<Longrightarrow> synced (restart pv)"
  by (auto simp: synced_def restart_def) (metis json_idem(1))

lemma restart_disk [simp]: "pv_disk (restart pv) = pv_disk pv" "covers (restart pv) es = covers pv es"
  by (simp_all add: restart_def covers_def)

lemma covers_snoc:
  assumes "covers pv es" "hrs (pv_disk pv) < hrs (pv_disk pv')
      \<and> k = hrs (pv_disk pv') \<and> omitempty (Some b) = lss_BlockSignBytes (pv_disk pv')"
  shows "covers pv' (es @ [(k, b)])" "covers pv' es"
  using assms by (force simp: covers_def sorted_wrt_append no_conflict_def)+

lemma covers_repeat:
  assumes "covers pv es" "k = hrs (pv_disk pv)" "omitempty (Some b) = lss_BlockSignBytes (pv_disk pv)"
  shows "covers pv (es @ [(k, b)])"
  using assms omitempty_inj by (force simp: covers_def sorted_wrt_append no_conflict_def)

lemma sign_spec_run:
  assumes "sign_spec io k b pv pv' g" "synced pv" "covers pv es"
  shows "g \<Longrightarrow> synced pv' \<and> covers pv' (es @ [(k, b)])" "io \<Longrightarrow> synced pv' \<and> covers pv' es"
    "synced (restart pv') \<and> covers (restart pv') es"
proof -
  consider (stay) "pv' = pv" "g \<Longrightarrow> hrs (LastSignState pv) = k \<and> lss_BlockSignBytes (LastSignState pv) = Some b"
    | (move) new where "hrs (LastSignState pv) < k" "g \<Longrightarrow> io" "hrs new = k" "lss_BlockSignBytes new = Some b"
        "pv' = pv\<lparr>LastSignState := new, pv_disk := (if io then lss_json new else pv_disk pv)\<rparr>"
    using assms(1) unfolding sign_spec_def by blast
  note cs = this
  have d: "hrs (pv_disk pv) = hrs (LastSignState pv)"
    "lss_BlockSignBytes (pv_disk pv) = omitempty (lss_BlockSignBytes (LastSignState pv))"
    using assms(2) json_idem(2,3) [of "LastSignState pv"] by (simp_all add: synced_def)
  have moved: "synced pv' \<and> covers pv' (es @ [(k, b)]) \<and> covers pv' es"
    if "io" "hrs (LastSignState pv) < k" "hrs new = k" "lss_BlockSignBytes new = Some b"
      "pv' = pv\<lparr>LastSignState := new, pv_disk := (if io then lss_json new else pv_disk pv)\<rparr>" for new
    using covers_snoc [OF assms(3), of pv' k b] that d by (simp add: synced_def)
  show "g \<Longrightarrow> synced pv' \<and> covers pv' (es @ [(k, b)])"
    using cs
  proof cases
    case stay
    assume g
    then show ?thesis using stay covers_repeat [OF assms(3), of k b] d assms(2) by auto
  next
    case (move new)
    assume g
    then show ?thesis using move moved [of new] by blast
  qed
  show "io \<Longrightarrow> synced pv' \<and> covers pv' es"
    using cs
  proof cases
    case stay
    then show ?thesis using assms by simp
  next
    case (move new)
    assume io
    then show ?thesis using move moved [of new] by blast
  qed
  show "synced (restart pv') \<and> covers (restart pv') es"
  proof (cases io)
    case True
    show ?thesis using cs
    proof cases
      case stay
      then show ?thesis using assms restart_synced by simp
    next
      case (move new)
      then show ?thesis using True moved [of new] restart_synced by auto
    qed
  next
    case False
    have "pv_disk pv' = pv_disk pv" using cs
    proof cases
      case stay
      then show ?thesis by simp
    next
      case (move new)
      then show ?thesis using False by simp
    qed
    moreover have "lss_json (pv_disk pv) = pv_disk pv"
      using assms(2) json_idem(1) [of "LastSignState pv"] by (simp add: synced_def)
    ultimately show ?thesis using assms(3) by (simp add: synced_def restart_def covers_def)
  qed
qed

lemma pv_step_inv:
  assumes "pv_step cl sl enc pv e pv'" "synced pv" "covers pv es"
  shows "synced pv' \<and> covers pv' (es @ e)"
  using assms(1)
proof cases
  case (vote io chain qt qh v v' s)
  have "sign_spec io (vote_Height v, vote_Round v, s) (vote_SignBytes cl chain v) pv pv' True"
    using signVote_spec [OF vote(2)] vote(3) by auto
  then show ?thesis using sign_spec_run(1) [OF _ assms(2,3)] vote(1) by blast
next
  case (vote_refused chain qt qh v r)
  show ?thesis using signVote_spec [OF vote_refused(2)] sign_spec_run(2) [OF _ assms(2,3)] assms(2,3) vote_refused(1)
    by auto
next
  case (vote_stopped io chain qt qh v pv2 r)
  show ?thesis using signVote_spec [OF vote_stopped(3)] sign_spec_run(3) [OF _ assms(2,3)] assms(2,3) vote_stopped(1,2)
      restart_synced by auto
next
  case (proposal io chain qt qh p p')
  have "sign_spec io (prop_Height p, prop_Round p, stepPropose) (ProposalBlockSignBytes enc chain p) pv pv' True"
    using signProposal_spec [OF proposal(2)] by simp
  then show ?thesis using sign_spec_run(1) [OF _ assms(2,3)] proposal(1) by blast
next
  case (proposal_refused chain qt qh p r)
  show ?thesis using sign_spec_run(2) [OF signProposal_spec [OF proposal_refused(2)] assms(2,3)] proposal_refused(1) by simp
next
  case (proposal_stopped io chain qt qh p pv2 r)
  show ?thesis
    using sign_spec_run(3) [OF signProposal_spec [OF proposal_stopped(3)] assms(2,3)] proposal_stopped(1,2) by simp
next
  case (key k qh tpk h)
  then show ?thesis using assms(2,3) by (simp add: UpdatePrivateKey_def Let_def synced_def covers_def)
next
  case stop
  then show ?thesis using assms(2,3) restart_synced by simp
qed

lemma pv_run_inv:
  assumes "pv_run cl sl enc pv es pv'" "synced pv"
  shows "synced pv' \<and> covers pv' es"
  using assms(1)
proof induction
  case start
  then show ?case using assms(2) by (simp add: covers_def)
next
  case (step es pv' e pv'')
  then show ?case using pv_step_inv by blast
qed

lemma sign_items_length: "sign_items sl key is = Inr sigs \<Longrightarrow> length sigs = length is"
  by (induction "is" arbitrary: sigs) (auto simp: res_bind_Inr_iff split: option.splits)

lemma MakeQuorumSigns_items:
  "MakeQuorumSigns cl chain qt qh v = Ret (Inr q) \<Longrightarrow> length (VoteExtensionSignItems q) = length (recoverable_exts v)"
  by (auto simp: MakeQuorumSigns_def exec_bind_Ret_iff try_bind_Inr_iff dest: SignItems_length)

lemma finish_short:
  assumes "length sigs = length (recoverable_exts v)" "\<exists>e \<in> set (VoteExtensions v). \<not> IsThresholdRecoverable e"
  shows "finish_vote v sig sigs = Crash"
proof -
  have "length (recoverable_exts v) < length (VoteExtensions v)"
    using assms(2) by (auto simp: recoverable_exts_def intro: length_filter_less)
  then show ?thesis using assms(1) by (simp add: finish_vote_def fillProtoVoteExtensionSigns_def)
qed

section \<open>Properties\<close>

definition ex_sign_lib :: crypto_lib where
  "ex_sign_lib = ex_lib\<lparr>vote_SignBytes := (\<lambda>_ v. bid_Hash (vote_BlockID v))\<rparr>"

definition ex_signer :: signer_lib where
  "ex_signer = \<lparr>SignDigest = (\<lambda>_ _. Some (replicate 96 1)), priv_PubKey = (\<lambda>k. k)\<rparr>"

definition ex_lss :: FilePVLastSignState where
  "ex_lss = \<lparr>lss_Height = 0, lss_Round = 0, lss_Step = 0, lss_BlockSignature = None, lss_BlockSignBytes = None\<rparr>"

definition ex_pv :: FilePV where
  "ex_pv = \<lparr>pv_Key = \<lparr>PrivateKeys = [(replicate 32 9, \<lparr>qk_PrivKey = [1], qk_PubKey = [1], qk_ThresholdPublicKey = None\<rparr>)],
      UpdateHeights = [], FirstHeightOfQuorums = [], pv_ProTxHash = replicate 32 1\<rparr>,
     LastSignState = ex_lss, pv_disk = ex_lss\<rparr>"

abbreviation (input) ex_sign :: "bool \<Rightarrow> Vote \<Rightarrow> FilePV \<Rightarrow> FilePV \<times> Vote outcome" where
  "ex_sign io v pv \<equiv> signVote ex_sign_lib ex_signer io [] (LLMQ_other 1) (replicate 32 9) v pv"

text \<open>
  C9: Whatever sequence of vote and proposal requests, key updates, refusals, crashes and restarts the
  file signer goes through, the signatures it releases never go back in height, round and step, and two
  signatures for the same height, round and step cover the same sign bytes. A write of the state file
  that fails is assumed to stop the process.
\<close>

theorem FilePV_no_double_sign:
  assumes "synced pv" "pv_run cl sl enc pv es pv'"
  shows "sorted_wrt (\<lambda>x y. fst x < fst y \<or> fst x = fst y \<and> snd x = snd y) es"
proof -
  have "sorted_wrt no_conflict es" using pv_run_inv [OF assms(2,1)] by (simp add: covers_def)
  then show ?thesis by (rule sorted_wrt_mono_rel [rotated]) (auto simp: no_conflict_def)
qed

lemma ex_sign_votes:
  "snd (ex_sign True (ex_vote PrevoteType (ex_bid 7) 0) ex_pv)
     = Done ((ex_vote PrevoteType (ex_bid 7) 0)\<lparr>BlockSignature := replicate 96 1\<rparr>)"
  "snd (ex_sign False (ex_vote PrevoteType (ex_bid 7) 0) (restart (fst (ex_sign True (ex_vote PrevoteType (ex_bid 7) 0) ex_pv))))
     = Done ((ex_vote PrevoteType (ex_bid 7) 0)\<lparr>BlockSignature := replicate 96 1\<rparr>)"
  by code_simp+

theorem FilePV_no_double_sign_witness:
  "\<exists>pv'. pv_run ex_sign_lib ex_signer (\<lambda>_. []) ex_pv [((5, 0, 2), replicate 32 7), ((5, 0, 2), replicate 32 7)] pv'
     \<and> sorted_wrt (\<lambda>x y. fst x < fst y \<or> fst x = fst y \<and> snd x = snd y)
         [((5, 0, 2) :: int \<times> int \<times> int, replicate 32 7 :: bytes), ((5, 0, 2), replicate 32 7)]"
proof -
  let ?v = "ex_vote PrevoteType (ex_bid 7) 0"
  obtain pv1 where s1: "ex_sign True ?v ex_pv = (pv1, Done (?v\<lparr>BlockSignature := replicate 96 1\<rparr>))"
    using ex_sign_votes(1) by (metis prod.collapse)
  obtain pv2 where s2: "ex_sign False ?v (restart pv1) = (pv2, Done (?v\<lparr>BlockSignature := replicate 96 1\<rparr>))"
    using ex_sign_votes(2) s1 by (metis fst_conv prod.collapse)
  have v: "voteToStep ?v = Inr 2" "vote_Height ?v = 5" "vote_Round ?v = 0" "vote_SignBytes ex_sign_lib [] ?v = replicate 32 7"
    by code_simp+
  have "pv_run ex_sign_lib ex_signer (\<lambda>_. []) ex_pv ((([] @ [((5, 0, 2), replicate 32 7)]) @ []) @ [((5, 0, 2), replicate 32 7)]) pv2"
    using pv_run.step [OF pv_run.step [OF pv_run.step [OF pv_run.start pv_step.vote [OF s1 v(1)]] pv_step.stop]
        pv_step.vote [OF s2 v(1)]] v(2-4) by simp
  then have run: "pv_run ex_sign_lib ex_signer (\<lambda>_. []) ex_pv [((5, 0, 2), replicate 32 7), ((5, 0, 2), replicate 32 7)] pv2"
    by simp
  have "synced ex_pv" by (simp add: synced_def ex_pv_def ex_lss_def lss_json_def omitempty_def)
  then show ?thesis using FilePV_no_double_sign [OF _ run] run by blast
qed


text \<open>
  C39: A precommit with an extension that is not threshold-recoverable is never signed: the sign items
  cover only the recoverable extensions, so filling in the signatures runs out of range. The signer
  panics after it has written the new state, so it has also used up the height, round and step.
\<close>

theorem signVote_unrecoverable_crashes:
  assumes "vote_Type v = PrecommitType" "\<exists>e \<in> set (VoteExtensions v). \<not> IsThresholdRecoverable e"
    "hrs (LastSignState pv) < (vote_Height v, vote_Round v, stepPrecommit)"
    "MakeQuorumSigns cl chain qt qh v = Ret (Inr q)" "getPrivateKey pv qh = Inr key"
    "sign_items sl key (VoteExtensionSignItems q) = Inr sigs" "SignDigest sl key (SignHash (qsd_Block q)) = Some sig"
  shows "snd (signVote cl sl True chain qt qh v pv) = Crash
    \<and> hrs (pv_disk (fst (signVote cl sl True chain qt qh v pv))) = (vote_Height v, vote_Round v, stepPrecommit)"
proof -
  have "checkHRS (LastSignState pv) (vote_Height v) (vote_Round v) stepPrecommit = Ret (Inr False)"
    using assms(3) by (auto simp: checkHRS_def hrs_def less_prod_def')
  moreover have "length sigs = length (recoverable_exts v)"
    using sign_items_length [OF assms(6)] MakeQuorumSigns_items [OF assms(4)] by simp
  ultimately show ?thesis
    using assms finish_short [OF _ assms(2)] by (simp add: signVote_def voteToStep_def saveSigned_eq Let_def hrs_def lss_json_def)
qed

theorem signVote_unrecoverable_crashes_witness:
  "snd (ex_sign True ((ex_vote PrecommitType (ex_bid 7) 0)\<lparr>VoteExtensions := [\<lparr>ve_Type = VE_DEFAULT, ve_Extension = [1],
      ve_Signature = [], ve_SignRequestId = None\<rparr>]\<rparr>) ex_pv) = Crash"
proof -
  let ?v = "(ex_vote PrecommitType (ex_bid 7) 0)\<lparr>VoteExtensions := [\<lparr>ve_Type = VE_DEFAULT, ve_Extension = [1],
      ve_Signature = [], ve_SignRequestId = None\<rparr>]\<rparr>"
  have "case MakeQuorumSigns ex_sign_lib [] (LLMQ_other 1) (replicate 32 9) ?v of Ret (Inr q) \<Rightarrow> VoteExtensionSignItems q = [] | _ \<Rightarrow> False"
    by code_simp
  then obtain q where q: "MakeQuorumSigns ex_sign_lib [] (LLMQ_other 1) (replicate 32 9) ?v = Ret (Inr q)" "VoteExtensionSignItems q = []"
    by (auto split: exec.splits sum.splits)
  have v: "vote_Type ?v = PrecommitType" "\<exists>e \<in> set (VoteExtensions ?v). \<not> IsThresholdRecoverable e"
    "hrs (LastSignState ex_pv) < (vote_Height ?v, vote_Round ?v, stepPrecommit)"
    "getPrivateKey ex_pv (replicate 32 9) = Inr [1]" by code_simp+
  have s: "sign_items ex_signer [1] (VoteExtensionSignItems q) = Inr []" using q(2) by simp
  have d: "SignDigest ex_signer [1] (SignHash (qsd_Block q)) = Some (replicate 96 1)" by (simp add: ex_signer_def)
  show ?thesis using signVote_unrecoverable_crashes [OF v(1-3) q(1) v(4) s d] by blast
qed

definition the_key :: "FilePV \<Rightarrow> bytes \<Rightarrow> bytes" where
  "the_key pv qh = (case getPrivateKey pv qh of Inr k \<Rightarrow> k | Inl _ \<Rightarrow> [])"

text \<open>
  A proposal that is signed again for the same height and round, as after a crash before the
  write-ahead log, comes back with its sign bytes in place of the signature that was made for it.
\<close>

theorem signProposal_again_wrong_signature:
  assumes "hrs (LastSignState pv) < (prop_Height p, prop_Round p, stepPropose)"
    "signProposal cl sl enc True chain qt qh p pv = (pv', Done (p', i))"
  shows "SignDigest sl (the_key pv qh) i = Some (prop_Signature p')
    \<and> snd (signProposal cl sl enc True chain qt qh p pv')
        = Done (p\<lparr>prop_Signature := ProposalBlockSignBytes enc chain p\<rparr>, i)"
proof -
  have c: "checkHRS (LastSignState pv) (prop_Height p) (prop_Round p) stepPropose = Ret (Inr False)"
    using assms(1) by (auto simp: checkHRS_def hrs_def less_prod_def')
  obtain key sig where k: "ProposalBlockSignID cl enc chain p qt qh = Ret i" "getPrivateKey pv qh = Inr key"
    "SignDigest sl key i = Some sig" "p' = p\<lparr>prop_Signature := sig\<rparr>"
    "LastSignState pv' = \<lparr>lss_Height = prop_Height p, lss_Round = prop_Round p, lss_Step = stepPropose,
       lss_BlockSignature = Some sig, lss_BlockSignBytes = Some (ProposalBlockSignBytes enc chain p)\<rparr>"
    using assms(2) c by (auto simp: signProposal_def Let_def saveSigned_eq split: exec.splits sum.splits option.splits)
  then show ?thesis by (simp add: the_key_def signProposal_def checkHRS_def Let_def)
qed

theorem signProposal_again_wrong_signature_witness:
  "\<exists>pv' i. signProposal ex_sign_lib ex_signer (\<lambda>_. [1, 2]) True [] (LLMQ_other 1) (replicate 32 9) ex_proposal ex_pv
        = (pv', Done (ex_proposal\<lparr>prop_Signature := replicate 96 1\<rparr>, i))
     \<and> snd (signProposal ex_sign_lib ex_signer (\<lambda>_. [1, 2]) True [] (LLMQ_other 1) (replicate 32 9) ex_proposal pv')
        = Done (ex_proposal\<lparr>prop_Signature := [1, 2]\<rparr>, i)"
proof -
  have "case snd (signProposal ex_sign_lib ex_signer (\<lambda>_. [1, 2]) True [] (LLMQ_other 1) (replicate 32 9) ex_proposal ex_pv) of
      Done (q, _) \<Rightarrow> q = ex_proposal\<lparr>prop_Signature := replicate 96 1\<rparr> | _ \<Rightarrow> False"
    by code_simp
  then obtain pv' i where s: "signProposal ex_sign_lib ex_signer (\<lambda>_. [1, 2]) True [] (LLMQ_other 1) (replicate 32 9) ex_proposal ex_pv
      = (pv', Done (ex_proposal\<lparr>prop_Signature := replicate 96 1\<rparr>, i))"
    by (auto split: outcome.splits prod.splits) (metis prod.collapse)
  have h: "hrs (LastSignState ex_pv) < (prop_Height ex_proposal, prop_Round ex_proposal, stepPropose)" by code_simp
  have "ProposalBlockSignBytes (\<lambda>_. [1, 2]) [] ex_proposal = [1, 2]" by (simp add: ProposalBlockSignBytes_def)
  then show ?thesis using signProposal_again_wrong_signature [OF h s] s by auto
qed

end
