(* ===== verification/Merkle.thy ===== *)
theory Merkle
  imports Prelude
begin

text \<open>
  \<open>src/crypto/merkle\<close> (\<open>hash.go\<close>, \<open>tree.go\<close>, \<open>proof.go\<close>): Merkle roots of byte slices, inclusion
  proofs and their verification. SHA-256 is the parameter \<open>sha\<close>; what the proofs need of it is that
  it returns 32 bytes, and every statement about forged proofs ends in an explicit collision.

  Results: a proof built for an item verifies, and a proof of the right shape verifies for no
  other item unless it exhibits a collision; the iterative root equals the recursive one.
\<close>

section \<open>Definitions\<close>

abbreviation (input) hash_size :: nat where "hash_size \<equiv> 32"

datatype merkle_error =
    ErrNegativeTotal | ErrNegativeIndex | ErrLeafHash | ErrRootHash | ErrIndexTotal
  | ErrUnexpectedAunts | ErrMissingAunts | ErrLeafHashSize | ErrTooManyAunts | ErrAuntSize | ErrNilProof

subsection \<open>Hashes and the split point\<close>

definition emptyHash :: "(bytes \<Rightarrow> bytes) \<Rightarrow> bytes" where
  "emptyHash sha = sha []"

definition leafHash :: "(bytes \<Rightarrow> bytes) \<Rightarrow> bytes \<Rightarrow> bytes" where
  "leafHash sha leaf = sha (0 # leaf)"

definition innerHash :: "(bytes \<Rightarrow> bytes) \<Rightarrow> bytes \<Rightarrow> bytes \<Rightarrow> bytes" where
  "innerHash sha l r = sha (1 # l @ r)"

text \<open>
  The largest power of two below a length of at least 2. \<open>bits.Len\<close> of an \<open>int64\<close> that is positive
  is at most 63, so the shift stays within the type.
\<close>

definition split_point :: "int \<Rightarrow> int" where
  "split_point n = (let k = 2 ^ (bit_len (nat n) - 1) in if k = n then k div 2 else k)"

definition getSplitPoint :: "int \<Rightarrow> int exec" where
  "getSplitPoint n = (if n < 1 then Panic else Ret (split_point n))"

lemma split_point_pow:
  assumes "2 \<le> n"
  shows "\<exists>j. split_point n = 2 ^ j \<and> 2 ^ j < n \<and> n \<le> 2 * 2 ^ j"
proof -
  define b where "b = bit_len (nat n)"
  have b: "2 ^ (b - 1) \<le> nat n" "nat n < 2 ^ b"
    using bit_len_bounds [of "nat n"] assms by (simp_all add: b_def)
  have b2: "b \<noteq> 0" "b \<noteq> 1" using b(2) assms by (auto intro: ccontr)
  then obtain c where c: "b = Suc (Suc c)" by (metis One_nat_def not0_implies_Suc)
  have lo: "2 ^ Suc c \<le> n" and hi: "n < 2 * 2 ^ Suc c"
    using b assms by (simp_all add: c nat_less_iff le_nat_iff)
  show ?thesis
  proof (cases "2 ^ Suc c = n")
    case True
    then have "split_point n = 2 ^ c" by (simp add: split_point_def Let_def c b_def [symmetric])
    then show ?thesis using True zero_less_power [of "2 :: int" c] by (intro exI [of _ c]) auto
  next
    case False
    then have "split_point n = 2 ^ Suc c" by (simp add: split_point_def Let_def c b_def [symmetric])
    then show ?thesis using False lo hi by (intro exI [of _ "Suc c"]) simp
  qed
qed

lemma split_point_bounds: "2 \<le> n \<Longrightarrow> 0 < split_point n \<and> split_point n < n"
  using split_point_pow [of n] by auto

definition split_len :: "'a list \<Rightarrow> nat" where
  "split_len xs = nat (split_point (int (length xs)))"

lemma split_len_bounds: "2 \<le> length xs \<Longrightarrow> 0 < split_len xs \<and> split_len xs < length xs"
  using split_point_bounds [of "int (length xs)"] by (auto simp: split_len_def)

lemma split_len_decreases:
  assumes "xs \<noteq> []" and "length xs \<noteq> Suc 0"
  shows "min (length xs) (split_len xs) < length xs" and "length xs - split_len xs < length xs"
    and "split_len xs < length xs" and "0 < split_len xs"
proof -
  have "2 \<le> length xs" using assms by (cases xs) (auto simp: Suc_le_eq)
  then show "min (length xs) (split_len xs) < length xs" and "length xs - split_len xs < length xs"
    and "split_len xs < length xs" and "0 < split_len xs"
    using split_len_bounds [of xs] by auto
qed

subsection \<open>Roots\<close>

function hashFromByteSlices :: "(bytes \<Rightarrow> bytes) \<Rightarrow> bytes list \<Rightarrow> bytes" where
  "hashFromByteSlices sha items =
     (if length items = 0 then emptyHash sha
      else if length items = 1 then leafHash sha (hd items)
      else let k = split_len items
           in innerHash sha (hashFromByteSlices sha (take k items)) (hashFromByteSlices sha (drop k items)))"
  by pat_completeness auto
termination
  by (relation "measure (\<lambda>(_, xs). length xs)") (auto simp: split_len_decreases)

declare hashFromByteSlices.simps [simp del]

definition HashFromByteSlices :: "(bytes \<Rightarrow> bytes) \<Rightarrow> bytes list \<Rightarrow> bytes" where
  "HashFromByteSlices sha items = hashFromByteSlices sha items"

text \<open>
  The iterative variant works in place: a pass reads at \<open>rp\<close> and \<open>rp + 1\<close> and writes at \<open>wp\<close> of the
  same slice.
\<close>

function iter_pass :: "(bytes \<Rightarrow> bytes) \<Rightarrow> bytes list \<Rightarrow> nat \<Rightarrow> nat \<Rightarrow> nat \<Rightarrow> bytes list \<times> nat" where
  "iter_pass sha items sz rp wp =
     (if rp < sz then
        if rp + 1 < sz
        then iter_pass sha (items[wp := innerHash sha (items ! rp) (items ! (rp + 1))]) sz (rp + 2) (wp + 1)
        else iter_pass sha (items[wp := items ! rp]) sz (rp + 1) (wp + 1)
      else (items, wp))"
  by pat_completeness auto
termination
  by (relation "measure (\<lambda>(_, _, sz, rp, _). sz - rp)") auto

declare iter_pass.simps [simp del]

lemma iter_pass_size: "snd (iter_pass sha items sz rp wp) = wp + (sz - rp + 1) div 2"
proof (induction sha items sz rp wp rule: iter_pass.induct)
  case (1 sha items sz rp wp)
  consider "rp + 1 < sz" | "rp + 1 = sz" | "sz \<le> rp" by linarith
  then show ?case
  proof cases
    case 1
    then show ?thesis using "1.IH"(1) by (subst iter_pass.simps) auto
  next
    case 2
    then show ?thesis using "1.IH"(2) by (subst iter_pass.simps) auto
  next
    case 3
    then show ?thesis by (subst iter_pass.simps) auto
  qed
qed

function iter_loop :: "(bytes \<Rightarrow> bytes) \<Rightarrow> bytes list \<Rightarrow> nat \<Rightarrow> bytes" where
  "iter_loop sha items sz =
     (if sz = 0 then emptyHash sha
      else if sz = 1 then items ! 0
      else let r = iter_pass sha items sz 0 0 in iter_loop sha (fst r) (snd r))"
  by pat_completeness auto
termination
  by (relation "measure (\<lambda>(_, _, sz). sz)") (auto simp: iter_pass_size)

declare iter_loop.simps [simp del]

definition HashFromByteSlicesIterative :: "(bytes \<Rightarrow> bytes) \<Rightarrow> bytes list \<Rightarrow> bytes" where
  "HashFromByteSlicesIterative sha input = iter_loop sha (map (leafHash sha) input) (length input)"

subsection \<open>Proofs\<close>

record Proof =
  proof_Total :: int
  proof_Index :: int
  LeafHash :: bytes
  Aunts :: "bytes list"

abbreviation (input) MaxAunts :: nat where "MaxAunts \<equiv> 100"

text \<open>
  A \<open>ProofNode\<close> is reached from a leaf along the \<open>Parent\<close> pointers, and each node on the way but the
  root has exactly one sibling. The model keeps, for a leaf, its hash and the siblings met on the way
  up, nearest first; linking two subtrees under a new root adds one sibling at the end of each.
\<close>

datatype sibling = LeftSib (sib_hash: bytes) | RightSib (sib_hash: bytes)

record ProofNode =
  node_Hash :: bytes
  node_up :: "sibling list"

definition FlattenAunts :: "ProofNode \<Rightarrow> bytes list" where
  "FlattenAunts spn = map sib_hash (node_up spn)"

definition link :: "sibling \<Rightarrow> ProofNode \<Rightarrow> ProofNode" where
  "link s n = n\<lparr>node_up := node_up n @ [s]\<rparr>"

function trailsFromByteSlices :: "(bytes \<Rightarrow> bytes) \<Rightarrow> bytes list \<Rightarrow> ProofNode list \<times> bytes" where
  "trailsFromByteSlices sha items =
     (if length items = 0 then ([], emptyHash sha)
      else if length items = 1
      then ([\<lparr>node_Hash = leafHash sha (hd items), node_up = []\<rparr>], leafHash sha (hd items))
      else let k = split_len items;
               (lefts, leftRoot) = trailsFromByteSlices sha (take k items);
               (rights, rightRoot) = trailsFromByteSlices sha (drop k items)
           in (map (link (RightSib rightRoot)) lefts @ map (link (LeftSib leftRoot)) rights,
               innerHash sha leftRoot rightRoot))"
  by pat_completeness auto
termination
  by (relation "measure (\<lambda>(_, xs). length xs)") (auto simp: split_len_decreases)

declare trailsFromByteSlices.simps [simp del]

definition ProofsFromByteSlices :: "(bytes \<Rightarrow> bytes) \<Rightarrow> bytes list \<Rightarrow> bytes \<times> Proof list" where
  "ProofsFromByteSlices sha items =
     (let (trails, rootHash) = trailsFromByteSlices sha items
      in (rootHash,
          map (\<lambda>(i, trail). \<lparr>proof_Total = int (length items), proof_Index = int i,
                             LeafHash = node_Hash trail, Aunts = FlattenAunts trail\<rparr>)
            (enumerate 0 trails)))"

text \<open>The case \<open>total = 0\<close> of the switch is unreachable behind the first check.\<close>

function computeHashFromAunts :: "(bytes \<Rightarrow> bytes) \<Rightarrow> int \<Rightarrow> int \<Rightarrow> bytes \<Rightarrow> bytes list \<Rightarrow> merkle_error + bytes" where
  "computeHashFromAunts sha index tot leaf innerHashes =
     (if index \<ge> tot \<or> index < 0 \<or> tot \<le> 0 then Inl ErrIndexTotal
      else if tot = 1 then (if length innerHashes \<noteq> 0 then Inl ErrUnexpectedAunts else Inr leaf)
      else if length innerHashes = 0 then Inl ErrMissingAunts
      else let numLeft = split_point tot
           in if index < numLeft
              then res_bind (computeHashFromAunts sha index numLeft leaf (butlast innerHashes)) (\<lambda>leftHash.
                     Inr (innerHash sha leftHash (last innerHashes)))
              else res_bind (computeHashFromAunts sha (index - numLeft) (tot - numLeft) leaf (butlast innerHashes))
                     (\<lambda>rightHash. Inr (innerHash sha (last innerHashes) rightHash)))"
  by pat_completeness auto
termination
  by (relation "measure (\<lambda>(_, _, _, _, xs). length xs)") auto

declare computeHashFromAunts.simps [simp del]

definition ComputeRootHash :: "(bytes \<Rightarrow> bytes) \<Rightarrow> Proof \<Rightarrow> merkle_error + bytes" where
  "ComputeRootHash sha sp =
     computeHashFromAunts sha (proof_Index sp) (proof_Total sp) (LeafHash sp) (Aunts sp)"

definition Proof_Verify :: "(bytes \<Rightarrow> bytes) \<Rightarrow> Proof \<Rightarrow> bytes \<Rightarrow> bytes \<Rightarrow> merkle_error + unit" where
  "Proof_Verify sha sp rootHash leaf =
     (if proof_Total sp < 0 then Inl ErrNegativeTotal
      else if proof_Index sp < 0 then Inl ErrNegativeIndex
      else if LeafHash sp \<noteq> leafHash sha leaf then Inl ErrLeafHash
      else res_bind (ComputeRootHash sha sp) (\<lambda>computedHash.
             if computedHash \<noteq> rootHash then Inl ErrRootHash else Inr ()))"

definition Proof_ValidateBasic :: "Proof \<Rightarrow> merkle_error + unit" where
  "Proof_ValidateBasic sp =
     (if proof_Total sp < 0 then Inl ErrNegativeTotal
      else if proof_Index sp < 0 then Inl ErrNegativeIndex
      else if length (LeafHash sp) \<noteq> hash_size then Inl ErrLeafHashSize
      else if length (Aunts sp) > MaxAunts then Inl ErrTooManyAunts
      else if \<exists>a \<in> set (Aunts sp). length a \<noteq> hash_size then Inl ErrAuntSize
      else Inr ())"

text \<open>The protobuf message has the fields of the proof.\<close>

definition Proof_ToProto :: "Proof option \<Rightarrow> Proof option" where
  "Proof_ToProto sp = map_option (\<lambda>sp. \<lparr>proof_Total = proof_Total sp, proof_Index = proof_Index sp,
                                     LeafHash = LeafHash sp, Aunts = Aunts sp\<rparr>) sp"

definition ProofFromProto :: "Proof option \<Rightarrow> merkle_error + Proof" where
  "ProofFromProto pb =
     (case pb of
        None \<Rightarrow> Inl ErrNilProof
      | Some pb \<Rightarrow>
          let sp = \<lparr>proof_Total = proof_Total pb, proof_Index = proof_Index pb,
                    LeafHash = LeafHash pb, Aunts = Aunts pb\<rparr>
          in res_bind (Proof_ValidateBasic sp) (\<lambda>_. Inr sp))"


section \<open>The iterative root\<close>

function tree_hash :: "(bytes \<Rightarrow> bytes) \<Rightarrow> bytes list \<Rightarrow> bytes" where
  "tree_hash sha ls =
     (if ls = [] \<or> length ls = 1 then hd ls
      else innerHash sha (tree_hash sha (take (split_len ls) ls)) (tree_hash sha (drop (split_len ls) ls)))"
  by pat_completeness auto
termination
  by (relation "measure (\<lambda>(_, xs). length xs)") (auto simp: split_len_decreases)

declare tree_hash.simps [simp del]

lemma tree_hash_single [simp]: "tree_hash sha [x] = x"
  by (simp add: tree_hash.simps)

lemma tree_hash_split:
  "2 \<le> length ls \<Longrightarrow>
   tree_hash sha ls = innerHash sha (tree_hash sha (take (split_len ls) ls)) (tree_hash sha (drop (split_len ls) ls))"
  by (subst tree_hash.simps) auto

lemma split_len_map [simp]: "split_len (map f xs) = split_len xs"
  by (simp add: split_len_def)

lemma hashFromByteSlices_tree:
  "hashFromByteSlices sha items = (if items = [] then emptyHash sha else tree_hash sha (map (leafHash sha) items))"
proof (induction sha items rule: hashFromByteSlices.induct)
  case (1 sha items)
  show ?case
  proof (cases "items = [] \<or> length items = 1")
    case True
    then show ?thesis
      by (subst hashFromByteSlices.simps) (cases items; auto)
  next
    case False
    then have l: "2 \<le> length items" by (cases items) (auto simp: Suc_le_eq)
    note b = split_len_bounds [OF l]
    have "take (split_len items) items \<noteq> []" "drop (split_len items) items \<noteq> []" using b l by auto
    then show ?thesis using 1 False l b
      by (subst hashFromByteSlices.simps) (simp add: Let_def tree_hash_split [of "map (leafHash sha) items"] take_map drop_map)
  qed
qed

fun pairs :: "(bytes \<Rightarrow> bytes) \<Rightarrow> bytes list \<Rightarrow> bytes list" where
  "pairs sha (x # y # r) = innerHash sha x y # pairs sha r"
| "pairs sha xs = xs"

lemma length_pairs [simp]: "length (pairs sha xs) = (length xs + 1) div 2"
  by (induction sha xs rule: pairs.induct) auto

lemma pairs_append: "even (length xs) \<Longrightarrow> pairs sha (xs @ ys) = pairs sha xs @ pairs sha ys"
  by (induction sha xs rule: pairs.induct) auto

lemma split_len_pow:
  assumes "2 \<le> length xs"
  shows "\<exists>j. split_len xs = 2 ^ j \<and> 2 ^ j < length xs \<and> length xs \<le> 2 * 2 ^ j"
proof -
  have "2 \<le> int (length xs)" using assms by simp
  then obtain j where j: "split_point (int (length xs)) = 2 ^ j" "2 ^ j < int (length xs)" "int (length xs) \<le> 2 * 2 ^ j"
    using split_point_pow by blast
  have "int (2 ^ j) < int (length xs)" "int (length xs) \<le> int (2 * 2 ^ j)" using j by simp_all
  then have "2 ^ j < length xs" "length xs \<le> 2 * 2 ^ j" by linarith+
  then show ?thesis using j(1) by (auto simp: split_len_def nat_power_eq)
qed

lemma split_len_eqI:
  assumes "2 ^ j < length xs" and "length xs \<le> 2 * 2 ^ j"
  shows "split_len xs = 2 ^ j"
proof -
  have "2 \<le> length xs" using assms(1) one_le_power [of "2 :: nat" j] by linarith
  then obtain i where i: "split_len xs = 2 ^ i" "2 ^ i < length xs" "length xs \<le> 2 * 2 ^ i"
    using split_len_pow by blast
  have "(2::nat) ^ i < 2 ^ Suc j" "(2::nat) ^ j < 2 ^ Suc i" using assms i by simp_all
  then have "i < Suc j" "j < Suc i" by (simp_all only: power_strict_increasing_iff)
  then show ?thesis using i by simp
qed

lemma tree_hash_pairs: "2 \<le> length ls \<Longrightarrow> tree_hash sha (pairs sha ls) = tree_hash sha ls"
proof (induction ls rule: length_induct)
  case (1 ls)
  obtain j where j: "split_len ls = 2 ^ j" "2 ^ j < length ls" "length ls \<le> 2 * 2 ^ j"
    using split_len_pow [OF 1(2)] by blast
  let ?l = "take (2 ^ j) ls" and ?r = "drop (2 ^ j) ls"
  show ?case
  proof (cases j)
    case 0
    then have "length ls = 2" using j 1(2) by simp
    then obtain a b where "ls = [a, b]" by (auto simp: length_Suc_conv numeral_2_eq_2)
    then show ?thesis using j 0 by (simp add: tree_hash_split [of "[a, b]"])
  next
    case (Suc i)
    have two: "2 \<le> (2::nat) ^ j" using Suc one_le_power [of "2 :: nat" i] by simp
    have ll: "length ?l = 2 ^ j" using j by simp
    have p: "pairs sha ls = pairs sha ?l @ pairs sha ?r"
      using pairs_append [of ?l sha ?r] ll Suc by simp
    have lp: "length (pairs sha ?l) = 2 ^ i" using ll Suc by simp
    have "split_len (pairs sha ls) = 2 ^ i"
      by (rule split_len_eqI) (use j Suc in simp_all)
    moreover have "2 \<le> length (pairs sha ls)" using j(2) two by simp
    ultimately have "tree_hash sha (pairs sha ls) = innerHash sha (tree_hash sha (pairs sha ?l)) (tree_hash sha (pairs sha ?r))"
      using lp by (subst tree_hash_split) (simp_all add: p)
    moreover have "tree_hash sha (pairs sha ?l) = tree_hash sha ?l"
      using 1(1) two ll j(2) by auto
    moreover have "tree_hash sha (pairs sha ?r) = tree_hash sha ?r"
    proof (cases "length ?r = 1")
      case True
      then obtain x where "?r = [x]" by (cases ?r) auto
      then show ?thesis by simp
    next
      case False
      then have "2 \<le> length ?r" "length ?r < length ls" using j(2) two by auto
      then show ?thesis using 1(1) by blast
    qed
    ultimately show ?thesis using tree_hash_split [OF 1(2)] j(1) by simp
  qed
qed

lemma iter_pass_pairs:
  assumes "wp \<le> rp" and "sz \<le> length items"
  shows "length (fst (iter_pass sha items sz rp wp)) = length items
    \<and> take (snd (iter_pass sha items sz rp wp)) (fst (iter_pass sha items sz rp wp))
        = take wp items @ pairs sha (drop rp (take sz items))"
  using assms
proof (induction sha items sz rp wp rule: iter_pass.induct)
  case (1 sha items sz rp wp)
  consider "rp + 1 < sz" | "rp + 1 = sz" | "sz \<le> rp" by linarith
  then show ?case
  proof cases
    case 1
    then have "drop rp (take sz items) = items ! rp # items ! (rp + 1) # drop (rp + 2) (take sz items)"
      using "1.prems" by (simp add: Cons_nth_drop_Suc [symmetric])
    then show ?thesis using 1 "1.IH"(1) "1.prems"
      by (subst (1 2 3) iter_pass.simps) (simp add: take_Suc_conv_app_nth drop_take)
  next
    case 2
    then have "drop rp (take sz items) = [items ! rp]"
      using "1.prems" by (simp add: Cons_nth_drop_Suc [symmetric])
    then show ?thesis using 2 "1.IH"(2) "1.prems"
      by (subst (1 2 3) iter_pass.simps) (simp add: take_Suc_conv_app_nth drop_take)
  next
    case 3
    then show ?thesis using "1.prems" by (subst (1 2 3) iter_pass.simps) simp
  qed
qed

lemma iter_loop_tree:
  "0 < sz \<Longrightarrow> sz \<le> length items \<Longrightarrow> iter_loop sha items sz = tree_hash sha (take sz items)"
proof (induction sha items sz rule: iter_loop.induct)
  case (1 sha items sz)
  show ?case
  proof (cases "sz = 1")
    case True
    then have "take sz items = [items ! 0]" using 1(3) by (cases items) auto
    then show ?thesis using True by (subst iter_loop.simps) simp
  next
    case False
    let ?r = "iter_pass sha items sz 0 0"
    have s: "snd ?r = (sz + 1) div 2" by (simp add: iter_pass_size)
    have p: "length (fst ?r) = length items" "take (snd ?r) (fst ?r) = pairs sha (take sz items)"
      using iter_pass_pairs [of 0 0 sz items sha] 1(3) by auto
    have "0 < snd ?r" "snd ?r \<le> length (fst ?r)" using s p 1(2,3) False by auto
    then have "iter_loop sha (fst ?r) (snd ?r) = tree_hash sha (pairs sha (take sz items))"
      using 1(1) [of ?r] 1(2) False p by simp
    moreover have "iter_loop sha items sz = iter_loop sha (fst ?r) (snd ?r)"
      using 1(2) False by (subst iter_loop.simps) (simp add: Let_def)
    ultimately show ?thesis using tree_hash_pairs [of "take sz items" sha] 1(2,3) False by simp
  qed
qed

text \<open>
  C19: The iterative Merkle root, which merges pairs of hashes in place level by level, equals the
  recursive one, which splits at the largest power of two, for every list of items.\<close>

theorem HashFromByteSlicesIterative_eq:
  "HashFromByteSlicesIterative sha items = HashFromByteSlices sha items"
proof (cases "items = []")
  case True
  then show ?thesis
    by (simp add: HashFromByteSlicesIterative_def HashFromByteSlices_def hashFromByteSlices_tree iter_loop.simps)
next
  case False
  then show ?thesis
    by (simp add: HashFromByteSlicesIterative_def HashFromByteSlices_def hashFromByteSlices_tree iter_loop_tree)
qed


section \<open>Proofs bind their items\<close>

lemma split_point_len: "2 \<le> length xs \<Longrightarrow> split_point (int (length xs)) = int (split_len xs)"
  using split_point_bounds [of "int (length xs)"] by (simp add: split_len_def)

lemma hashFromByteSlices_split:
  "2 \<le> length items \<Longrightarrow>
   hashFromByteSlices sha items = innerHash sha (hashFromByteSlices sha (take (split_len items) items))
                                    (hashFromByteSlices sha (drop (split_len items) items))"
  by (subst hashFromByteSlices.simps) (auto simp: Let_def)

lemma computeHash_split:
  assumes "2 \<le> length items" and "0 \<le> i" and "i < int (length items)"
  shows "computeHashFromAunts sha i (int (length items)) leaf as =
    (if as = [] then Inl ErrMissingAunts
     else if i < int (split_len items)
     then res_bind (computeHashFromAunts sha i (int (length (take (split_len items) items))) leaf (butlast as))
            (\<lambda>h. Inr (innerHash sha h (last as)))
     else res_bind (computeHashFromAunts sha (i - int (split_len items)) (int (length (drop (split_len items) items)))
                      leaf (butlast as)) (\<lambda>h. Inr (innerHash sha (last as) h)))"
proof -
  have ne: "items \<noteq> []" using assms(3) assms(2) by auto
  then show ?thesis using assms split_len_bounds [OF assms(1)] split_point_len [OF assms(1)]
    by (subst computeHashFromAunts.simps) (simp add: Let_def of_nat_diff)
qed

lemma trails_split:
  assumes "2 \<le> length items"
    and "trailsFromByteSlices sha (take (split_len items) items) = (ls, lr)"
    and "trailsFromByteSlices sha (drop (split_len items) items) = (rs, rr)"
  shows "trailsFromByteSlices sha items
      = (map (link (RightSib rr)) ls @ map (link (LeftSib lr)) rs, innerHash sha lr rr)"
  using assms by (subst trailsFromByteSlices.simps) (auto simp: Let_def)

lemma trails_root: "snd (trailsFromByteSlices sha items) = hashFromByteSlices sha items"
proof (induction sha items rule: trailsFromByteSlices.induct)
  case (1 sha items)
  then show ?case
    by (subst trailsFromByteSlices.simps, subst hashFromByteSlices.simps)
       (auto simp: Let_def split: prod.splits)
qed

lemma trails_length: "length (fst (trailsFromByteSlices sha items)) = length items"
proof (induction sha items rule: trailsFromByteSlices.induct)
  case (1 sha items)
  then show ?case
    by (subst trailsFromByteSlices.simps) (auto simp: Let_def split: prod.splits)
qed

lemma trails_verify:
  assumes "i < length items"
  shows "node_Hash (fst (trailsFromByteSlices sha items) ! i) = leafHash sha (items ! i)
    \<and> computeHashFromAunts sha (int i) (int (length items)) (leafHash sha (items ! i))
        (FlattenAunts (fst (trailsFromByteSlices sha items) ! i)) = Inr (hashFromByteSlices sha items)"
  using assms
proof (induction sha items arbitrary: i rule: trailsFromByteSlices.induct)
  case (1 sha items)
  show ?case
  proof (cases "length items = 1")
    case True
    then obtain x where "items = [x]" by (cases items) auto
    then show ?thesis using 1(3)
      by (simp add: trailsFromByteSlices.simps hashFromByteSlices.simps computeHashFromAunts.simps FlattenAunts_def)
  next
    case False
    with 1(3) have two: "2 \<le> length items" and ne: "length items \<noteq> 0" by linarith+
    let ?k = "split_len items"
    obtain ls lr where L: "trailsFromByteSlices sha (take ?k items) = (ls, lr)" by fastforce
    obtain rs rr where R: "trailsFromByteSlices sha (drop ?k items) = (rs, rr)" by fastforce
    note k = split_len_bounds [OF two] and T = trails_split [OF two L R] and H = hashFromByteSlices_split [OF two, of sha]
    have len: "length ls = ?k" "length rs = length items - ?k"
      using trails_length [of sha "take ?k items"] trails_length [of sha "drop ?k items"] L R k by auto
    have rt: "hashFromByteSlices sha (take ?k items) = lr" "hashFromByteSlices sha (drop ?k items) = rr"
      using trails_root [of sha "take ?k items"] trails_root [of sha "drop ?k items"] L R by auto
    show ?thesis
    proof (cases "i < ?k")
      case True
      then show ?thesis using 1(1) [OF ne False refl, of i] 1(3) len L rt k
        by (simp add: computeHash_split [OF two] T H nth_append link_def FlattenAunts_def)
    next
      case F: False
      then show ?thesis using 1(2) [OF ne False refl, of _ ls lr "i - ?k"] 1(3) len L R rt k
        by (simp add: computeHash_split [OF two] T H nth_append link_def FlattenAunts_def of_nat_diff)
    qed
  qed
qed

text \<open>The inputs of \<open>sha\<close> when a root is computed and when a proof is verified.\<close>

function tree_inputs :: "(bytes \<Rightarrow> bytes) \<Rightarrow> bytes list \<Rightarrow> bytes set" where
  "tree_inputs sha items =
     (if length items = 0 then {[]}
      else if length items = 1 then {0 # hd items}
      else let l = take (split_len items) items; r = drop (split_len items) items
           in insert (1 # hashFromByteSlices sha l @ hashFromByteSlices sha r) (tree_inputs sha l \<union> tree_inputs sha r))"
  by pat_completeness auto
termination
  by (relation "measure (\<lambda>(_, xs). length xs)") (auto simp: split_len_decreases)

declare tree_inputs.simps [simp del]

function path_inputs :: "(bytes \<Rightarrow> bytes) \<Rightarrow> int \<Rightarrow> int \<Rightarrow> bytes \<Rightarrow> bytes list \<Rightarrow> bytes set" where
  "path_inputs sha index tot leaf as =
     (if index \<ge> tot \<or> index < 0 \<or> tot \<le> 1 \<or> as = [] then {0 # leaf}
      else let numLeft = split_point tot
           in if index < numLeft
              then (case computeHashFromAunts sha index numLeft (leafHash sha leaf) (butlast as) of
                      Inl _ \<Rightarrow> {}
                    | Inr h \<Rightarrow> insert (1 # h @ last as) (path_inputs sha index numLeft leaf (butlast as)))
              else (case computeHashFromAunts sha (index - numLeft) (tot - numLeft) (leafHash sha leaf) (butlast as) of
                      Inl _ \<Rightarrow> {}
                    | Inr h \<Rightarrow> insert (1 # last as @ h) (path_inputs sha (index - numLeft) (tot - numLeft) leaf (butlast as))))"
  by pat_completeness auto
termination
  by (relation "measure (\<lambda>(_, _, _, _, xs). length xs)") auto

declare path_inputs.simps [simp del]

definition verify_inputs :: "(bytes \<Rightarrow> bytes) \<Rightarrow> Proof \<Rightarrow> bytes \<Rightarrow> bytes set" where
  "verify_inputs sha sp leaf = path_inputs sha (proof_Index sp) (proof_Total sp) leaf (Aunts sp)"

definition collide :: "('a \<Rightarrow> 'b) \<Rightarrow> 'a set \<Rightarrow> 'a set \<Rightarrow> bool" where
  "collide f A B \<longleftrightarrow> (\<exists>x \<in> A. \<exists>y \<in> B. x \<noteq> y \<and> f x = f y)"

lemma collide_mono: "collide f A B \<Longrightarrow> A \<subseteq> A' \<Longrightarrow> B \<subseteq> B' \<Longrightarrow> collide f A' B'"
  by (auto simp: collide_def)

lemma collideI: "f x = f y \<Longrightarrow> x \<in> A \<Longrightarrow> y \<in> B \<Longrightarrow> x = y \<or> collide f A B"
  by (auto simp: collide_def)

lemma hash_lengths:
  assumes "\<And>x. length (sha x) = n"
  shows "length (leafHash sha x) = n" and "length (hashFromByteSlices sha items) = n"
    and "computeHashFromAunts sha i t (leafHash sha x) as = Inr h \<Longrightarrow> length h = n"
proof -
  show l: "length (leafHash sha x) = n" by (simp add: leafHash_def assms)
  show "length (hashFromByteSlices sha items) = n"
    by (subst hashFromByteSlices.simps) (simp add: Let_def assms emptyHash_def leafHash_def innerHash_def)
  show "computeHashFromAunts sha i t (leafHash sha x) as = Inr h \<Longrightarrow> length h = n"
    by (subst (asm) computeHashFromAunts.simps)
       (auto simp: Let_def l assms innerHash_def res_bind_Inr_iff split: if_splits)
qed

lemma inner_binds:
  assumes "innerHash sha a b = innerHash sha c d" and "length a = length c"
    and "1 # a @ b \<in> A" and "1 # c @ d \<in> B"
  shows "a = c \<and> b = d \<or> collide sha A B"
  using collideI [of sha "1 # a @ b" "1 # c @ d"] assms by (auto simp: innerHash_def)

lemma path_inputs_split:
  assumes "2 \<le> length items" and "0 \<le> i" and "i < int (length items)" and "as \<noteq> []"
  shows "i < int (split_len items) \<Longrightarrow>
      computeHashFromAunts sha i (int (length (take (split_len items) items))) (leafHash sha leaf) (butlast as) = Inr h \<Longrightarrow>
      path_inputs sha i (int (length items)) leaf as = insert (1 # h @ last as)
        (path_inputs sha i (int (length (take (split_len items) items))) leaf (butlast as))"
    and "int (split_len items) \<le> i \<Longrightarrow>
      computeHashFromAunts sha (i - int (split_len items)) (int (length (drop (split_len items) items))) (leafHash sha leaf)
        (butlast as) = Inr h \<Longrightarrow>
      path_inputs sha i (int (length items)) leaf as = insert (1 # last as @ h)
        (path_inputs sha (i - int (split_len items)) (int (length (drop (split_len items) items))) leaf (butlast as))"
  using assms split_len_bounds [OF assms(1)] split_point_len [OF assms(1)]
  by (subst path_inputs.simps; simp add: Let_def of_nat_diff)+

lemma tree_inputs_split:
  "2 \<le> length items \<Longrightarrow>
   tree_inputs sha items = insert (1 # hashFromByteSlices sha (take (split_len items) items)
       @ hashFromByteSlices sha (drop (split_len items) items))
     (tree_inputs sha (take (split_len items) items) \<union> tree_inputs sha (drop (split_len items) items))"
  by (subst tree_inputs.simps) (auto simp: Let_def)

lemma computeHash_binds:
  assumes "\<forall>x. length (sha x) = 32"
    and "computeHashFromAunts sha i (int (length items)) (leafHash sha leaf) as = Inr (hashFromByteSlices sha items)"
    and "\<forall>a \<in> set as. length a = 32"
  shows "0 \<le> i \<and> i < int (length items)
    \<and> (leaf = items ! nat i \<or> collide sha (path_inputs sha i (int (length items)) leaf as) (tree_inputs sha items))"
  using assms
proof (induction sha items arbitrary: i as rule: hashFromByteSlices.induct)
  case (1 sha items)
  note c = 1(4)
  have sha: "\<And>x. length (sha x) = 32" using 1(3) by simp
  have i: "0 \<le> i" "i < int (length items)"
    using c by (subst (asm) computeHashFromAunts.simps, auto split: if_splits)+
  show ?case
  proof (cases "length items = 1")
    case True
    then obtain x where x: "items = [x]" by (cases items) auto
    have "sha (0 # leaf) = sha (0 # x)"
      using c x by (subst (asm) computeHashFromAunts.simps)
        (auto simp: hashFromByteSlices.simps leafHash_def split: if_splits)
    then have "0 # leaf = 0 # x \<or> collide sha {0 # leaf} {0 # x}" by (rule collideI) auto
    then show ?thesis using x i by (auto simp: path_inputs.simps tree_inputs.simps)
  next
    case False
    with i have two: "2 \<le> length items" and ne: "length items \<noteq> 0" by linarith+
    let ?k = "split_len items"
    let ?l = "take ?k items" and ?r = "drop ?k items" and ?P = "path_inputs sha i (int (length items)) leaf as"
    note k = split_len_bounds [OF two] and c' = c [unfolded computeHash_split [OF two i] hashFromByteSlices_split [OF two, of sha]]
    note TI = tree_inputs_split [OF two, of sha]
    have as: "as \<noteq> []" "\<forall>a \<in> set (butlast as). length a = 32" "length (last as) = 32"
      using 1(5) c' by (auto dest: in_set_butlastD split: if_splits)
    show ?thesis
    proof (cases "i < int ?k")
      case True
      then obtain h where h: "computeHashFromAunts sha i (int (length ?l)) (leafHash sha leaf) (butlast as) = Inr h"
        and e: "innerHash sha h (last as) = innerHash sha (hashFromByteSlices sha ?l) (hashFromByteSlices sha ?r)"
        using c' as by (auto simp: res_bind_Inr_iff)
      note P = path_inputs_split(1) [OF two i as(1) True h]
      have "h = hashFromByteSlices sha ?l \<or> collide sha ?P (tree_inputs sha items)"
        using inner_binds [OF e, of ?P "tree_inputs sha items"] hash_lengths(3) [OF sha h] hash_lengths(2) [OF sha]
        by (auto simp: P TI)
      then show ?thesis using 1(1) [OF ne False refl, of i "butlast as"] h as k i 1(3) True
        by (auto simp: P TI intro: collide_mono)
    next
      case F: False
      then obtain h where h: "computeHashFromAunts sha (i - int ?k) (int (length ?r)) (leafHash sha leaf) (butlast as) = Inr h"
        and e: "innerHash sha (last as) h = innerHash sha (hashFromByteSlices sha ?l) (hashFromByteSlices sha ?r)"
        using c' as by (auto simp: res_bind_Inr_iff)
      have F': "int ?k \<le> i" using F by simp
      note P = path_inputs_split(2) [OF two i as(1) F' h]
      have "h = hashFromByteSlices sha ?r \<or> collide sha ?P (tree_inputs sha items)"
        using inner_binds [OF e, of ?P "tree_inputs sha items"] as hash_lengths(2) [OF sha]
        by (auto simp: P TI)
      moreover have "?r ! nat (i - int ?k) = items ! nat i" using F i k by (simp add: nat_diff_distrib)
      ultimately show ?thesis using 1(2) [OF ne False refl, of "i - int ?k" "butlast as"] h as k i 1(3) F
        by (auto simp: P TI intro: collide_mono)
    qed
  qed
qed


text \<open>Equal roots come from equal lists, whatever their lengths, or from a collision.\<close>

lemma hashFromByteSlices_binds:
  assumes "\<forall>x. length (sha x) = 32" and "hashFromByteSlices sha xs = hashFromByteSlices sha ys"
  shows "xs = ys \<or> collide sha (tree_inputs sha xs) (tree_inputs sha ys)"
  using assms
proof (induction sha xs arbitrary: ys rule: hashFromByteSlices.induct)
  case (1 sha xs)
  note eq = 1(4)
  let ?k = "split_len xs" and ?m = "split_len ys"
  have sha: "\<And>x. length (sha x) = 32" using 1(3) by simp
  define shape where "shape zs = (if length zs = 0 then [] else if length zs = 1 then 0 # hd zs
    else 1 # hashFromByteSlices sha (take (split_len zs) zs) @ hashFromByteSlices sha (drop (split_len zs) zs))" for zs
  have h: "hashFromByteSlices sha zs = sha (shape zs)" for zs
    unfolding shape_def by (subst hashFromByteSlices.simps) (simp add: Let_def emptyHash_def leafHash_def innerHash_def)
  have mem: "shape zs \<in> tree_inputs sha zs" for zs
    unfolding shape_def by (subst tree_inputs.simps) (auto simp: Let_def)
  consider "shape xs = shape ys" | "collide sha (tree_inputs sha xs) (tree_inputs sha ys)"
    using collideI [OF _ mem [of xs] mem [of ys]] eq h by auto
  then show ?case
  proof cases
    case 1
    consider "length xs = 0" | "length xs = 1" | "2 \<le> length xs" by linarith
    then show ?thesis
    proof cases
      case 3
      then have ly: "length ys \<noteq> 0" "length ys \<noteq> 1" and ne: "length xs \<noteq> 0" "length xs \<noteq> 1" and
        l: "hashFromByteSlices sha (take ?k xs) = hashFromByteSlices sha (take ?m ys)" and
        r: "hashFromByteSlices sha (drop ?k xs) = hashFromByteSlices sha (drop ?m ys)"
        using \<open>shape xs = shape ys\<close> hash_lengths(2) [OF sha] unfolding shape_def by (auto split: if_splits)
      have two: "2 \<le> length ys" using ly by linarith
      from "1.IH"(1) [OF ne refl "1.prems"(1) l] "1.IH"(2) [OF ne refl "1.prems"(1) r]
      have "take ?k xs = take ?m ys \<and> drop ?k xs = drop ?m ys \<or> collide sha (tree_inputs sha xs) (tree_inputs sha ys)"
        unfolding tree_inputs_split [OF 3] tree_inputs_split [OF two] by (auto intro: collide_mono)
      then show ?thesis by (metis append_take_drop_id)
    qed (use 1 in \<open>auto simp: shape_def length_Suc_conv split: if_splits\<close>)
  qed blast
qed

lemma trails_depth:
  assumes "length items \<le> 2 ^ d" and "t \<in> set (fst (trailsFromByteSlices sha items))"
  shows "length (node_up t) \<le> d"
  using assms
proof (induction sha items arbitrary: t d rule: trailsFromByteSlices.induct)
  case (1 sha items)
  show ?case
  proof (cases "length items = 0 \<or> length items = 1")
    case True
    then show ?thesis using 1(4) by (subst (asm) trailsFromByteSlices.simps) (auto split: if_splits)
  next
    case False
    then have two: "2 \<le> length items" by linarith
    let ?k = "split_len items"
    obtain ls lr where L: "trailsFromByteSlices sha (take ?k items) = (ls, lr)" by fastforce
    obtain rs rr where R: "trailsFromByteSlices sha (drop ?k items) = (rs, rr)" by fastforce
    obtain j where j: "?k = 2 ^ j" "2 ^ j < length items" "length items \<le> 2 * 2 ^ j"
      using split_len_pow [OF two] by blast
    have "(2 :: nat) ^ j < 2 ^ d" using j(2) 1(3) by linarith
    then have "j < d" by (simp only: power_strict_increasing_iff)
    then obtain e where d: "d = Suc e" and e: "j \<le> e" by (cases d) auto
    have le: "(2 :: nat) ^ j \<le> 2 ^ e" using e by simp
    have "length (node_up u) \<le> e" if "u \<in> set ls \<union> set rs" for u
    proof -
      have "u \<in> set ls \<Longrightarrow> length (node_up u) \<le> e"
        using 1(1) [of ?k e u] False L j le by simp
      moreover have "u \<in> set rs \<Longrightarrow> length (node_up u) \<le> e"
      proof -
        assume u: "u \<in> set rs"
        have "length (drop ?k items) \<le> 2 ^ e" using j(1,3) le unfolding length_drop by linarith
        from 1(2) [OF _ _ refl L [symmetric] refl this] show ?thesis using u False R by simp
      qed
      ultimately show ?thesis using that by blast
    qed
    then show ?thesis using 1(4) by (auto simp: trails_split [OF two L R] link_def d)
  qed
qed

lemma trails_hash_size:
  assumes "\<And>x. length (sha x) = n" and "t \<in> set (fst (trailsFromByteSlices sha items))" and "h \<in> set (FlattenAunts t)"
  shows "length h = n"
  using assms
proof (induction sha items arbitrary: t h rule: trailsFromByteSlices.induct)
  case (1 sha items)
  show ?case
  proof (cases "length items = 0 \<or> length items = 1")
    case True
    then show ?thesis using 1(4,5)
      by (subst (asm) trailsFromByteSlices.simps) (auto simp: FlattenAunts_def split: if_splits)
  next
    case False
    then have two: "2 \<le> length items" by linarith
    let ?k = "split_len items"
    obtain ls lr where L: "trailsFromByteSlices sha (take ?k items) = (ls, lr)" by fastforce
    obtain rs rr where R: "trailsFromByteSlices sha (drop ?k items) = (rs, rr)" by fastforce
    have rt: "length lr = n" "length rr = n"
      using trails_root [of sha "take ?k items"] trails_root [of sha "drop ?k items"] L R hash_lengths(2) [OF 1(3)] by auto
    have "length g = n" if "u \<in> set ls" and "g \<in> set (FlattenAunts u)" for u g
      using 1(1) [of ?k u g] False L that 1(3) by simp
    moreover have "length g = n" if "u \<in> set rs" and "g \<in> set (FlattenAunts u)" for u g
      using 1(2) [of ?k _ ls lr u g] False L R that 1(3) by simp
    ultimately show ?thesis using 1(4,5) rt
      by (auto simp: trails_split [OF two L R] link_def FlattenAunts_def)
  qed
qed

lemma ProofsFromByteSlices_nth:
  assumes "ProofsFromByteSlices sha items = (root, proofs)"
  shows "root = hashFromByteSlices sha items" and "length proofs = length items"
    and "i < length items \<Longrightarrow>
      proofs ! i = \<lparr>proof_Total = int (length items), proof_Index = int i, LeafHash = leafHash sha (items ! i),
                    Aunts = FlattenAunts (fst (trailsFromByteSlices sha items) ! i)\<rparr>"
  using assms trails_root [of sha items] trails_length [of sha items] trails_verify [of i items sha]
  by (auto simp: ProofsFromByteSlices_def nth_enumerate_eq split: prod.splits)

lemma ProofsFromByteSlices_valid:
  assumes "\<forall>x. length (sha x) = 32" and "length items \<le> 2 ^ 100"
    and "ProofsFromByteSlices sha items = (root, proofs)" and i: "i < length items"
  shows "Proof_ValidateBasic (proofs ! i) = Inr ()"
proof -
  have sha: "\<And>x. length (sha x) = 32" using assms(1) by simp
  have t: "fst (trailsFromByteSlices sha items) ! i \<in> set (fst (trailsFromByteSlices sha items))"
    using i trails_length [of sha items] by simp
  show ?thesis
    using ProofsFromByteSlices_nth(3) [OF assms(3) i] trails_depth [OF assms(2) t] trails_hash_size [OF sha t]
      hash_lengths(1) [OF sha]
    by (auto simp: Proof_ValidateBasic_def FlattenAunts_def)
qed

lemma Proof_Verify_binds:
  assumes "\<forall>x. length (sha x) = 32" and "Proof_ValidateBasic sp = Inr ()" and "proof_Total sp = int (length items)"
    and "Proof_Verify sha sp (hashFromByteSlices sha items) leaf = Inr ()"
  shows "proof_Index sp < int (length items)
    \<and> (leaf = items ! nat (proof_Index sp) \<or> collide sha (verify_inputs sha sp leaf) (tree_inputs sha items))"
proof -
  have c: "computeHashFromAunts sha (proof_Index sp) (int (length items)) (leafHash sha leaf) (Aunts sp)
      = Inr (hashFromByteSlices sha items)"
    using assms(3,4) by (auto simp: Proof_Verify_def ComputeRootHash_def res_bind_Inr_iff split: if_splits)
  have a: "\<forall>a \<in> set (Aunts sp). length a = 32"
    using assms(2) by (auto simp: Proof_ValidateBasic_def split: if_splits)
  show ?thesis using computeHash_binds [OF assms(1) c a] assms(3) by (simp add: verify_inputs_def)
qed

text \<open>
  C18: Merkle proofs bind their items. The root returned with the proofs is the root of the items;
  the proof returned for each item passes \<open>ValidateBasic\<close> and verifies for that item; and a proof
  that passes \<open>ValidateBasic\<close>, is for as many items and verifies against the root has an index in
  range and is for the item at that index, unless an input hashed while verifying it collides with an
  input hashed while building the tree.\<close>

theorem merkle_proof_binds:
  assumes "\<forall>x. length (sha x) = 32" and "length items \<le> 2 ^ 100"
    and "ProofsFromByteSlices sha items = (root, proofs)"
  shows "root = HashFromByteSlices sha items \<and> length proofs = length items
    \<and> (\<forall>i < length items. Proof_ValidateBasic (proofs ! i) = Inr () \<and> Proof_Verify sha (proofs ! i) root (items ! i) = Inr ())
    \<and> (\<forall>sp leaf. Proof_ValidateBasic sp = Inr () \<and> proof_Total sp = int (length items)
          \<and> Proof_Verify sha sp root leaf = Inr () \<longrightarrow>
        proof_Index sp < int (length items)
        \<and> (leaf = items ! nat (proof_Index sp) \<or> collide sha (verify_inputs sha sp leaf) (tree_inputs sha items)))"
proof (intro conjI allI impI; (elim conjE)?)
  note p = ProofsFromByteSlices_nth [OF assms(3)]
  show "root = HashFromByteSlices sha items" "length proofs = length items"
    using p by (simp_all add: HashFromByteSlices_def)
  fix i assume i: "i < length items"
  show "Proof_ValidateBasic (proofs ! i) = Inr ()" by (rule ProofsFromByteSlices_valid [OF assms i])
  show "Proof_Verify sha (proofs ! i) root (items ! i) = Inr ()"
    using p(1) p(3) [OF i] trails_verify [OF i, of sha] by (simp add: Proof_Verify_def ComputeRootHash_def)
next
  fix sp leaf
  assume v: "Proof_ValidateBasic sp = Inr ()" and tot: "proof_Total sp = int (length items)"
    and "Proof_Verify sha sp root leaf = Inr ()"
  then have b: "proof_Index sp < int (length items)
      \<and> (leaf = items ! nat (proof_Index sp) \<or> collide sha (verify_inputs sha sp leaf) (tree_inputs sha items))"
    using Proof_Verify_binds [OF assms(1)] ProofsFromByteSlices_nth(1) [OF assms(3)] by blast
  then show "proof_Index sp < int (length items)" by blast
  show "leaf = items ! nat (proof_Index sp) \<or> collide sha (verify_inputs sha sp leaf) (tree_inputs sha items)"
    using b by blast
qed

definition ex_sha :: "bytes \<Rightarrow> bytes" where
  "ex_sha x = take 32 (x @ replicate 32 0)"

theorem merkle_proof_binds_witness:
  "(\<forall>x. length (ex_sha x) = 32)
   \<and> Proof_Verify ex_sha (snd (ProofsFromByteSlices ex_sha [[1], [2], [3]]) ! 2)
       (HashFromByteSlices ex_sha [[1], [2], [3]]) [3] = Inr ()"
proof -
  have sha: "\<forall>x. length (ex_sha x) = 32" by (auto simp: ex_sha_def min_def)
  have "length [[1], [2], [3] :: bytes] \<le> 2 ^ 100" by simp
  note b = merkle_proof_binds [OF sha this surjective_pairing]
  then have "\<forall>i < length [[1], [2], [3] :: bytes].
      Proof_Verify ex_sha (snd (ProofsFromByteSlices ex_sha [[1], [2], [3]]) ! i)
        (fst (ProofsFromByteSlices ex_sha [[1], [2], [3]])) ([[1], [2], [3]] ! i) = Inr ()"
    and "fst (ProofsFromByteSlices ex_sha [[1], [2], [3]]) = HashFromByteSlices ex_sha [[1], [2], [3]]"
    by blast+
  then show ?thesis using sha by (auto dest: spec [of _ 2])
qed

end
