(* ===== verification/Part_Set.thy ===== *)
theory Part_Set
  imports Merkle Bit_Array Votes
begin

text \<open>
  \<open>src/types/part_set.go\<close>: a serialized block cut into parts, each with a Merkle proof, and the set
  that collects the parts of a block under its header. SHA-256 is the parameter \<open>sha\<close> of \<open>Merkle\<close>.
  Numbers of type \<open>uint32\<close> are natural numbers with \<open>u32\<close> where the code computes with them. The
  lock of a part set is left out: each operation is one step under it.

  Results: the bookkeeping of a part set and that adding a part never panics; the parts cut from
  data assemble, in any order, to a set that reads back the data; a complete set whose proofs are for
  its number of parts reads back the data of its header; without that last condition, which the code
  does not check, a part is accepted in the slot of another one.
\<close>

section \<open>Definitions\<close>

definition u32 :: "nat \<Rightarrow> nat" where
  "u32 n = n mod 4294967296"

abbreviation (input) BlockPartSizeBytes :: nat where "BlockPartSizeBytes \<equiv> 65536"

datatype part_error =
    ErrPartTooBig | ErrPartProof merkle_error | ErrPartSetIndexMismatch | ErrPartSetUnexpectedIndex
  | ErrPartSetInvalidProof | ErrNilPart

subsection \<open>Parts\<close>

record Part =
  part_Index :: nat
  part_Bytes :: bytes
  part_Proof :: Proof

definition Part_ValidateBasic :: "Part \<Rightarrow> part_error + unit" where
  "Part_ValidateBasic part =
     (if length (part_Bytes part) > BlockPartSizeBytes then Inl ErrPartTooBig
      else case Proof_ValidateBasic (part_Proof part) of
             Inl e \<Rightarrow> Inl (ErrPartProof e)
           | Inr _ \<Rightarrow> if int (part_Index part) \<noteq> proof_Index (part_Proof part) then Inl ErrPartSetIndexMismatch
                    else Inr ())"

text \<open>The protobuf message has the fields of the part.\<close>

definition Part_ToProto :: "Part option \<Rightarrow> part_error + Part" where
  "Part_ToProto part =
     (case part of
        None \<Rightarrow> Inl ErrNilPart
      | Some p \<Rightarrow> Inr \<lparr>part_Index = part_Index p, part_Bytes = part_Bytes p,
                       part_Proof = the (Proof_ToProto (Some (part_Proof p)))\<rparr>)"

definition PartFromProto :: "Part option \<Rightarrow> part_error + Part" where
  "PartFromProto pb =
     (case pb of
        None \<Rightarrow> Inl ErrNilPart
      | Some pb \<Rightarrow>
          (case ProofFromProto (Some (part_Proof pb)) of
             Inl e \<Rightarrow> Inl (ErrPartProof e)
           | Inr prf \<Rightarrow>
               let part = \<lparr>part_Index = part_Index pb, part_Bytes = part_Bytes pb, part_Proof = prf\<rparr>
               in res_bind (Part_ValidateBasic part) (\<lambda>_. Inr part)))"

subsection \<open>Part sets\<close>

record PartSet =
  ps_total :: nat
  ps_hash :: bytes
  parts :: "Part option list"
  partsBitArray :: "BitArray option"
  ps_count :: nat
  byteSize :: int

text \<open>\<open>data[i*partSize : min(len(data), (i+1)*partSize)]\<close> with the products computed in \<open>uint32\<close>.\<close>

definition data_chunk :: "bytes \<Rightarrow> nat \<Rightarrow> nat \<Rightarrow> bytes exec" where
  "data_chunk data partSize i =
     (let lo = u32 (i * partSize); hi = min (length data) (u32 ((i + 1) * partSize))
      in if lo > hi then Panic else Ret (take (hi - lo) (drop lo data)))"

fun cut_loop :: "bytes \<Rightarrow> nat \<Rightarrow> nat list \<Rightarrow> BitArray option \<Rightarrow> (bytes list \<times> BitArray option) exec" where
  "cut_loop data partSize [] ba = Ret ([], ba)"
| "cut_loop data partSize (i # is) ba =
     exec_bind (data_chunk data partSize i) (\<lambda>c.
     exec_bind (SetIndex ba (int i) True) (\<lambda>(ba, _).
     exec_bind (cut_loop data partSize is ba) (\<lambda>(cs, ba).
       Ret (c # cs, ba))))"

definition NewPartSetFromData :: "(bytes \<Rightarrow> bytes) \<Rightarrow> bytes \<Rightarrow> nat \<Rightarrow> PartSet exec" where
  "NewPartSetFromData sha data partSize =
     (if partSize = 0 then Panic
      else let tot = u32 (u32 (length data) + partSize + 4294967295) div partSize
           in exec_bind (cut_loop data partSize [0..<tot] (NewBitArray (int tot))) (\<lambda>(partsBytes, ba).
              let (root, proofs) = ProofsFromByteSlices sha partsBytes
              in Ret \<lparr>ps_total = tot, ps_hash = root,
                      parts = map (\<lambda>(i, b, p). Some \<lparr>part_Index = i, part_Bytes = b, part_Proof = p\<rparr>)
                                (enumerate 0 (zip partsBytes proofs)),
                      partsBitArray = ba, ps_count = tot, byteSize = int (length data)\<rparr>))"

definition NewPartSetFromHeader :: "PartSetHeader \<Rightarrow> PartSet" where
  "NewPartSetFromHeader header =
     \<lparr>ps_total = Total header, ps_hash = psh_Hash header, parts = replicate (Total header) None,
      partsBitArray = NewBitArray (int (Total header)), ps_count = 0, byteSize = 0\<rparr>"

definition ps_Header :: "PartSet option \<Rightarrow> PartSetHeader" where
  "ps_Header ps =
     (case ps of None \<Rightarrow> \<lparr>Total = 0, psh_Hash = []\<rparr> | Some ps \<Rightarrow> \<lparr>Total = ps_total ps, psh_Hash = ps_hash ps\<rparr>)"

definition HasHeader :: "PartSet option \<Rightarrow> PartSetHeader \<Rightarrow> bool" where
  "HasHeader ps header = (case ps of None \<Rightarrow> False | Some _ \<Rightarrow> psh_Equals (ps_Header ps) header)"

definition ps_BitArray :: "PartSet \<Rightarrow> BitArray option" where
  "ps_BitArray ps = Copy (partsBitArray ps)"

definition ps_Hash :: "(bytes \<Rightarrow> bytes) \<Rightarrow> PartSet option \<Rightarrow> bytes" where
  "ps_Hash sha ps = (case ps of None \<Rightarrow> HashFromByteSlices sha [] | Some ps \<Rightarrow> ps_hash ps)"

definition ps_HashesTo :: "PartSet option \<Rightarrow> bytes \<Rightarrow> bool" where
  "ps_HashesTo ps h = (case ps of None \<Rightarrow> False | Some ps \<Rightarrow> ps_hash ps = h)"

definition ps_Count :: "PartSet option \<Rightarrow> nat" where
  "ps_Count ps = (case ps of None \<Rightarrow> 0 | Some ps \<Rightarrow> ps_count ps)"

definition ByteSize :: "PartSet option \<Rightarrow> int" where
  "ByteSize ps = (case ps of None \<Rightarrow> 0 | Some ps \<Rightarrow> byteSize ps)"

definition ps_Total :: "PartSet option \<Rightarrow> nat" where
  "ps_Total ps = (case ps of None \<Rightarrow> 0 | Some ps \<Rightarrow> ps_total ps)"

text \<open>The result is the set after the call and \<open>(added, error)\<close>; \<open>added\<close> is false with an error.\<close>

definition AddPart ::
  "(bytes \<Rightarrow> bytes) \<Rightarrow> PartSet option \<Rightarrow> Part \<Rightarrow> (PartSet option \<times> (part_error + bool)) exec" where
  "AddPart sha ps part =
     (case ps of
        None \<Rightarrow> Ret (None, Inr False)
      | Some s \<Rightarrow>
          if part_Index part \<ge> ps_total s then Ret (ps, Inl ErrPartSetUnexpectedIndex)
          else if int (part_Index part) \<noteq> proof_Index (part_Proof part) then Ret (ps, Inl ErrPartSetIndexMismatch)
          else exec_bind (go_index (parts s) (int (part_Index part))) (\<lambda>old.
            if old \<noteq> None then Ret (ps, Inr False)
            else if Proof_Verify sha (part_Proof part) (ps_Hash sha ps) (part_Bytes part) \<noteq> Inr ()
            then Ret (ps, Inl ErrPartSetInvalidProof)
            else exec_bind (SetIndex (partsBitArray s) (int (part_Index part)) True) (\<lambda>(ba, _).
              Ret (Some (s\<lparr>parts := (parts s)[part_Index part := Some part], partsBitArray := ba,
                          ps_count := u32 (ps_count s + 1),
                          byteSize := wrap64 (byteSize s + int (length (part_Bytes part)))\<rparr>), Inr True))))"

definition GetPart :: "PartSet \<Rightarrow> int \<Rightarrow> Part option exec" where
  "GetPart ps index = go_index (parts ps) index"

definition IsComplete :: "PartSet option \<Rightarrow> bool exec" where
  "IsComplete ps = (case ps of None \<Rightarrow> Panic | Some ps \<Rightarrow> Ret (ps_count ps = ps_total ps))"

subsection \<open>The reader\<close>

record PartSetReader =
  psr_i :: nat
  psr_parts :: "Part option list"
  psr_rest :: bytes

definition NewPartSetReader :: "Part option list \<Rightarrow> PartSetReader exec" where
  "NewPartSetReader ps =
     exec_bind (go_index ps 0) (\<lambda>p. case p of
       None \<Rightarrow> Panic
     | Some p \<Rightarrow> Ret \<lparr>psr_i = 0, psr_parts = ps, psr_rest = part_Bytes p\<rparr>)"

definition GetReader :: "PartSet \<Rightarrow> PartSetReader exec" where
  "GetReader ps =
     exec_bind (IsComplete (Some ps)) (\<lambda>c. if \<not> c then Panic else NewPartSetReader (parts ps))"

text \<open>
  A read into a buffer of \<open>n\<close> bytes returns the bytes read and whether the error is \<open>io.EOF\<close>. The
  current \<open>bytes.Reader\<close> is what is left of it; with nothing left it reports \<open>io.EOF\<close> even for an
  empty buffer.
\<close>

function psr_Read :: "PartSetReader \<Rightarrow> nat \<Rightarrow> (PartSetReader \<times> bytes \<times> bool) exec" where
  "psr_Read psr n =
     (let readerLen = length (psr_rest psr) in
      if readerLen \<ge> n then
        if readerLen = 0 then Ret (psr, [], True)
        else Ret (psr\<lparr>psr_rest := drop n (psr_rest psr)\<rparr>, take n (psr_rest psr), False)
      else if readerLen > 0 then
        exec_bind (psr_Read (psr\<lparr>psr_rest := []\<rparr>) (n - readerLen)) (\<lambda>(psr', b, eof).
          Ret (psr', psr_rest psr @ b, eof))
      else if psr_i psr + 1 \<ge> length (psr_parts psr) then Ret (psr\<lparr>psr_i := psr_i psr + 1\<rparr>, [], True)
      else case psr_parts psr ! (psr_i psr + 1) of
             None \<Rightarrow> Panic
           | Some p \<Rightarrow> psr_Read (psr\<lparr>psr_i := psr_i psr + 1, psr_rest := part_Bytes p\<rparr>) n)"
  by pat_completeness auto
termination
  by (relation "inv_image (less_than <*lex*> less_than)
        (\<lambda>(psr, _). (length (psr_parts psr) - psr_i psr, length (psr_rest psr)))") auto

declare psr_Read.simps [simp del]

text \<open>\<open>io.ReadAll\<close>: reads with buffers of some sizes until \<open>io.EOF\<close>; \<open>None\<close> is running out of sizes.\<close>

fun read_all :: "PartSetReader \<Rightarrow> nat list \<Rightarrow> bytes exec option" where
  "read_all psr [] = None"
| "read_all psr (n # ns) =
     (case psr_Read psr n of
        Panic \<Rightarrow> Some Panic
      | Ret (psr', b, eof) \<Rightarrow>
          if eof then Some (Ret b) else map_option (\<lambda>r. exec_bind r (\<lambda>b'. Ret (b @ b'))) (read_all psr' ns))"


section \<open>Bookkeeping\<close>

definition part_data :: "Part option \<Rightarrow> bytes" where
  "part_data p = (case p of None \<Rightarrow> [] | Some p \<Rightarrow> part_Bytes p)"

definition held :: "Part option list \<Rightarrow> bytes" where
  "held ps = concat (map part_data ps)"

definition present :: "Part option \<Rightarrow> bool" where
  "present p \<longleftrightarrow> p \<noteq> None"

definition part_ok :: "(bytes \<Rightarrow> bytes) \<Rightarrow> bytes \<Rightarrow> nat \<Rightarrow> Part \<Rightarrow> bool" where
  "part_ok sha root i p \<longleftrightarrow>
     part_Index p = i \<and> proof_Index (part_Proof p) = int i \<and> Proof_Verify sha (part_Proof p) root (part_Bytes p) = Inr ()"

definition ps_inv :: "(bytes \<Rightarrow> bytes) \<Rightarrow> PartSet \<Rightarrow> bool" where
  "ps_inv sha s \<longleftrightarrow>
     ps_total s < 4294967296 \<and> length (parts s) = ps_total s
     \<and> (ps_total s > 0 \<longrightarrow> ba_inv (partsBitArray s)) \<and> Size (partsBitArray s) = int (ps_total s)
     \<and> (\<forall>i < ps_total s. GetIndex (partsBitArray s) (int i) = Ret (parts s ! i \<noteq> None))
     \<and> ps_count s = length (filter present (parts s))
     \<and> byteSize s = wrap64 (int (length (held (parts s))))
     \<and> (\<forall>i < ps_total s. \<forall>p. parts s ! i = Some p \<longrightarrow> part_ok sha (ps_hash s) i p)"

lemma wrap64_wrap [simp]: "wrap64 (wrap64 a + b) = wrap64 (a + b)"
  by (simp add: wrap64_def mod_simps algebra_simps)

lemma length_held_update:
  "i < length ps \<Longrightarrow> ps ! i = None \<Longrightarrow>
   length (held (ps[i := Some p])) = length (held ps) + length (part_Bytes p)"
proof (induction ps arbitrary: i)
  case (Cons q ps)
  then show ?case by (cases i) (auto simp: held_def part_data_def)
qed simp

lemma count_update:
  "i < length ps \<Longrightarrow> ps ! i = None \<Longrightarrow>
   length (filter present (ps[i := Some p])) = Suc (length (filter present ps))"
proof (induction ps arbitrary: i)
  case (Cons q ps)
  then show ?case by (cases i) (auto simp: present_def)
qed simp

lemma count_less: "i < length ps \<Longrightarrow> ps ! i = None \<Longrightarrow> length (filter present ps) < length ps"
  by (metis count_update length_filter_le length_list_update less_eq_Suc_le)

lemma NewPartSetFromHeader_inv:
  assumes "Total header < 4294967296"
  shows "ps_inv sha (NewPartSetFromHeader header)"
proof (cases "Total header = 0")
  case True
  then show ?thesis by (simp add: ps_inv_def NewPartSetFromHeader_def NewBitArray_def Size_def held_def present_def)
next
  case False
  then obtain b where b: "NewBitArray (int (Total header)) = Some b" "valid_ba b" "Bits b = int (Total header)"
      "ba_set b = {}" "clean_ba b"
    using NewBitArray_valid [of "int (Total header)"] assms by auto
  have "held (replicate n None) = []" for n by (induction n) (auto simp: held_def part_data_def)
  then show ?thesis using b assms
    by (simp add: ps_inv_def NewPartSetFromHeader_def ba_inv_def Size_def GetIndex_def getIndex_valid present_def)
qed

definition accepts :: "(bytes \<Rightarrow> bytes) \<Rightarrow> PartSet \<Rightarrow> Part \<Rightarrow> bool" where
  "accepts sha s p \<longleftrightarrow> part_Index p < ps_total s \<and> parts s ! part_Index p = None \<and> part_ok sha (ps_hash s) (part_Index p) p"

lemma AddPart_spec:
  assumes inv: "ps_inv sha s"
  shows "\<exists>s' r. AddPart sha (Some s) p = Ret (Some s', r) \<and> ps_inv sha s'
    \<and> ps_Header (Some s') = ps_Header (Some s) \<and> (r = Inr True \<longleftrightarrow> accepts sha s p)
    \<and> parts s' = (if accepts sha s p then (parts s)[part_Index p := Some p] else parts s)
    \<and> (\<not> accepts sha s p \<longrightarrow> s' = s)"
proof (cases "accepts sha s p")
  case False
  then consider "ps_total s \<le> part_Index p" | "part_Index p < ps_total s" "proof_Index (part_Proof p) \<noteq> int (part_Index p)"
    | "part_Index p < ps_total s" "proof_Index (part_Proof p) = int (part_Index p)" "parts s ! part_Index p \<noteq> None"
    | "part_Index p < ps_total s" "proof_Index (part_Proof p) = int (part_Index p)" "parts s ! part_Index p = None"
      "Proof_Verify sha (part_Proof p) (ps_hash s) (part_Bytes p) \<noteq> Inr ()"
    unfolding accepts_def part_ok_def not_less [symmetric] by metis
  moreover have "length (parts s) = ps_total s" using inv by (simp add: ps_inv_def)
  ultimately have "\<exists>r. AddPart sha (Some s) p = Ret (Some s, r) \<and> r \<noteq> Inr True"
    by cases (simp_all add: AddPart_def go_index_def ps_Hash_def)
  then show ?thesis using inv False by auto
next
  case True
  let ?i = "part_Index p"
  have i: "?i < ps_total s" "parts s ! ?i = None" "part_ok sha (ps_hash s) ?i p" using True by (auto simp: accepts_def)
  have b: "ba_inv (partsBitArray s)" "int ?i < Size (partsBitArray s)" using inv i by (auto simp: ps_inv_def)
  obtain ba where ba: "SetIndex (partsBitArray s) (int ?i) True = Ret (ba, True)" "ba_inv ba"
      "Size ba = Size (partsBitArray s)" "GetIndex ba (int ?i) = Ret True"
      "\<forall>j \<ge> 0. j \<noteq> int ?i \<longrightarrow> GetIndex ba j = GetIndex (partsBitArray s) j"
    using ba.set_get [OF b(1) _ b(2), of True] by auto
  let ?s = "s\<lparr>parts := (parts s)[?i := Some p], partsBitArray := ba, ps_count := u32 (ps_count s + 1),
              byteSize := wrap64 (byteSize s + int (length (part_Bytes p)))\<rparr>"
  have "AddPart sha (Some s) p = Ret (Some ?s, Inr True)"
    using i inv ba by (auto simp: AddPart_def part_ok_def ps_inv_def go_index_def ps_Hash_def)
  moreover have "ps_inv sha ?s"
    using inv i ba count_less [of ?i "parts s"]
    by (auto simp: ps_inv_def u32_def count_update length_held_update nth_list_update)
  ultimately show ?thesis using True by (auto simp: ps_Header_def)
qed

inductive ps_reach :: "(bytes \<Rightarrow> bytes) \<Rightarrow> PartSetHeader \<Rightarrow> PartSet \<Rightarrow> bool" for sha header where
  ps_new: "ps_reach sha header (NewPartSetFromHeader header)"
| ps_add: "ps_reach sha header s \<Longrightarrow> AddPart sha (Some s) p = Ret (Some s', r) \<Longrightarrow> ps_reach sha header s'"

lemma ps_reach_inv:
  assumes "ps_reach sha header s" and "Total header < 4294967296"
  shows "ps_inv sha s \<and> ps_Header (Some s) = header"
  using assms(1)
proof (induction rule: ps_reach.induct)
  case ps_new
  show ?case using NewPartSetFromHeader_inv [OF assms(2)] by (simp add: ps_Header_def NewPartSetFromHeader_def)
next
  case (ps_add s p s' r)
  then show ?case using AddPart_spec [of sha s p] by auto
qed

lemma filter_all_length: "length (filter P xs) = length xs \<longleftrightarrow> (\<forall>x \<in> set xs. P x)"
  by (metis filter_True filter_id_conv length_filter_less less_irrefl)

lemma IsComplete_iff:
  assumes "ps_inv sha s"
  shows "IsComplete (Some s) = Ret (\<forall>i < ps_total s. parts s ! i \<noteq> None)"
proof -
  have l: "length (parts s) = ps_total s" and c: "ps_count s = length (filter present (parts s))"
    using assms by (simp_all add: ps_inv_def)
  have "ps_count s = ps_total s \<longleftrightarrow> (\<forall>p \<in> set (parts s). p \<noteq> None)"
    unfolding c l [symmetric] filter_all_length present_def ..
  then show ?thesis using l by (simp add: IsComplete_def all_set_conv_all_nth)
qed

section \<open>Reading\<close>

definition psr_rem :: "PartSetReader \<Rightarrow> bytes" where
  "psr_rem r = psr_rest r @ held (drop (psr_i r + 1) (psr_parts r))"

lemma psr_Read_spec:
  assumes "0 < n" and "\<forall>p \<in> set (psr_parts r). p \<noteq> None"
  shows "\<exists>r'. psr_Read r n = Ret (r', take n (psr_rem r), length (psr_rem r) < n)
    \<and> psr_rem r' = drop n (psr_rem r) \<and> psr_parts r' = psr_parts r"
  using assms
proof (induction r n rule: psr_Read.induct)
  case (1 r n)
  let ?L = "length (psr_rest r)"
  consider "n \<le> ?L" | "0 < ?L" "?L < n" | "?L = 0" "psr_i r + 1 \<ge> length (psr_parts r)"
    | "?L = 0" "psr_i r + 1 < length (psr_parts r)" by linarith
  then show ?case
  proof cases
    case 1
    then show ?thesis using "1.prems" by (subst psr_Read.simps) (auto simp: psr_rem_def)
  next
    case 2
    let ?r = "r\<lparr>psr_rest := []\<rparr>"
    have "\<exists>r'. psr_Read ?r (n - ?L) = Ret (r', take (n - ?L) (psr_rem ?r), length (psr_rem ?r) < n - ?L)
        \<and> psr_rem r' = drop (n - ?L) (psr_rem ?r) \<and> psr_parts r' = psr_parts r"
      using "1.IH"(1) [OF refl] 2 "1.prems" by simp
    then show ?thesis using 2 by (subst psr_Read.simps) (auto simp: psr_rem_def less_diff_conv2)
  next
    case 3
    then show ?thesis using "1.prems" by (subst psr_Read.simps) (auto simp: psr_rem_def held_def)
  next
    case 4
    then obtain p where p: "psr_parts r ! Suc (psr_i r) = Some p"
      using "1.prems"(2) by (metis Suc_eq_plus1 nth_mem not_Some_eq)
    let ?r = "r\<lparr>psr_i := psr_i r + 1, psr_rest := part_Bytes p\<rparr>"
    have "psr_rem ?r = psr_rem r"
      using 4 p by (simp add: psr_rem_def held_def part_data_def Cons_nth_drop_Suc [symmetric])
    moreover have "\<exists>r'. psr_Read ?r n = Ret (r', take n (psr_rem ?r), length (psr_rem ?r) < n)
        \<and> psr_rem r' = drop n (psr_rem ?r) \<and> psr_parts r' = psr_parts r"
      using "1.IH"(2) [OF refl] 4 p "1.prems" by simp
    ultimately show ?thesis using 4 p "1.prems"(1) by (subst psr_Read.simps) auto
  qed
qed

lemma read_all_spec:
  assumes "\<forall>n \<in> set ns. 0 < n" and "length (psr_rem r) < sum_list ns" and "\<forall>p \<in> set (psr_parts r). p \<noteq> None"
  shows "read_all r ns = Some (Ret (psr_rem r))"
  using assms
proof (induction ns arbitrary: r)
  case (Cons n ns)
  obtain r' where r': "psr_Read r n = Ret (r', take n (psr_rem r), length (psr_rem r) < n)"
      "psr_rem r' = drop n (psr_rem r)" "psr_parts r' = psr_parts r"
    using psr_Read_spec [of n r] Cons.prems by auto
  show ?case
  proof (cases "length (psr_rem r) < n")
    case False
    then have "read_all r' ns = Some (Ret (psr_rem r'))" using Cons r' by auto
    then show ?thesis using r' False by simp
  qed (use r' in simp)
qed simp

lemma GetReader_complete:
  assumes "ps_inv sha s" and "0 < ps_total s" and "\<forall>i < ps_total s. parts s ! i \<noteq> None"
    and "\<forall>n \<in> set ns. 0 < n" and "length (held (parts s)) < sum_list ns"
  shows "\<exists>r. GetReader s = Ret r \<and> read_all r ns = Some (Ret (held (parts s)))"
proof -
  have l: "length (parts s) = ps_total s" using assms(1) by (simp add: ps_inv_def)
  obtain p where p: "parts s ! 0 = Some p" using assms(2,3) by auto
  let ?r = "\<lparr>psr_i = 0, psr_parts = parts s, psr_rest = part_Bytes p\<rparr>"
  have "psr_rem ?r = held (drop 0 (parts s))"
    using p l assms(2) by (cases "parts s") (auto simp: psr_rem_def held_def part_data_def)
  moreover have "\<forall>p \<in> set (parts s). p \<noteq> None" using assms(3) l by (auto simp: in_set_conv_nth)
  ultimately have "read_all ?r ns = Some (Ret (held (parts s)))"
    using read_all_spec [of ns ?r] assms(4,5) by simp
  moreover have "GetReader s = Ret ?r"
    using IsComplete_iff [OF assms(1)] assms(2,3) p l by (simp add: GetReader_def NewPartSetReader_def go_index_def)
  ultimately show ?thesis by blast
qed


section \<open>Cutting data into parts\<close>

definition chunk :: "bytes \<Rightarrow> nat \<Rightarrow> nat \<Rightarrow> bytes" where
  "chunk data n i = take n (drop (i * n) data)"

definition cuts :: "bytes \<Rightarrow> nat \<Rightarrow> nat" where
  "cuts data n = (length data + n - 1) div n"

definition chunks :: "bytes \<Rightarrow> nat \<Rightarrow> bytes list" where
  "chunks data n = map (chunk data n) [0..<cuts data n]"

lemma concat_chunks: "concat (map (chunk data n) [0..<m]) = take (m * n) data"
proof (induction m)
  case (Suc m)
  have "take (Suc m * n) data = take (m * n) data @ take n (drop (m * n) data)"
    using take_add [of "m * n" n data] by (simp add: add.commute)
  then show ?case using Suc by (simp add: chunk_def)
qed simp

lemma cuts_bound:
  assumes "0 < n"
  shows "length data \<le> cuts data n * n"
proof -
  let ?x = "length data + n - 1"
  have "?x div n * n + ?x mod n = ?x" by (rule div_mult_mod_eq)
  moreover have "?x mod n < n" using assms by simp
  ultimately show ?thesis unfolding cuts_def using assms by linarith
qed

lemma concat_chunks_all: "0 < n \<Longrightarrow> concat (chunks data n) = data"
  using cuts_bound [of n data] by (simp add: chunks_def concat_chunks)

lemma data_chunk_eq:
  assumes "0 < n" and "length data + n \<le> 4294967296" and "i < cuts data n"
  shows "data_chunk data n i = Ret (chunk data n i)"
proof -
  have "(i + 1) * n \<le> cuts data n * n" using assms(3) by (intro mult_le_mono1) simp
  also have "\<dots> \<le> length data + n - 1" by (simp add: cuts_def)
  finally have hi: "(i + 1) * n \<le> length data + n - 1" .
  then have lo: "i * n \<le> length data - 1" "i * n < 4294967296" "(i + 1) * n < 4294967296"
    using assms(1,2) by auto
  show ?thesis using lo hi by (auto simp: data_chunk_def u32_def chunk_def min_def Let_def)
qed

lemma cut_loop_eq:
  assumes "0 < n" and "length data + n \<le> 4294967296" and "set is \<subseteq> {0..<cuts data n}"
    and "ba_inv ba" and "Size ba = int (cuts data n)"
  shows "\<exists>ba'. cut_loop data n is ba = Ret (map (chunk data n) is, ba') \<and> ba_inv ba' \<and> Size ba' = Size ba
    \<and> (\<forall>i \<ge> 0. GetIndex ba' i = (if nat i \<in> set is then Ret True else GetIndex ba i))"
  using assms(3-5)
proof (induction "is" arbitrary: ba)
  case (Cons i "is")
  then obtain b where b: "SetIndex ba (int i) True = Ret (b, True)" "ba_inv b" "Size b = Size ba"
      "GetIndex b (int i) = Ret True" "\<forall>j \<ge> 0. j \<noteq> int i \<longrightarrow> GetIndex b j = GetIndex ba j"
    using ba.set_get [of ba "int i" True] by auto
  obtain ba' where ba': "cut_loop data n is b = Ret (map (chunk data n) is, ba')" "ba_inv ba'" "Size ba' = Size b"
      "\<forall>i \<ge> 0. GetIndex ba' i = (if nat i \<in> set is then Ret True else GetIndex b i)"
    using Cons.IH [of b] Cons.prems b by auto
  have "\<forall>j \<ge> 0. GetIndex ba' j = (if nat j \<in> set (i # is) then Ret True else GetIndex ba j)"
    using ba'(4) b(4,5) by (auto simp: nat_eq_iff)
  then show ?case using b ba' data_chunk_eq [OF assms(1,2)] Cons.prems by auto
qed simp

lemma u32_wrap: "m < 4294967296 \<Longrightarrow> u32 (m + 4294967296) = m"
  by (simp add: u32_def)

lemma cuts_u32:
  assumes n: "0 < n" and d: "data \<noteq> []" and len: "length data + n \<le> 4294967296"
  shows "u32 (u32 (length data) + n + 4294967295) div n = cuts data n" and "0 < cuts data n"
    and "cuts data n < 4294967296"
proof -
  have lt: "0 < length data" using d by simp
  have l: "length data < 4294967296" using len n by linarith
  have e: "u32 (length data) + n + 4294967295 = (length data + n - 1) + 4294967296" using l n lt by (simp add: u32_def)
  have "u32 (u32 (length data) + n + 4294967295) = length data + n - 1"
    unfolding e by (rule u32_wrap) (use len n lt in linarith)
  then show "u32 (u32 (length data) + n + 4294967295) div n = cuts data n" by (simp add: cuts_def)
  have "n \<le> length data + n - 1" using lt by linarith
  then show "0 < cuts data n" using n unfolding cuts_def div_greater_zero_iff by simp
  have "cuts data n \<le> length data + n - 1" unfolding cuts_def by (rule div_le_dividend)
  then show "cuts data n < 4294967296" using len n lt by linarith
qed

lemma NewPartSetFromData_spec:
  assumes n: "0 < n" and d: "data \<noteq> []" and len: "length data + n \<le> 4294967296"
  shows "\<exists>full. NewPartSetFromData sha data n = Ret full \<and> ps_inv sha full \<and> ps_total full = cuts data n
    \<and> 0 < cuts data n \<and> ps_hash full = HashFromByteSlices sha (chunks data n)
    \<and> (\<forall>i < cuts data n. \<exists>prf. parts full ! i = Some \<lparr>part_Index = i, part_Bytes = chunk data n i, part_Proof = prf\<rparr>
          \<and> proof_Total prf = int (cuts data n)
          \<and> ((\<forall>x. length (sha x) = 32) \<longrightarrow> Proof_ValidateBasic prf = Inr ()))"
proof -
  let ?t = "cuts data n"
  note t = cuts_u32(1) [OF assms] and tp = cuts_u32(2) [OF assms] and tb = cuts_u32(3) [OF assms]
  obtain b where b: "NewBitArray (int ?t) = Some b" "valid_ba b" "Bits b = int ?t" "ba_set b = {}" "clean_ba b"
    using NewBitArray_valid [of "int ?t"] tp tb by auto
  then have "ba_inv (Some b)" "Size (Some b) = int ?t" by (simp_all add: ba_inv_def Size_def)
  then obtain ba where ba: "cut_loop data n [0..<?t] (Some b) = Ret (chunks data n, ba)" "ba_inv ba" "Size ba = int ?t"
      "\<forall>i \<ge> 0. GetIndex ba i = (if nat i \<in> set [0..<?t] then Ret True else GetIndex (Some b) i)"
    using cut_loop_eq [OF n len, of "[0..<?t]" "Some b"] by (auto simp: chunks_def)
  obtain root proofs where pf: "ProofsFromByteSlices sha (chunks data n) = (root, proofs)" by fastforce
  note nth = ProofsFromByteSlices_nth [OF pf]
  have lc: "length (chunks data n) = ?t" by (simp add: chunks_def)
  let ?ps = "map (\<lambda>(i, b, p). Some \<lparr>part_Index = i, part_Bytes = b, part_Proof = p\<rparr>) (enumerate 0 (zip (chunks data n) proofs))"
  let ?full = "\<lparr>ps_total = ?t, ps_hash = root, parts = ?ps, partsBitArray = ba, ps_count = ?t, byteSize = int (length data)\<rparr>"
  have new: "NewPartSetFromData sha data n = Ret ?full"
    using n t b(1) ba(1) pf by (simp add: NewPartSetFromData_def Let_def)
  have p: "?ps ! i = Some \<lparr>part_Index = i, part_Bytes = chunk data n i, part_Proof = proofs ! i\<rparr>" if "i < ?t" for i
    using that lc nth(2) by (simp add: nth_enumerate_eq chunks_def)
  have ok: "part_ok sha root i \<lparr>part_Index = i, part_Bytes = chunk data n i, part_Proof = proofs ! i\<rparr>" if "i < ?t" for i
    using nth(1) nth(3) [of i] trails_verify [of i "chunks data n" sha] that lc
    by (simp add: part_ok_def Proof_Verify_def ComputeRootHash_def chunks_def)
  have lp: "length ?ps = ?t" using lc nth(2) by simp
  have "map part_data ?ps = chunks data n"
    by (rule nth_equalityI) (use lc lp p in \<open>auto simp: part_data_def chunks_def simp del: map_map\<close>)
  then have h: "held ?ps = data" using concat_chunks_all [OF n] by (simp add: held_def)
  have "filter present ?ps = ?ps" by (rule filter_True) (auto simp: present_def)
  then have c: "length (filter present ?ps) = ?t" using lp by simp
  have w: "wrap64 (int (length data)) = int (length data)" using len by (intro wrap64_id) (simp add: in_int64_def)
  have "ps_inv sha ?full"
    unfolding ps_inv_def
    using tb tp lp c h w ba(2,3,4) p ok by (auto simp del: enumerate_Suc_eq)
  moreover have "Proof_ValidateBasic (proofs ! i) = Inr ()" if "\<forall>x. length (sha x) = 32" "i < ?t" for i
    using ProofsFromByteSlices_valid [OF that(1) _ pf] that(2) tb lc by simp
  ultimately show ?thesis using new tp nth(1,3) lc p by (auto simp: HashFromByteSlices_def)
qed

section \<open>Properties\<close>

fun add_all :: "(bytes \<Rightarrow> bytes) \<Rightarrow> PartSet option \<Rightarrow> Part list \<Rightarrow> PartSet option exec" where
  "add_all sha ps [] = Ret ps"
| "add_all sha ps (p # rest) = exec_bind (AddPart sha ps p) (\<lambda>(ps, _). add_all sha ps rest)"

lemma ps_add_all:
  "ps_reach sha header s \<Longrightarrow> Total header < 4294967296 \<Longrightarrow>
   \<exists>s'. add_all sha (Some s) ps = Ret (Some s') \<and> ps_reach sha header s'"
proof (induction ps arbitrary: s)
  case (Cons p ps)
  obtain s' r where s': "AddPart sha (Some s) p = Ret (Some s', r)"
    using AddPart_spec [of sha s p] ps_reach_inv [OF Cons.prems] by blast
  then show ?case using Cons.IH [of s'] Cons.prems ps_add [OF Cons.prems(1) s'] by simp
qed auto

lemma add_all_parts:
  assumes "ps_inv sha s" and "ps_inv sha full" and "ps_Header (Some s) = ps_Header (Some full)"
    and "\<forall>i < ps_total full. parts full ! i \<noteq> None" and "\<forall>i < ps_total full. parts s ! i \<in> {None, parts full ! i}"
    and "set is \<subseteq> {0..<ps_total full}"
  shows "\<exists>s'. add_all sha (Some s) (map (\<lambda>i. the (parts full ! i)) is) = Ret (Some s') \<and> ps_inv sha s'
    \<and> ps_Header (Some s') = ps_Header (Some full)
    \<and> (\<forall>i < ps_total full. parts s' ! i = (if i \<in> set is then parts full ! i else parts s ! i))"
  using assms(1,3,5,6)
proof (induction "is" arbitrary: s)
  case (Cons i "is")
  have t: "ps_total s = ps_total full" "ps_hash s = ps_hash full" using Cons.prems(2) by (simp_all add: ps_Header_def)
  have l: "length (parts s) = ps_total full" using Cons.prems(1) t by (simp add: ps_inv_def)
  obtain p where p: "parts full ! i = Some p" and i: "i < ps_total full" using Cons.prems(4) assms(4) by auto
  then have ok: "part_ok sha (ps_hash full) i p" using assms(2) by (simp add: ps_inv_def)
  then have pi: "part_Index p = i" by (simp add: part_ok_def)
  have acc: "accepts sha s p \<longleftrightarrow> parts s ! i = None" using i ok pi t by (simp add: accepts_def)
  obtain s1 r where s1: "AddPart sha (Some s) p = Ret (Some s1, r)" "ps_inv sha s1" "ps_Header (Some s1) = ps_Header (Some s)"
      "parts s1 = (if accepts sha s p then (parts s)[part_Index p := Some p] else parts s)"
    using AddPart_spec [OF Cons.prems(1), of p] by blast
  have slots: "\<forall>j < ps_total full. parts s1 ! j = (if j = i then parts full ! j else parts s ! j)"
    using s1(4) acc p pi i l Cons.prems(3) by (auto simp: nth_list_update)
  then have "\<forall>j < ps_total full. parts s1 ! j \<in> {None, parts full ! j}" using Cons.prems(3) by auto
  then obtain s' where s': "add_all sha (Some s1) (map (\<lambda>i. the (parts full ! i)) is) = Ret (Some s')" "ps_inv sha s'"
      "ps_Header (Some s') = ps_Header (Some full)"
      "\<forall>j < ps_total full. parts s' ! j = (if j \<in> set is then parts full ! j else parts s1 ! j)"
    using Cons.IH [of s1] s1(2,3) Cons.prems(2,4) by auto
  have "\<forall>j < ps_total full. parts s' ! j = (if j \<in> set (i # is) then parts full ! j else parts s ! j)"
    using s'(4) slots by simp
  then show ?case using s1(1) s'(1,2,3) p by auto
qed auto

lemma add_all_cuts:
  assumes "ps_inv sha full" and "\<forall>i < ps_total full. parts full ! i \<noteq> None" and "set is = {0..<ps_total full}"
  shows "\<exists>s. add_all sha (Some (NewPartSetFromHeader (ps_Header (Some full)))) (map (\<lambda>i. the (parts full ! i)) is) = Ret (Some s)
    \<and> ps_inv sha s \<and> ps_total s = ps_total full \<and> parts s = parts full"
proof -
  let ?s0 = "NewPartSetFromHeader (ps_Header (Some full))"
  have lf: "length (parts full) = ps_total full" "ps_total full < 4294967296" using assms(1) by (simp_all add: ps_inv_def)
  have s0: "ps_inv sha ?s0" "ps_Header (Some ?s0) = ps_Header (Some full)"
      "\<forall>i < ps_total full. parts ?s0 ! i \<in> {None, parts full ! i}"
    using NewPartSetFromHeader_inv [of "ps_Header (Some full)" sha] lf by (auto simp: ps_Header_def NewPartSetFromHeader_def)
  obtain s where s: "add_all sha (Some ?s0) (map (\<lambda>i. the (parts full ! i)) is) = Ret (Some s)" "ps_inv sha s"
      "ps_Header (Some s) = ps_Header (Some full)" "\<forall>i < ps_total full. parts s ! i = parts full ! i"
    using add_all_parts [OF s0(1) assms(1) s0(2) assms(2) s0(3), of "is"] assms(3) by auto
  have t: "ps_total s = ps_total full" using s(3) by (simp add: ps_Header_def)
  have "parts s = parts full"
    by (rule nth_equalityI) (use s(2,4) t lf in \<open>auto simp: ps_inv_def\<close>)
  then show ?thesis using s(1,2) t by blast
qed

text \<open>
  C16: The parts cut from data rebuild it. Cutting non-empty data whose length and part size stay
  below \<open>2^32\<close> gives a complete set; adding its parts to an empty set made from its header, in any
  order and with any repetitions, never panics and ends in a complete set with the same parts; and
  reading that set with buffers of any positive sizes gives the data back.\<close>

theorem part_set_roundtrip:
  assumes "0 < n" and "data \<noteq> []" and "length data + n \<le> 4294967296"
  shows "\<exists>full. NewPartSetFromData sha data n = Ret full \<and> IsComplete (Some full) = Ret True
    \<and> (\<forall>is ns. set is = {0..<ps_total full} \<and> (\<forall>k \<in> set ns. 0 < k) \<and> length data < sum_list ns \<longrightarrow>
        (\<exists>s r. add_all sha (Some (NewPartSetFromHeader (ps_Header (Some full)))) (map (\<lambda>i. the (parts full ! i)) is) = Ret (Some s)
          \<and> IsComplete (Some s) = Ret True \<and> parts s = parts full
          \<and> GetReader s = Ret r \<and> read_all r ns = Some (Ret data)))"
proof -
  obtain full where f: "NewPartSetFromData sha data n = Ret full" "ps_inv sha full" "ps_total full = cuts data n" "0 < cuts data n"
      and p: "\<forall>i < cuts data n. \<exists>prf. parts full ! i = Some \<lparr>part_Index = i, part_Bytes = chunk data n i, part_Proof = prf\<rparr>"
    using NewPartSetFromData_spec [OF assms, of sha] by blast
  have lf: "length (parts full) = cuts data n" using f by (simp add: ps_inv_def)
  have all: "\<forall>i < ps_total full. parts full ! i \<noteq> None" using p f(3) by auto
  have "map part_data (parts full) = chunks data n"
    by (rule nth_equalityI) (use lf p in \<open>auto simp: chunks_def part_data_def\<close>)
  then have h: "held (parts full) = data" using concat_chunks_all [OF assms(1)] by (simp add: held_def)
  have "\<exists>s r. add_all sha (Some (NewPartSetFromHeader (ps_Header (Some full)))) (map (\<lambda>i. the (parts full ! i)) is) = Ret (Some s)
      \<and> IsComplete (Some s) = Ret True \<and> parts s = parts full \<and> GetReader s = Ret r \<and> read_all r ns = Some (Ret data)"
    if ns: "set is = {0..<ps_total full}" "\<forall>k \<in> set ns. 0 < k" "length data < sum_list ns" for "is" ns
  proof -
    obtain s where s: "add_all sha (Some (NewPartSetFromHeader (ps_Header (Some full)))) (map (\<lambda>i. the (parts full ! i)) is) = Ret (Some s)"
        "ps_inv sha s" "ps_total s = ps_total full" "parts s = parts full"
      using add_all_cuts [OF f(2) all ns(1)] by blast
    have c: "\<forall>i < ps_total s. parts s ! i \<noteq> None" using all s by simp
    obtain r where "GetReader s = Ret r" "read_all r ns = Some (Ret (held (parts s)))"
      using GetReader_complete [OF s(2) _ c ns(2)] s f(3,4) h ns(3) by auto
    then show ?thesis using s h IsComplete_iff [OF s(2)] c by auto
  qed
  then show ?thesis using f(1) IsComplete_iff [OF f(2)] all by (intro exI [of _ full]) auto
qed

theorem part_set_roundtrip_witness:
  "\<exists>full s. NewPartSetFromData ex_sha [1, 2, 3, 4, 5] 2 = Ret full
    \<and> add_all ex_sha (Some (NewPartSetFromHeader (ps_Header (Some full)))) (map (\<lambda>i. the (parts full ! i)) [2, 0, 1, 0]) = Ret (Some s)
    \<and> IsComplete (Some s) = Ret True"
proof -
  obtain full where f: "NewPartSetFromData ex_sha [1, 2, 3, 4, 5] 2 = Ret full"
    and r: "\<forall>is ns. set is = {0..<ps_total full} \<and> (\<forall>k \<in> set ns. 0 < k) \<and> length [1, 2, 3, 4, 5 :: 8 word] < sum_list ns \<longrightarrow>
        (\<exists>s r. add_all ex_sha (Some (NewPartSetFromHeader (ps_Header (Some full)))) (map (\<lambda>i. the (parts full ! i)) is) = Ret (Some s)
          \<and> IsComplete (Some s) = Ret True \<and> parts s = parts full
          \<and> GetReader s = Ret r \<and> read_all r ns = Some (Ret [1, 2, 3, 4, 5]))"
    using part_set_roundtrip [of 2 "[1, 2, 3, 4, 5]" ex_sha] by auto
  have "ps_total full = 3"
    using NewPartSetFromData_spec [of 2 "[1, 2, 3, 4, 5]" ex_sha] f by (auto simp: cuts_def)
  then have "set [2, 0, 1, 0] = {0..<ps_total full}" by (auto simp: numeral_3_eq_3 numeral_2_eq_2)
  then show ?thesis using f spec [OF spec [OF r, of "[2, 0, 1, 0]"], of "[6]"] by auto
qed


text \<open>
  C21: The bookkeeping of a part set. For a set reached from its header by adding any parts, adding a
  part does not panic, and the part enters its slot exactly when the index is in range and is that of
  the proof, the slot is empty and the proof verifies against the root; otherwise nothing changes. The
  bit array marks the occupied slots, the count is their number, the byte size is the length of what
  they hold, and the set is complete exactly when every slot is occupied.\<close>

theorem part_set_accounting:
  assumes "ps_reach sha header s" and "Total header < 4294967296"
  shows "(\<exists>s' r. AddPart sha (Some s) p = Ret (Some s', r) \<and> ps_reach sha header s'
      \<and> (r = Inr True \<longleftrightarrow> part_Index p < Total header \<and> proof_Index (part_Proof p) = int (part_Index p)
            \<and> parts s ! part_Index p = None \<and> Proof_Verify sha (part_Proof p) (psh_Hash header) (part_Bytes p) = Inr ())
      \<and> (r = Inr True \<longrightarrow> parts s' = (parts s)[part_Index p := Some p]) \<and> (r \<noteq> Inr True \<longrightarrow> s' = s))
    \<and> ps_Header (Some s) = header
    \<and> (\<forall>i < Total header. GetIndex (partsBitArray s) (int i) = Ret (parts s ! i \<noteq> None))
    \<and> ps_Count (Some s) = card {i. i < Total header \<and> parts s ! i \<noteq> None}
    \<and> ByteSize (Some s) = wrap64 (int (length (held (parts s))))
    \<and> IsComplete (Some s) = Ret (\<forall>i < Total header. parts s ! i \<noteq> None)"
proof -
  have inv: "ps_inv sha s" and h: "ps_Header (Some s) = header" using ps_reach_inv [OF assms] by auto
  then have t: "ps_total s = Total header" "ps_hash s = psh_Hash header" by (auto simp: ps_Header_def)
  obtain s' r where s': "AddPart sha (Some s) p = Ret (Some s', r)" "r = Inr True \<longleftrightarrow> accepts sha s p"
      "parts s' = (if accepts sha s p then (parts s)[part_Index p := Some p] else parts s)" "\<not> accepts sha s p \<longrightarrow> s' = s"
    using AddPart_spec [OF inv, of p] by blast
  have c: "ps_Count (Some s) = card {i. i < Total header \<and> parts s ! i \<noteq> None}"
    using inv t by (simp add: ps_inv_def ps_Count_def length_filter_conv_card present_def)
  show ?thesis
    using s' ps_add [OF assms(1) s'(1)] inv t h c IsComplete_iff [OF inv]
    by (auto simp: accepts_def part_ok_def ps_inv_def ByteSize_def)
qed

theorem part_set_accounting_witness:
  "IsComplete (Some (NewPartSetFromHeader \<lparr>Total = 2, psh_Hash = []\<rparr>)) = Ret False"
proof -
  have r: "ps_reach ex_sha \<lparr>Total = 2, psh_Hash = []\<rparr> (NewPartSetFromHeader \<lparr>Total = 2, psh_Hash = []\<rparr>)"
    by (rule ps_new)
  have t: "Total \<lparr>Total = 2, psh_Hash = []\<rparr> < 4294967296" by simp
  have "IsComplete (Some (NewPartSetFromHeader \<lparr>Total = 2, psh_Hash = []\<rparr>))
      = Ret (\<forall>i < Total \<lparr>Total = 2, psh_Hash = []\<rparr>. parts (NewPartSetFromHeader \<lparr>Total = 2, psh_Hash = []\<rparr>) ! i \<noteq> None)"
    using part_set_accounting [OF r t] by blast
  moreover have "\<not> (\<forall>i < Total \<lparr>Total = 2, psh_Hash = []\<rparr>. parts (NewPartSetFromHeader \<lparr>Total = 2, psh_Hash = []\<rparr>) ! i \<noteq> None)"
    by (auto simp: NewPartSetFromHeader_def intro!: exI [of _ 0])
  ultimately show ?thesis by simp
qed

text \<open>
  C17: A complete set reads back the data of its header. If the header is that of some data, and the
  proof of every part held passes \<open>ValidateBasic\<close> and is for as many parts as the set has, then a
  complete set, whoever sent its parts, holds the parts cut from the data and reading it gives the data,
  unless an input hashed while checking one of the proofs collides with one hashed for the header.\<close>

theorem part_set_binds:
  assumes "\<forall>x. length (sha x) = 32" and "0 < n" and "data \<noteq> []" and "length data + n \<le> 4294967296"
    and "NewPartSetFromData sha data n = Ret full" and "ps_reach sha (ps_Header (Some full)) s"
    and "IsComplete (Some s) = Ret True"
    and "\<forall>p. Some p \<in> set (parts s) \<longrightarrow>
      Proof_ValidateBasic (part_Proof p) = Inr () \<and> proof_Total (part_Proof p) = int (ps_total s)"
    and "\<forall>k \<in> set ns. 0 < k" and "length data < sum_list ns"
  shows "(\<exists>r. GetReader s = Ret r \<and> read_all r ns = Some (Ret data))
    \<or> (\<exists>p. Some p \<in> set (parts s)
          \<and> collide sha (verify_inputs sha (part_Proof p) (part_Bytes p)) (tree_inputs sha (chunks data n)))"
proof (cases "\<exists>p. Some p \<in> set (parts s)
    \<and> collide sha (verify_inputs sha (part_Proof p) (part_Bytes p)) (tree_inputs sha (chunks data n))")
  case False
  have f: "ps_inv sha full" "ps_total full = cuts data n" "0 < cuts data n" "ps_hash full = hashFromByteSlices sha (chunks data n)"
    using NewPartSetFromData_spec [OF assms(2-4), of sha] assms(5) by (auto simp: HashFromByteSlices_def)
  have "Total (ps_Header (Some full)) < 4294967296" using f(1) by (simp add: ps_Header_def ps_inv_def)
  then have inv: "ps_inv sha s" and h: "ps_Header (Some s) = ps_Header (Some full)" using ps_reach_inv [OF assms(6)] by auto
  have t: "ps_total s = cuts data n" "ps_hash s = hashFromByteSlices sha (chunks data n)" using h f by (auto simp: ps_Header_def)
  have l: "length (parts s) = cuts data n" "length (chunks data n) = cuts data n"
    using inv t by (auto simp: ps_inv_def chunks_def)
  have c: "\<forall>i < ps_total s. parts s ! i \<noteq> None" using IsComplete_iff [OF inv] assms(7) by simp
  have "part_data (parts s ! i) = chunks data n ! i" if i: "i < cuts data n" for i
  proof -
    obtain p where p: "parts s ! i = Some p" using c t i by auto
    then have m: "Some p \<in> set (parts s)" using i l by (metis nth_mem)
    have ok: "part_ok sha (hashFromByteSlices sha (chunks data n)) i p" using inv p i t by (simp add: ps_inv_def)
    have "proof_Total (part_Proof p) = int (length (chunks data n))" using assms(8) m t l by auto
    then have "part_Bytes p = chunks data n ! i"
      using Proof_Verify_binds [OF assms(1)] assms(8) m ok False by (force simp: part_ok_def)
    then show ?thesis using p by (simp add: part_data_def)
  qed
  then have "map part_data (parts s) = chunks data n" using l by (intro nth_equalityI) auto
  then have "held (parts s) = data" using concat_chunks_all [OF assms(2)] by (simp add: held_def)
  then show ?thesis using GetReader_complete [OF inv _ c assms(9)] t f(3) assms(10) by auto
qed blast

definition ex_full :: PartSet where
  "ex_full = the_ret (NewPartSetFromData ex_sha [1, 2, 3, 4, 5] 2)"

definition ex_set :: PartSet where
  "ex_set = the (the_ret (add_all ex_sha (Some (NewPartSetFromHeader (ps_Header (Some ex_full))))
     (map (\<lambda>i. the (parts ex_full ! i)) [2, 0, 1])))"

lemma ex_full_new: "NewPartSetFromData ex_sha [1, 2, 3, 4, 5] 2 = Ret ex_full"
  using NewPartSetFromData_spec [of 2 "[1, 2, 3, 4, 5]" ex_sha] by (auto simp: ex_full_def)

lemma ex_full_total: "ps_total ex_full = 3"
  using NewPartSetFromData_spec [of 2 "[1, 2, 3, 4, 5]" ex_sha] ex_full_new by (auto simp: cuts_def)

lemma ex_set_ok:
  "ps_reach ex_sha (ps_Header (Some ex_full)) ex_set" "IsComplete (Some ex_set) = Ret True"
  "\<forall>p. Some p \<in> set (parts ex_set) \<longrightarrow>
     Proof_ValidateBasic (part_Proof p) = Inr () \<and> proof_Total (part_Proof p) = int (ps_total ex_set)"
proof -
  let ?add = "add_all ex_sha (Some (NewPartSetFromHeader (ps_Header (Some ex_full)))) (map (\<lambda>i. the (parts ex_full ! i)) [2, 0, 1])"
  have sha: "\<forall>x. length (ex_sha x) = 32" by (auto simp: ex_sha_def min_def)
  have c: "cuts [1, 2, 3, 4, 5 :: 8 word] 2 = 3" by (simp add: cuts_def)
  obtain full where full: "NewPartSetFromData ex_sha [1, 2, 3, 4, 5] 2 = Ret full" "ps_inv ex_sha full"
      "\<forall>i < 3. \<exists>prf. parts full ! i = Some \<lparr>part_Index = i, part_Bytes = chunk [1, 2, 3, 4, 5] 2 i, part_Proof = prf\<rparr>
          \<and> proof_Total prf = int 3 \<and> ((\<forall>x. length (ex_sha x) = 32) \<longrightarrow> Proof_ValidateBasic prf = Inr ())"
    using NewPartSetFromData_spec [of 2 "[1, 2, 3, 4, 5]" ex_sha, unfolded c] by auto
  have "full = ex_full" using full(1) ex_full_new by simp
  then have f: "ps_inv ex_sha ex_full" and p: "\<forall>i < 3. \<exists>p. parts ex_full ! i = Some p
      \<and> Proof_ValidateBasic (part_Proof p) = Inr () \<and> proof_Total (part_Proof p) = 3"
    using full(2,3) sha by (simp, fastforce)
  have all: "\<forall>i < ps_total ex_full. parts ex_full ! i \<noteq> None" using p ex_full_total by auto
  have "set [2, 0, 1] = {0..<ps_total ex_full}" by (auto simp: ex_full_total numeral_3_eq_3 numeral_2_eq_2)
  from add_all_cuts [OF f all this] obtain s where s: "?add = Ret (Some s)" "ps_inv ex_sha s"
      "ps_total s = ps_total ex_full" "parts s = parts ex_full" by blast
  have e: "ex_set = s" using s(1) by (simp add: ex_set_def)
  have "\<exists>s'. ?add = Ret (Some s') \<and> ps_reach ex_sha (ps_Header (Some ex_full)) s'"
    by (rule ps_add_all [OF ps_new]) (simp add: ps_Header_def ex_full_total)
  then show "ps_reach ex_sha (ps_Header (Some ex_full)) ex_set" using s(1) e by auto
  show "IsComplete (Some ex_set) = Ret True" using IsComplete_iff [OF s(2)] s all e by simp
  have "length (parts ex_full) = 3" using f ex_full_total by (simp add: ps_inv_def)
  then show "\<forall>p. Some p \<in> set (parts ex_set) \<longrightarrow>
      Proof_ValidateBasic (part_Proof p) = Inr () \<and> proof_Total (part_Proof p) = int (ps_total ex_set)"
    using p s(3,4) e ex_full_total unfolding in_set_conv_nth by fastforce
qed

theorem part_set_binds_witness:
  "(\<exists>r. GetReader ex_set = Ret r \<and> read_all r [4, 4] = Some (Ret [1, 2, 3, 4, 5]))
   \<or> (\<exists>p. Some p \<in> set (parts ex_set)
        \<and> collide ex_sha (verify_inputs ex_sha (part_Proof p) (part_Bytes p)) (tree_inputs ex_sha (chunks [1, 2, 3, 4, 5] 2)))"
proof -
  have sha: "\<forall>x. length (ex_sha x) = 32" by (auto simp: ex_sha_def min_def)
  show ?thesis
    using part_set_binds [OF sha _ _ _ ex_full_new ex_set_ok, of "[4, 4]"] by auto
qed

lemma AddPart_present:
  assumes "i < ps_total s" and "i < length (parts s)" and "parts s ! i = Some q" and "part_ok sha root i p"
  shows "AddPart sha (Some s) p = Ret (Some s, Inr False)"
  using assms by (simp add: AddPart_def part_ok_def go_index_def)

lemma hash_three:
  "hashFromByteSlices sha [a, b, c] = innerHash sha (innerHash sha (leafHash sha a) (leafHash sha b)) (leafHash sha c)"
proof -
  have s: "split_point 3 = 2" "split_point 2 = 1" by (simp_all add: split_point_def bit_len.simps)
  have "hashFromByteSlices sha [x] = leafHash sha x" for x by (simp add: hashFromByteSlices.simps)
  moreover have "hashFromByteSlices sha [a, b] = innerHash sha (leafHash sha a) (leafHash sha b)"
    using s by (subst hashFromByteSlices.simps) (simp add: split_len_def calculation)
  ultimately show ?thesis using s by (subst hashFromByteSlices.simps) (simp add: split_len_def numeral_2_eq_2)
qed

definition moved_part :: "(bytes \<Rightarrow> bytes) \<Rightarrow> bytes \<Rightarrow> bytes \<Rightarrow> bytes \<Rightarrow> Part" where
  "moved_part sha a b c =
     \<lparr>part_Index = 1, part_Bytes = c,
      part_Proof = \<lparr>proof_Total = 2, proof_Index = 1, LeafHash = leafHash sha c,
                    Aunts = [innerHash sha (leafHash sha a) (leafHash sha b)]\<rparr>\<rparr>"

lemma moved_part_ok: "part_ok sha (hashFromByteSlices sha [a, b, c]) 1 (moved_part sha a b c)"
proof -
  have "split_point 2 = 1" by (simp add: split_point_def bit_len.simps)
  then have "computeHashFromAunts sha 1 2 (leafHash sha c) [innerHash sha (leafHash sha a) (leafHash sha b)]
      = Inr (hashFromByteSlices sha [a, b, c])"
    by (simp add: computeHashFromAunts.simps [of sha 1 2] computeHashFromAunts.simps [of sha 0 1] hash_three)
  then show ?thesis by (simp add: part_ok_def moved_part_def Proof_Verify_def ComputeRootHash_def)
qed

text \<open>
  C22: The number of parts in a proof is not checked, so a part can be moved to another slot. For any data
  cut in three parts there is a part with the bytes of the last one that passes \<open>ValidateBasic\<close> and is
  added to an empty set of the same header in the middle slot, under a proof for two items. The genuine
  middle part is then refused, and the set completes with the last part in place of the middle one.\<close>

theorem AddPart_relabels:
  assumes "\<forall>x. length (sha x) = 32" and "0 < n" and "n \<le> 65536" and "data \<noteq> []" and "length data + n \<le> 4294967296"
    and "NewPartSetFromData sha data n = Ret full" and "ps_total full = 3"
  shows "\<exists>p s s'. Part_ValidateBasic p = Inr () \<and> part_Index p = 1 \<and> part_Bytes p = chunk data n 2
    \<and> AddPart sha (Some (NewPartSetFromHeader (ps_Header (Some full)))) p = Ret (Some s, Inr True)
    \<and> AddPart sha (Some s) (the (parts full ! 1)) = Ret (Some s, Inr False)
    \<and> add_all sha (Some s) (map (\<lambda>i. the (parts full ! i)) [0, 1, 2]) = Ret (Some s')
    \<and> IsComplete (Some s') = Ret True \<and> held (parts s') = chunk data n 0 @ chunk data n 2 @ chunk data n 2"
proof -
  note f = NewPartSetFromData_spec [OF assms(2,4,5), of sha]
  have t: "cuts data n = 3" using f assms(6,7) by auto
  have inv: "ps_inv sha full" and h: "ps_hash full = hashFromByteSlices sha (chunks data n)"
    and hon: "\<forall>i < 3. \<exists>p. parts full ! i = Some p \<and> part_Bytes p = chunk data n i"
    using f assms(6) t by (auto simp: HashFromByteSlices_def)
  have ch: "chunks data n = [chunk data n 0, chunk data n 1, chunk data n 2]"
    by (simp add: chunks_def t numeral_3_eq_3 numeral_2_eq_2)
  let ?p = "moved_part sha (chunk data n 0) (chunk data n 1) (chunk data n 2)"
  let ?s0 = "NewPartSetFromHeader (ps_Header (Some full))"
  have ok: "part_ok sha (ps_hash full) 1 ?p" using moved_part_ok by (simp add: h ch)
  then have pi: "part_Index ?p = 1" by (simp add: part_ok_def)
  have s0: "ps_inv sha ?s0" using NewPartSetFromHeader_inv [of "ps_Header (Some full)" sha] assms(7) by (simp add: ps_Header_def)
  have acc: "accepts sha ?s0 ?p" using ok pi assms(7) by (simp add: accepts_def NewPartSetFromHeader_def ps_Header_def)
  obtain s where s: "AddPart sha (Some ?s0) ?p = Ret (Some s, Inr True)" "ps_inv sha s" "ps_Header (Some s) = ps_Header (Some full)"
      "parts s = [None, Some ?p, None]"
    using AddPart_spec [OF s0, of ?p] acc pi assms(7) by (auto simp: NewPartSetFromHeader_def ps_Header_def numeral_3_eq_3)
  have val: "Part_ValidateBasic ?p = Inr ()"
    using assms(1,3) by (simp add: moved_part_def Part_ValidateBasic_def Proof_ValidateBasic_def chunk_def innerHash_def leafHash_def)
  have tot: "ps_total s = 3" "ps_hash s = ps_hash full" using s(3) assms(7) by (simp_all add: ps_Header_def)
  obtain p0 p1 p2 where hp: "parts full ! 0 = Some p0" "parts full ! 1 = Some p1" "parts full ! 2 = Some p2"
    and hb: "part_Bytes p0 = chunk data n 0" "part_Bytes p2 = chunk data n 2"
    using hon by (metis one_less_numeral_iff semiring_norm(77) zero_less_numeral numeral_less_iff semiring_norm(76,79) lessI numeral_3_eq_3 numeral_2_eq_2)
  then have ok3: "part_ok sha (ps_hash full) 0 p0" "part_ok sha (ps_hash full) 1 p1" "part_ok sha (ps_hash full) 2 p2"
    using inv assms(7) by (simp_all add: ps_inv_def)
  have ref: "AddPart sha (Some s) p1 = Ret (Some s, Inr False)"
    using AddPart_present [of 1 s ?p sha] ok3(2) s(4) tot(1) by (simp add: tot)
  obtain s1 where s1: "AddPart sha (Some s) p0 = Ret (Some s1, Inr True)" "ps_inv sha s1" "ps_Header (Some s1) = ps_Header (Some s)"
      "parts s1 = [Some p0, Some ?p, None]"
    using AddPart_spec [OF s(2), of p0] ok3(1) s(4) tot by (auto simp: accepts_def part_ok_def)
  have tot1: "ps_total s1 = 3" "ps_hash s1 = ps_hash full" using s1(3) tot by (simp_all add: ps_Header_def)
  have ref1: "AddPart sha (Some s1) p1 = Ret (Some s1, Inr False)"
    using AddPart_present [of 1 s1 ?p sha] ok3(2) s1(4) tot1 by simp
  obtain s2 where s2: "AddPart sha (Some s1) p2 = Ret (Some s2, Inr True)" "ps_inv sha s2" "ps_Header (Some s2) = ps_Header (Some s1)"
      "parts s2 = [Some p0, Some ?p, Some p2]"
    using AddPart_spec [OF s1(2), of p2] ok3(3) s1(4) tot1 by (auto simp: accepts_def part_ok_def)
  have "ps_total s2 = 3" using s2(3) tot1 by (simp add: ps_Header_def)
  then have "IsComplete (Some s2) = Ret True"
    using IsComplete_iff [OF s2(2)] s2(4) by (simp add: numeral_3_eq_3 less_Suc_eq)
  moreover have "held (parts s2) = chunk data n 0 @ chunk data n 2 @ chunk data n 2"
    using s2(4) hb by (simp add: held_def part_data_def moved_part_def)
  moreover have "add_all sha (Some s) (map (\<lambda>i. the (parts full ! i)) [0, 1, 2]) = Ret (Some s2)"
    using s1(1) ref1 s2(1) hp by simp
  ultimately show ?thesis using val s(1) ref hp(2)
    by (intro exI [of _ ?p] exI [of _ s] exI [of _ s2]) (simp add: moved_part_def)
qed

theorem AddPart_relabels_witness:
  "\<exists>p s. part_Index p = 1 \<and> part_Bytes p = chunk [1, 2, 3, 4, 5] 2 2
    \<and> AddPart ex_sha (Some (NewPartSetFromHeader (ps_Header (Some ex_full)))) p = Ret (Some s, Inr True)
    \<and> AddPart ex_sha (Some s) (the (parts ex_full ! 1)) = Ret (Some s, Inr False)"
proof -
  have sha: "\<forall>x. length (ex_sha x) = 32" by (auto simp: ex_sha_def min_def)
  show ?thesis using AddPart_relabels [OF sha _ _ _ _ ex_full_new ex_full_total] by auto
qed

end
