(* ===== verification/Txs.thy ===== *)
theory Txs
  imports Merkle
begin

text \<open>
  \<open>src/types/tx.go\<close>: transactions, the Merkle root over their hashes, inclusion proofs, and the check
  of the transaction records an application returns from PrepareProposal. SHA-256 is the parameter
  \<open>sha\<close>. \<open>sort.Sort\<close> orders byte slices, which equal content makes indistinguishable, so it is \<open>sort\<close>;
  \<open>sort.Search\<close> is the binary search of the standard library.

  Results: the check of the records, which sorts and searches, accepts exactly the record sets that
  satisfy the set-theoretic conditions; a proof for a transaction validates.
\<close>

section \<open>Definitions\<close>

type_synonym Tx = bytes

definition Tx_Hash :: "(bytes \<Rightarrow> bytes) \<Rightarrow> Tx \<Rightarrow> bytes" where
  "Tx_Hash sha tx = sha tx"

definition hashList :: "(bytes \<Rightarrow> bytes) \<Rightarrow> Tx list \<Rightarrow> bytes list" where
  "hashList sha txs = map (Tx_Hash sha) txs"

definition Txs_Hash :: "(bytes \<Rightarrow> bytes) \<Rightarrow> Tx list \<Rightarrow> bytes" where
  "Txs_Hash sha txs = HashFromByteSlices sha (hashList sha txs)"

fun index_loop :: "(Tx \<Rightarrow> bool) \<Rightarrow> int \<Rightarrow> Tx list \<Rightarrow> int" where
  "index_loop P i [] = - 1"
| "index_loop P i (t # ts) = (if P t then i else index_loop P (i + 1) ts)"

definition Txs_Index :: "Tx list \<Rightarrow> Tx \<Rightarrow> int" where
  "Txs_Index txs tx = index_loop (\<lambda>t. t = tx) 0 txs"

definition Txs_IndexByHash :: "(bytes \<Rightarrow> bytes) \<Rightarrow> Tx list \<Rightarrow> bytes \<Rightarrow> int" where
  "Txs_IndexByHash sha txs h = index_loop (\<lambda>t. Tx_Hash sha t = h) 0 txs"

record TxProof =
  RootHash :: bytes
  txp_Data :: Tx
  txp_Proof :: Proof

definition Txs_Proof :: "(bytes \<Rightarrow> bytes) \<Rightarrow> Tx list \<Rightarrow> int \<Rightarrow> TxProof exec" where
  "Txs_Proof sha txs i =
     (let (root, proofs) = ProofsFromByteSlices sha (hashList sha txs)
      in exec_bind (go_index txs i) (\<lambda>tx.
         exec_bind (go_index proofs i) (\<lambda>p. Ret \<lparr>RootHash = root, txp_Data = tx, txp_Proof = p\<rparr>)))"

datatype tx_error =
    ErrTxDataHash | ErrTxProofIndex | ErrTxProofTotal | ErrTxProofInconsistent
  | ErrTxUnknown | ErrTxDuplicate | ErrTxSize | ErrTxUnmodified | ErrTxRemoved | ErrTxDelayed | ErrTxAdded

definition TxProof_Leaf :: "(bytes \<Rightarrow> bytes) \<Rightarrow> TxProof \<Rightarrow> bytes" where
  "TxProof_Leaf sha tp = Tx_Hash sha (txp_Data tp)"

definition TxProof_Validate :: "(bytes \<Rightarrow> bytes) \<Rightarrow> TxProof \<Rightarrow> bytes \<Rightarrow> tx_error + unit" where
  "TxProof_Validate sha tp dataHash =
     (if dataHash \<noteq> RootHash tp then Inl ErrTxDataHash
      else if proof_Index (txp_Proof tp) < 0 then Inl ErrTxProofIndex
      else if proof_Total (txp_Proof tp) \<le> 0 then Inl ErrTxProofTotal
      else if Proof_Verify sha (txp_Proof tp) (RootHash tp) (TxProof_Leaf sha tp) \<noteq> Inr () then Inl ErrTxProofInconsistent
      else Inr ())"

subsection \<open>Transaction records\<close>

datatype TxAction = TxRecord_UNKNOWN | TxRecord_UNMODIFIED | TxRecord_ADDED | TxRecord_REMOVED | TxRecord_DELAYED

record TxRecordSet =
  all_txs :: "Tx list"
  included :: "Tx list"
  added :: "Tx list"
  unmodified :: "Tx list"
  removed :: "Tx list"
  delayed :: "Tx list"
  unknown :: "Tx list"

text \<open>The loop over the records; an action outside the enumeration enters no index.\<close>

fun record_loop :: "(TxAction option \<times> Tx) list \<Rightarrow> TxRecordSet \<Rightarrow> TxRecordSet" where
  "record_loop [] s = s"
| "record_loop ((action, tx) # trs) s =
     (let s = s\<lparr>all_txs := all_txs s @ [tx]\<rparr>
      in record_loop trs
        (case action of
           Some TxRecord_UNKNOWN \<Rightarrow> s\<lparr>unknown := unknown s @ [tx]\<rparr>
         | Some TxRecord_UNMODIFIED \<Rightarrow> s\<lparr>unmodified := unmodified s @ [tx], included := included s @ [tx]\<rparr>
         | Some TxRecord_ADDED \<Rightarrow> s\<lparr>added := added s @ [tx], included := included s @ [tx]\<rparr>
         | Some TxRecord_REMOVED \<Rightarrow> s\<lparr>removed := removed s @ [tx]\<rparr>
         | Some TxRecord_DELAYED \<Rightarrow> s\<lparr>delayed := delayed s @ [tx]\<rparr>
         | None \<Rightarrow> s))"

definition NewTxRecordSet :: "(TxAction option \<times> Tx) list \<Rightarrow> TxRecordSet" where
  "NewTxRecordSet trs =
     record_loop trs \<lparr>all_txs = [], included = [], added = [], unmodified = [], removed = [], delayed = [], unknown = []\<rparr>"

definition sortedCopy :: "Tx list \<Rightarrow> Tx list" where
  "sortedCopy txs = sort txs"

text \<open>\<open>sort.Search\<close>: the least index in a range at which the predicate holds, by bisection.\<close>

function search_loop :: "(nat \<Rightarrow> bool) \<Rightarrow> nat \<Rightarrow> nat \<Rightarrow> nat" where
  "search_loop f i j =
     (if i < j then let h = (i + j) div 2 in if \<not> f h then search_loop f (h + 1) j else search_loop f i h
      else i)"
  by pat_completeness auto
termination
  by (relation "measure (\<lambda>(_, i, j). j - i)") auto

declare search_loop.simps [simp del]

definition contains :: "Tx list \<Rightarrow> Tx \<Rightarrow> int \<times> bool" where
  "contains xs elem =
     (let n = search_loop (\<lambda>i. elem \<le> xs ! i) 0 (length xs)
      in if n = length xs \<or> elem \<noteq> xs ! n then (- 1, False) else (int n, True))"

fun containsAny_loop :: "Tx list \<Rightarrow> int \<Rightarrow> Tx list \<Rightarrow> int \<times> bool" where
  "containsAny_loop a i [] = (- 1, False)"
| "containsAny_loop a i (cur # b) = (if snd (contains a cur) then (i, True) else containsAny_loop a (i + 1) b)"

definition containsAny :: "Tx list \<Rightarrow> Tx list \<Rightarrow> int \<times> bool" where
  "containsAny a b = containsAny_loop a 0 b"

fun containsAll_loop :: "Tx list \<Rightarrow> int \<Rightarrow> Tx list \<Rightarrow> int \<times> bool" where
  "containsAll_loop super i [] = (- 1, True)"
| "containsAll_loop super i (cur # sub) =
     (if \<not> snd (contains super cur) then (i, False) else containsAll_loop super (i + 1) sub)"

definition containsAll :: "Tx list \<Rightarrow> Tx list \<Rightarrow> int \<times> bool" where
  "containsAll super sub = containsAll_loop super 0 sub"

fun adjacent_dup :: "Tx list \<Rightarrow> bool" where
  "adjacent_dup (x # y # r) \<longleftrightarrow> x = y \<or> adjacent_dup (y # r)"
| "adjacent_dup _ \<longleftrightarrow> False"

fun size_exceeds :: "int \<Rightarrow> int \<Rightarrow> Tx list \<Rightarrow> bool" where
  "size_exceeds maxSizeBytes sz [] \<longleftrightarrow> False"
| "size_exceeds maxSizeBytes sz (cur # txs) \<longleftrightarrow>
     (let sz = wrap64 (sz + int (length cur)) in sz > maxSizeBytes \<or> size_exceeds maxSizeBytes sz txs)"

definition TxRecordSet_Validate :: "TxRecordSet \<Rightarrow> int \<Rightarrow> Tx list \<Rightarrow> tx_error + unit" where
  "TxRecordSet_Validate t maxSizeBytes otxs =
     (if length (unknown t) > 0 then Inl ErrTxUnknown
      else if adjacent_dup (sortedCopy (all_txs t)) then Inl ErrTxDuplicate
      else
        let addedCopy = sortedCopy (added t); removedCopy = sortedCopy (removed t);
            delayedCopy = sortedCopy (delayed t); unmodifiedCopy = sortedCopy (unmodified t)
        in if size_exceeds maxSizeBytes 0 (unmodifiedCopy @ addedCopy) then Inl ErrTxSize
           else
             let otxsCopy = sortedCopy otxs
             in if \<not> snd (containsAll otxsCopy unmodifiedCopy) then Inl ErrTxUnmodified
                else if \<not> snd (containsAll otxsCopy removedCopy) then Inl ErrTxRemoved
                else if \<not> snd (containsAll otxsCopy delayedCopy) then Inl ErrTxDelayed
                else if snd (containsAny otxsCopy addedCopy) then Inl ErrTxAdded
                else Inr ())"

section \<open>Searching sorted slices\<close>

lemma search_loop_spec:
  assumes "\<And>a b. a \<le> b \<Longrightarrow> b < j \<Longrightarrow> f a \<Longrightarrow> f b" and "i \<le> j"
  shows "i \<le> search_loop f i j \<and> search_loop f i j \<le> j
    \<and> (\<forall>k. i \<le> k \<and> k < search_loop f i j \<longrightarrow> \<not> f k) \<and> (\<forall>k. search_loop f i j \<le> k \<and> k < j \<longrightarrow> f k)"
  using assms
proof (induction f i j rule: search_loop.induct)
  case (1 f i j)
  show ?case
  proof (cases "i < j")
    case False
    then show ?thesis using 1(4) by (subst (1 2 3 4) search_loop.simps) auto
  next
    case True
    let ?h = "(i + j) div 2"
    have h: "i \<le> ?h" "?h < j" using True by auto
    show ?thesis
    proof (cases "f ?h")
      case False
      have e: "search_loop f i j = search_loop f (?h + 1) j" using True False by (subst search_loop.simps) (simp add: Let_def)
      have lo: "\<not> f k" if "k \<le> ?h" for k using 1(3) [of k ?h] that h False by blast
      have ih: "?h + 1 \<le> search_loop f (?h + 1) j \<and> search_loop f (?h + 1) j \<le> j
          \<and> (\<forall>k. ?h + 1 \<le> k \<and> k < search_loop f (?h + 1) j \<longrightarrow> \<not> f k)
          \<and> (\<forall>k. search_loop f (?h + 1) j \<le> k \<and> k < j \<longrightarrow> f k)"
        by (rule 1(1) [OF True refl False]) (use 1(3) h in auto)
      have "\<not> f k" if "k < search_loop f (?h + 1) j" for k
        using ih lo that by (cases "k \<le> ?h") auto
      then show ?thesis using ih h unfolding e by auto
    next
      case T: True
      have e: "search_loop f i j = search_loop f i ?h" using True T by (subst search_loop.simps) (simp add: Let_def)
      have ih: "i \<le> search_loop f i ?h \<and> search_loop f i ?h \<le> ?h
          \<and> (\<forall>k. i \<le> k \<and> k < search_loop f i ?h \<longrightarrow> \<not> f k) \<and> (\<forall>k. search_loop f i ?h \<le> k \<and> k < ?h \<longrightarrow> f k)"
        by (rule 1(2) [OF True refl]) (use 1(3) h T in \<open>auto intro: less_trans\<close>)
      have "f k" if "?h \<le> k" "k < j" for k using 1(3) [of ?h k] that T by blast
      then have "f k" if "search_loop f i ?h \<le> k" "k < j" for k
        using ih that by (cases "k < ?h") auto
      then show ?thesis using ih h unfolding e by auto
    qed
  qed
qed

lemma contains_iff:
  assumes s: "sorted xs"
  shows "snd (contains xs x) \<longleftrightarrow> x \<in> set xs"
proof -
  define n where "n = search_loop (\<lambda>i. x \<le> xs ! i) 0 (length xs)"
  have m: "\<And>a b. a \<le> b \<Longrightarrow> b < length xs \<Longrightarrow> x \<le> xs ! a \<Longrightarrow> x \<le> xs ! b"
    using sorted_nth_mono [OF s] by (meson order_trans)
  have "0 \<le> n \<and> n \<le> length xs \<and> (\<forall>k. 0 \<le> k \<and> k < n \<longrightarrow> \<not> x \<le> xs ! k) \<and> (\<forall>k. n \<le> k \<and> k < length xs \<longrightarrow> x \<le> xs ! k)"
    unfolding n_def by (rule search_loop_spec) (auto intro: m)
  then have n: "n \<le> length xs" "\<forall>k. 0 \<le> k \<and> k < n \<longrightarrow> \<not> x \<le> xs ! k" "\<forall>k. n \<le> k \<and> k < length xs \<longrightarrow> x \<le> xs ! k"
    by blast+
  have "x \<in> set xs \<longleftrightarrow> n < length xs \<and> x = xs ! n"
  proof
    assume "x \<in> set xs"
    then obtain k where k: "k < length xs" "xs ! k = x" by (meson in_set_conv_nth)
    have nk: "n \<le> k" using n(2) k by (metis le0 not_le order_refl)
    then have lt: "n < length xs" using k by simp
    have "xs ! n \<le> x" using sorted_nth_mono [OF s nk k(1)] k(2) by simp
    moreover have "x \<le> xs ! n" using n(3) lt by blast
    ultimately show "n < length xs \<and> x = xs ! n" using lt by simp
  next
    assume "n < length xs \<and> x = xs ! n"
    then show "x \<in> set xs" by (metis nth_mem)
  qed
  moreover have "snd (contains xs x) \<longleftrightarrow> \<not> (n = length xs \<or> x \<noteq> xs ! n)"
    unfolding contains_def n_def [symmetric] Let_def by simp
  ultimately show ?thesis using n(1) by linarith
qed

lemma containsAny_iff: "sorted a \<Longrightarrow> snd (containsAny a b) \<longleftrightarrow> set a \<inter> set b \<noteq> {}"
proof -
  assume s: "sorted a"
  have "snd (containsAny_loop a i b) \<longleftrightarrow> set a \<inter> set b \<noteq> {}" for i
    by (induction b arbitrary: i) (auto simp: contains_iff [OF s])
  then show ?thesis by (simp add: containsAny_def)
qed

lemma containsAll_iff: "sorted a \<Longrightarrow> snd (containsAll a b) \<longleftrightarrow> set b \<subseteq> set a"
proof -
  assume s: "sorted a"
  have "snd (containsAll_loop a i b) \<longleftrightarrow> set b \<subseteq> set a" for i
    by (induction b arbitrary: i) (auto simp: contains_iff [OF s])
  then show ?thesis by (simp add: containsAll_def)
qed

lemma adjacent_dup_iff: "sorted xs \<Longrightarrow> adjacent_dup xs \<longleftrightarrow> \<not> distinct xs"
proof (induction xs rule: adjacent_dup.induct)
  case (1 x y r)
  then have "x \<in> set r \<Longrightarrow> x = y" by (auto intro: antisym)
  then show ?case using 1 by auto
qed auto

lemma size_exceeds_iff:
  "0 \<le> sz \<Longrightarrow> sz + int (length (concat txs)) \<le> MaxInt64 \<Longrightarrow> sz \<le> maxSizeBytes \<Longrightarrow>
   size_exceeds maxSizeBytes sz txs \<longleftrightarrow> maxSizeBytes < sz + int (length (concat txs))"
proof (induction txs arbitrary: sz)
  case (Cons t txs)
  have w: "wrap64 (sz + int (length t)) = sz + int (length t)" using Cons.prems by (intro wrap64_id) (simp add: in_int64_def)
  show ?case
  proof (cases "maxSizeBytes < sz + int (length t)")
    case True
    then show ?thesis using w by (simp add: Let_def)
  next
    case False
    then show ?thesis using w Cons.IH [of "sz + int (length t)"] Cons.prems by (simp add: Let_def add.assoc)
  qed
qed simp

lemma sortedCopy_simps [simp]:
  "set (sortedCopy xs) = set xs" "sorted (sortedCopy xs)" "distinct (sortedCopy xs) \<longleftrightarrow> distinct xs"
  "length (concat (sortedCopy xs)) = length (concat xs)"
proof -
  show "set (sortedCopy xs) = set xs" "sorted (sortedCopy xs)" "distinct (sortedCopy xs) \<longleftrightarrow> distinct xs"
    by (simp_all add: sortedCopy_def)
  have "mset (map length (sort xs)) = mset (map length xs)" by simp
  then have "sum_list (map length (sort xs)) = sum_list (map length xs)" by (metis sum_mset_sum_list)
  then show "length (concat (sortedCopy xs)) = length (concat xs)" by (simp add: sortedCopy_def length_concat)
qed

section \<open>Properties\<close>

lemma record_loop_all: "all_txs (record_loop trs s) = all_txs s @ map snd trs"
  by (induction trs s rule: record_loop.induct) (auto simp: Let_def split: option.splits TxAction.splits)

lemma Txs_Proof_Validate:
  assumes "i < length txs"
  shows "\<exists>tp. Txs_Proof sha txs (int i) = Ret tp \<and> txp_Data tp = txs ! i \<and> TxProof_Validate sha tp (Txs_Hash sha txs) = Inr ()"
proof -
  obtain root proofs where p: "ProofsFromByteSlices sha (hashList sha txs) = (root, proofs)" by fastforce
  note nth = ProofsFromByteSlices_nth [OF p]
  have l: "length (hashList sha txs) = length txs" "hashList sha txs ! i = Tx_Hash sha (txs ! i)"
    using assms by (simp_all add: hashList_def)
  have "Txs_Proof sha txs (int i) = Ret \<lparr>RootHash = root, txp_Data = txs ! i, txp_Proof = proofs ! i\<rparr>"
    using assms nth(2) l by (simp add: Txs_Proof_def p go_index_def)
  moreover have "TxProof_Validate sha \<lparr>RootHash = root, txp_Data = txs ! i, txp_Proof = proofs ! i\<rparr> (Txs_Hash sha txs) = Inr ()"
    using assms nth(1) nth(3) [of i] l trails_verify [of i "hashList sha txs" sha]
    by (auto simp: TxProof_Validate_def Txs_Hash_def HashFromByteSlices_def Proof_Verify_def ComputeRootHash_def TxProof_Leaf_def)
  ultimately show ?thesis by simp
qed

text \<open>
  C20: The check of transaction records against the proposed transactions, which sorts copies, looks for
  adjacent duplicates and searches by bisection, succeeds exactly when no record is of unknown action, no
  transaction occurs twice, the transactions of the block fit the size limit, every transaction reported
  as unmodified, removed or delayed is one of the original ones and none reported as added is.\<close>

theorem TxRecordSet_Validate_iff:
  assumes "t = NewTxRecordSet trs" and "0 \<le> maxSizeBytes"
    and "int (length (concat (unmodified t @ added t))) \<le> MaxInt64"
  shows "TxRecordSet_Validate t maxSizeBytes otxs = Inr () \<longleftrightarrow>
    unknown t = [] \<and> distinct (map snd trs)
    \<and> int (length (concat (unmodified t @ added t))) \<le> maxSizeBytes
    \<and> set (unmodified t) \<union> set (removed t) \<union> set (delayed t) \<subseteq> set otxs
    \<and> set (added t) \<inter> set otxs = {}"
proof -
  have all: "all_txs t = map snd trs" using assms(1) by (simp add: NewTxRecordSet_def record_loop_all)
  have dup: "adjacent_dup (sortedCopy (all_txs t)) \<longleftrightarrow> \<not> distinct (map snd trs)"
    by (simp add: adjacent_dup_iff all)
  have len: "length (concat (sortedCopy (unmodified t) @ sortedCopy (added t))) = length (concat (unmodified t @ added t))"
    using sortedCopy_simps(4) by simp
  have sz: "size_exceeds maxSizeBytes 0 (sortedCopy (unmodified t) @ sortedCopy (added t))
      \<longleftrightarrow> maxSizeBytes < int (length (concat (unmodified t @ added t)))"
    using size_exceeds_iff [of 0 "sortedCopy (unmodified t) @ sortedCopy (added t)" maxSizeBytes] assms(2,3) len by simp
  show ?thesis
    unfolding TxRecordSet_Validate_def Let_def dup sz
    by (auto simp: containsAll_iff containsAny_iff)
qed

theorem TxRecordSet_Validate_iff_witness:
  "TxRecordSet_Validate (NewTxRecordSet [(Some TxRecord_UNMODIFIED, [1]), (Some TxRecord_ADDED, [2]), (Some TxRecord_REMOVED, [3])])
     2 [[3], [1]] = Inr ()"
proof -
  let ?trs = "[(Some TxRecord_UNMODIFIED, [1]), (Some TxRecord_ADDED, [2]), (Some TxRecord_REMOVED, [3 :: 8 word])]"
  have "int (length (concat (unmodified (NewTxRecordSet ?trs) @ added (NewTxRecordSet ?trs)))) \<le> MaxInt64"
    by (simp add: NewTxRecordSet_def)
  then show ?thesis
    using TxRecordSet_Validate_iff [of _ ?trs 2 "[[3], [1]]"] by (auto simp: NewTxRecordSet_def)
qed

end
