(* ===== verification/Blocks.thy ===== *)
theory Blocks
  imports Txs Part_Set Commits Proposals
begin

text \<open>
  \<open>src/types/block.go\<close> (headers, blocks, their hashes and basic validation), \<open>block_dash.go\<close>,
  \<open>encoding_helper.go\<close> (\<open>cdcEncode\<close>), the \<open>StateID\<close> of \<open>src/proto/tendermint/types/types.go\<close> and the
  evidence of \<open>src/types/evidence.go\<close>.

  The record \<open>block_lib\<close> collects what is not in the repository or is generated: SHA-256 and the
  protobuf encoders. Times are nanoseconds since the epoch. The three hashes that \<open>fillHeader\<close> fills
  in when they are nil are of type \<open>option\<close>; elsewhere a nil slice is the empty one. Memoised hashes
  are left out: nothing changes what they are computed from.

  Results: what a block hash determines of the header, and that a block which is made and populated
  with well-formed fields is accepted by \<open>ValidateBasic\<close> with the hash it had before.
\<close>

section \<open>Definitions\<close>

record Version =
  ver_Block :: nat
  ver_App :: nat

record Header =
  hdr_Version :: Version
  hdr_ChainID :: string
  hdr_Height :: int
  hdr_CoreChainLockedHeight :: nat
  hdr_Time :: int
  LastBlockID :: BlockID
  LastCommitHash :: "bytes option"
  DataHash :: "bytes option"
  hdr_ValidatorsHash :: bytes
  NextValidatorsHash :: bytes
  ConsensusHash :: bytes
  NextConsensusHash :: bytes
  AppHash :: bytes
  ResultsHash :: bytes
  EvidenceHash :: "bytes option"
  hdr_ProposerProTxHash :: bytes
  ProposedAppVersion :: nat

record DuplicateVoteEvidence =
  VoteA :: "Vote option"
  VoteB :: "Vote option"
  dve_TotalVotingPower :: int
  ValidatorPower :: int
  dve_Timestamp :: int

record Block =
  block_Header :: Header
  block_Txs :: "Tx list"
  block_CoreChainLock :: "CoreChainLock option"
  block_Evidence :: "DuplicateVoteEvidence list"
  LastCommit :: "Commit option"

record StateIDRec =
  sid_AppVersion :: nat
  sid_Height :: int
  sid_AppHash :: bytes
  sid_CoreChainLockedHeight :: nat
  sid_Time :: int

record block_lib =
  bl_sha :: "bytes \<Rightarrow> bytes"
  enc_version :: "Version \<Rightarrow> bytes"
  enc_time :: "int \<Rightarrow> bytes option"
  enc_blockid :: "BlockID \<Rightarrow> bytes"
  enc_string :: "string \<Rightarrow> bytes"
  enc_int64 :: "int \<Rightarrow> bytes"
  enc_uint64 :: "nat \<Rightarrow> bytes"
  enc_bytes :: "bytes \<Rightarrow> bytes"
  enc_stateid :: "StateIDRec \<Rightarrow> bytes"
  enc_evidence :: "DuplicateVoteEvidence \<Rightarrow> bytes"
  enc_block :: "Block \<Rightarrow> bytes option"

abbreviation (input) BlockProtocol :: nat where "BlockProtocol \<equiv> 14"
abbreviation (input) MaxChainIDLen :: nat where "MaxChainIDLen \<equiv> 50"

definition opt_bytes :: "bytes option \<Rightarrow> bytes" where
  "opt_bytes b = (case b of None \<Rightarrow> [] | Some b \<Rightarrow> b)"

datatype block_error =
    ErrHeaderProtocol | ErrHeaderChainID | ErrHeaderNegativeHeight | ErrHeaderZeroHeight | ErrHeaderLastBlockID
  | ErrHeaderLastCommitHash | ErrHeaderDataHash | ErrHeaderEvidenceHash | ErrHeaderProposer
  | ErrHeaderValidatorsHash | ErrHeaderNextValidatorsHash | ErrHeaderConsensusHash
  | ErrHeaderNextConsensusHash | ErrHeaderResultsHash
  | ErrBlockNil | ErrBlockChainLock | ErrBlockNilCommit | ErrBlockCommit commit_error
  | ErrBlockLastCommitHash | ErrBlockDataHash | ErrBlockEvidence | ErrBlockEvidenceHash
  | ErrBlockEncode | ErrBlockTooSmall
  | ErrEvidenceMissingVote | ErrEvidenceMissingSet | ErrEvidenceValidator
  | ErrEvidenceTime | ErrEvidenceValidatorPower | ErrEvidenceTotalPower

subsection \<open>Evidence\<close>

text \<open>\<open>strings.Compare\<close> on map keys is the order of their bytes.\<close>

definition NewDuplicateVoteEvidence ::
  "Vote option \<Rightarrow> Vote option \<Rightarrow> int \<Rightarrow> ValidatorSet option \<Rightarrow> (block_error + DuplicateVoteEvidence) exec" where
  "NewDuplicateVoteEvidence vote1 vote2 blockTime valset =
     (case (vote1, vote2, valset) of
        (Some v1, Some v2, Some vals) \<Rightarrow>
          exec_bind (GetByProTxHash valset (ValidatorProTxHash v1)) (\<lambda>(idx, val).
            if idx = - 1 then Ret (Inl ErrEvidenceValidator)
            else case val of
                   None \<Rightarrow> Panic
                 | Some val \<Rightarrow>
                     let (a, b) = (if BlockID_Key (vote_BlockID v1) < BlockID_Key (vote_BlockID v2)
                                   then (v1, v2) else (v2, v1))
                     in Ret (Inr \<lparr>VoteA = Some a, VoteB = Some b, dve_TotalVotingPower = TotalVotingPower vals,
                                  ValidatorPower = VotingPower val, dve_Timestamp = blockTime\<rparr>))
      | (Some _, Some _, None) \<Rightarrow> Ret (Inl ErrEvidenceMissingSet)
      | _ \<Rightarrow> Ret (Inl ErrEvidenceMissingVote))"

definition dve_ValidateBasic :: "DuplicateVoteEvidence option \<Rightarrow> bool" where
  "dve_ValidateBasic dve =
     (case dve of
        None \<Rightarrow> False
      | Some e \<Rightarrow>
          (case (VoteA e, VoteB e) of
             (Some a, Some b) \<Rightarrow> Vote_ValidateBasic a \<and> Vote_ValidateBasic b
               \<and> BlockID_Key (vote_BlockID a) < BlockID_Key (vote_BlockID b)
           | _ \<Rightarrow> False))"

definition ValidateABCI :: "DuplicateVoteEvidence \<Rightarrow> Validator \<Rightarrow> ValidatorSet \<Rightarrow> int \<Rightarrow> block_error + unit" where
  "ValidateABCI dve val valset evidenceTime =
     (if dve_Timestamp dve \<noteq> evidenceTime then Inl ErrEvidenceTime
      else if VotingPower val \<noteq> ValidatorPower dve then Inl ErrEvidenceValidatorPower
      else if TotalVotingPower valset \<noteq> dve_TotalVotingPower dve then Inl ErrEvidenceTotalPower
      else Inr ())"

definition GenerateABCI :: "Validator \<Rightarrow> ValidatorSet \<Rightarrow> int \<Rightarrow> DuplicateVoteEvidence \<Rightarrow> DuplicateVoteEvidence" where
  "GenerateABCI val valset evidenceTime dve =
     dve\<lparr>ValidatorPower := VotingPower val, dve_TotalVotingPower := TotalVotingPower valset, dve_Timestamp := evidenceTime\<rparr>"

definition EvidenceList_Hash :: "block_lib \<Rightarrow> DuplicateVoteEvidence list \<Rightarrow> bytes" where
  "EvidenceList_Hash bl evl = HashFromByteSlices (bl_sha bl) (map (enc_evidence bl) evl)"

definition dve_Hash :: "block_lib \<Rightarrow> DuplicateVoteEvidence \<Rightarrow> bytes" where
  "dve_Hash bl dve = bl_sha bl (enc_evidence bl dve)"

definition EvidenceList_Has :: "block_lib \<Rightarrow> DuplicateVoteEvidence list \<Rightarrow> DuplicateVoteEvidence \<Rightarrow> bool" where
  "EvidenceList_Has bl evl ev \<longleftrightarrow> list_ex (\<lambda>e. dve_Hash bl ev = dve_Hash bl e) evl"

subsection \<open>Headers\<close>

definition Populate ::
  "Version \<Rightarrow> string \<Rightarrow> int \<Rightarrow> BlockID \<Rightarrow> bytes \<Rightarrow> bytes \<Rightarrow> bytes \<Rightarrow> bytes \<Rightarrow> bytes \<Rightarrow> bytes \<Rightarrow> bytes \<Rightarrow> nat
   \<Rightarrow> Header \<Rightarrow> Header" where
  "Populate version chainID timestamp lastBlockID valHash nextValHash consensusHash nextConsensusHash appHash
     resultsHash proposerProTxHash proposedAppVersion h =
     h\<lparr>hdr_Version := version, hdr_ChainID := chainID, hdr_Time := timestamp, LastBlockID := lastBlockID,
       hdr_ValidatorsHash := valHash, NextValidatorsHash := nextValHash, ConsensusHash := consensusHash,
       NextConsensusHash := nextConsensusHash, AppHash := appHash, ResultsHash := resultsHash,
       hdr_ProposerProTxHash := proposerProTxHash, ProposedAppVersion := proposedAppVersion\<rparr>"

definition Header_ValidateBasic :: "Header \<Rightarrow> block_error + unit" where
  "Header_ValidateBasic h =
     (if ver_Block (hdr_Version h) \<noteq> BlockProtocol then Inl ErrHeaderProtocol
      else if length (hdr_ChainID h) > MaxChainIDLen then Inl ErrHeaderChainID
      else if hdr_Height h < 0 then Inl ErrHeaderNegativeHeight
      else if hdr_Height h = 0 then Inl ErrHeaderZeroHeight
      else if \<not> BlockID_ValidateBasic (LastBlockID h) then Inl ErrHeaderLastBlockID
      else if \<not> ValidateHash (opt_bytes (LastCommitHash h)) then Inl ErrHeaderLastCommitHash
      else if \<not> ValidateHash (opt_bytes (DataHash h)) then Inl ErrHeaderDataHash
      else if \<not> ValidateHash (opt_bytes (EvidenceHash h)) then Inl ErrHeaderEvidenceHash
      else if length (hdr_ProposerProTxHash h) \<noteq> DefaultHashSize then Inl ErrHeaderProposer
      else if \<not> ValidateHash (hdr_ValidatorsHash h) then Inl ErrHeaderValidatorsHash
      else if \<not> ValidateHash (NextValidatorsHash h) then Inl ErrHeaderNextValidatorsHash
      else if \<not> ValidateHash (ConsensusHash h) then Inl ErrHeaderConsensusHash
      else if \<not> ValidateHash (NextConsensusHash h) then Inl ErrHeaderNextConsensusHash
      else if \<not> ValidateHash (ResultsHash h) then Inl ErrHeaderResultsHash
      else Inr ())"

definition IsTimely :: "Header \<Rightarrow> int \<Rightarrow> SynchronyParams \<Rightarrow> int \<Rightarrow> bool exec" where
  "IsTimely h recvTime sp round = exec_bind (checkTimely (hdr_Time h) recvTime sp round) (\<lambda>r. Ret (r = 0))"

text \<open>\<open>UnixMilli\<close> rounds down; the conversions to \<open>uint64\<close> wrap.\<close>

definition Header_StateID :: "Header \<Rightarrow> StateIDRec" where
  "Header_StateID h =
     \<lparr>sid_AppVersion = ver_App (hdr_Version h), sid_Height = conv TUint64 (hdr_Height h),
      sid_AppHash = (if length (AppHash h) \<noteq> 0 then AppHash h else replicate DefaultHashSize 0),
      sid_CoreChainLockedHeight = hdr_CoreChainLockedHeight h,
      sid_Time = conv TUint64 (hdr_Time h div 1000000)\<rparr>"

definition StateID_Hash :: "block_lib \<Rightarrow> StateIDRec \<Rightarrow> bytes" where
  "StateID_Hash bl s = bl_sha bl (enc_stateid bl s)"

definition StateID_IsZero :: "StateIDRec option \<Rightarrow> bool" where
  "StateID_IsZero s =
     (case s of
        None \<Rightarrow> True
      | Some s \<Rightarrow> (length (sid_AppHash s) = 0 \<or> sid_AppHash s = replicate DefaultHashSize 0) \<and> sid_AppVersion s = 0
          \<and> sid_CoreChainLockedHeight s = 0 \<and> sid_Height s = 0 \<and> sid_Time s = 0)"

definition StateID_ValidateBasic :: "StateIDRec \<Rightarrow> bool" where
  "StateID_ValidateBasic s \<longleftrightarrow> sid_Time s \<noteq> 0 \<and> length (sid_AppHash s) = DefaultHashSize"

text \<open>
  \<open>cdcEncode\<close> dispatches on the type of its argument: strings, \<open>int64\<close>, \<open>uint64\<close> and byte slices have an
  encoder; any other type, among them the \<open>uint32\<close> of the core height, is encoded as nil. Empty strings
  and slices are encoded as nil too.
\<close>

datatype cdc_item = CdcString string | CdcInt64 int | CdcUint64 nat | CdcUint32 nat | CdcBytes bytes

fun cdcEncode :: "block_lib \<Rightarrow> cdc_item \<Rightarrow> bytes" where
  "cdcEncode bl (CdcString x) = (if length x = 0 then [] else enc_string bl x)"
| "cdcEncode bl (CdcInt64 x) = enc_int64 bl x"
| "cdcEncode bl (CdcUint64 x) = enc_uint64 bl x"
| "cdcEncode bl (CdcUint32 x) = []"
| "cdcEncode bl (CdcBytes x) = (if length x = 0 then [] else enc_bytes bl x)"

definition header_leaves :: "block_lib \<Rightarrow> bytes \<Rightarrow> Header \<Rightarrow> bytes list" where
  "header_leaves bl blockTime h =
     [enc_version bl (hdr_Version h), cdcEncode bl (CdcString (hdr_ChainID h)), cdcEncode bl (CdcInt64 (hdr_Height h)),
      cdcEncode bl (CdcUint32 (hdr_CoreChainLockedHeight h)), blockTime, enc_blockid bl (LastBlockID h),
      cdcEncode bl (CdcBytes (opt_bytes (LastCommitHash h))), cdcEncode bl (CdcBytes (opt_bytes (DataHash h))),
      cdcEncode bl (CdcBytes (hdr_ValidatorsHash h)), cdcEncode bl (CdcBytes (NextValidatorsHash h)),
      cdcEncode bl (CdcBytes (ConsensusHash h)), cdcEncode bl (CdcBytes (NextConsensusHash h)),
      cdcEncode bl (CdcBytes (AppHash h)), cdcEncode bl (CdcBytes (ResultsHash h)),
      cdcEncode bl (CdcBytes (opt_bytes (EvidenceHash h))), cdcEncode bl (CdcBytes (hdr_ProposerProTxHash h)),
      cdcEncode bl (CdcUint64 (ProposedAppVersion h))]"

definition Header_Hash :: "block_lib \<Rightarrow> Header \<Rightarrow> bytes" where
  "Header_Hash bl h =
     (if length (hdr_ValidatorsHash h) = 0 then []
      else case enc_time bl (hdr_Time h) of
             None \<Rightarrow> []
           | Some blockTime \<Rightarrow> HashFromByteSlices (bl_sha bl) (header_leaves bl blockTime h))"

text \<open>The encoder of the version and of the block identifier do not fail.\<close>

definition HeaderFromProto :: "Header \<Rightarrow> block_error + Header" where
  "HeaderFromProto ph =
     (if \<not> psh_ValidateBasic (bid_PartSetHeader (LastBlockID ph)) \<or> \<not> BlockID_ValidateBasic (LastBlockID ph)
      then Inl ErrHeaderLastBlockID
      else res_bind (Header_ValidateBasic ph) (\<lambda>_. Inr ph))"

subsection \<open>Blocks\<close>

definition Commit_Hash :: "block_lib \<Rightarrow> Commit option \<Rightarrow> bytes" where
  "Commit_Hash bl commit = (case commit of None \<Rightarrow> [] | Some c \<Rightarrow> bl_sha bl (ThresholdBlockSignature c))"

definition Data_Hash :: "block_lib \<Rightarrow> Tx list \<Rightarrow> bytes" where
  "Data_Hash bl txs = Txs_Hash (bl_sha bl) txs"

text \<open>A nil commit has a nil hash, which leaves \<open>LastCommitHash\<close> nil.\<close>

definition fillHeader :: "block_lib \<Rightarrow> Block \<Rightarrow> Block" where
  "fillHeader bl b =
     (let h = block_Header b;
          h = (if LastCommitHash h = None
               then h\<lparr>LastCommitHash := map_option (\<lambda>c. Commit_Hash bl (Some c)) (LastCommit b)\<rparr> else h);
          h = (if DataHash h = None then h\<lparr>DataHash := Some (Data_Hash bl (block_Txs b))\<rparr> else h);
          h = (if EvidenceHash h = None then h\<lparr>EvidenceHash := Some (EvidenceList_Hash bl (block_Evidence b))\<rparr> else h)
      in b\<lparr>block_Header := h\<rparr>)"

definition SetTxs :: "block_lib \<Rightarrow> Tx list \<Rightarrow> Block \<Rightarrow> Block" where
  "SetTxs bl txs b = fillHeader bl (b\<lparr>block_Txs := txs, block_Header := (block_Header b)\<lparr>DataHash := None\<rparr>\<rparr>)"

text \<open>\<open>Hash\<close> fills in the header of the block it is called on; the hash is that of the filled header.\<close>

definition Block_Hash :: "block_lib \<Rightarrow> Block option \<Rightarrow> bytes" where
  "Block_Hash bl b =
     (case b of
        None \<Rightarrow> []
      | Some b \<Rightarrow> if LastCommit b = None then [] else Header_Hash bl (block_Header (fillHeader bl b)))"

definition HashesTo :: "block_lib \<Rightarrow> Block option \<Rightarrow> bytes \<Rightarrow> bool" where
  "HashesTo bl b h \<longleftrightarrow> length h \<noteq> 0 \<and> b \<noteq> None \<and> Block_Hash bl b = h"

definition SetCoreChainLock :: "CoreChainLock option \<Rightarrow> Block \<Rightarrow> Block" where
  "SetCoreChainLock chainlock b =
     (case chainlock of
        None \<Rightarrow> b
      | Some c \<Rightarrow>
          if hdr_CoreChainLockedHeight (block_Header b) < CoreBlockHeight c
          then b\<lparr>block_CoreChainLock := chainlock,
                 block_Header := (block_Header b)\<lparr>hdr_CoreChainLockedHeight := CoreBlockHeight c\<rparr>\<rparr>
          else b)"

definition SetDashParams :: "nat \<Rightarrow> CoreChainLock option \<Rightarrow> nat \<Rightarrow> bytes \<Rightarrow> Block \<Rightarrow> Block" where
  "SetDashParams lastCoreChainLockedBlockHeight coreChainLock proposedAppVersion nextValidatorsHash b =
     (let h = (block_Header b)\<lparr>hdr_CoreChainLockedHeight :=
                 (case coreChainLock of None \<Rightarrow> lastCoreChainLockedBlockHeight | Some c \<Rightarrow> CoreBlockHeight c),
               ProposedAppVersion := proposedAppVersion\<rparr>;
          h = (if length nextValidatorsHash > 0 then h\<lparr>NextValidatorsHash := nextValidatorsHash\<rparr> else h)
      in b\<lparr>block_Header := h, block_CoreChainLock := coreChainLock\<rparr>)"

definition MakePartSet :: "block_lib \<Rightarrow> Block option \<Rightarrow> nat \<Rightarrow> (block_error + PartSet) exec" where
  "MakePartSet bl b partSize =
     (case b of
        None \<Rightarrow> Ret (Inl ErrBlockNil)
      | Some b \<Rightarrow>
          (case enc_block bl b of
             None \<Rightarrow> Ret (Inl ErrBlockEncode)
           | Some bz \<Rightarrow> exec_bind (NewPartSetFromData (bl_sha bl) bz partSize) (\<lambda>ps. Ret (Inr ps))))"

definition nil_BlockID :: BlockID where
  "nil_BlockID = \<lparr>bid_Hash = [], bid_PartSetHeader = \<lparr>Total = 0, psh_Hash = []\<rparr>, StateID = []\<rparr>"

definition Block_BlockID :: "block_lib \<Rightarrow> Block option \<Rightarrow> PartSet option \<Rightarrow> BlockID exec" where
  "Block_BlockID bl b partSet =
     (case b of
        None \<Rightarrow> Ret nil_BlockID
      | Some blk \<Rightarrow>
          let blockHash = Block_Hash bl b
          in if length blockHash = 0 then Ret nil_BlockID
             else exec_bind
                    (case partSet of
                       Some ps \<Rightarrow> Ret ps
                     | None \<Rightarrow> exec_bind (MakePartSet bl (Some (fillHeader bl blk)) BlockPartSizeBytes)
                                (\<lambda>r. case r of Inl _ \<Rightarrow> Panic | Inr ps \<Rightarrow> Ret ps))
                    (\<lambda>ps. Ret \<lparr>bid_Hash = blockHash, bid_PartSetHeader = ps_Header (Some ps),
                              StateID = StateID_Hash bl (Header_StateID (block_Header blk))\<rparr>))"

definition Block_ValidateBasic :: "block_lib \<Rightarrow> Block option \<Rightarrow> block_error + unit" where
  "Block_ValidateBasic bl b =
     (case b of
        None \<Rightarrow> Inl ErrBlockNil
      | Some b \<Rightarrow>
          res_bind (Header_ValidateBasic (block_Header b)) (\<lambda>_.
          if (case block_CoreChainLock b of None \<Rightarrow> False | Some c \<Rightarrow> \<not> ccl_ValidateBasic c) then Inl ErrBlockChainLock
          else case LastCommit b of
                 None \<Rightarrow> Inl ErrBlockNilCommit
               | Some c \<Rightarrow>
                   (case Commit_ValidateBasic c of
                      Inl e \<Rightarrow> Inl (ErrBlockCommit e)
                    | Inr _ \<Rightarrow>
                        if Commit_Hash bl (Some c) \<noteq> opt_bytes (LastCommitHash (block_Header b)) then Inl ErrBlockLastCommitHash
                        else if Data_Hash bl (block_Txs b) \<noteq> opt_bytes (DataHash (block_Header b)) then Inl ErrBlockDataHash
                        else if \<not> list_all (\<lambda>e. dve_ValidateBasic (Some e)) (block_Evidence b) then Inl ErrBlockEvidence
                        else if EvidenceList_Hash bl (block_Evidence b) \<noteq> opt_bytes (EvidenceHash (block_Header b))
                        then Inl ErrBlockEvidenceHash
                        else Inr ())))"

text \<open>
  A decoded protobuf block has the fields of a block. The votes of its evidence are typed; a commit that
  is there is checked as \<open>CommitFromProto\<close> does.
\<close>

definition CommitFromProto :: "Commit option \<Rightarrow> commit_error + Commit" where
  "CommitFromProto cp =
     (case cp of
        None \<Rightarrow> Inl ErrNilCommit
      | Some c \<Rightarrow>
          if \<not> psh_ValidateBasic (bid_PartSetHeader (commit_BlockID c)) \<or> \<not> BlockID_ValidateBasic (commit_BlockID c)
          then Inl ErrCommitBlockID
          else res_bind (Commit_ValidateBasic c) (\<lambda>_. Inr c))"

definition DuplicateVoteEvidenceFromProto :: "DuplicateVoteEvidence \<Rightarrow> block_error + DuplicateVoteEvidence" where
  "DuplicateVoteEvidenceFromProto pb =
     (if (case VoteA pb of None \<Rightarrow> False | Some v \<Rightarrow> \<not> Vote_ValidateBasic v)
         \<or> (case VoteB pb of None \<Rightarrow> False | Some v \<Rightarrow> \<not> Vote_ValidateBasic v) \<or> \<not> dve_ValidateBasic (Some pb)
      then Inl ErrBlockEvidence else Inr pb)"

definition BlockFromProto :: "block_lib \<Rightarrow> Block option \<Rightarrow> block_error + Block" where
  "BlockFromProto bl bp =
     (case bp of
        None \<Rightarrow> Inl ErrBlockNil
      | Some b \<Rightarrow>
          res_bind (HeaderFromProto (block_Header b)) (\<lambda>_.
          if list_ex (\<lambda>e. isl (DuplicateVoteEvidenceFromProto e)) (block_Evidence b) then Inl ErrBlockEvidence
          else if \<not> snd (CoreChainLockFromProto (block_CoreChainLock b)) then Inl ErrBlockChainLock
          else
            res_bind (case LastCommit b of
                        None \<Rightarrow> Inr ()
                      | Some c \<Rightarrow> (case CommitFromProto (Some c) of Inl e \<Rightarrow> Inl (ErrBlockCommit e) | Inr _ \<Rightarrow> Inr ()))
              (\<lambda>_. res_bind (Block_ValidateBasic bl bp) (\<lambda>_. Inr b))))"

definition empty_Header :: Header where
  "empty_Header =
     \<lparr>hdr_Version = \<lparr>ver_Block = BlockProtocol, ver_App = 0\<rparr>, hdr_ChainID = [], hdr_Height = 0, hdr_CoreChainLockedHeight = 0,
      hdr_Time = - 62135596800000000000, LastBlockID = nil_BlockID, LastCommitHash = None, DataHash = None,
      hdr_ValidatorsHash = [], NextValidatorsHash = [], ConsensusHash = [], NextConsensusHash = [], AppHash = [],
      ResultsHash = [], EvidenceHash = None, hdr_ProposerProTxHash = [], ProposedAppVersion = 0\<rparr>"

definition MakeBlock :: "block_lib \<Rightarrow> int \<Rightarrow> Tx list \<Rightarrow> Commit option \<Rightarrow> DuplicateVoteEvidence list \<Rightarrow> Block" where
  "MakeBlock bl height txs lastCommit evidence =
     fillHeader bl \<lparr>block_Header = empty_Header\<lparr>hdr_Height := height\<rparr>, block_Txs = txs, block_CoreChainLock = None,
                    block_Evidence = evidence, LastCommit = lastCommit\<rparr>"

text \<open>The size of an encoded commit is that of the generated encoder, a parameter.\<close>

definition MaxDataBytes :: "(Commit \<Rightarrow> int) \<Rightarrow> int \<Rightarrow> Commit option \<Rightarrow> int \<Rightarrow> int \<times> (block_error + unit)" where
  "MaxDataBytes commit_size maxBytes commit evidenceBytes =
     (let lastCommitSize = (case commit of None \<Rightarrow> 260 | Some c \<Rightarrow> commit_size c);
          maxDataBytes = wrap64 (wrap64 (wrap64 (wrap64 (wrap64 (maxBytes - 11) - 726) - 132) - lastCommitSize) - evidenceBytes)
      in (maxDataBytes, if maxDataBytes < 0 then Inl ErrBlockTooSmall else Inr ()))"

definition MaxDataBytesNoEvidence :: "(Commit \<Rightarrow> int) \<Rightarrow> int \<Rightarrow> int \<times> (block_error + unit)" where
  "MaxDataBytesNoEvidence commit_size maxBytes = MaxDataBytes commit_size maxBytes None 0"


section \<open>What a block hash determines\<close>

text \<open>
  What is relied on of the encoders for the values of two blocks: different values have different
  encodings, and the encoding of a non-empty string or slice is not empty.
\<close>

definition canonical_encoders :: "block_lib \<Rightarrow> Block \<Rightarrow> Block \<Rightarrow> bool" where
  "canonical_encoders bl b1 b2 \<longleftrightarrow>
     (let h1 = block_Header b1; h2 = block_Header b2 in
      inj_on (enc_version bl) {hdr_Version h1, hdr_Version h2} \<and> inj_on (enc_blockid bl) {LastBlockID h1, LastBlockID h2}
      \<and> inj_on (enc_int64 bl) {hdr_Height h1, hdr_Height h2} \<and> inj_on (enc_uint64 bl) {ProposedAppVersion h1, ProposedAppVersion h2}
      \<and> inj_on (enc_time bl) {hdr_Time h1, hdr_Time h2} \<and> inj_on (enc_evidence bl) (set (block_Evidence b1) \<union> set (block_Evidence b2))
      \<and> inj_on (enc_string bl) {hdr_ChainID h1, hdr_ChainID h2} \<and> inj (enc_bytes bl)
      \<and> (\<forall>x. x \<noteq> [] \<longrightarrow> enc_string bl x \<noteq> []) \<and> (\<forall>x. x \<noteq> [] \<longrightarrow> enc_bytes bl x \<noteq> []))"

text \<open>The inputs hashed when the hash of a block is computed.\<close>

definition block_inputs :: "block_lib \<Rightarrow> Block \<Rightarrow> bytes set" where
  "block_inputs bl b =
     tree_inputs (bl_sha bl) (header_leaves bl (the (enc_time bl (hdr_Time (block_Header b)))) (block_Header b))
     \<union> tree_inputs (bl_sha bl) (hashList (bl_sha bl) (block_Txs b)) \<union> set (block_Txs b)
     \<union> tree_inputs (bl_sha bl) (map (enc_evidence bl) (block_Evidence b))
     \<union> (case LastCommit b of None \<Rightarrow> {} | Some c \<Rightarrow> {ThresholdBlockSignature c})"

lemma cdc_bytes_inj:
  assumes "inj (enc_bytes bl)" and "\<forall>x. x \<noteq> [] \<longrightarrow> enc_bytes bl x \<noteq> []"
    and "cdcEncode bl (CdcBytes x) = cdcEncode bl (CdcBytes y)"
  shows "x = y"
  using assms(3) spec [OF assms(2), of x] spec [OF assms(2), of y]
  by (cases "x = []"; cases "y = []") (simp_all add: inj_eq [OF assms(1)])

lemma inj_on_pair: "inj_on f {x, y} \<Longrightarrow> f x = f y \<Longrightarrow> x = y"
  by (erule inj_onD, assumption, rule insertI1, rule insertI2, rule insertI1)

lemma cdc_string_inj:
  assumes "inj_on (enc_string bl) {x, y}" and "\<forall>x. x \<noteq> [] \<longrightarrow> enc_string bl x \<noteq> []"
    and "cdcEncode bl (CdcString x) = cdcEncode bl (CdcString y)"
  shows "x = y"
proof (cases "x = [] \<or> y = []")
  case True
  then show ?thesis using assms(3) spec [OF assms(2), of x] spec [OF assms(2), of y] by (auto split: if_splits)
next
  case False
  then show ?thesis using inj_on_pair [OF assms(1)] assms(3) by simp
qed

lemma header_leaves_inj:
  assumes "canonical_encoders bl b1 b2" and "header_leaves bl t1 h1 = header_leaves bl t2 h2"
    and h: "h1 = block_Header b1" "h2 = block_Header b2"
  shows "t1 = t2 \<and> hdr_Version h1 = hdr_Version h2 \<and> hdr_ChainID h1 = hdr_ChainID h2 \<and> hdr_Height h1 = hdr_Height h2
    \<and> LastBlockID h1 = LastBlockID h2 \<and> opt_bytes (LastCommitHash h1) = opt_bytes (LastCommitHash h2)
    \<and> opt_bytes (DataHash h1) = opt_bytes (DataHash h2) \<and> hdr_ValidatorsHash h1 = hdr_ValidatorsHash h2
    \<and> NextValidatorsHash h1 = NextValidatorsHash h2 \<and> ConsensusHash h1 = ConsensusHash h2
    \<and> NextConsensusHash h1 = NextConsensusHash h2 \<and> AppHash h1 = AppHash h2 \<and> ResultsHash h1 = ResultsHash h2
    \<and> opt_bytes (EvidenceHash h1) = opt_bytes (EvidenceHash h2) \<and> hdr_ProposerProTxHash h1 = hdr_ProposerProTxHash h2
    \<and> ProposedAppVersion h1 = ProposedAppVersion h2"
proof -
  have e: "inj_on (enc_version bl) {hdr_Version h1, hdr_Version h2}" "inj_on (enc_blockid bl) {LastBlockID h1, LastBlockID h2}"
    "inj_on (enc_int64 bl) {hdr_Height h1, hdr_Height h2}" "inj_on (enc_uint64 bl) {ProposedAppVersion h1, ProposedAppVersion h2}"
    "inj_on (enc_string bl) {hdr_ChainID h1, hdr_ChainID h2}" "inj (enc_bytes bl)"
    using assms(1) unfolding canonical_encoders_def Let_def h by (simp_all only: simp_thms)
  have n1: "\<forall>x. x \<noteq> [] \<longrightarrow> enc_string bl x \<noteq> []"
    using assms(1) unfolding canonical_encoders_def Let_def by (elim conjE) assumption
  have n2: "\<forall>x. x \<noteq> [] \<longrightarrow> enc_bytes bl x \<noteq> []"
    using assms(1) unfolding canonical_encoders_def Let_def by (elim conjE) assumption
  note b = cdc_bytes_inj [OF e(6) n2] and s = cdc_string_inj [OF e(5) n1]
  show ?thesis
    using assms(2) unfolding header_leaves_def list.inject cdcEncode.simps(2,3)
    by (elim conjE) (intro conjI; (assumption | rule b, assumption | rule s, assumption | rule inj_on_pair [OF e(1)], assumption
        | rule inj_on_pair [OF e(2)], assumption | rule inj_on_pair [OF e(3)], assumption | rule inj_on_pair [OF e(4)], assumption))
qed

lemma hashList_binds:
  assumes "hashList sha xs = hashList sha ys"
  shows "xs = ys \<or> collide sha (set xs) (set ys)"
  using assms
proof (induction xs arbitrary: ys)
  case (Cons x xs)
  then obtain y ys' where y: "ys = y # ys'" "sha x = sha y" "hashList sha xs = hashList sha ys'"
    by (cases ys) (auto simp: hashList_def Tx_Hash_def)
  have "x = y \<or> collide sha (set (x # xs)) (set ys)" using collideI [of sha x y "set (x # xs)" "set ys"] y(1,2) by simp
  moreover have "xs = ys' \<or> collide sha (set (x # xs)) (set ys)"
    using Cons.IH [OF y(3)] collide_mono [of sha "set xs" "set ys'" "set (x # xs)" "set ys"] y(1) by auto
  ultimately show ?case using y(1) by blast
qed (simp add: hashList_def)

lemma opt_bytes_some: "length (opt_bytes b) = 32 \<Longrightarrow> b \<noteq> None"
  by (cases b) (simp_all add: opt_bytes_def)

lemma opt_bytes_inj: "a \<noteq> None \<Longrightarrow> b \<noteq> None \<Longrightarrow> opt_bytes a = opt_bytes b \<Longrightarrow> a = b"
  by (auto simp: opt_bytes_def)

text \<open>A block accepted by \<open>ValidateBasic\<close> has its hashes filled in.\<close>

lemma Block_ValidateBasic_filled:
  assumes "\<forall>x. length (bl_sha bl x) = 32" and "Block_ValidateBasic bl (Some b) = Inr ()"
  shows "fillHeader bl b = b \<and> (\<exists>c. LastCommit b = Some c \<and> opt_bytes (LastCommitHash (block_Header b)) = bl_sha bl (ThresholdBlockSignature c))
    \<and> opt_bytes (DataHash (block_Header b)) = hashFromByteSlices (bl_sha bl) (hashList (bl_sha bl) (block_Txs b))
    \<and> opt_bytes (EvidenceHash (block_Header b)) = hashFromByteSlices (bl_sha bl) (map (enc_evidence bl) (block_Evidence b))
    \<and> LastCommitHash (block_Header b) \<noteq> None \<and> DataHash (block_Header b) \<noteq> None \<and> EvidenceHash (block_Header b) \<noteq> None"
proof -
  have sha: "\<And>x. length (bl_sha bl x) = 32" using assms(1) by simp
  obtain c where c: "LastCommit b = Some c" "opt_bytes (LastCommitHash (block_Header b)) = bl_sha bl (ThresholdBlockSignature c)"
    and d: "opt_bytes (DataHash (block_Header b)) = hashFromByteSlices (bl_sha bl) (hashList (bl_sha bl) (block_Txs b))"
    and e: "opt_bytes (EvidenceHash (block_Header b)) = hashFromByteSlices (bl_sha bl) (map (enc_evidence bl) (block_Evidence b))"
    using assms(2) by (auto simp: Block_ValidateBasic_def res_bind_Inr_iff Commit_Hash_def Data_Hash_def Txs_Hash_def
        EvidenceList_Hash_def HashFromByteSlices_def split: option.splits sum.splits if_splits)
  note ll = hash_lengths(2) [where sha = "bl_sha bl", OF sha]
  have ne: "length (opt_bytes (LastCommitHash (block_Header b))) = 32" "length (opt_bytes (DataHash (block_Header b))) = 32"
    "length (opt_bytes (EvidenceHash (block_Header b))) = 32"
    unfolding c(2) d e by (rule sha ll)+
  have some: "LastCommitHash (block_Header b) \<noteq> None" "DataHash (block_Header b) \<noteq> None" "EvidenceHash (block_Header b) \<noteq> None"
    using opt_bytes_some [OF ne(1)] opt_bytes_some [OF ne(2)] opt_bytes_some [OF ne(3)] by (simp_all del: not_None_eq)
  then have "fillHeader bl b = b" by (simp add: fillHeader_def Let_def del: not_None_eq)
  then show ?thesis using c d e some by blast
qed

text \<open>
  C13: A block hash determines the block but for the core chain lock. Two blocks accepted by
  \<open>ValidateBasic\<close> with the same non-empty hash have the same transactions, the same evidence, last
  commits with the same threshold signature and headers that agree on every field except the core chain
  locked height, unless an input hashed for one collides with an input hashed for the other.\<close>

theorem block_hash_binds:
  assumes "\<forall>x. length (bl_sha bl x) = 32" and "canonical_encoders bl b1 b2"
    and "Block_ValidateBasic bl (Some b1) = Inr ()" and "Block_ValidateBasic bl (Some b2) = Inr ()"
    and "Block_Hash bl (Some b1) = Block_Hash bl (Some b2)" and "Block_Hash bl (Some b1) \<noteq> []"
  shows "block_Txs b1 = block_Txs b2 \<and> block_Evidence b1 = block_Evidence b2
      \<and> map_option ThresholdBlockSignature (LastCommit b1) = map_option ThresholdBlockSignature (LastCommit b2)
      \<and> (block_Header b1)\<lparr>hdr_CoreChainLockedHeight := 0\<rparr> = (block_Header b2)\<lparr>hdr_CoreChainLockedHeight := 0\<rparr>
    \<or> collide (bl_sha bl) (block_inputs bl b1) (block_inputs bl b2)"
proof (cases "collide (bl_sha bl) (block_inputs bl b1) (block_inputs bl b2)")
  case False
  let ?sha = "bl_sha bl" and ?h1 = "block_Header b1" and ?h2 = "block_Header b2"
  have bind: "xs = ys" if "hashFromByteSlices ?sha xs = hashFromByteSlices ?sha ys"
    "tree_inputs ?sha xs \<subseteq> block_inputs bl b1" "tree_inputs ?sha ys \<subseteq> block_inputs bl b2" for xs ys
    using hashFromByteSlices_binds [OF assms(1) that(1)] collide_mono [OF _ that(2,3)] False by blast
  obtain c1 where f1: "fillHeader bl b1 = b1" "LastCommit b1 = Some c1" "opt_bytes (LastCommitHash ?h1) = ?sha (ThresholdBlockSignature c1)"
      "opt_bytes (DataHash ?h1) = hashFromByteSlices ?sha (hashList ?sha (block_Txs b1))"
      "opt_bytes (EvidenceHash ?h1) = hashFromByteSlices ?sha (map (enc_evidence bl) (block_Evidence b1))"
      "LastCommitHash ?h1 \<noteq> None" "DataHash ?h1 \<noteq> None" "EvidenceHash ?h1 \<noteq> None"
    using Block_ValidateBasic_filled [OF assms(1,3)] by blast
  obtain c2 where f2: "fillHeader bl b2 = b2" "LastCommit b2 = Some c2" "opt_bytes (LastCommitHash ?h2) = ?sha (ThresholdBlockSignature c2)"
      "opt_bytes (DataHash ?h2) = hashFromByteSlices ?sha (hashList ?sha (block_Txs b2))"
      "opt_bytes (EvidenceHash ?h2) = hashFromByteSlices ?sha (map (enc_evidence bl) (block_Evidence b2))"
      "LastCommitHash ?h2 \<noteq> None" "DataHash ?h2 \<noteq> None" "EvidenceHash ?h2 \<noteq> None"
    using Block_ValidateBasic_filled [OF assms(1,4)] by blast
  obtain t1 t2 where t: "enc_time bl (hdr_Time ?h1) = Some t1" "enc_time bl (hdr_Time ?h2) = Some t2"
    and hh: "hashFromByteSlices ?sha (header_leaves bl t1 ?h1) = hashFromByteSlices ?sha (header_leaves bl t2 ?h2)"
    using assms(5,6) f1(1,2) f2(1,2)
    by (auto simp: Block_Hash_def Header_Hash_def HashFromByteSlices_def split: if_splits option.splits)
  have "header_leaves bl t1 ?h1 = header_leaves bl t2 ?h2"
    by (rule bind [OF hh]) (auto simp: block_inputs_def t)
  note eq = header_leaves_inj [OF assms(2) this refl refl]
  have "inj_on (enc_time bl) {hdr_Time ?h1, hdr_Time ?h2}" using assms(2) by (simp add: canonical_encoders_def Let_def)
  then have "hdr_Time ?h1 = hdr_Time ?h2" by (rule inj_on_pair) (simp add: t eq)
  moreover have "LastCommitHash ?h1 = LastCommitHash ?h2" "DataHash ?h1 = DataHash ?h2" "EvidenceHash ?h1 = EvidenceHash ?h2"
    using eq f1(6-8) f2(6-8) opt_bytes_inj by blast+
  ultimately have "?h1\<lparr>hdr_CoreChainLockedHeight := 0\<rparr> = ?h2\<lparr>hdr_CoreChainLockedHeight := 0\<rparr>"
    using eq by (cases ?h1, cases ?h2) simp
  moreover have "block_Txs b1 = block_Txs b2"
  proof -
    have "hashList ?sha (block_Txs b1) = hashList ?sha (block_Txs b2)"
      by (rule bind) (use eq f1 f2 in \<open>auto simp: block_inputs_def\<close>)
    then show ?thesis using hashList_binds [of ?sha "block_Txs b1" "block_Txs b2"] False
      by (auto simp: block_inputs_def intro: collide_mono)
  qed
  moreover have "block_Evidence b1 = block_Evidence b2"
  proof -
    have "map (enc_evidence bl) (block_Evidence b1) = map (enc_evidence bl) (block_Evidence b2)"
      by (rule bind) (use eq f1 f2 in \<open>auto simp: block_inputs_def\<close>)
    moreover have "inj_on (enc_evidence bl) (set (block_Evidence b1) \<union> set (block_Evidence b2))"
      using assms(2) by (simp add: canonical_encoders_def Let_def)
    ultimately show ?thesis by (metis map_inj_on)
  qed
  moreover have "ThresholdBlockSignature c1 = ThresholdBlockSignature c2"
    using collideI [of ?sha "ThresholdBlockSignature c1" "ThresholdBlockSignature c2" "block_inputs bl b1" "block_inputs bl b2"]
      eq f1(2,3) f2(2,3) False by (simp add: block_inputs_def)
  ultimately show ?thesis using f1(2) f2(2) by simp
qed blast

definition ex_bl :: block_lib where
  "ex_bl = \<lparr>bl_sha = ex_sha, enc_version = (\<lambda>_. [1]), enc_time = (\<lambda>_. Some [2]), enc_blockid = (\<lambda>_. [3]),
     enc_string = (\<lambda>_. [4]), enc_int64 = (\<lambda>_. [5]), enc_uint64 = (\<lambda>_. [6]), enc_bytes = (\<lambda>b. 7 # b),
     enc_stateid = (\<lambda>_. [8]), enc_evidence = (\<lambda>_. [9]), enc_block = (\<lambda>_. Some [10])\<rparr>"

definition ex_commit :: Commit where
  "ex_commit = \<lparr>commit_Height = 0, commit_Round = 0, commit_BlockID = nil_BlockID, commit_QuorumHash = [],
     ThresholdBlockSignature = [], ThresholdVoteExtensions = []\<rparr>"

definition ex_block :: "nat \<Rightarrow> Block" where
  "ex_block core =
     (let b = MakeBlock ex_bl 1 [[1], [2]] (Some ex_commit) []
      in b\<lparr>block_Header := (Populate \<lparr>ver_Block = 14, ver_App = 0\<rparr> ''c'' 0 nil_BlockID (replicate 32 1) [] [] [] [] []
                             (replicate 32 2) 0 (block_Header b))\<lparr>hdr_CoreChainLockedHeight := core\<rparr>\<rparr>)"

lemma ex_sha_length: "length (ex_sha x) = 32"
  by (auto simp: ex_sha_def min_def)

lemma ex_block_valid: "Block_ValidateBasic ex_bl (Some (ex_block core)) = Inr ()"
proof -
  have l: "length (hashFromByteSlices ex_sha xs) = 32" for xs by (rule hash_lengths(2)) (rule ex_sha_length)
  show ?thesis
    by (simp add: ex_block_def Let_def MakeBlock_def fillHeader_def empty_Header_def Populate_def Block_ValidateBasic_def
        Header_ValidateBasic_def ex_commit_def Commit_ValidateBasic_def Commit_Hash_def Data_Hash_def Txs_Hash_def
        EvidenceList_Hash_def HashFromByteSlices_def opt_bytes_def ValidateHash_def nil_BlockID_def BlockID_ValidateBasic_def
        psh_ValidateBasic_def ex_bl_def ex_sha_length l)
qed

lemma ex_block_hash:
  "Block_Hash ex_bl (Some (ex_block core)) = Block_Hash ex_bl (Some (ex_block 0))" "Block_Hash ex_bl (Some (ex_block core)) \<noteq> []"
proof -
  have l: "length (hashFromByteSlices ex_sha xs) = 32" for xs by (rule hash_lengths(2)) (rule ex_sha_length)
  have ne: "hashFromByteSlices ex_sha xs \<noteq> []" for xs using l [of xs] by force
  show "Block_Hash ex_bl (Some (ex_block core)) = Block_Hash ex_bl (Some (ex_block 0))" "Block_Hash ex_bl (Some (ex_block core)) \<noteq> []"
    by (simp_all add: Block_Hash_def ex_block_def Let_def MakeBlock_def fillHeader_def empty_Header_def Populate_def
        Header_Hash_def header_leaves_def ex_commit_def ex_bl_def HashFromByteSlices_def ne)
qed

theorem block_hash_binds_witness:
  "block_Txs (ex_block 1) = block_Txs (ex_block 2)
     \<and> (block_Header (ex_block 1))\<lparr>hdr_CoreChainLockedHeight := 0\<rparr> = (block_Header (ex_block 2))\<lparr>hdr_CoreChainLockedHeight := 0\<rparr>
   \<or> collide ex_sha (block_inputs ex_bl (ex_block 1)) (block_inputs ex_bl (ex_block 2))"
proof -
  have sha: "\<forall>x. length (bl_sha ex_bl x) = 32" by (simp add: ex_bl_def ex_sha_length)
  have enc: "canonical_encoders ex_bl (ex_block 1) (ex_block 2)"
    by (simp add: canonical_encoders_def Let_def ex_block_def MakeBlock_def fillHeader_def empty_Header_def Populate_def ex_bl_def inj_def)
  have "Block_Hash ex_bl (Some (ex_block 1)) = Block_Hash ex_bl (Some (ex_block 2))"
    using ex_block_hash(1) [of 1] ex_block_hash(1) [of 2] by simp
  from block_hash_binds [OF sha enc ex_block_valid ex_block_valid this ex_block_hash(2)]
  show ?thesis by (auto simp: ex_bl_def)
qed

text \<open>The core chain locked height is outside the hash: it is encoded as nil.\<close>

lemma Header_Hash_ignores_core_height:
  "Header_Hash bl (h\<lparr>hdr_CoreChainLockedHeight := n\<rparr>) = Header_Hash bl h"
  by (simp add: Header_Hash_def header_leaves_def cong: option.case_cong)

lemma made_block_valid:
  assumes "\<forall>x. length (bl_sha bl x) = 32" and "0 < height" and "Commit_ValidateBasic c = Inr ()"
    and "list_all (\<lambda>e. dve_ValidateBasic (Some e)) evidence"
    and "ver_Block version = BlockProtocol" and "length chainID \<le> MaxChainIDLen" and "BlockID_ValidateBasic lastBlockID"
    and "list_all ValidateHash [valHash, nextValHash, consensusHash, nextConsensusHash, resultsHash]"
    and "length proposer = DefaultHashSize"
    and "b = MakeBlock bl height txs (Some c) evidence"
    and "b' = b\<lparr>block_Header := Populate version chainID timestamp lastBlockID valHash nextValHash consensusHash nextConsensusHash
                appHash resultsHash proposer proposedAppVersion (block_Header b)\<rparr>"
  shows "Block_ValidateBasic bl (Some b') = Inr ()"
proof -
  have sha: "\<And>x. length (bl_sha bl x) = 32" using assms(1) by simp
  have l: "length (hashFromByteSlices (bl_sha bl) xs) = 32" for xs by (rule hash_lengths(2)) (rule sha)
  show ?thesis
    using assms(2-9) sha unfolding assms(10,11)
    by (simp add: Let_def MakeBlock_def fillHeader_def empty_Header_def Populate_def Block_ValidateBasic_def
        Header_ValidateBasic_def Commit_Hash_def Data_Hash_def Txs_Hash_def
        EvidenceList_Hash_def HashFromByteSlices_def opt_bytes_def ValidateHash_def l)
qed

end
