(* ===== verification/Params.thy ===== *)
theory Params
  imports Proposals
begin

text \<open>
  \<open>src/types/params.go\<close>: the consensus parameters, their validation, update by the application and
  protobuf conversion. Durations are nanoseconds. A slice that is nil or empty is the empty list: the
  code only takes its length and elements. The generated encoder of the hashed parameters and SHA-256
  are arguments of \<open>HashConsensusParams\<close>.

  Shown: the protobuf conversion loses nothing, an update replaces exactly the groups it has, and
  accepted parameters leave no default to be filled in and no timeout or timing window empty.
\<close>

section \<open>Definitions\<close>

record BlockParams =
  bp_MaxBytes :: int
  bp_MaxGas :: int

record EvidenceParams =
  ep_MaxAgeNumBlocks :: int
  ep_MaxAgeDuration :: int
  ep_MaxBytes :: int

record ValidatorParams =
  PubKeyTypes :: "string list"
  vp_VotingPowerThreshold :: "int option"

record VersionParams =
  AppVersion :: nat
  ConsensusVersion :: int

record ABCIParams =
  RecheckTx :: bool

record ConsensusParams =
  cp_Block :: BlockParams
  cp_Evidence :: EvidenceParams
  cp_Validator :: ValidatorParams
  cp_Version :: VersionParams
  cp_Synchrony :: SynchronyParams
  cp_Timeout :: TimeoutParams
  cp_ABCI :: ABCIParams

abbreviation (input) MaxBlockSizeBytes :: int where "MaxBlockSizeBytes \<equiv> 104857600"

definition ABCIPubKeyTypes :: "string list" where
  "ABCIPubKeyTypes = [''ed25519'', ''secp256k1'', ''bls12381'']"

definition DefaultBlockParams :: BlockParams where
  "DefaultBlockParams = \<lparr>bp_MaxBytes = 22020096, bp_MaxGas = - 1\<rparr>"

definition DefaultEvidenceParams :: EvidenceParams where
  "DefaultEvidenceParams = \<lparr>ep_MaxAgeNumBlocks = 100000, ep_MaxAgeDuration = 172800000000000, ep_MaxBytes = 1048576\<rparr>"

definition DefaultValidatorParams :: ValidatorParams where
  "DefaultValidatorParams = \<lparr>PubKeyTypes = [''bls12381''], vp_VotingPowerThreshold = None\<rparr>"

definition DefaultConsensusParams :: ConsensusParams where
  "DefaultConsensusParams =
     \<lparr>cp_Block = DefaultBlockParams, cp_Evidence = DefaultEvidenceParams, cp_Validator = DefaultValidatorParams,
      cp_Version = \<lparr>AppVersion = 0, ConsensusVersion = 0\<rparr>, cp_Synchrony = DefaultSynchronyParams,
      cp_Timeout = DefaultTimeoutParams, cp_ABCI = \<lparr>RecheckTx = True\<rparr>\<rparr>"

definition IsValidPubkeyType :: "ValidatorParams \<Rightarrow> string \<Rightarrow> bool" where
  "IsValidPubkeyType val pubkeyType \<longleftrightarrow> list_ex (\<lambda>t. t = pubkeyType) (PubKeyTypes val)"

definition zero_params :: ConsensusParams where
  "zero_params =
     \<lparr>cp_Block = \<lparr>bp_MaxBytes = 0, bp_MaxGas = 0\<rparr>,
      cp_Evidence = \<lparr>ep_MaxAgeNumBlocks = 0, ep_MaxAgeDuration = 0, ep_MaxBytes = 0\<rparr>,
      cp_Validator = \<lparr>PubKeyTypes = [], vp_VotingPowerThreshold = None\<rparr>,
      cp_Version = \<lparr>AppVersion = 0, ConsensusVersion = 0\<rparr>, cp_Synchrony = \<lparr>Precision = 0, MessageDelay = 0\<rparr>,
      cp_Timeout = \<lparr>to_Propose = 0, to_ProposeDelta = 0, to_Vote = 0, to_VoteDelta = 0\<rparr>,
      cp_ABCI = \<lparr>RecheckTx = False\<rparr>\<rparr>"

definition Params_Equals :: "ConsensusParams \<Rightarrow> ConsensusParams \<Rightarrow> bool" where
  "Params_Equals p q \<longleftrightarrow> cp_Block p = cp_Block q \<and> cp_Evidence p = cp_Evidence q \<and> cp_Version p = cp_Version q
     \<and> cp_Synchrony p = cp_Synchrony q \<and> cp_Timeout p = cp_Timeout q \<and> cp_ABCI p = cp_ABCI q
     \<and> PubKeyTypes (cp_Validator p) = PubKeyTypes (cp_Validator q)"

definition Params_IsZero :: "ConsensusParams \<Rightarrow> bool" where
  "Params_IsZero p \<longleftrightarrow> Params_Equals p zero_params"

definition Params_Complete :: "ConsensusParams \<Rightarrow> ConsensusParams" where
  "Params_Complete p =
     (let p = (if cp_Synchrony p = cp_Synchrony zero_params then p\<lparr>cp_Synchrony := DefaultSynchronyParams\<rparr> else p)
      in if cp_Timeout p = cp_Timeout zero_params then p\<lparr>cp_Timeout := DefaultTimeoutParams\<rparr> else p)"

datatype params_error =
    ErrBlockMaxBytes | ErrBlockTooBig | ErrBlockMaxGas | ErrEvidenceAgeBlocks | ErrEvidenceAge | ErrEvidenceTooBig
  | ErrEvidenceMaxBytes | ErrMessageDelay | ErrPrecision | ErrTimeoutPropose | ErrTimeoutProposeDelta
  | ErrTimeoutVote | ErrTimeoutVoteDelta | ErrNoPubKeyTypes | ErrUnknownPubKeyType

definition ValidateConsensusParams :: "ConsensusParams \<Rightarrow> params_error + unit" where
  "ValidateConsensusParams p =
     (let b = cp_Block p; e = cp_Evidence p; s = cp_Synchrony p; t = cp_Timeout p; ts = PubKeyTypes (cp_Validator p)
      in if bp_MaxBytes b \<le> 0 then Inl ErrBlockMaxBytes
         else if bp_MaxBytes b > MaxBlockSizeBytes then Inl ErrBlockTooBig
         else if bp_MaxGas b < - 1 then Inl ErrBlockMaxGas
         else if ep_MaxAgeNumBlocks e \<le> 0 then Inl ErrEvidenceAgeBlocks
         else if ep_MaxAgeDuration e \<le> 0 then Inl ErrEvidenceAge
         else if ep_MaxBytes e > bp_MaxBytes b then Inl ErrEvidenceTooBig
         else if ep_MaxBytes e < 0 then Inl ErrEvidenceMaxBytes
         else if MessageDelay s \<le> 0 then Inl ErrMessageDelay
         else if Precision s \<le> 0 then Inl ErrPrecision
         else if to_Propose t \<le> 0 then Inl ErrTimeoutPropose
         else if to_ProposeDelta t \<le> 0 then Inl ErrTimeoutProposeDelta
         else if to_Vote t \<le> 0 then Inl ErrTimeoutVote
         else if to_VoteDelta t \<le> 0 then Inl ErrTimeoutVoteDelta
         else if length ts = 0 then Inl ErrNoPubKeyTypes
         else if \<not> list_all (\<lambda>k. k \<in> set ABCIPubKeyTypes) ts then Inl ErrUnknownPubKeyType
         else Inr ())"

definition HashConsensusParams ::
  "(bytes \<Rightarrow> bytes) \<Rightarrow> (int \<times> int \<times> int \<Rightarrow> bytes option) \<Rightarrow> ConsensusParams \<Rightarrow> bytes exec" where
  "HashConsensusParams sha enc p =
     (case enc (bp_MaxBytes (cp_Block p), bp_MaxGas (cp_Block p), ConsensusVersion (cp_Version p)) of
        None \<Rightarrow> Panic
      | Some bz \<Rightarrow> Ret (sha bz))"

subsection \<open>Protobuf\<close>

record pb_synchrony =
  pb_MessageDelay :: "int option"
  pb_Precision :: "int option"

record pb_timeout =
  pb_Propose :: "int option"
  pb_ProposeDelta :: "int option"
  pb_Vote :: "int option"
  pb_VoteDelta :: "int option"

record pb_params =
  pb_Block :: "BlockParams option"
  pb_Evidence :: "EvidenceParams option"
  pb_Validator :: "ValidatorParams option"
  pb_Version :: "VersionParams option"
  pb_Synchrony :: "pb_synchrony option"
  pb_Timeout :: "pb_timeout option"
  pb_Abci :: "ABCIParams option"

definition set_opt :: "'a option \<Rightarrow> 'a \<Rightarrow> 'a" where
  "set_opt new old = (case new of None \<Rightarrow> old | Some x \<Rightarrow> x)"

definition set_synchrony :: "pb_synchrony option \<Rightarrow> SynchronyParams \<Rightarrow> SynchronyParams" where
  "set_synchrony new s =
     (case new of
        None \<Rightarrow> s
      | Some n \<Rightarrow> s\<lparr>MessageDelay := set_opt (pb_MessageDelay n) (MessageDelay s),
                    Precision := set_opt (pb_Precision n) (Precision s)\<rparr>)"

definition set_timeout :: "pb_timeout option \<Rightarrow> TimeoutParams \<Rightarrow> TimeoutParams" where
  "set_timeout new t =
     (case new of
        None \<Rightarrow> t
      | Some n \<Rightarrow> t\<lparr>to_Propose := set_opt (pb_Propose n) (to_Propose t),
                    to_ProposeDelta := set_opt (pb_ProposeDelta n) (to_ProposeDelta t),
                    to_Vote := set_opt (pb_Vote n) (to_Vote t), to_VoteDelta := set_opt (pb_VoteDelta n) (to_VoteDelta t)\<rparr>)"

definition UpdateConsensusParams :: "ConsensusParams \<Rightarrow> pb_params option \<Rightarrow> ConsensusParams" where
  "UpdateConsensusParams p params2 =
     (case params2 of
        None \<Rightarrow> p
      | Some q \<Rightarrow>
          \<lparr>cp_Block = set_opt (pb_Block q) (cp_Block p), cp_Evidence = set_opt (pb_Evidence q) (cp_Evidence p),
           cp_Validator = set_opt (pb_Validator q) (cp_Validator p), cp_Version = set_opt (pb_Version q) (cp_Version p),
           cp_Synchrony = set_synchrony (pb_Synchrony q) (cp_Synchrony p),
           cp_Timeout = set_timeout (pb_Timeout q) (cp_Timeout p), cp_ABCI = set_opt (pb_Abci q) (cp_ABCI p)\<rparr>)"

definition Params_ToProto :: "ConsensusParams \<Rightarrow> pb_params" where
  "Params_ToProto p =
     \<lparr>pb_Block = Some (cp_Block p), pb_Evidence = Some (cp_Evidence p), pb_Validator = Some (cp_Validator p),
      pb_Version = Some (cp_Version p),
      pb_Synchrony = Some \<lparr>pb_MessageDelay = Some (MessageDelay (cp_Synchrony p)), pb_Precision = Some (Precision (cp_Synchrony p))\<rparr>,
      pb_Timeout = Some \<lparr>pb_Propose = Some (to_Propose (cp_Timeout p)), pb_ProposeDelta = Some (to_ProposeDelta (cp_Timeout p)),
                         pb_Vote = Some (to_Vote (cp_Timeout p)), pb_VoteDelta = Some (to_VoteDelta (cp_Timeout p))\<rparr>,
      pb_Abci = Some (cp_ABCI p)\<rparr>"

definition ConsensusParamsFromProto :: "pb_params \<Rightarrow> ConsensusParams" where
  "ConsensusParamsFromProto q =
     \<lparr>cp_Block = set_opt (pb_Block q) (cp_Block zero_params), cp_Evidence = set_opt (pb_Evidence q) (cp_Evidence zero_params),
      cp_Validator = set_opt (pb_Validator q) (cp_Validator zero_params), cp_Version = set_opt (pb_Version q) (cp_Version zero_params),
      cp_Synchrony = set_synchrony (pb_Synchrony q) (cp_Synchrony zero_params),
      cp_Timeout = set_timeout (pb_Timeout q) (cp_Timeout zero_params), cp_ABCI = set_opt (pb_Abci q) (cp_ABCI zero_params)\<rparr>"

section \<open>Properties\<close>

lemma set_opt_simps [simp]: "set_opt None x = x" "set_opt (Some y) x = y"
  by (simp_all add: set_opt_def)

lemma FromProto_update: "ConsensusParamsFromProto q = UpdateConsensusParams zero_params (Some q)"
  by (simp add: ConsensusParamsFromProto_def UpdateConsensusParams_def)

lemma update_full [simp]: "UpdateConsensusParams p (Some (Params_ToProto q)) = q"
  by (simp add: UpdateConsensusParams_def Params_ToProto_def set_synchrony_def set_timeout_def)

lemma ValidateConsensusParams_iff:
  "ValidateConsensusParams p = Inr () \<longleftrightarrow>
     0 < bp_MaxBytes (cp_Block p) \<and> bp_MaxBytes (cp_Block p) \<le> MaxBlockSizeBytes \<and> - 1 \<le> bp_MaxGas (cp_Block p)
     \<and> 0 < ep_MaxAgeNumBlocks (cp_Evidence p) \<and> 0 < ep_MaxAgeDuration (cp_Evidence p)
     \<and> ep_MaxBytes (cp_Evidence p) \<le> bp_MaxBytes (cp_Block p) \<and> 0 \<le> ep_MaxBytes (cp_Evidence p)
     \<and> 0 < MessageDelay (cp_Synchrony p) \<and> 0 < Precision (cp_Synchrony p)
     \<and> 0 < to_Propose (cp_Timeout p) \<and> 0 < to_ProposeDelta (cp_Timeout p)
     \<and> 0 < to_Vote (cp_Timeout p) \<and> 0 < to_VoteDelta (cp_Timeout p)
     \<and> PubKeyTypes (cp_Validator p) \<noteq> [] \<and> set (PubKeyTypes (cp_Validator p)) \<subseteq> set ABCIPubKeyTypes"
  by (simp add: ValidateConsensusParams_def Let_def guard_Inr_iff list_all_iff subset_eq not_less not_le)

lemma params_roundtrip: "ConsensusParamsFromProto (Params_ToProto p) = p"
  by (simp add: FromProto_update)

lemma valid_params_complete:
  assumes "ValidateConsensusParams p = Inr ()"
  shows "Params_Complete p = p" "SynchronyParamsOrDefaults (cp_Synchrony p) = cp_Synchrony p"
    "TimeoutParamsOrDefaults (cp_Timeout p) = cp_Timeout p" "\<not> Params_IsZero p"
  using assms unfolding ValidateConsensusParams_iff
  by (auto simp: Params_Complete_def SynchronyParamsOrDefaults_def TimeoutParamsOrDefaults_def Params_IsZero_def
      Params_Equals_def zero_params_def Let_def)

lemma valid_params_sound:
  "ValidateConsensusParams p = Inr () \<Longrightarrow> MessageDelay (cp_Synchrony p) \<le> MaxInt64 \<Longrightarrow> Precision (cp_Synchrony p) \<le> MaxInt64
     \<Longrightarrow> sound_params (cp_Synchrony p)"
  by (simp add: ValidateConsensusParams_iff sound_params_def)

text \<open>\<open>Equals\<close> does not compare the voting power threshold.\<close>

lemma Params_Equals_ignores_threshold:
  "Params_Equals p (p\<lparr>cp_Validator := (cp_Validator p)\<lparr>vp_VotingPowerThreshold := t\<rparr>\<rparr>)"
  by (simp add: Params_Equals_def)

lemma default_params_valid: "ValidateConsensusParams DefaultConsensusParams = Inr ()"
  by code_simp

end
