(* ===== verification/Sm_State.thy ===== *)
theory Sm_State
  imports Params Blocks
begin

text \<open>
  \<open>src/internal/state/state.go\<close>, \<open>current_round_state.go\<close>, \<open>validation.go\<close> and the conversion of
  validator updates in \<open>src/types/protobuf.go\<close>: the state after the last committed block, the changes
  of the block being decided, and the validation of a block against the state.

  \<open>sm_lib\<close> holds what the code takes from elsewhere: the hash and the generated encoders, the key
  decoder of the cryptographic library, the parser of validator addresses and the size of encoded
  evidence. \<open>State.Copy\<close> is the identity on values. An application hash is never nil here: the
  responses it is taken from are validated to have 32 bytes, so the tests for nil are tests for the empty
  string. Metrics and the software version string are left out.
\<close>

section \<open>Definitions\<close>

subsection \<open>State\<close>

record smState =
  st_Version :: Version
  st_ChainID :: string
  InitialHeight :: int
  LastBlockHeight :: int
  LastBlockRound :: int
  st_LastBlockID :: BlockID
  LastBlockTime :: int
  LastCoreChainLockedBlockHeight :: nat
  st_Validators :: "ValidatorSet option"
  st_LastValidators :: "ValidatorSet option"
  LastHeightValidatorsChanged :: int
  st_ConsensusParams :: ConsensusParams
  LastHeightConsensusParamsChanged :: int
  LastResultsHash :: bytes
  LastAppHash :: bytes

record pb_key =
  key_Type :: string
  key_Bytes :: bytes

record ExecTxResult =
  tr_Code :: nat
  tr_Data :: bytes
  tr_Log :: string
  tr_GasUsed :: int

record ValidatorUpdate =
  vu_PubKey :: "pb_key option"
  vu_Power :: int
  vu_ProTxHash :: "bytes option"
  vu_NodeAddress :: string

record ValidatorSetUpdate =
  ValidatorUpdates :: "ValidatorUpdate list"
  vsu_ThresholdPublicKey :: "pb_key option"
  vsu_QuorumHash :: bytes

record sm_lib =
  sl_block :: block_lib
  sl_crypto :: crypto_lib
  enc_hashed :: "int \<times> int \<times> int \<Rightarrow> bytes option"
  enc_txresult :: "ExecTxResult \<Rightarrow> bytes option"
  PubKeyFromProto :: "pb_key \<Rightarrow> bytes option"
  key_Validate :: "pb_key \<Rightarrow> bool"
  address_ok :: "string \<Rightarrow> bool"
  key_recover :: "bytes option list \<Rightarrow> bytes list \<Rightarrow> bytes option"
  llmq_valid :: "LLMQType \<Rightarrow> bool"
  evidence_size :: "DuplicateVoteEvidence list \<Rightarrow> int"

datatype state_error =
    ErrTxResults | ErrParams params_error | ErrThresholdKeyMissing | ErrNegativePower | ErrKeyProto | ErrKeyType
  | ErrKeyInvalid | ErrUpdateProTxHash | ErrUpdateProTxHashSize | ErrUpdateAddress | ErrUpdateValidator val_error
  | ErrUpdateQuorumHash | ErrChangeSet vset_error | ErrNextValidators vset_error | ErrUpdateSource
  | ErrInvalidBasic block_error | ErrChainLock | ErrVersionBlock | ErrChainIDMismatch | ErrInitialBlockHeight | ErrBlockHeight
  | ErrPrevBlockID | ErrConsensusHash | ErrValidatorsHash | ErrInitialSignature | ErrLastCommit commit_error
  | ErrProposerSize | ErrProposerUnknown | ErrBlockTime | ErrGenesisTime | ErrBelowInitial | ErrEvidenceOverflow
  | ErrAppHash | ErrResultsHash | ErrNextValidatorsHash | ErrNextConsensusHash | ErrCoreHeight
  | ErrAppCall | ErrStatusUnknown | ErrBlockRejected | ErrResponse | ErrInvalidBlock state_error
  | ErrEvidenceCheck | ErrDataBytes | ErrTxRecords | ErrStoreSave | ErrMempool
  | ErrCommitExtensionsInvalid commit_error | ErrCommitExtensionsRejected | ErrInvalidVoteExtension

definition State_IsEmpty :: "smState \<Rightarrow> bool" where
  "State_IsEmpty state \<longleftrightarrow> st_Validators state = None"

definition IsInitialHeight :: "smState \<Rightarrow> bool" where
  "IsInitialHeight state \<longleftrightarrow> LastBlockHeight state < InitialHeight state"

definition ValidatorsAtHeight :: "smState \<Rightarrow> int \<Rightarrow> ValidatorSet option" where
  "ValidatorsAtHeight state height =
     (if LastBlockHeight state = height then st_LastValidators state else st_Validators state)"

definition ValidatorSet_Hash :: "(bytes \<Rightarrow> bytes) \<Rightarrow> ValidatorSet option \<Rightarrow> bytes" where
  "ValidatorSet_Hash sha vals =
     (case vals of
        None \<Rightarrow> []
      | Some v \<Rightarrow>
          (case (vs_QuorumHash v, ThresholdPublicKey v) of
             (Some q, Some k) \<Rightarrow> HashFromByteSlices sha [k, q]
           | _ \<Rightarrow> []))"

abbreviation (input) sl_sha :: "sm_lib \<Rightarrow> bytes \<Rightarrow> bytes" where "sl_sha sl \<equiv> bl_sha (sl_block sl)"

definition params_hash :: "sm_lib \<Rightarrow> ConsensusParams \<Rightarrow> bytes exec" where
  "params_hash sl p = HashConsensusParams (sl_sha sl) (enc_hashed sl) p"

definition makeBlockTime :: "int \<Rightarrow> smState \<Rightarrow> int \<Rightarrow> int" where
  "makeBlockTime now state height = (if height = InitialHeight state then LastBlockTime state else now)"

definition State_MakeBlock ::
  "sm_lib \<Rightarrow> int \<Rightarrow> smState \<Rightarrow> int \<Rightarrow> Tx list \<Rightarrow> Commit option \<Rightarrow> DuplicateVoteEvidence list \<Rightarrow> bytes \<Rightarrow> nat \<Rightarrow> Block exec" where
  "State_MakeBlock sl now state height txs lastCommit evidence proposerProTxHash proposedAppVersion =
     (let block = MakeBlock (sl_block sl) height txs lastCommit evidence;
          blockTime = makeBlockTime now state height;
          validatorsHash = ValidatorSet_Hash (sl_sha sl) (st_Validators state)
      in exec_bind (params_hash sl (st_ConsensusParams state)) (\<lambda>consensusParamsHash.
           Ret (block\<lparr>block_Header := Populate (st_Version state) (st_ChainID state) blockTime (st_LastBlockID state)
                  validatorsHash validatorsHash consensusParamsHash consensusParamsHash (LastAppHash state)
                  (LastResultsHash state) proposerProTxHash proposedAppVersion (block_Header block)\<rparr>)))"

subsection \<open>The changes of a round\<close>

datatype params_source = NoSource | InitChainSource | PrepareProposalSource | ProcessProposalSource

record RoundParams =
  rp_AppHash :: bytes
  rp_TxResults :: "ExecTxResult list"
  ConsensusParamUpdates :: "pb_params option"
  rp_ValidatorSetUpdate :: "ValidatorSetUpdate option"
  rp_CoreChainLock :: "CoreChainLock option"
  rp_Source :: params_source
  rp_Round :: int

record CurrentRoundState =
  crs_Base :: smState
  crs_Round :: int
  crs_ProTxHash :: bytes
  crs_AppHash :: bytes
  crs_TxResults :: "ExecTxResult list"
  crs_ResultsHash :: bytes
  crs_CoreChainLock :: "CoreChainLock option"
  NextConsensusParams :: ConsensusParams
  crs_LastHeightConsensusParamsChanged :: int
  NextValidators :: "ValidatorSet option"
  crs_LastHeightValidatorsChanged :: int
  crs_Params :: RoundParams

definition crs_GetHeight :: "CurrentRoundState \<Rightarrow> int" where
  "crs_GetHeight candidate =
     (if LastBlockHeight (crs_Base candidate) = 0 then InitialHeight (crs_Base candidate)
      else wrap64 (LastBlockHeight (crs_Base candidate) + 1))"

definition MatchesBlock :: "CurrentRoundState \<Rightarrow> Header \<Rightarrow> int \<Rightarrow> bool" where
  "MatchesBlock candidate h round \<longleftrightarrow>
     crs_GetHeight candidate = hdr_Height h \<and> crs_Round candidate = round
     \<and> crs_AppHash candidate = AppHash h \<and> crs_ResultsHash candidate = ResultsHash h"

definition UpdateBlock :: "sm_lib \<Rightarrow> CurrentRoundState \<Rightarrow> Block \<Rightarrow> (state_error + Block) exec" where
  "UpdateBlock sl candidate target =
     (if rp_Source (crs_Params candidate) \<noteq> PrepareProposalSource then Ret (Inl ErrUpdateSource)
      else exec_bind (params_hash sl (NextConsensusParams candidate)) (\<lambda>nextHash.
        Ret (Inr (target\<lparr>block_Header := (block_Header target)\<lparr>AppHash := crs_AppHash candidate,
               ResultsHash := crs_ResultsHash candidate,
               NextValidatorsHash := ValidatorSet_Hash (sl_sha sl) (NextValidators candidate),
               NextConsensusHash := nextHash,
               hdr_CoreChainLockedHeight :=
                 (case crs_CoreChainLock candidate of
                    Some c \<Rightarrow> CoreBlockHeight c
                  | None \<Rightarrow> LastCoreChainLockedBlockHeight (crs_Base candidate))\<rparr>,
             block_CoreChainLock := crs_CoreChainLock candidate\<rparr>))))"

definition UpdateState :: "CurrentRoundState \<Rightarrow> smState \<Rightarrow> smState" where
  "UpdateState candidate target =
     target\<lparr>LastBlockRound := crs_Round candidate, LastAppHash := crs_AppHash candidate,
       LastResultsHash := crs_ResultsHash candidate, st_ConsensusParams := NextConsensusParams candidate,
       LastHeightConsensusParamsChanged := crs_LastHeightConsensusParamsChanged candidate,
       st_Version := (st_Version target)\<lparr>ver_App := AppVersion (cp_Version (NextConsensusParams candidate))\<rparr>,
       st_Validators := NextValidators candidate,
       LastHeightValidatorsChanged := crs_LastHeightValidatorsChanged candidate,
       LastCoreChainLockedBlockHeight :=
         (case crs_CoreChainLock candidate of
            Some c \<Rightarrow> CoreBlockHeight c
          | None \<Rightarrow> LastCoreChainLockedBlockHeight target)\<rparr>"

definition State_Update :: "smState \<Rightarrow> BlockID \<Rightarrow> Header \<Rightarrow> CurrentRoundState \<Rightarrow> smState" where
  "State_Update state blockID header candidate =
     UpdateState candidate
       (state\<lparr>LastBlockHeight := hdr_Height header, LastBlockRound := 0, st_LastBlockID := blockID,
          LastBlockTime := hdr_Time header, st_LastValidators := st_Validators state,
          LastResultsHash := [], LastAppHash := []\<rparr>)"

subsection \<open>Validator updates\<close>

fun validateValidatorUpdates :: "sm_lib \<Rightarrow> ValidatorParams \<Rightarrow> ValidatorUpdate list \<Rightarrow> state_error + unit" where
  "validateValidatorUpdates sl params [] = Inr ()"
| "validateValidatorUpdates sl params (u # us) =
     (if vu_Power u < 0 then Inl ErrNegativePower
      else if vu_Power u = 0 then validateValidatorUpdates sl params us
      else
        res_bind
          (case vu_PubKey u of
             None \<Rightarrow> Inr ()
           | Some k \<Rightarrow>
               if PubKeyFromProto sl k = None then Inl ErrKeyProto
               else if \<not> IsValidPubkeyType params (key_Type k) then Inl ErrKeyType
               else if \<not> key_Validate sl k then Inl ErrKeyInvalid
               else Inr ())
          (\<lambda>_. case vu_ProTxHash u of
                 None \<Rightarrow> Inl ErrUpdateProTxHash
               | Some h \<Rightarrow>
                   if length h \<noteq> DefaultHashSize then Inl ErrUpdateProTxHashSize
                   else if vu_NodeAddress u \<noteq> [] \<and> \<not> address_ok sl (vu_NodeAddress u) then Inl ErrUpdateAddress
                   else validateValidatorUpdates sl params us))"

definition validateValidatorSetUpdate :: "sm_lib \<Rightarrow> ValidatorSetUpdate option \<Rightarrow> ValidatorParams \<Rightarrow> state_error + unit" where
  "validateValidatorSetUpdate sl update params =
     (case update of
        None \<Rightarrow> Inr ()
      | Some u \<Rightarrow>
          if ValidatorUpdates u \<noteq> [] \<and> vsu_ThresholdPublicKey u = None then Inl ErrThresholdKeyMissing
          else validateValidatorUpdates sl params (ValidatorUpdates u))"

text \<open>\<open>NewValidator\<close> panics on an address it cannot parse. A nil hash is the empty one.\<close>

definition NewValidator :: "sm_lib \<Rightarrow> bytes option \<Rightarrow> int \<Rightarrow> bytes option \<Rightarrow> string \<Rightarrow> Validator exec" where
  "NewValidator sl pubKey votingPower proTxHash address =
     (if address \<noteq> [] \<and> \<not> address_ok sl address then Panic
      else Ret \<lparr>ProTxHash = opt_bytes proTxHash, PubKey = pubKey, VotingPower = votingPower, NodeAddress = address\<rparr>)"

fun updates_loop :: "sm_lib \<Rightarrow> ValidatorUpdate list \<Rightarrow> (state_error + Validator list) exec" where
  "updates_loop sl [] = Ret (Inr [])"
| "updates_loop sl (u # us) =
     (case (case vu_PubKey u of None \<Rightarrow> Inr None | Some k \<Rightarrow>
              (case PubKeyFromProto sl k of None \<Rightarrow> Inl ErrKeyProto | Some b \<Rightarrow> Inr (Some b))) of
        Inl e \<Rightarrow> Ret (Inl e)
      | Inr pub \<Rightarrow>
          exec_bind (NewValidator sl pub (vu_Power u) (vu_ProTxHash u) (vu_NodeAddress u)) (\<lambda>v.
            case Validator_ValidateBasic (address_ok sl) (Some v) of
              Inl e \<Rightarrow> Ret (Inl (ErrUpdateValidator e))
            | Inr _ \<Rightarrow> try_bind (updates_loop sl us) (\<lambda>vs. Ret (Inr (v # vs)))))"

definition ValidatorUpdatesFromValidatorSet ::
  "sm_lib \<Rightarrow> ValidatorSetUpdate option \<Rightarrow> (state_error + Validator list \<times> bytes option \<times> bytes option) exec" where
  "ValidatorUpdatesFromValidatorSet sl update =
     (case update of
        None \<Rightarrow> Ret (Inr ([], None, None))
      | Some u \<Rightarrow>
          try_bind (updates_loop sl (ValidatorUpdates u)) (\<lambda>tmVals.
            case vsu_ThresholdPublicKey u of
              None \<Rightarrow> Ret (Inr ([], None, None))
            | Some k \<Rightarrow>
                (case PubKeyFromProto sl k of
                   None \<Rightarrow> Ret (Inl ErrKeyProto)
                 | Some pub \<Rightarrow>
                     if length (vsu_QuorumHash u) \<noteq> DefaultHashSize then Ret (Inl ErrUpdateQuorumHash)
                     else Ret (Inr (tmVals, Some pub, Some (vsu_QuorumHash u))))))"

definition with_threshold :: "ValidatorParams \<Rightarrow> ValidatorSet \<Rightarrow> ValidatorSet" where
  "with_threshold params vals =
     (case vp_VotingPowerThreshold params of None \<Rightarrow> vals | Some t \<Rightarrow> vals\<lparr>VotingPowerThreshold := t\<rparr>)"

text \<open>The validators are nil only in the empty state, where the dereferences panic.\<close>

definition valsetUpdate ::
  "sm_lib \<Rightarrow> ValidatorSetUpdate option \<Rightarrow> ValidatorSet option \<Rightarrow> ValidatorParams \<Rightarrow> (state_error + ValidatorSet) exec" where
  "valsetUpdate sl vu currentVals params =
     (case validateValidatorSetUpdate sl vu params of
        Inl e \<Rightarrow> Ret (Inl e)
      | Inr _ \<Rightarrow>
          try_bind (ValidatorUpdatesFromValidatorSet sl vu) (\<lambda>(validatorUpdates, thresholdPubKey, quorumHash).
          case currentVals of
            None \<Rightarrow>
              if validatorUpdates = [] \<and> opt_bytes quorumHash = [] \<and> thresholdPubKey = None
                 \<and> vp_VotingPowerThreshold params = None
              then Ret (Inl (ErrNextValidators ErrValidatorSetNilOrEmpty)) else Panic
          | Some cur \<Rightarrow>
          try_bind
            (if validatorUpdates \<noteq> [] then
               (if opt_bytes (vs_QuorumHash cur) = opt_bytes quorumHash then
                  exec_bind (UpdateWithChangeSet validatorUpdates thresholdPubKey quorumHash cur) (\<lambda>r.
                    Ret (case r of Inl e \<Rightarrow> Inl (ErrChangeSet e) | Inr v \<Rightarrow> Inr (with_threshold params v)))
                else exec_bind (NewValidatorSetCheckPublicKeys validatorUpdates thresholdPubKey (QuorumType cur)
                                  quorumHash (vp_VotingPowerThreshold params)) (\<lambda>v. Ret (Inr v)))
             else
               (let v = (if opt_bytes quorumHash = [] then cur else cur\<lparr>vs_QuorumHash := quorumHash\<rparr>);
                    v = (if thresholdPubKey = None then v else v\<lparr>ThresholdPublicKey := thresholdPubKey\<rparr>)
                in Ret (Inr (with_threshold params v))))
            (\<lambda>nValSet.
               exec_bind (ValidatorSet_ValidateBasic (address_ok sl) (key_recover sl) (llmq_valid sl) nValSet) (\<lambda>r.
                 Ret (case r of Inl e \<Rightarrow> Inl (ErrNextValidators e) | Inr _ \<Rightarrow> Inr nValSet)))))"

subsection \<open>Filling in the changes\<close>

fun marshal_results :: "sm_lib \<Rightarrow> ExecTxResult list \<Rightarrow> state_error + bytes list" where
  "marshal_results sl [] = Inr []"
| "marshal_results sl (r # rs) =
     (case enc_txresult sl (r\<lparr>tr_Log := []\<rparr>) of
        None \<Rightarrow> Inl ErrTxResults
      | Some b \<Rightarrow> res_bind (marshal_results sl rs) (\<lambda>bs. Inr (b # bs)))"

definition TxResultsHash :: "sm_lib \<Rightarrow> ExecTxResult list \<Rightarrow> state_error + bytes" where
  "TxResultsHash sl txResults =
     res_bind (marshal_results sl txResults) (\<lambda>rs. Inr (HashFromByteSlices (sl_sha sl) rs))"

definition populateTxResults :: "sm_lib \<Rightarrow> CurrentRoundState \<Rightarrow> state_error + CurrentRoundState" where
  "populateTxResults sl candidate =
     res_bind (TxResultsHash sl (rp_TxResults (crs_Params candidate))) (\<lambda>hash.
       Inr (candidate\<lparr>crs_ResultsHash := hash, crs_TxResults := rp_TxResults (crs_Params candidate)\<rparr>))"

definition populateChainlock :: "CurrentRoundState \<Rightarrow> CurrentRoundState" where
  "populateChainlock candidate =
     (let chainLock = rp_CoreChainLock (crs_Params candidate);
          lastChainLockHeight = LastCoreChainLockedBlockHeight (crs_Base candidate)
      in case chainLock of
           None \<Rightarrow> candidate\<lparr>crs_CoreChainLock := None\<rparr>
         | Some c \<Rightarrow> candidate\<lparr>crs_CoreChainLock := (if CoreBlockHeight c \<le> lastChainLockHeight then None else Some c)\<rparr>)"

definition empty_updates :: pb_params where
  "empty_updates = \<lparr>pb_Block = None, pb_Evidence = None, pb_Validator = None, pb_Version = None, pb_Synchrony = None,
     pb_Timeout = None, pb_Abci = None\<rparr>"

definition populateConsensusParams :: "CurrentRoundState \<Rightarrow> state_error + CurrentRoundState" where
  "populateConsensusParams candidate =
     (let updates = ConsensusParamUpdates (crs_Params candidate)
      in if updates = None \<or> updates = Some empty_updates
         then Inr (candidate\<lparr>NextConsensusParams := st_ConsensusParams (crs_Base candidate),
                crs_LastHeightConsensusParamsChanged := LastHeightConsensusParamsChanged (crs_Base candidate)\<rparr>)
         else
           let current = (if Params_IsZero (NextConsensusParams candidate) then st_ConsensusParams (crs_Base candidate)
                          else NextConsensusParams candidate);
               nextParams = UpdateConsensusParams current updates
           in case ValidateConsensusParams nextParams of
                Inl e \<Rightarrow> Inl (ErrParams e)
              | Inr _ \<Rightarrow> Inr (candidate\<lparr>NextConsensusParams := nextParams,
                  crs_LastHeightConsensusParamsChanged := wrap64 (crs_GetHeight candidate + 1)\<rparr>))"

definition populateValsetUpdates :: "sm_lib \<Rightarrow> CurrentRoundState \<Rightarrow> (state_error + CurrentRoundState) exec" where
  "populateValsetUpdates sl candidate =
     (let update = rp_ValidatorSetUpdate (crs_Params candidate); base = crs_Base candidate
      in try_bind (valsetUpdate sl update (st_Validators base) (cp_Validator (NextConsensusParams candidate))) (\<lambda>newValSet.
           Ret (Inr (candidate\<lparr>NextValidators := Some newValSet,
             crs_LastHeightValidatorsChanged :=
               (if rp_Source (crs_Params candidate) \<noteq> InitChainSource
                   \<and> (case update of None \<Rightarrow> False | Some u \<Rightarrow> ValidatorUpdates u \<noteq> [])
                then wrap64 (crs_GetHeight candidate + 1) else LastHeightValidatorsChanged base)\<rparr>))))"

definition crs_populate :: "sm_lib \<Rightarrow> CurrentRoundState \<Rightarrow> (state_error + CurrentRoundState) exec" where
  "crs_populate sl candidate =
     (case res_bind (populateTxResults sl candidate) populateConsensusParams of
        Inl e \<Rightarrow> Ret (Inl e)
      | Inr c \<Rightarrow> try_bind (populateValsetUpdates sl c) (\<lambda>c. Ret (Inr (populateChainlock c))))"

definition NewCurrentRoundState :: "sm_lib \<Rightarrow> bytes \<Rightarrow> RoundParams \<Rightarrow> smState \<Rightarrow> (state_error + CurrentRoundState) exec" where
  "NewCurrentRoundState sl proTxHash rp baseState =
     crs_populate sl
       \<lparr>crs_Base = baseState, crs_Round = rp_Round rp, crs_ProTxHash = proTxHash, crs_AppHash = rp_AppHash rp,
        crs_TxResults = [], crs_ResultsHash = [], crs_CoreChainLock = None, NextConsensusParams = zero_params,
        crs_LastHeightConsensusParamsChanged = 0, NextValidators = None, crs_LastHeightValidatorsChanged = 0,
        crs_Params = rp\<rparr>"

subsection \<open>Validation of a block\<close>

definition ValidateBlockChainLock :: "smState \<Rightarrow> Block \<Rightarrow> state_error + unit" where
  "ValidateBlockChainLock state block =
     (case block_CoreChainLock block of
        Some c \<Rightarrow>
          if hdr_CoreChainLockedHeight (block_Header block) \<noteq> CoreBlockHeight c then Inl ErrCoreHeight
          else if hdr_CoreChainLockedHeight (block_Header block) \<le> LastCoreChainLockedBlockHeight state then Inl ErrCoreHeight
          else Inr ()
      | None \<Rightarrow>
          if hdr_CoreChainLockedHeight (block_Header block) \<noteq> LastCoreChainLockedBlockHeight state then Inl ErrCoreHeight
          else Inr ())"

definition validateCoreChainLock :: "Block \<Rightarrow> smState \<Rightarrow> state_error + unit" where
  "validateCoreChainLock block state =
     (case block_CoreChainLock block of
        None \<Rightarrow>
          if hdr_CoreChainLockedHeight (block_Header block) \<noteq> LastCoreChainLockedBlockHeight state then Inl ErrCoreHeight
          else Inr ()
      | Some c \<Rightarrow>
          if hdr_CoreChainLockedHeight (block_Header block) \<noteq> CoreBlockHeight c then Inl ErrCoreHeight
          else if hdr_CoreChainLockedHeight (block_Header block) \<le> LastCoreChainLockedBlockHeight state then Inl ErrCoreHeight
          else Inr ())"

text \<open>A nil set of last validators, or a nil last commit, is dereferenced.\<close>

definition verifyLastCommit :: "sm_lib \<Rightarrow> smState \<Rightarrow> Block \<Rightarrow> commitProof option \<Rightarrow> (state_error + unit) exec" where
  "verifyLastCommit sl state block lastCommit =
     (case (st_LastValidators state, LastCommit block) of
        (Some vals, Some commit) \<Rightarrow>
          exec_bind (VerifyCommitUnlessVerified (sl_crypto sl) vals (st_ChainID state) (st_LastBlockID state)
                       (wrap64 (hdr_Height (block_Header block) - 1)) commit lastCommit) (\<lambda>(skipped, r).
            Ret (case r of Inl e \<Rightarrow> Inl (ErrLastCommit e) | Inr _ \<Rightarrow> Inr ()))
      | _ \<Rightarrow> Panic)"

definition validate_last :: "sm_lib \<Rightarrow> smState \<Rightarrow> Block \<Rightarrow> commitProof option \<Rightarrow> (state_error + unit) exec" where
  "validate_last sl state block lastCommit =
     (if hdr_Height (block_Header block) = InitialHeight state then
        (case LastCommit block of
           None \<Rightarrow> Panic
         | Some c \<Rightarrow> Ret (if length (ThresholdBlockSignature c) \<noteq> 0 then Inl ErrInitialSignature else Inr ()))
      else verifyLastCommit sl state block lastCommit)"

definition EvidenceList_ByteSize :: "sm_lib \<Rightarrow> DuplicateVoteEvidence list \<Rightarrow> int" where
  "EvidenceList_ByteSize sl evl = (if evl \<noteq> [] then evidence_size sl evl else 0)"

definition validate_tail :: "sm_lib \<Rightarrow> smState \<Rightarrow> Block \<Rightarrow> state_error + unit" where
  "validate_tail sl state block =
     (let h = block_Header block
      in if length (hdr_ProposerProTxHash h) \<noteq> DefaultHashSize then Inl ErrProposerSize
         else if \<not> HasProTxHash (st_Validators state) (hdr_ProposerProTxHash h) then Inl ErrProposerUnknown
         else if hdr_Height h > InitialHeight state \<and> \<not> hdr_Time h > LastBlockTime state then Inl ErrBlockTime
         else if hdr_Height h = InitialHeight state \<and> hdr_Time h < LastBlockTime state then Inl ErrGenesisTime
         else if hdr_Height h < InitialHeight state then Inl ErrBelowInitial
         else if EvidenceList_ByteSize sl (block_Evidence block) > ep_MaxBytes (cp_Evidence (st_ConsensusParams state))
         then Inl ErrEvidenceOverflow
         else Inr ())"

definition validateBlock :: "sm_lib \<Rightarrow> smState \<Rightarrow> Block \<Rightarrow> commitProof option \<Rightarrow> (state_error + unit) exec" where
  "validateBlock sl state block lastCommit =
     (case Block_ValidateBasic (sl_block sl) (Some block) of
        Inl e \<Rightarrow> Ret (Inl (ErrInvalidBasic e))
      | Inr _ \<Rightarrow>
          let h = block_Header block
          in if (case block_CoreChainLock block of None \<Rightarrow> False | Some c \<Rightarrow> \<not> ccl_ValidateBasic c) then Ret (Inl ErrChainLock)
             else if ver_Block (hdr_Version h) \<noteq> ver_Block (st_Version state) then Ret (Inl ErrVersionBlock)
             else if hdr_ChainID h \<noteq> st_ChainID state then Ret (Inl ErrChainIDMismatch)
             else if LastBlockHeight state = 0 \<and> hdr_Height h \<noteq> InitialHeight state then Ret (Inl ErrInitialBlockHeight)
             else if LastBlockHeight state > 0 \<and> hdr_Height h \<noteq> wrap64 (LastBlockHeight state + 1) then Ret (Inl ErrBlockHeight)
             else if \<not> BlockID_Equals (LastBlockID h) (st_LastBlockID state) then Ret (Inl ErrPrevBlockID)
             else exec_bind (params_hash sl (st_ConsensusParams state)) (\<lambda>hashCP.
               if ConsensusHash h \<noteq> hashCP then Ret (Inl ErrConsensusHash)
               else if hdr_ValidatorsHash h \<noteq> ValidatorSet_Hash (sl_sha sl) (st_Validators state) then Ret (Inl ErrValidatorsHash)
               else try_bind (validate_last sl state block lastCommit) (\<lambda>_.
                 Ret (validate_tail sl state block))))"

section \<open>Correctness\<close>

lemma chain_lock_checks_agree: "ValidateBlockChainLock state block = validateCoreChainLock block state"
  by (simp add: ValidateBlockChainLock_def validateCoreChainLock_def split: option.splits)

definition valid_set :: "sm_lib \<Rightarrow> ValidatorSet \<Rightarrow> bool" where
  "valid_set sl v \<longleftrightarrow> ValidatorSet_ValidateBasic (address_ok sl) (key_recover sl) (llmq_valid sl) v = Ret (Inr ())"

definition valid_state :: "sm_lib \<Rightarrow> smState \<Rightarrow> bool" where
  "valid_state sl state \<longleftrightarrow> ValidateConsensusParams (st_ConsensusParams state) = Inr ()
     \<and> (\<exists>v. st_Validators state = Some v \<and> valid_set sl v)"

lemma valsetUpdate_valid:
  assumes "valsetUpdate sl vu cur params = Ret (Inr v)"
  shows "valid_set sl v"
proof (cases cur)
  case None
  then show ?thesis using assms by (auto simp: valsetUpdate_def run_iffs split: if_splits)
next
  case (Some c)
  then show ?thesis
    using assms by (auto simp: valsetUpdate_def valid_set_def run_iffs simp del: split_paired_Ex)
qed

text \<open>What a round state says of the round it was made for.\<close>

lemma NewCurrentRoundState_sound:
  assumes "NewCurrentRoundState sl proTxHash rp base = Ret (Inr c)"
    and "ValidateConsensusParams (st_ConsensusParams base) = Inr ()"
  shows "crs_Base c = base" "crs_Round c = rp_Round rp" "crs_AppHash c = rp_AppHash rp" "crs_Params c = rp"
    "TxResultsHash sl (rp_TxResults rp) = Inr (crs_ResultsHash c)"
    "ValidateConsensusParams (NextConsensusParams c) = Inr ()"
    "\<exists>v. NextValidators c = Some v \<and> valid_set sl v"
    "crs_CoreChainLock c =
       (case rp_CoreChainLock rp of
          None \<Rightarrow> None
        | Some l \<Rightarrow> if CoreBlockHeight l \<le> LastCoreChainLockedBlockHeight base then None else Some l)"
proof -
  obtain hash where hash: "TxResultsHash sl (rp_TxResults rp) = Inr hash"
    using assms(1) by (auto simp: NewCurrentRoundState_def crs_populate_def populateTxResults_def run_iffs)
  let ?c1 = "\<lparr>crs_Base = base, crs_Round = rp_Round rp, crs_ProTxHash = proTxHash, crs_AppHash = rp_AppHash rp,
        crs_TxResults = rp_TxResults rp, crs_ResultsHash = hash, crs_CoreChainLock = None, NextConsensusParams = zero_params,
        crs_LastHeightConsensusParamsChanged = 0, NextValidators = None, crs_LastHeightValidatorsChanged = 0,
        crs_Params = rp\<rparr>"
  obtain c2 where c2: "populateConsensusParams ?c1 = Inr c2"
    and pop: "try_bind (populateValsetUpdates sl c2) (\<lambda>c. Ret (Inr (populateChainlock c))) = Ret (Inr c)"
    using assms(1) hash by (auto simp: NewCurrentRoundState_def crs_populate_def populateTxResults_def run_iffs)
  have c2': "c2 = ?c1\<lparr>NextConsensusParams := NextConsensusParams c2,
      crs_LastHeightConsensusParamsChanged := crs_LastHeightConsensusParamsChanged c2\<rparr>"
    and valid: "ValidateConsensusParams (NextConsensusParams c2) = Inr ()"
    using c2 assms(2) by (auto simp: populateConsensusParams_def Let_def split: if_splits sum.splits)
  obtain v n where c: "c = populateChainlock (c2\<lparr>NextValidators := Some v, crs_LastHeightValidatorsChanged := n\<rparr>)"
    and v: "valid_set sl v"
    using pop by (auto simp: populateValsetUpdates_def run_iffs Let_def intro: valsetUpdate_valid)
  have eq: "crs_Base c2 = base" "crs_Round c2 = rp_Round rp" "crs_AppHash c2 = rp_AppHash rp" "crs_Params c2 = rp"
    "crs_ResultsHash c2 = hash" by (subst c2'; simp)+
  show "crs_Base c = base" "crs_Round c = rp_Round rp" "crs_AppHash c = rp_AppHash rp" "crs_Params c = rp"
    "TxResultsHash sl (rp_TxResults rp) = Inr (crs_ResultsHash c)"
    "ValidateConsensusParams (NextConsensusParams c) = Inr ()"
    "\<exists>v. NextValidators c = Some v \<and> valid_set sl v"
    "crs_CoreChainLock c =
       (case rp_CoreChainLock rp of
          None \<Rightarrow> None
        | Some l \<Rightarrow> if CoreBlockHeight l \<le> LastCoreChainLockedBlockHeight base then None else Some l)"
    using v valid hash eq unfolding c populateChainlock_def Let_def by (auto split: option.splits if_splits)
qed

lemma State_Update_core:
  "LastCoreChainLockedBlockHeight (State_Update state blockID h c) =
     (case crs_CoreChainLock c of Some l \<Rightarrow> CoreBlockHeight l | None \<Rightarrow> LastCoreChainLockedBlockHeight state)"
  by (simp add: State_Update_def UpdateState_def split: option.split)

lemma State_Update_fields [simp]:
  "LastBlockHeight (State_Update state blockID h c) = hdr_Height h"
  "st_LastBlockID (State_Update state blockID h c) = blockID"
  "st_ChainID (State_Update state blockID h c) = st_ChainID state"
  "InitialHeight (State_Update state blockID h c) = InitialHeight state"
  "st_Validators (State_Update state blockID h c) = NextValidators c"
  "st_LastValidators (State_Update state blockID h c) = st_Validators state"
  "st_ConsensusParams (State_Update state blockID h c) = NextConsensusParams c"
  "LastAppHash (State_Update state blockID h c) = crs_AppHash c"
  "LastBlockTime (State_Update state blockID h c) = hdr_Time h"
  "LastResultsHash (State_Update state blockID h c) = crs_ResultsHash c"
  "LastBlockRound (State_Update state blockID h c) = crs_Round c"
  by (simp_all add: State_Update_def UpdateState_def)

lemma validateBlock_sound:
  assumes "validateBlock sl state block lastCommit = Ret (Inr ())"
  shows "Block_ValidateBasic (sl_block sl) (Some block) = Inr ()"
    and "hdr_ChainID (block_Header block) = st_ChainID state"
    and "LastBlockHeight state = 0 \<Longrightarrow> hdr_Height (block_Header block) = InitialHeight state"
    and "LastBlockHeight state > 0 \<Longrightarrow> hdr_Height (block_Header block) = wrap64 (LastBlockHeight state + 1)"
    and "LastBlockID (block_Header block) = st_LastBlockID state"
    and "params_hash sl (st_ConsensusParams state) = Ret (ConsensusHash (block_Header block))"
    and "hdr_ValidatorsHash (block_Header block) = ValidatorSet_Hash (sl_sha sl) (st_Validators state)"
    and "validate_last sl state block lastCommit = Ret (Inr ())"
    and "validate_tail sl state block = Inr ()"
  using assms by (simp_all add: validateBlock_def Let_def run_iffs Equals_iff)

text \<open>
  A removal, an update of power zero, is not checked further by \<open>validateValidatorUpdates\<close>, but
  \<open>NewValidator\<close> then panics on its address where an update of positive power gives an error.
\<close>

lemma removal_address_panics:
  assumes "\<not> address_ok sl a" and "a \<noteq> []"
  shows "validateValidatorSetUpdate sl
           (Some \<lparr>ValidatorUpdates = [\<lparr>vu_PubKey = None, vu_Power = 0, vu_ProTxHash = Some h, vu_NodeAddress = a\<rparr>],
                  vsu_ThresholdPublicKey = Some k, vsu_QuorumHash = q\<rparr>) params = Inr ()"
    and "valsetUpdate sl
           (Some \<lparr>ValidatorUpdates = [\<lparr>vu_PubKey = None, vu_Power = 0, vu_ProTxHash = Some h, vu_NodeAddress = a\<rparr>],
                  vsu_ThresholdPublicKey = Some k, vsu_QuorumHash = q\<rparr>) cur params = Panic"
  using assms by (simp_all add: validateValidatorSetUpdate_def valsetUpdate_def ValidatorUpdatesFromValidatorSet_def
      NewValidator_def)

end
