(* ===== verification/Execution.thy ===== *)
theory Execution
  imports Sm_State
begin

text \<open>
  \<open>src/internal/state/execution.go\<close>: the block executor, which makes, checks and finalises blocks together
  with the application.

  The application answers through ABCI, and the mempool, the evidence pool and the stores stand behind
  interfaces; \<open>execEnv\<close> holds what they answer during a call, so every definition is for an arbitrary
  application. The calls that change one of them are recorded in order in the log of the executor. The
  cache of validated blocks is keyed by the block hash, whose string form is unique. The protobuf form of a
  block that was validated exists; only its encoding can fail. Metrics and events are left out, and so are
  the two hashes of the last prepared proposal, which are never assigned and decide only a log message.

  Results: what a validated and finalised block says about the next state, and the chain of states that
  applied blocks form.
\<close>

section \<open>Definitions\<close>

subsection \<open>The interface to the application and the pools\<close>

record CommitInfo =
  ci_Round :: int
  ci_QuorumHash :: bytes
  ci_BlockSignature :: bytes
  ci_VoteExtensions :: "pb_ext option list"

record RequestPrepareProposal =
  rpp_MaxTxBytes :: int
  rpp_Txs :: "Tx list"
  rpp_LastCommit :: CommitInfo
  rpp_Misbehavior :: "DuplicateVoteEvidence list"
  rpp_Height :: int
  rpp_Round :: int
  rpp_Time :: int
  rpp_NextValidatorsHash :: bytes
  rpp_CoreChainLockedHeight :: nat
  rpp_ProposerProTxHash :: bytes
  rpp_ProposedAppVersion :: nat
  rpp_Version :: Version
  rpp_QuorumHash :: bytes

record ResponsePrepareProposal =
  pp_TxRecords :: "(TxAction option \<times> Tx) list"
  pp_AppHash :: bytes
  pp_TxResults :: "ExecTxResult list"
  pp_ConsensusParamUpdates :: "pb_params option"
  pp_ValidatorSetUpdate :: "ValidatorSetUpdate option"
  pp_CoreChainLockUpdate :: "CoreChainLock option"
  pp_AppVersion :: nat

record RequestProcessProposal =
  rq_Hash :: bytes
  rq_Height :: int
  rq_Round :: int
  rq_Time :: int
  rq_Txs :: "Tx list"
  rq_LastCommit :: CommitInfo
  rq_Misbehavior :: "DuplicateVoteEvidence list"
  rq_NextValidatorsHash :: bytes
  rq_ProposerProTxHash :: bytes
  rq_CoreChainLockedHeight :: nat
  rq_CoreChainLock :: "CoreChainLock option"
  rq_ProposedAppVersion :: nat
  rq_Version :: Version
  rq_QuorumHash :: bytes

datatype ProposalStatus = StatusUnknown | StatusAccept | StatusReject | StatusOther

record ResponseProcessProposal =
  rs_Status :: ProposalStatus
  rs_AppHash :: bytes
  rs_TxResults :: "ExecTxResult list"
  rs_ConsensusParamUpdates :: "pb_params option"
  rs_ValidatorSetUpdate :: "ValidatorSetUpdate option"

record RequestFinalizeBlock =
  rf_Hash :: bytes
  rf_Height :: int
  rf_Round :: int
  rf_Commit :: CommitInfo
  rf_Misbehavior :: "DuplicateVoteEvidence list"
  rf_Block :: Block
  rf_BlockID :: BlockID

record ResponseFinalizeBlock =
  RetainHeight :: int
  fb_ProposeNextBlockImmediately :: bool

record RequestExtendVote =
  re_Hash :: bytes
  re_Height :: int
  re_Round :: int

record RequestVerifyVoteExtension =
  rv_Hash :: bytes
  rv_Height :: int
  rv_Round :: int
  rv_ProTxHash :: bytes
  rv_Extensions :: "(VoteExtensionType \<times> bytes \<times> bytes option) list"

record execEnv =
  ee_now :: int
  PendingEvidence :: "int \<Rightarrow> DuplicateVoteEvidence list \<times> int"
  CheckEvidence :: "DuplicateVoteEvidence list \<Rightarrow> bool"
  ReapMaxBytesMaxGas :: "int \<Rightarrow> int \<Rightarrow> Tx list"
  FlushAppConn :: bool
  mempool_Update :: bool
  app_PrepareProposal :: "RequestPrepareProposal \<Rightarrow> ResponsePrepareProposal option"
  app_ProcessProposal :: "RequestProcessProposal \<Rightarrow> ResponseProcessProposal option"
  app_FinalizeBlock :: "RequestFinalizeBlock \<Rightarrow> ResponseFinalizeBlock option"
  app_ExtendVote :: "RequestExtendVote \<Rightarrow> pb_ext option list option"
  app_VerifyVoteExtension :: "RequestVerifyVoteExtension \<Rightarrow> bool option"
  store_SaveABCIResponses :: bool
  store_Save :: bool
  store_PruneBlocks :: bool
  blockStore_Base :: int
  commit_size :: "Commit \<Rightarrow> int"

datatype exec_effect =
    EffPrepareProposal RequestPrepareProposal
  | EffRemoveTx Tx
  | EffProcessProposal RequestProcessProposal
  | EffSaveResponses int ResponseProcessProposal
  | EffFinalizeBlock RequestFinalizeBlock
  | EffFlushApp
  | EffMempoolUpdate int "Tx list" "ExecTxResult list"
  | EffEvidenceUpdate smState "DuplicateVoteEvidence list"
  | EffSaveState smState
  | EffPruneBlocks int
  | EffPruneStates int
  | EffExtendVote RequestExtendVote
  | EffVerifyVoteExtension RequestVerifyVoteExtension

record BlockExecutor =
  be_cache :: "bytes list"
  be_log :: "exec_effect list"

definition emit :: "exec_effect \<Rightarrow> BlockExecutor \<Rightarrow> BlockExecutor" where
  "emit e be = be\<lparr>be_log := be_log be @ [e]\<rparr>"

subsection \<open>Helpers\<close>

text \<open>The block of another height than the first is validated to have a last commit.\<close>

definition buildLastCommitInfo :: "Block \<Rightarrow> int \<Rightarrow> CommitInfo exec" where
  "buildLastCommitInfo block initialHeight =
     (if hdr_Height (block_Header block) = initialHeight
      then Ret \<lparr>ci_Round = 0, ci_QuorumHash = [], ci_BlockSignature = [], ci_VoteExtensions = []\<rparr>
      else case LastCommit block of
             None \<Rightarrow> Panic
           | Some c \<Rightarrow> Ret \<lparr>ci_Round = commit_Round c, ci_QuorumHash = commit_QuorumHash c,
               ci_BlockSignature = ThresholdBlockSignature c, ci_VoteExtensions = ThresholdVoteExtensions c\<rparr>)"

definition ToCommitInfo :: "Commit \<Rightarrow> CommitInfo" where
  "ToCommitInfo commit =
     \<lparr>ci_Round = commit_Round commit, ci_QuorumHash = commit_QuorumHash commit,
      ci_BlockSignature = ThresholdBlockSignature commit, ci_VoteExtensions = ThresholdVoteExtensions commit\<rparr>"

definition state_quorum_hash :: "smState \<Rightarrow> bytes exec" where
  "state_quorum_hash state = (case st_Validators state of None \<Rightarrow> Panic | Some v \<Rightarrow> Ret (opt_bytes (vs_QuorumHash v)))"

definition isValidApphash :: "bytes \<Rightarrow> bool" where
  "isValidApphash apphash \<longleftrightarrow> length apphash = 32"

definition ResponsePrepareProposal_Validate :: "ResponsePrepareProposal \<Rightarrow> bool" where
  "ResponsePrepareProposal_Validate m \<longleftrightarrow> isValidApphash (pp_AppHash m) \<and> pp_AppVersion m \<noteq> 0"

definition validateExecTxResults :: "ExecTxResult list \<Rightarrow> Tx list \<Rightarrow> bool" where
  "validateExecTxResults txResults acceptedTxs \<longleftrightarrow> length txResults = length acceptedTxs"

definition RoundParamsFromPrepareProposal :: "ResponsePrepareProposal \<Rightarrow> int \<Rightarrow> state_error + RoundParams" where
  "RoundParamsFromPrepareProposal resp round =
     (let (ccl, ok) = CoreChainLockFromProto (pp_CoreChainLockUpdate resp)
      in if \<not> ok then Inl ErrChainLock
         else Inr \<lparr>rp_AppHash = pp_AppHash resp, rp_TxResults = pp_TxResults resp,
                   ConsensusParamUpdates = pp_ConsensusParamUpdates resp,
                   rp_ValidatorSetUpdate = pp_ValidatorSetUpdate resp, rp_CoreChainLock = ccl,
                   rp_Source = PrepareProposalSource, rp_Round = round\<rparr>)"

definition RoundParamsFromProcessProposal :: "ResponseProcessProposal \<Rightarrow> CoreChainLock option \<Rightarrow> int \<Rightarrow> RoundParams" where
  "RoundParamsFromProcessProposal resp coreChainLock round =
     \<lparr>rp_AppHash = rs_AppHash resp, rp_TxResults = rs_TxResults resp,
      ConsensusParamUpdates = rs_ConsensusParamUpdates resp, rp_ValidatorSetUpdate = rs_ValidatorSetUpdate resp,
      rp_CoreChainLock = coreChainLock, rp_Source = ProcessProposalSource, rp_Round = round\<rparr>"

definition ToProcessProposal :: "RoundParams \<Rightarrow> ResponseProcessProposal" where
  "ToProcessProposal rp =
     \<lparr>rs_Status = StatusAccept, rs_AppHash = rp_AppHash rp, rs_TxResults = rp_TxResults rp,
      rs_ConsensusParamUpdates = ConsensusParamUpdates rp, rs_ValidatorSetUpdate = rp_ValidatorSetUpdate rp\<rparr>"

subsection \<open>Proposing\<close>

type_synonym 'a exec_call = "(BlockExecutor, state_error, 'a) call"

definition CreateProposalBlock ::
  "sm_lib \<Rightarrow> execEnv \<Rightarrow> bytes \<Rightarrow> int \<Rightarrow> int \<Rightarrow> smState \<Rightarrow> Commit option \<Rightarrow> bytes \<Rightarrow> nat \<Rightarrow> BlockExecutor
   \<Rightarrow> (Block \<times> CurrentRoundState) exec_call" where
  "CreateProposalBlock sl env proTxHash height round state commit proposerProTxHash proposedAppVersion be =
     (let params = st_ConsensusParams state;
          (evidence, evSize) = PendingEvidence env (ep_MaxBytes (cp_Evidence params));
          (maxDataBytes, fits) = MaxDataBytes (commit_size env) (bp_MaxBytes (cp_Block params)) commit evSize
      in if isl fits then Ret (be, Inl ErrDataBytes)
         else
     let txs = ReapMaxBytesMaxGas env maxDataBytes (bp_MaxGas (cp_Block params)) in
     exec_bind (State_MakeBlock sl (ee_now env) state height txs commit evidence proposerProTxHash proposedAppVersion) (\<lambda>block.
     exec_bind (buildLastCommitInfo block (InitialHeight state)) (\<lambda>localLastCommit.
     exec_bind (state_quorum_hash state) (\<lambda>quorumHash.
     let h = block_Header block;
         request = \<lparr>rpp_MaxTxBytes = maxDataBytes, rpp_Txs = block_Txs block, rpp_LastCommit = localLastCommit,
           rpp_Misbehavior = block_Evidence block, rpp_Height = hdr_Height h, rpp_Round = round,
           rpp_Time = hdr_Time h, rpp_NextValidatorsHash = NextValidatorsHash h,
           rpp_CoreChainLockedHeight = LastCoreChainLockedBlockHeight state,
           rpp_ProposerProTxHash = hdr_ProposerProTxHash h, rpp_ProposedAppVersion = ProposedAppVersion h,
           rpp_Version = hdr_Version h, rpp_QuorumHash = quorumHash\<rparr>;
         be = emit (EffPrepareProposal request) be
     in case app_PrepareProposal env request of
          None \<Rightarrow> Ret (be, Inl ErrAppCall)
        | Some response \<Rightarrow>
     if \<not> ResponsePrepareProposal_Validate response then Ret (be, Inl ErrResponse) else
     let txrSet = NewTxRecordSet (pp_TxRecords response) in
     if isl (TxRecordSet_Validate txrSet maxDataBytes (block_Txs block)) then Ret (be, Inl ErrTxRecords) else
     let be = fold (\<lambda>tx. emit (EffRemoveTx tx)) (removed txrSet) be;
         itxs = included txrSet
     in if \<not> validateExecTxResults (pp_TxResults response) itxs then Ret (be, Inl ErrTxResults) else
     let block = SetTxs (sl_block sl) itxs block;
         block = (if pp_AppVersion response > 0
                  then block\<lparr>block_Header := (block_Header block)\<lparr>hdr_Version :=
                         (hdr_Version (block_Header block))\<lparr>ver_App := pp_AppVersion response\<rparr>\<rparr>\<rparr>
                  else block)
     in step_bind (on_state be (Ret (RoundParamsFromPrepareProposal response round))) (\<lambda>rp be.
        step_bind (on_state be (NewCurrentRoundState sl proTxHash rp state)) (\<lambda>stateChanges be.
        step_bind (on_state be (UpdateBlock sl stateChanges block)) (\<lambda>block be.
        Ret (be, Inr (block, stateChanges)))))))))"

subsection \<open>Validation\<close>

definition ValidateBlock :: "sm_lib \<Rightarrow> execEnv \<Rightarrow> smState \<Rightarrow> Block \<Rightarrow> commitProof option \<Rightarrow> BlockExecutor \<Rightarrow> unit exec_call" where
  "ValidateBlock sl env state block lastCommit be =
     (let hash = Block_Hash (sl_block sl) (Some block)
      in if hash \<in> set (be_cache be) then Ret (be, Inr ())
         else step_bind (on_state be (validateBlock sl state block lastCommit)) (\<lambda>_ be.
           if \<not> CheckEvidence env (block_Evidence block) then Ret (be, Inl ErrEvidenceCheck)
           else Ret (be\<lparr>be_cache := hash # be_cache be\<rparr>, Inr ())))"

definition be_VerifyCommit :: "sm_lib \<Rightarrow> smState \<Rightarrow> BlockID \<Rightarrow> int \<Rightarrow> Commit option \<Rightarrow> (commit_error + commitProof) exec" where
  "be_VerifyCommit sl state blockID height commit =
     exec_bind (VerifyCommitSignatures (sl_crypto sl) (st_Validators state) (st_ChainID state) blockID height commit None ())
       (\<lambda>(r, _). Ret r)"

definition round_state_checks :: "sm_lib \<Rightarrow> smState \<Rightarrow> CurrentRoundState \<Rightarrow> Block \<Rightarrow> commitProof option \<Rightarrow> (state_error + unit) exec" where
  "round_state_checks sl state uncommitted block lastCommit =
     (let h = block_Header block
      in if crs_AppHash uncommitted \<noteq> [] \<and> AppHash h \<noteq> crs_AppHash uncommitted then Ret (Inl ErrAppHash)
         else if crs_ResultsHash uncommitted \<noteq> [] \<and> ResultsHash h \<noteq> crs_ResultsHash uncommitted then Ret (Inl ErrResultsHash)
         else try_bind (if hdr_Height h > InitialHeight state then verifyLastCommit sl state block lastCommit else Ret (Inr ())) (\<lambda>_.
           if NextValidatorsHash h \<noteq> ValidatorSet_Hash (sl_sha sl) (NextValidators uncommitted)
           then Ret (Inl ErrNextValidatorsHash)
           else exec_bind (params_hash sl (NextConsensusParams uncommitted)) (\<lambda>nextHash.
             if NextConsensusHash h \<noteq> nextHash then Ret (Inl ErrNextConsensusHash)
             else Ret (validateCoreChainLock block state))))"

definition ValidateBlockWithRoundState ::
  "sm_lib \<Rightarrow> execEnv \<Rightarrow> smState \<Rightarrow> CurrentRoundState \<Rightarrow> Block \<Rightarrow> commitProof option \<Rightarrow> BlockExecutor \<Rightarrow> unit exec_call" where
  "ValidateBlockWithRoundState sl env state uncommitted block lastCommit be =
     step_bind (ValidateBlock sl env state block lastCommit be) (\<lambda>_ be.
       on_state be (round_state_checks sl state uncommitted block lastCommit))"

definition ProcessProposal ::
  "sm_lib \<Rightarrow> execEnv \<Rightarrow> bytes \<Rightarrow> Block \<Rightarrow> int \<Rightarrow> smState \<Rightarrow> bool \<Rightarrow> commitProof option \<Rightarrow> BlockExecutor
   \<Rightarrow> CurrentRoundState exec_call" where
  "ProcessProposal sl env proTxHash block round state verify lastCommit be =
     (let h = block_Header block in
     exec_bind (buildLastCommitInfo block (InitialHeight state)) (\<lambda>lastCommitInfo.
     exec_bind (state_quorum_hash state) (\<lambda>quorumHash.
     let request = \<lparr>rq_Hash = Header_Hash (sl_block sl) h, rq_Height = hdr_Height h, rq_Round = round, rq_Time = hdr_Time h,
           rq_Txs = block_Txs block, rq_LastCommit = lastCommitInfo, rq_Misbehavior = block_Evidence block,
           rq_NextValidatorsHash = NextValidatorsHash h, rq_ProposerProTxHash = hdr_ProposerProTxHash h,
           rq_CoreChainLockedHeight = hdr_CoreChainLockedHeight h, rq_CoreChainLock = block_CoreChainLock block,
           rq_ProposedAppVersion = ProposedAppVersion h, rq_Version = hdr_Version h, rq_QuorumHash = quorumHash\<rparr>;
         be = emit (EffProcessProposal request) be
     in case app_ProcessProposal env request of
          None \<Rightarrow> Ret (be, Inl ErrAppCall)
        | Some resp \<Rightarrow>
     if rs_Status resp = StatusUnknown then Ret (be, Inl ErrStatusUnknown)
     else if rs_Status resp \<noteq> StatusAccept then Ret (be, Inl ErrBlockRejected)
     else if \<not> isValidApphash (rs_AppHash resp) then Ret (be, Inl ErrResponse)
     else if \<not> validateExecTxResults (rs_TxResults resp) (block_Txs block) then Ret (be, Inl ErrTxResults)
     else
     let rp = RoundParamsFromProcessProposal resp (block_CoreChainLock block) round in
     step_bind (on_state be (NewCurrentRoundState sl proTxHash rp state)) (\<lambda>stateChanges be.
     if verify then
       exec_bind (ValidateBlockWithRoundState sl env state stateChanges block lastCommit be) (\<lambda>(be, r).
         Ret (be, case r of Inl e \<Rightarrow> Inl (ErrInvalidBlock e) | Inr _ \<Rightarrow> Inr stateChanges))
     else Ret (be, Inr stateChanges)))))"

subsection \<open>Finalising\<close>

definition execBlock :: "sm_lib \<Rightarrow> execEnv \<Rightarrow> Block \<Rightarrow> Commit \<Rightarrow> BlockExecutor \<Rightarrow> ResponseFinalizeBlock exec_call" where
  "execBlock sl env block commit be =
     exec_bind (Block_BlockID (sl_block sl) (Some block) None) (\<lambda>blockID.
       let request = \<lparr>rf_Hash = Block_Hash (sl_block sl) (Some block), rf_Height = hdr_Height (block_Header block),
             rf_Round = commit_Round commit, rf_Commit = ToCommitInfo commit, rf_Misbehavior = block_Evidence block,
             rf_Block = block, rf_BlockID = blockID\<rparr>;
           be = emit (EffFinalizeBlock request) be
       in case app_FinalizeBlock env request of
            None \<Rightarrow> Ret (be, Inl ErrAppCall)
          | Some resp \<Rightarrow> Ret (be, Inr resp))"

definition flushMempool :: "execEnv \<Rightarrow> Block \<Rightarrow> ExecTxResult list \<Rightarrow> BlockExecutor \<Rightarrow> unit exec_call" where
  "flushMempool env block txResults be =
     (let be = emit EffFlushApp be
      in if \<not> FlushAppConn env then Ret (be, Inl ErrMempool)
         else
           let be = emit (EffMempoolUpdate (hdr_Height (block_Header block)) (block_Txs block) txResults) be
           in if mempool_Update env then Ret (be, Inr ()) else Ret (be, Inl ErrMempool))"

definition pruneBlocks :: "execEnv \<Rightarrow> int \<Rightarrow> BlockExecutor \<Rightarrow> BlockExecutor" where
  "pruneBlocks env retainHeight be =
     (if retainHeight \<le> 0 then be
      else if retainHeight \<le> blockStore_Base env then be
      else
        let be = emit (EffPruneBlocks retainHeight) be
        in if \<not> store_PruneBlocks env then be else emit (EffPruneStates retainHeight) be)"

definition FinalizeBlock ::
  "sm_lib \<Rightarrow> execEnv \<Rightarrow> smState \<Rightarrow> CurrentRoundState \<Rightarrow> BlockID \<Rightarrow> Block \<Rightarrow> Commit \<Rightarrow> commitProof option \<Rightarrow> BlockExecutor
   \<Rightarrow> (smState \<times> ResponseFinalizeBlock) exec_call" where
  "FinalizeBlock sl env state uncommitted blockID block commit lastCommit be =
     exec_bind (ValidateBlockWithRoundState sl env state uncommitted block lastCommit be) (\<lambda>(be, r). case r of
       Inl e \<Rightarrow> Ret (be, Inl (ErrInvalidBlock e))
     | Inr _ \<Rightarrow>
         let be = emit (EffSaveResponses (hdr_Height (block_Header block)) (ToProcessProposal (crs_Params uncommitted))) be
         in if \<not> store_SaveABCIResponses env then Ret (be, Inl ErrStoreSave)
            else exec_bind (execBlock sl env block commit be) (\<lambda>(be, r). case r of
              Inl e \<Rightarrow> Ret (be, Inl (ErrInvalidBlock e))
            | Inr fbResp \<Rightarrow>
                let state = State_Update state blockID (block_Header block) uncommitted
                in step_bind (flushMempool env block (crs_TxResults uncommitted) be) (\<lambda>_ be.
                   let be = emit (EffEvidenceUpdate state (block_Evidence block)) be;
                       be = emit (EffSaveState state) be
                   in if \<not> store_Save env then Ret (be, Inl ErrStoreSave)
                      else Ret ((pruneBlocks env (RetainHeight fbResp) be)\<lparr>be_cache := []\<rparr>, Inr (state, fbResp)))))"

definition ToExtendProto :: "VoteExtension list \<Rightarrow> (VoteExtensionType \<times> bytes \<times> bytes option) list" where
  "ToExtendProto es =
     map (\<lambda>e. (ve_Type e, ve_Extension e,
               case ve_SignRequestId e of Some i \<Rightarrow> (if length i > 0 then Some i else None) | None \<Rightarrow> None)) es"

definition VerifyVoteExtension :: "execEnv \<Rightarrow> Vote \<Rightarrow> BlockExecutor \<Rightarrow> unit exec_call" where
  "VerifyVoteExtension env vote be =
     (let request = \<lparr>rv_Hash = bid_Hash (vote_BlockID vote), rv_Height = vote_Height vote, rv_Round = vote_Round vote,
            rv_ProTxHash = ValidatorProTxHash vote, rv_Extensions = ToExtendProto (VoteExtensions vote)\<rparr>;
          be = emit (EffVerifyVoteExtension request) be
      in case app_VerifyVoteExtension env request of
           None \<Rightarrow> Panic
         | Some ok \<Rightarrow> if ok then Ret (be, Inr ()) else Ret (be, Inl ErrInvalidVoteExtension))"

definition VerifyCommitExtensions :: "execEnv \<Rightarrow> Commit \<Rightarrow> BlockExecutor \<Rightarrow> unit exec_call" where
  "VerifyCommitExtensions env commit be =
     (case GetCanonicalVote commit of
        Inl e \<Rightarrow> Ret (be, Inl (ErrCommitExtensionsInvalid e))
      | Inr vote \<Rightarrow>
          exec_bind (VerifyVoteExtension env vote be) (\<lambda>(be, r).
            Ret (be, case r of Inl _ \<Rightarrow> Inl ErrCommitExtensionsRejected | Inr _ \<Rightarrow> Inr ())))"

definition ApplyBlock ::
  "sm_lib \<Rightarrow> execEnv \<Rightarrow> bytes \<Rightarrow> smState \<Rightarrow> BlockID \<Rightarrow> Block \<Rightarrow> Commit \<Rightarrow> commitProof option \<Rightarrow> BlockExecutor \<Rightarrow> smState exec_call" where
  "ApplyBlock sl env proTxHash state blockID block commit lastCommit be =
     step_bind (ProcessProposal sl env proTxHash block (commit_Round commit) state False lastCommit be) (\<lambda>uncommitted be.
     step_bind (VerifyCommitExtensions env commit be) (\<lambda>_ be.
     step_bind (FinalizeBlock sl env state uncommitted blockID block commit lastCommit be) (\<lambda>(state, _) be.
     Ret (be, Inr state))))"

text \<open>A nil element, an extension of the default type or of an unknown one, and a failed call panic.\<close>

fun NewVoteExtensionsFromABCIExtended :: "pb_ext option list \<Rightarrow> VoteExtension list exec" where
  "NewVoteExtensionsFromABCIExtended [] = Ret []"
| "NewVoteExtensionsFromABCIExtended (None # exts) = Panic"
| "NewVoteExtensionsFromABCIExtended (Some ext # exts) =
     (if pb_Type ext = Some VE_DEFAULT then Panic
      else case VoteExtensionFromProto (ext\<lparr>pb_Signature := []\<rparr>) of
             Inl e \<Rightarrow> Panic
           | Inr v \<Rightarrow> exec_bind (NewVoteExtensionsFromABCIExtended exts) (\<lambda>vs. Ret (v # vs)))"

definition ExtendVote :: "execEnv \<Rightarrow> Vote \<Rightarrow> BlockExecutor \<Rightarrow> (BlockExecutor \<times> Vote) exec" where
  "ExtendVote env vote be =
     (let request = \<lparr>re_Hash = bid_Hash (vote_BlockID vote), re_Height = vote_Height vote, re_Round = vote_Round vote\<rparr>;
          be = emit (EffExtendVote request) be
      in case app_ExtendVote env request of
           None \<Rightarrow> Panic
         | Some resp \<Rightarrow> exec_bind (NewVoteExtensionsFromABCIExtended resp) (\<lambda>exts. Ret (be, vote\<lparr>VoteExtensions := exts\<rparr>)))"

section \<open>What a finalised block leaves behind\<close>

lemma emit_simps [simp]: "be_cache (emit e be) = be_cache be" "be_log (emit e be) = be_log be @ [e]"
  by (simp_all add: emit_def)

lemma pruneBlocks_cases: "\<exists>es. be_log (pruneBlocks env r be) = be_log be @ es \<and> set es \<subseteq> {EffPruneBlocks r, EffPruneStates r}"
  by (auto simp: pruneBlocks_def Let_def)

lemma ValidateBlockWithRoundState_sound:
  assumes "ValidateBlockWithRoundState sl env state unc block lc be = Ret (be', Inr ())"
  shows "round_state_checks sl state unc block lc = Ret (Inr ())" and "be_log be' = be_log be"
    and "be_cache be = [] \<Longrightarrow> validateBlock sl state block lc = Ret (Inr ())"
    and "be_cache be = [] \<Longrightarrow> CheckEvidence env (block_Evidence block)"
  using assms
  by (auto simp: ValidateBlockWithRoundState_def ValidateBlock_def Let_def step_bind_Inr_iff on_state_Ret_iff
      split: if_splits)

lemma FinalizeBlock_sound:
  assumes "FinalizeBlock sl env state unc bid block commit lc be = Ret (be', Inr (state', resp))"
  shows "state' = State_Update state bid (block_Header block) unc" and "be_cache be' = []"
    and "round_state_checks sl state unc block lc = Ret (Inr ())"
    and "be_cache be = [] \<Longrightarrow> validateBlock sl state block lc = Ret (Inr ())"
    and "\<exists>request prune.
      be_log be' = be_log be @ [EffSaveResponses (hdr_Height (block_Header block)) (ToProcessProposal (crs_Params unc)),
         EffFinalizeBlock request, EffFlushApp,
         EffMempoolUpdate (hdr_Height (block_Header block)) (block_Txs block) (crs_TxResults unc),
         EffEvidenceUpdate state' (block_Evidence block), EffSaveState state'] @ prune
      \<and> app_FinalizeBlock env request = Some resp \<and> rf_Block request = block \<and> rf_Commit request = ToCommitInfo commit
      \<and> set prune \<subseteq> {EffPruneBlocks (RetainHeight resp), EffPruneStates (RetainHeight resp)}"
proof -
  obtain be1 where v: "ValidateBlockWithRoundState sl env state unc block lc be = Ret (be1, Inr ())"
    using assms by (auto simp: FinalizeBlock_def call_iffs)
  note s = ValidateBlockWithRoundState_sound [OF v]
  let ?be2 = "emit (EffSaveResponses (hdr_Height (block_Header block)) (ToProcessProposal (crs_Params unc))) be1"
  obtain be3 resp' where e: "execBlock sl env block commit ?be2 = Ret (be3, Inr resp')"
    using assms v by (auto simp: FinalizeBlock_def Let_def call_iffs)
  obtain request where r: "be3 = emit (EffFinalizeBlock request) ?be2" "app_FinalizeBlock env request = Some resp'"
    "rf_Block request = block" "rf_Commit request = ToCommitInfo commit"
    using e by (auto simp: execBlock_def exec_bind_Ret_iff Let_def split: option.splits)
  let ?st = "State_Update state bid (block_Header block) unc"
  let ?be4 = "emit (EffMempoolUpdate (hdr_Height (block_Header block)) (block_Txs block) (crs_TxResults unc)) (emit EffFlushApp be3)"
  let ?be5 = "emit (EffSaveState ?st) (emit (EffEvidenceUpdate ?st (block_Evidence block)) ?be4)"
  have f: "be' = (pruneBlocks env (RetainHeight resp) ?be5)\<lparr>be_cache := []\<rparr>"
    "state' = ?st" "resp' = resp"
    using assms v e
    by (auto simp: FinalizeBlock_def Let_def flushMempool_def call_iffs split: if_splits)
  show "state' = ?st" "be_cache be' = []" using f by simp_all
  show "round_state_checks sl state unc block lc = Ret (Inr ())"
    "be_cache be = [] \<Longrightarrow> validateBlock sl state block lc = Ret (Inr ())" using s by simp_all
  obtain es where "be_log be' = be_log ?be5 @ es"
    "set es \<subseteq> {EffPruneBlocks (RetainHeight resp), EffPruneStates (RetainHeight resp)}"
    using pruneBlocks_cases [of env "RetainHeight resp" ?be5] f(1) by auto
  then show "\<exists>request prune.
      be_log be' = be_log be @ [EffSaveResponses (hdr_Height (block_Header block)) (ToProcessProposal (crs_Params unc)),
         EffFinalizeBlock request, EffFlushApp,
         EffMempoolUpdate (hdr_Height (block_Header block)) (block_Txs block) (crs_TxResults unc),
         EffEvidenceUpdate state' (block_Evidence block), EffSaveState state'] @ prune
      \<and> app_FinalizeBlock env request = Some resp \<and> rf_Block request = block \<and> rf_Commit request = ToCommitInfo commit
      \<and> set prune \<subseteq> {EffPruneBlocks (RetainHeight resp), EffPruneStates (RetainHeight resp)}"
    using r s(2) f(2,3) by (intro exI [of _ request] exI [of _ es]) simp
qed

lemma round_state_checks_sound:
  assumes "round_state_checks sl state unc block lc = Ret (Inr ())"
  shows "crs_AppHash unc \<noteq> [] \<Longrightarrow> AppHash (block_Header block) = crs_AppHash unc"
    and "crs_ResultsHash unc \<noteq> [] \<Longrightarrow> ResultsHash (block_Header block) = crs_ResultsHash unc"
    and "NextValidatorsHash (block_Header block) = ValidatorSet_Hash (sl_sha sl) (NextValidators unc)"
    and "params_hash sl (NextConsensusParams unc) = Ret (NextConsensusHash (block_Header block))"
    and "validateCoreChainLock block state = Inr ()"
  using assms by (auto simp: round_state_checks_def Let_def run_iffs)

lemma ProcessProposal_unverified:
  assumes "ProcessProposal sl env p block round state False lc be = Ret (be', Inr unc)"
  shows "\<exists>resp. NewCurrentRoundState sl p (RoundParamsFromProcessProposal resp (block_CoreChainLock block) round) state = Ret (Inr unc)
           \<and> length (rs_AppHash resp) = 32"
    and "be_cache be' = be_cache be"
  using assms
  by (auto simp: ProcessProposal_def Let_def exec_bind_Ret_iff step_bind_Inr_iff on_state_Ret_iff isValidApphash_def
      split: option.splits if_splits)

lemma VerifyCommitExtensions_cache:
  "VerifyCommitExtensions env c be = Ret (be', r) \<Longrightarrow> be_cache be' = be_cache be"
  by (cases "GetCanonicalVote c")
    (auto simp: VerifyCommitExtensions_def VerifyVoteExtension_def Let_def exec_bind_Ret_iff split: option.splits if_splits)
text \<open>
  The states that follow one another as blocks are applied, with the executor that applies them. Each block
  is listed with the identifier it was applied under.
\<close>

inductive applied :: "sm_lib \<Rightarrow> smState \<Rightarrow> BlockExecutor \<Rightarrow> (BlockID \<times> Block) list \<Rightarrow> smState \<Rightarrow> BlockExecutor \<Rightarrow> bool"
  for sl s0 be0 where
  start: "applied sl s0 be0 [] s0 be0"
| apply_block: "applied sl s0 be0 bs s be \<Longrightarrow> ApplyBlock sl env proTxHash s bid b commit lc be = Ret (be', Inr s')
    \<Longrightarrow> applied sl s0 be0 (bs @ [(bid, b)]) s' be'"

definition links :: "BlockID \<times> Block \<Rightarrow> BlockID \<times> Block \<Rightarrow> bool" where
  "links x y \<longleftrightarrow> (let h = block_Header (snd x); h' = block_Header (snd y)
     in LastBlockID h' = fst x \<and> hdr_Height h' = hdr_Height h + 1 \<and> hdr_Time h < hdr_Time h'
        \<and> hdr_ValidatorsHash h' = NextValidatorsHash h \<and> ConsensusHash h' = NextConsensusHash h
        \<and> hdr_CoreChainLockedHeight h \<le> hdr_CoreChainLockedHeight h')"

definition commits_to :: "sm_lib \<Rightarrow> BlockID \<times> Block \<Rightarrow> smState \<Rightarrow> bool" where
  "commits_to sl x s \<longleftrightarrow> (let h = block_Header (snd x)
     in LastBlockHeight s = hdr_Height h \<and> 0 < hdr_Height h \<and> InitialHeight s \<le> hdr_Height h \<and> in_int64 (hdr_Height h)
        \<and> st_LastBlockID s = fst x \<and> LastBlockTime s = hdr_Time h \<and> LastAppHash s = AppHash h
        \<and> ValidatorSet_Hash (sl_sha sl) (st_Validators s) = NextValidatorsHash h
        \<and> params_hash sl (st_ConsensusParams s) = Ret (NextConsensusHash h)
        \<and> LastCoreChainLockedBlockHeight s = hdr_CoreChainLockedHeight h)"

lemma ApplyBlock_sound:
  assumes "ApplyBlock sl env proTxHash s bid b commit lc be = Ret (be', Inr s')"
    and "be_cache be = []" and "valid_state sl s" and "in_int64 (InitialHeight s)" and "0 \<le> LastBlockHeight s"
  shows "valid_state sl s'" and "be_cache be' = []" and "commits_to sl (bid, b) s'"
    and "InitialHeight s' = InitialHeight s" and "st_ChainID s' = st_ChainID s"
    and "LastCoreChainLockedBlockHeight s \<le> LastCoreChainLockedBlockHeight s'"
    and "validateBlock sl s b lc = Ret (Inr ())"
proof -
  obtain unc be1 be2 resp where p: "ProcessProposal sl env proTxHash b (commit_Round commit) s False lc be = Ret (be1, Inr unc)"
    and v: "VerifyCommitExtensions env commit be1 = Ret (be2, Inr ())"
    and f: "FinalizeBlock sl env s unc bid b commit lc be2 = Ret (be', Inr (s', resp))"
    using assms(1) by (auto simp: ApplyBlock_def step_bind_Inr_iff)
  have cache: "be_cache be2 = []"
    using ProcessProposal_unverified(2) [OF p] VerifyCommitExtensions_cache [OF v] assms(2) by simp
  note fin = FinalizeBlock_sound [OF f] and chk = round_state_checks_sound [OF FinalizeBlock_sound(3) [OF f]]
  note val = validateBlock_sound [OF FinalizeBlock_sound(4) [OF f cache]]
  obtain resp where n: "NewCurrentRoundState sl proTxHash
      (RoundParamsFromProcessProposal resp (block_CoreChainLock b) (commit_Round commit)) s = Ret (Inr unc)"
    and app: "length (rs_AppHash resp) = 32"
    using ProcessProposal_unverified(1) [OF p] by blast
  have params: "ValidateConsensusParams (st_ConsensusParams s) = Inr ()" using assms(3) by (simp add: valid_state_def)
  note u = NewCurrentRoundState_sound [OF n params]
  have rp: "rp_CoreChainLock (RoundParamsFromProcessProposal resp l r) = l"
    "rp_AppHash (RoundParamsFromProcessProposal resp l r) = rs_AppHash resp" for l r
    by (simp_all add: RoundParamsFromProcessProposal_def)
  show "valid_state sl s'" using u(6,7) by (simp add: fin(1) valid_state_def)
  show "be_cache be' = []" by (rule fin(2))
  show "InitialHeight s' = InitialHeight s" "st_ChainID s' = st_ChainID s" by (simp_all add: fin(1))
  show "validateBlock sl s b lc = Ret (Inr ())" by (rule fin(4) [OF cache])
  have basic: "0 < hdr_Height (block_Header b)"
    using val(1) by (auto simp: Block_ValidateBasic_def Header_ValidateBasic_def res_bind_Inr_iff guard_Inr_iff)
  have h: "InitialHeight s \<le> hdr_Height (block_Header b)" "in_int64 (hdr_Height (block_Header b))"
    using val(3,4,9) assms(4,5) by (auto simp: validate_tail_def Let_def guard_Inr_iff le_less)
  have core: "LastCoreChainLockedBlockHeight s' = hdr_CoreChainLockedHeight (block_Header b)
      \<and> LastCoreChainLockedBlockHeight s \<le> hdr_CoreChainLockedHeight (block_Header b)"
    using chk(5) u(8) by (auto simp: fin(1) State_Update_core rp validateCoreChainLock_def guard_Inr_iff split: option.splits)
  then show "LastCoreChainLockedBlockHeight s \<le> LastCoreChainLockedBlockHeight s'" by simp
  have "crs_AppHash unc \<noteq> []" using u(3) app by (auto simp: rp)
  from chk(1) [OF this] show "commits_to sl (bid, b) s'"
    using basic h chk(3,4) core by (simp add: commits_to_def Let_def fin(1))
qed

lemma applied_snoc: "successively P (xs @ [x]) \<longleftrightarrow> successively P xs \<and> (xs \<noteq> [] \<longrightarrow> P (last xs) x)"
  by (auto simp: successively_append_iff)

lemma applied_links:
  assumes "commits_to sl x s" and "ApplyBlock sl env proTxHash s bid b commit lc be = Ret (be', Inr s')"
    and "be_cache be = []" and "valid_state sl s" and "in_int64 (InitialHeight s)"
  shows "links x (bid, b)"
proof -
  have pos: "0 \<le> LastBlockHeight s" using assms(1) by (simp add: commits_to_def Let_def)
  note ok = ApplyBlock_sound [OF assms(2,3,4,5) pos] and val = validateBlock_sound [OF ApplyBlock_sound(7) [OF assms(2,3,4,5) pos]]
  have h: "hdr_Height (block_Header b) = wrap64 (hdr_Height (block_Header (snd x)) + 1)" "0 < hdr_Height (block_Header b)"
    using val(4) assms(1) ok(3) by (simp_all add: commits_to_def Let_def)
  have eq: "wrap64 (hdr_Height (block_Header (snd x)) + 1) = hdr_Height (block_Header (snd x)) + 1"
  proof (cases "hdr_Height (block_Header (snd x)) = MaxInt64")
    case True
    then have "hdr_Height (block_Header b) = MinInt64" using h(1) by (simp add: wrap64_def)
    then show ?thesis using h(2) by simp
  next
    case False
    then show ?thesis using assms(1) by (intro wrap64_id) (auto simp: commits_to_def Let_def in_int64_def)
  qed
  have "hdr_Time (block_Header (snd x)) < hdr_Time (block_Header b)"
    using val(9) h eq assms(1) by (auto simp: validate_tail_def commits_to_def Let_def guard_Inr_iff)
  moreover have "hdr_CoreChainLockedHeight (block_Header (snd x)) \<le> hdr_CoreChainLockedHeight (block_Header b)"
    using ok(3,6) assms(1) by (simp add: commits_to_def Let_def)
  ultimately show ?thesis
    using assms(1) val(5,6,7) h(1) eq by (simp add: links_def commits_to_def Let_def)
qed

text \<open>
  C14: Whatever the application answers, every state that a sequence of applied blocks produces is well
  formed: its consensus parameters pass their validation and its validators form a valid set. The blocks
  form a chain: each refers to the identifier its predecessor was applied under, has the next height and a
  later time, carries the hashes of the validators and parameters its predecessor announced, and a core
  height that is not lower; and the last block commits to the state after it.\<close>

theorem applied_states_valid:
  assumes "applied sl s0 be0 bs s be"
    and "valid_state sl s0" and "be_cache be0 = []" and "in_int64 (InitialHeight s0)" and "0 \<le> LastBlockHeight s0"
  shows "valid_state sl s \<and> successively links bs \<and> (bs \<noteq> [] \<longrightarrow> commits_to sl (last bs) s)
    \<and> LastCoreChainLockedBlockHeight s0 \<le> LastCoreChainLockedBlockHeight s"
proof -
  have "valid_state sl s \<and> be_cache be = [] \<and> InitialHeight s = InitialHeight s0 \<and> 0 \<le> LastBlockHeight s
      \<and> successively links bs \<and> (bs \<noteq> [] \<longrightarrow> commits_to sl (last bs) s)
      \<and> LastCoreChainLockedBlockHeight s0 \<le> LastCoreChainLockedBlockHeight s"
    using assms(1)
  proof induction
    case start
    then show ?case using assms by simp
  next
    case (apply_block bs s be env p bid b commit lc be' s')
    then have int: "in_int64 (InitialHeight s)" using assms(4) by simp
    have pre: "be_cache be = []" "valid_state sl s" "0 \<le> LastBlockHeight s" using apply_block.IH by simp_all
    note ok = ApplyBlock_sound [OF apply_block.hyps(2) pre(1,2) int pre(3)]
    have "bs \<noteq> [] \<longrightarrow> links (last bs) (bid, b)"
      using apply_block.IH applied_links [OF _ apply_block.hyps(2) pre(1,2) int] by blast
    then show ?case
      using apply_block.IH ok by (auto simp: applied_snoc commits_to_def Let_def)
  qed
  then show ?thesis by blast
qed
section \<open>An honest proposal is accepted\<close>

lemma root_length:
  assumes "\<And>x. length (sha x) = 32"
  shows "length (HashFromByteSlices sha xs) = 32"
  unfolding HashFromByteSlices_def by (rule hash_lengths(2)) (rule assms)

lemma ValidatorSet_Hash_length:
  "(\<And>x. length (sha x) = 32) \<Longrightarrow> ValidateHash (ValidatorSet_Hash sha v)"
  using root_length [of sha] by (simp add: ValidatorSet_Hash_def ValidateHash_def split: option.split)

lemma params_hash_length:
  "(\<And>x. length (sl_sha sl x) = 32) \<Longrightarrow> params_hash sl p = Ret h \<Longrightarrow> ValidateHash h"
  by (auto simp: params_hash_def HashConsensusParams_def ValidateHash_def split: option.splits)

text \<open>The state changes depend on the source of the round parameters only through the initial chain.\<close>

lemma NewCurrentRoundState_again:
  assumes "NewCurrentRoundState sl p rp s = Ret (Inr c)" and "rp_Source rp = PrepareProposalSource"
    and "rp' = rp\<lparr>rp_Source := ProcessProposalSource, rp_CoreChainLock := crs_CoreChainLock c\<rparr>"
  shows "NewCurrentRoundState sl p' rp' s = Ret (Inr (c\<lparr>crs_ProTxHash := p', crs_Params := rp'\<rparr>))"
proof -
  let ?c0 = "\<lambda>p rp. \<lparr>crs_Base = s, crs_Round = rp_Round rp, crs_ProTxHash = p, crs_AppHash = rp_AppHash rp,
        crs_TxResults = [], crs_ResultsHash = [], crs_CoreChainLock = None, NextConsensusParams = zero_params,
        crs_LastHeightConsensusParamsChanged = 0, NextValidators = None, crs_LastHeightValidatorsChanged = 0,
        crs_Params = rp\<rparr>"
  let ?f = "\<lambda>c. c\<lparr>crs_ProTxHash := p', crs_Params := rp'\<rparr>"
  have tx: "populateTxResults sl (?c0 p' rp') = map_sum id ?f (populateTxResults sl (?c0 p rp))"
    by (cases "TxResultsHash sl (rp_TxResults rp)") (simp_all add: populateTxResults_def assms(3))
  have cp: "crs_Params c1 = rp \<Longrightarrow> populateConsensusParams (?f c1) = map_sum id ?f (populateConsensusParams c1)" for c1
    by (simp add: populateConsensusParams_def Let_def assms(3) crs_GetHeight_def split: sum.split)
  have vs: "crs_Params c1 = rp \<Longrightarrow> populateValsetUpdates sl c1 = Ret (Inr c2) \<Longrightarrow> populateValsetUpdates sl (?f c1) = Ret (Inr (?f c2))" for c1 c2
    by (auto simp: populateValsetUpdates_def Let_def try_bind_Inr_iff assms(2,3) crs_GetHeight_def)
  obtain c1 where c1: "populateTxResults sl (?c0 p rp) = Inr c1" and p1: "crs_Params c1 = rp"
    and r1: "(case populateConsensusParams c1 of Inl e \<Rightarrow> Ret (Inl e)
        | Inr c \<Rightarrow> try_bind (populateValsetUpdates sl c) (\<lambda>c. Ret (Inr (populateChainlock c)))) = Ret (Inr c)"
    using assms(1) by (auto simp: NewCurrentRoundState_def crs_populate_def populateTxResults_def res_bind_Inr_iff
        split: sum.splits)
  obtain c2 where c2: "populateConsensusParams c1 = Inr c2"
    using r1 by (auto split: sum.splits)
  have p2: "crs_Params c2 = rp" using c2 p1 by (auto simp: populateConsensusParams_def Let_def split: if_splits sum.splits)
  obtain c3 where c3: "populateValsetUpdates sl c2 = Ret (Inr c3)" and c: "c = populateChainlock c3"
    using r1 c2 by (auto simp: try_bind_Inr_iff)
  have p3: "crs_Params c3 = rp" using c3 p2 by (auto simp: populateValsetUpdates_def Let_def try_bind_Inr_iff)
  have lock: "populateChainlock (?f c3) = ?f c"
    using c p3 by (auto simp: populateChainlock_def Let_def assms(3) split: option.splits)
  show ?thesis
    using tx c1 cp [OF p1] c2 vs [OF p2 c3] lock
    by (simp add: NewCurrentRoundState_def crs_populate_def)
qed

text \<open>The header of a block as its proposer leaves it.\<close>

definition proposed_header ::
  "sm_lib \<Rightarrow> smState \<Rightarrow> CurrentRoundState \<Rightarrow> Commit \<Rightarrow> Block \<Rightarrow> int \<Rightarrow> int \<Rightarrow> bytes \<Rightarrow> nat \<Rightarrow> nat \<Rightarrow> bytes \<Rightarrow> bytes \<Rightarrow> Header" where
  "proposed_header sl s changes c block height now proposer ver appver hash nhash =
     \<lparr>hdr_Version = (st_Version s)\<lparr>ver_App := appver\<rparr>, hdr_ChainID = st_ChainID s, hdr_Height = height,
      hdr_CoreChainLockedHeight = (case crs_CoreChainLock changes of Some l \<Rightarrow> CoreBlockHeight l
         | None \<Rightarrow> LastCoreChainLockedBlockHeight (crs_Base changes)),
      hdr_Time = makeBlockTime now s height, LastBlockID = st_LastBlockID s,
      LastCommitHash = Some (Commit_Hash (sl_block sl) (Some c)), DataHash = Some (Data_Hash (sl_block sl) (block_Txs block)),
      hdr_ValidatorsHash = ValidatorSet_Hash (sl_sha sl) (st_Validators s),
      NextValidatorsHash = ValidatorSet_Hash (sl_sha sl) (NextValidators changes), ConsensusHash = hash,
      NextConsensusHash = nhash, AppHash = crs_AppHash changes, ResultsHash = crs_ResultsHash changes,
      EvidenceHash = Some (EvidenceList_Hash (sl_block sl) (block_Evidence block)),
      hdr_ProposerProTxHash = proposer, ProposedAppVersion = ver\<rparr>"

lemma ValidateBlockWithRoundState_ok:
  assumes "validateBlock sl s block lc = Ret (Inr ())" and "round_state_checks sl s changes block lc = Ret (Inr ())"
    and "CheckEvidence env (block_Evidence block)"
  shows "\<exists>be2. ValidateBlockWithRoundState sl env s changes block lc be = Ret (be2, Inr ())"
  using assms by (simp add: ValidateBlockWithRoundState_def ValidateBlock_def Let_def)

lemma UpdateBlock_made:
  assumes "State_MakeBlock sl now s height txs (Some c) ev proposer ver = Ret b0"
    and "b1 = SetTxs (sl_block sl) itxs b0"
    and "UpdateBlock sl changes (b1\<lparr>block_Header := (block_Header b1)\<lparr>hdr_Version :=
           (hdr_Version (block_Header b1))\<lparr>ver_App := appver\<rparr>\<rparr>\<rparr>) = Ret (Inr block)"
  obtains hash nhash where "params_hash sl (st_ConsensusParams s) = Ret hash"
    "params_hash sl (NextConsensusParams changes) = Ret nhash"
    "block_Txs block = itxs" "block_CoreChainLock block = crs_CoreChainLock changes" "block_Evidence block = ev"
    "LastCommit block = Some c"
    "block_Header block = proposed_header sl s changes c block height now proposer ver appver hash nhash"
  using assms
  by (auto simp: UpdateBlock_def State_MakeBlock_def MakeBlock_def SetTxs_def fillHeader_def empty_Header_def Populate_def
      proposed_header_def Let_def run_iffs)

lemma CreateProposalBlock_shape:
  assumes "CreateProposalBlock sl env p height round s (Some c) proposer ver be = Ret (be', Inr (block, changes))"
  obtains appver rp hash nhash where "NewCurrentRoundState sl p rp s = Ret (Inr changes)" "rp_Source rp = PrepareProposalSource"
    "rp_Round rp = round" "length (rp_AppHash rp) = 32" "length (rp_TxResults rp) = length (block_Txs block)"
    "\<forall>l. rp_CoreChainLock rp = Some l \<longrightarrow> ccl_ValidateBasic l"
    "params_hash sl (st_ConsensusParams s) = Ret hash" "params_hash sl (NextConsensusParams changes) = Ret nhash"
    "st_Validators s \<noteq> None"
    "block_CoreChainLock block = crs_CoreChainLock changes"
    "block_Evidence block = fst (PendingEvidence env (ep_MaxBytes (cp_Evidence (st_ConsensusParams s))))" "LastCommit block = Some c"
    "block_Header block = proposed_header sl s changes c block height (ee_now env) proposer ver appver hash nhash"
proof -
  let ?ev = "fst (PendingEvidence env (ep_MaxBytes (cp_Evidence (st_ConsensusParams s))))"
  let ?b1 = "\<lambda>b0 resp. SetTxs (sl_block sl) (included (NewTxRecordSet (pp_TxRecords resp))) b0"
  obtain b0 txs resp rp where b0: "State_MakeBlock sl (ee_now env) s height txs (Some c) ?ev proposer ver = Ret b0"
    and r: "ResponsePrepareProposal_Validate resp"
      "validateExecTxResults (pp_TxResults resp) (included (NewTxRecordSet (pp_TxRecords resp)))"
      "RoundParamsFromPrepareProposal resp round = Inr rp" "NewCurrentRoundState sl p rp s = Ret (Inr changes)"
    and upd: "UpdateBlock sl changes ((?b1 b0 resp)\<lparr>block_Header := (block_Header (?b1 b0 resp))\<lparr>hdr_Version :=
           (hdr_Version (block_Header (?b1 b0 resp)))\<lparr>ver_App := pp_AppVersion resp\<rparr>\<rparr>\<rparr>) = Ret (Inr block)"
    and vals: "st_Validators s \<noteq> None"
    using assms
    by (auto simp: CreateProposalBlock_def Let_def split_beta state_quorum_hash_def ResponsePrepareProposal_Validate_def
        call_iffs split: option.splits)
  have rp: "rp_Source rp = PrepareProposalSource" "rp_Round rp = round" "rp_AppHash rp = pp_AppHash resp"
    "rp_TxResults rp = pp_TxResults resp" "\<forall>l. rp_CoreChainLock rp = Some l \<longrightarrow> ccl_ValidateBasic l"
    using r(3) by (auto simp: RoundParamsFromPrepareProposal_def CoreChainLockFromProto_def Let_def guard_Inr_iff split: option.splits)
  show ?thesis
    by (rule UpdateBlock_made [OF b0 refl upd], rule that [OF r(4) rp(1,2) _ _ rp(5)])
      (use r(1,2) rp vals in \<open>simp_all add: ResponsePrepareProposal_Validate_def isValidApphash_def validateExecTxResults_def\<close>)
qed

text \<open>What the state and the proposer have to provide for the block of a height to be acceptable.\<close>

definition proposable :: "sm_lib \<Rightarrow> smState \<Rightarrow> int \<Rightarrow> int \<Rightarrow> Commit \<Rightarrow> bytes \<Rightarrow> DuplicateVoteEvidence list \<Rightarrow> bool" where
  "proposable sl s height now c proposer evidence \<longleftrightarrow>
     ver_Block (st_Version s) = BlockProtocol \<and> length (st_ChainID s) \<le> MaxChainIDLen \<and> BlockID_ValidateBasic (st_LastBlockID s)
     \<and> 0 < height \<and> 0 \<le> LastBlockHeight s \<and> InitialHeight s \<le> height
     \<and> height = (if LastBlockHeight s = 0 then InitialHeight s else LastBlockHeight s + 1) \<and> in_int64 height
     \<and> length proposer = DefaultHashSize \<and> HasProTxHash (st_Validators s) proposer
     \<and> (InitialHeight s < height \<longrightarrow> LastBlockTime s < now)
     \<and> list_all (\<lambda>e. dve_ValidateBasic (Some e)) evidence
     \<and> EvidenceList_ByteSize sl evidence \<le> ep_MaxBytes (cp_Evidence (st_ConsensusParams s))
     \<and> Commit_ValidateBasic c = Inr ()
     \<and> (if height = InitialHeight s then ThresholdBlockSignature c = []
        else \<exists>vals. st_LastValidators s = Some vals
               \<and> VerifyCommit (sl_crypto sl) vals (st_ChainID s) (st_LastBlockID s) (height - 1) c = Ret (Inr ()))"

lemma verifyLastCommit_ok:
  assumes "st_LastValidators s = Some vals" and "LastCommit b = Some c" and "in_int64 (hdr_Height (block_Header b) - 1)"
    and "VerifyCommit (sl_crypto sl) vals (st_ChainID s) (st_LastBlockID s) (hdr_Height (block_Header b) - 1) c = Ret (Inr ())"
  shows "verifyLastCommit sl s b None = Ret (Inr ())"
  using assms by (simp add: verifyLastCommit_def VerifyCommitUnlessVerified_def proof_checkMatches_def)

lemma proposed_block_valid:
  assumes "proposable sl s height now c proposer (block_Evidence b)" and "\<And>x. length (sl_sha sl x) = 32"
    and "block_Header b = proposed_header sl s changes c b height now proposer ver appver hash nhash"
    and "block_CoreChainLock b = crs_CoreChainLock changes" and "LastCommit b = Some c"
    and "\<And>l. crs_CoreChainLock changes = Some l \<Longrightarrow> ccl_ValidateBasic l"
    and "params_hash sl (st_ConsensusParams s) = Ret hash" and "params_hash sl (NextConsensusParams changes) = Ret nhash"
    and "length (crs_ResultsHash changes) = 32"
  shows "validateBlock sl s b None = Ret (Inr ())"
proof -
  have hashes: "length (Commit_Hash (sl_block sl) (Some c)) = 32" "length (Data_Hash (sl_block sl) (block_Txs b)) = 32"
    "length (EvidenceList_Hash (sl_block sl) (block_Evidence b)) = 32"
    using assms(2) root_length [of "sl_sha sl"]
    by (simp_all add: Commit_Hash_def Data_Hash_def Txs_Hash_def EvidenceList_Hash_def)
  have vh: "ValidateHash (ValidatorSet_Hash (sl_sha sl) v)" for v by (rule ValidatorSet_Hash_length) (rule assms(2))
  have ph: "ValidateHash hash" "ValidateHash nhash"
    using params_hash_length [OF _ assms(7)] params_hash_length [OF _ assms(8)] assms(2) by blast+
  note p = assms(1) [unfolded proposable_def]
  have hdr: "Header_ValidateBasic (block_Header b) = Inr ()"
    using p assms(9) hashes vh ph
    by (simp add: assms(3) proposed_header_def Header_ValidateBasic_def opt_bytes_def ValidateHash_def)
  have basic: "Block_ValidateBasic (sl_block sl) (Some b) = Inr ()"
    using p hdr assms(5,6) by (simp add: Block_ValidateBasic_def assms(3,4) proposed_header_def opt_bytes_def split: option.split)
  have tail: "validate_tail sl s b = Inr ()"
    using p by (auto simp: validate_tail_def Let_def assms(3) proposed_header_def makeBlockTime_def)
  have last: "validate_last sl s b None = Ret (Inr ())"
  proof (cases "height = InitialHeight s")
    case True
    then show ?thesis using p assms(5) by (simp add: validate_last_def assms(3) proposed_header_def)
  next
    case False
    then obtain vals where v: "st_LastValidators s = Some vals"
      "VerifyCommit (sl_crypto sl) vals (st_ChainID s) (st_LastBlockID s) (height - 1) c = Ret (Inr ())" using p by auto
    have "in_int64 (height - 1)" using p by (auto simp: in_int64_def)
    then show ?thesis
      using False v assms(5) verifyLastCommit_ok [of s vals b c sl] by (simp add: validate_last_def assms(3) proposed_header_def)
  qed
  have "wrap64 (LastBlockHeight s + 1) = height" if "LastBlockHeight s \<noteq> 0"
    using p that wrap64_id [of height] by (auto split: if_splits)
  then show ?thesis
    using p basic tail last assms(6,7)
    by (auto simp: validateBlock_def Let_def assms(3,4) proposed_header_def Equals_iff split: option.split)
qed

lemma ProcessProposal_verified:
  assumes "\<And>rq. rq_Txs rq = block_Txs block \<Longrightarrow> app_ProcessProposal env rq = Some resp"
    and "rs_Status resp = StatusAccept" and "isValidApphash (rs_AppHash resp)"
    and "validateExecTxResults (rs_TxResults resp) (block_Txs block)"
    and "NewCurrentRoundState sl p (RoundParamsFromProcessProposal resp (block_CoreChainLock block) round) s = Ret (Inr ch)"
    and "st_Validators s \<noteq> None" and "LastCommit block = Some c"
    and "\<And>be0. \<exists>be2. ValidateBlockWithRoundState sl env s ch block lc be0 = Ret (be2, Inr ())"
  shows "\<exists>be2. ProcessProposal sl env p block round s True lc be = Ret (be2, Inr ch)"
proof -
  obtain info where info: "buildLastCommitInfo block (InitialHeight s) = Ret info"
    by (cases "hdr_Height (block_Header block) = InitialHeight s") (auto simp: buildLastCommitInfo_def assms(7))
  obtain q where q: "state_quorum_hash s = Ret q" using assms(6) by (auto simp: state_quorum_hash_def)
  have "\<exists>be0. ProcessProposal sl env p block round s True lc be
      = exec_bind (ValidateBlockWithRoundState sl env s ch block lc be0) (\<lambda>(be, r).
          Ret (be, case r of Inl e \<Rightarrow> Inl (ErrInvalidBlock e) | Inr _ \<Rightarrow> Inr ch))"
    unfolding ProcessProposal_def using assms(2-5) by (simp add: Let_def info q assms(1)) blast
  then obtain be0 where p: "ProcessProposal sl env p block round s True lc be
      = exec_bind (ValidateBlockWithRoundState sl env s ch block lc be0) (\<lambda>(be, r).
          Ret (be, case r of Inl e \<Rightarrow> Inl (ErrInvalidBlock e) | Inr _ \<Rightarrow> Inr ch))" by blast
  obtain be2 where "ValidateBlockWithRoundState sl env s ch block lc be0 = Ret (be2, Inr ())"
    using assms(8) by blast
  then show ?thesis by (simp add: p)
qed

text \<open>
  C15: A block that a proposer creates is accepted by a validator in the same state whose application gives
  the results that the proposer's application gave, if the state and the last commit are those of the
  height. The validator derives the same next validators, parameters and core chain lock as the proposer.
  The applications are arbitrary otherwise.\<close>

theorem proposal_accepted:
  assumes "\<And>x. length (sl_sha sl x) = 32" and "valid_state sl s"
    and "CreateProposalBlock sl env p height round s (Some c) proposer ver be = Ret (be', Inr (block, changes))"
    and "proposable sl s height (ee_now env) c proposer (block_Evidence block)"
    and "CheckEvidence env' (block_Evidence block)"
    and "\<And>rq. rq_Txs rq = block_Txs block \<Longrightarrow> app_ProcessProposal env' rq = Some (ToProcessProposal (crs_Params changes))"
  shows "\<exists>be2 rp. ProcessProposal sl env' p' block round s True None be1
           = Ret (be2, Inr (changes\<lparr>crs_ProTxHash := p', crs_Params := rp\<rparr>))"
proof -
  obtain appver rp hash nhash where new: "NewCurrentRoundState sl p rp s = Ret (Inr changes)" "rp_Source rp = PrepareProposalSource"
      "rp_Round rp = round"
    and len: "length (rp_AppHash rp) = 32" "length (rp_TxResults rp) = length (block_Txs block)"
      "\<forall>l. rp_CoreChainLock rp = Some l \<longrightarrow> ccl_ValidateBasic l"
    and hash: "params_hash sl (st_ConsensusParams s) = Ret hash" "params_hash sl (NextConsensusParams changes) = Ret nhash"
    and vals: "st_Validators s \<noteq> None" and lock: "block_CoreChainLock block = crs_CoreChainLock changes"
    and "block_Evidence block = fst (PendingEvidence env (ep_MaxBytes (cp_Evidence (st_ConsensusParams s))))"
    and last: "LastCommit block = Some c"
    and hdr: "block_Header block = proposed_header sl s changes c block height (ee_now env) proposer ver appver hash nhash"
    by (rule CreateProposalBlock_shape [OF assms(3)])
  note p = assms(4) [unfolded proposable_def]
  have "ValidateConsensusParams (st_ConsensusParams s) = Inr ()" using assms(2) by (simp add: valid_state_def)
  note ch = NewCurrentRoundState_sound [OF new(1) this]
  obtain rs where "HashFromByteSlices (sl_sha sl) rs = crs_ResultsHash changes"
    using ch(5) by (auto simp: TxResultsHash_def res_bind_Inr_iff)
  then have res: "length (crs_ResultsHash changes) = 32"
    using root_length [of "sl_sha sl" rs, OF assms(1)] by simp
  have ccl: "ccl_ValidateBasic l" if "crs_CoreChainLock changes = Some l" for l
    using that ch(8) len(3) by (auto split: option.splits if_splits)
  have valid: "validateBlock sl s block None = Ret (Inr ())"
    by (rule proposed_block_valid [OF assms(4,1) hdr lock last ccl hash res])
  let ?rp = "RoundParamsFromProcessProposal (ToProcessProposal (crs_Params changes)) (block_CoreChainLock block) round"
  let ?ch = "changes\<lparr>crs_ProTxHash := p', crs_Params := ?rp\<rparr>"
  have "?rp = rp\<lparr>rp_Source := ProcessProposalSource, rp_CoreChainLock := crs_CoreChainLock changes\<rparr>"
    using new(3) by (simp add: RoundParamsFromProcessProposal_def ToProcessProposal_def ch(4) lock)
  note again = NewCurrentRoundState_again [OF new(1,2) this, of p']
  have core: "validateCoreChainLock block s = Inr ()"
    using ch(8) by (auto simp: validateCoreChainLock_def hdr proposed_header_def lock ch(1) split: option.splits if_splits)
  have vl: "verifyLastCommit sl s block None = Ret (Inr ())" if "InitialHeight s < height"
    using validateBlock_sound(8) [OF valid] that by (simp add: validate_last_def hdr proposed_header_def)
  have checks: "round_state_checks sl s ?ch block None = Ret (Inr ())"
    using vl core hash(2) by (simp add: round_state_checks_def Let_def) (simp add: hdr proposed_header_def)
  have val2: "\<exists>be2. ValidateBlockWithRoundState sl env' s ?ch block None be0 = Ret (be2, Inr ())" for be0
    by (rule ValidateBlockWithRoundState_ok [OF valid checks assms(5)])
  have resp: "rs_Status (ToProcessProposal (crs_Params changes)) = StatusAccept"
    "isValidApphash (rs_AppHash (ToProcessProposal (crs_Params changes)))"
    "validateExecTxResults (rs_TxResults (ToProcessProposal (crs_Params changes))) (block_Txs block)"
    using len by (simp_all add: ToProcessProposal_def isValidApphash_def validateExecTxResults_def ch(4))
  show ?thesis
    using ProcessProposal_verified [OF assms(6) resp again vals last val2] by blast
qed
definition ex_sl :: sm_lib where
  "ex_sl = \<lparr>sl_block = \<lparr>bl_sha = (\<lambda>_. replicate 32 7), enc_version = (\<lambda>_. [1]), enc_time = (\<lambda>_. Some [2]),
       enc_blockid = (\<lambda>_. [3]), enc_string = (\<lambda>_. [4]), enc_int64 = (\<lambda>_. [5]), enc_uint64 = (\<lambda>_. [6]),
       enc_bytes = (\<lambda>_. [7]), enc_stateid = (\<lambda>_. [8]), enc_evidence = (\<lambda>_. [9]), enc_block = (\<lambda>_. Some [10])\<rparr>,
     sl_crypto = ex_lib, enc_hashed = (\<lambda>_. Some [1]), enc_txresult = (\<lambda>_. Some [1]), PubKeyFromProto = (\<lambda>k. Some (key_Bytes k)),
     key_Validate = (\<lambda>_. True), address_ok = (\<lambda>_. True), key_recover = (\<lambda>_ _. None), llmq_valid = (\<lambda>_. True),
     evidence_size = (\<lambda>_. 0)\<rparr>"

definition ex_state :: smState where
  "ex_state = \<lparr>st_Version = \<lparr>ver_Block = 14, ver_App = 1\<rparr>, st_ChainID = ''c'', InitialHeight = 1, LastBlockHeight = 0,
     LastBlockRound = 0, st_LastBlockID = nil_BlockID, LastBlockTime = 1000, LastCoreChainLockedBlockHeight = 5,
     st_Validators = Some (mk_set [mk_val 1 100, mk_val 2 100] 0), st_LastValidators = None,
     LastHeightValidatorsChanged = 1, st_ConsensusParams = DefaultConsensusParams,
     LastHeightConsensusParamsChanged = 1, LastResultsHash = [], LastAppHash = []\<rparr>"

definition ex_env :: execEnv where
  "ex_env = \<lparr>ee_now = 2000, PendingEvidence = (\<lambda>_. ([], 0)), CheckEvidence = (\<lambda>_. True), ReapMaxBytesMaxGas = (\<lambda>_ _. [[1]]),
     FlushAppConn = True, mempool_Update = True,
     app_PrepareProposal = (\<lambda>_. Some \<lparr>pp_TxRecords = [(Some TxRecord_UNMODIFIED, [1]), (Some TxRecord_ADDED, [2])],
       pp_AppHash = replicate 32 1, pp_TxResults = [\<lparr>tr_Code = 0, tr_Data = [], tr_Log = [], tr_GasUsed = 0\<rparr>,
         \<lparr>tr_Code = 0, tr_Data = [], tr_Log = [], tr_GasUsed = 0\<rparr>], pp_ConsensusParamUpdates = None,
       pp_ValidatorSetUpdate = None,
       pp_CoreChainLockUpdate = Some \<lparr>CoreBlockHeight = 6, CoreBlockHash = replicate 32 2, ccl_Signature = replicate 96 3\<rparr>,
       pp_AppVersion = 1\<rparr>),
     app_ProcessProposal = (\<lambda>_. Some \<lparr>rs_Status = StatusAccept, rs_AppHash = replicate 32 1,
       rs_TxResults = [\<lparr>tr_Code = 0, tr_Data = [], tr_Log = [], tr_GasUsed = 0\<rparr>,
         \<lparr>tr_Code = 0, tr_Data = [], tr_Log = [], tr_GasUsed = 0\<rparr>],
       rs_ConsensusParamUpdates = None, rs_ValidatorSetUpdate = None\<rparr>),
     app_FinalizeBlock = (\<lambda>_. Some \<lparr>RetainHeight = 0, fb_ProposeNextBlockImmediately = False\<rparr>),
     app_ExtendVote = (\<lambda>_. Some []), app_VerifyVoteExtension = (\<lambda>_. Some True),
     store_SaveABCIResponses = True, store_Save = True, store_PruneBlocks = True, blockStore_Base = 0, commit_size = (\<lambda>_. 260)\<rparr>"

definition ex_be :: BlockExecutor where "ex_be = \<lparr>be_cache = [], be_log = []\<rparr>"

definition ex_made :: "Block \<times> CurrentRoundState" where
  "ex_made = (case CreateProposalBlock ex_sl ex_env [] 1 0 ex_state (Some ex_commit) (ProTxHash (mk_val 1 100)) 1 ex_be of
     Ret (be, Inr r) \<Rightarrow> r | _ \<Rightarrow> undefined)"

lemma ex_state_valid: "valid_state ex_sl ex_state"
  unfolding valid_state_def valid_set_def by (intro conjI exI [of _ "mk_set [mk_val 1 100, mk_val 2 100] 0"]; code_simp)

lemma ex_sl_sha: "length (sl_sha ex_sl x) = 32"
  by (simp add: ex_sl_def)

lemma ex_made_created:
  "\<exists>be. CreateProposalBlock ex_sl ex_env [] 1 0 ex_state (Some ex_commit) (ProTxHash (mk_val 1 100)) 1 ex_be = Ret (be, Inr ex_made)"
proof -
  have "(case CreateProposalBlock ex_sl ex_env [] 1 0 ex_state (Some ex_commit) (ProTxHash (mk_val 1 100)) 1 ex_be of
      Ret (be, Inr r) \<Rightarrow> True | _ \<Rightarrow> False)" by code_simp
  then show ?thesis by (auto simp: ex_made_def split: exec.splits sum.splits)
qed

theorem proposal_accepted_witness:
  "\<exists>be2 rp. ProcessProposal ex_sl ex_env [9] (fst ex_made) 0 ex_state True None ex_be
     = Ret (be2, Inr ((snd ex_made)\<lparr>crs_ProTxHash := [9], crs_Params := rp\<rparr>))"
proof -
  obtain be where m: "CreateProposalBlock ex_sl ex_env [] 1 0 ex_state (Some ex_commit) (ProTxHash (mk_val 1 100)) 1 ex_be
      = Ret (be, Inr (fst ex_made, snd ex_made))" using ex_made_created by auto
  have p: "proposable ex_sl ex_state 1 (ee_now ex_env) ex_commit (ProTxHash (mk_val 1 100)) (block_Evidence (fst ex_made))"
    unfolding proposable_def by (simp add: ex_state_def) code_simp
  have c: "CheckEvidence ex_env (block_Evidence (fst ex_made))" by (simp add: ex_env_def)
  have a: "app_ProcessProposal ex_env rq = Some (ToProcessProposal (crs_Params (snd ex_made)))" for rq
  proof -
    have "ToProcessProposal (crs_Params (snd ex_made)) = \<lparr>rs_Status = StatusAccept, rs_AppHash = replicate 32 1,
       rs_TxResults = [\<lparr>tr_Code = 0, tr_Data = [], tr_Log = [], tr_GasUsed = 0\<rparr>,
         \<lparr>tr_Code = 0, tr_Data = [], tr_Log = [], tr_GasUsed = 0\<rparr>],
       rs_ConsensusParamUpdates = None, rs_ValidatorSetUpdate = None\<rparr>" by code_simp
    then show ?thesis by (simp add: ex_env_def)
  qed
  show ?thesis by (rule proposal_accepted [OF ex_sl_sha ex_state_valid m p c a])
qed


lemma Block_BlockID_returns:
  assumes "enc_block bl (fillHeader bl b) = Some data" and "data \<noteq> []" and "length data + BlockPartSizeBytes \<le> 4294967296"
  shows "\<exists>bid. Block_BlockID bl (Some b) None = Ret bid"
  using NewPartSetFromData_spec [OF _ assms(2,3), of "bl_sha bl"] assms(1)
  by (auto simp: Block_BlockID_def MakePartSet_def Let_def)

theorem applied_states_valid_witness:
  "\<exists>s be. applied ex_sl ex_state ex_be [(ex_bid 1, fst ex_made)] s be \<and> valid_state ex_sl s
     \<and> commits_to ex_sl (ex_bid 1, fst ex_made) s"
proof -
  let ?b = "fst ex_made"
  have "(case ProcessProposal ex_sl ex_env [] ?b 0 ex_state False None ex_be of
      Ret (be, Inr u) \<Rightarrow> round_state_checks ex_sl ex_state u ?b None = Ret (Inr ()) | _ \<Rightarrow> False)" by code_simp
  then obtain be1 u where u: "ProcessProposal ex_sl ex_env [] ?b 0 ex_state False None ex_be = Ret (be1, Inr u)"
    and chk: "round_state_checks ex_sl ex_state u ?b None = Ret (Inr ())" by (auto simp: not_Inl_iff split: exec.splits sum.splits)
  obtain be2 where v: "VerifyCommitExtensions ex_env ex_commit be1 = Ret (be2, Inr ())"
    by (simp add: VerifyCommitExtensions_def VerifyVoteExtension_def GetCanonicalVote_def ex_commit_def ex_env_def Let_def)
  have "validateBlock ex_sl ex_state ?b None = Ret (Inr ())" by code_simp
  then obtain be3 where val: "ValidateBlockWithRoundState ex_sl ex_env ex_state u ?b None be2 = Ret (be3, Inr ())"
    using ValidateBlockWithRoundState_ok [OF _ chk, of ex_env be2] by (auto simp: ex_env_def)
  obtain bid where "Block_BlockID (sl_block ex_sl) (Some ?b) None = Ret bid"
    using Block_BlockID_returns [of "sl_block ex_sl" ?b "[10]"] by (auto simp: ex_sl_def)
  then have "\<exists>s' be' r. FinalizeBlock ex_sl ex_env ex_state u (ex_bid 1) ?b ex_commit None be2 = Ret (be', Inr (s', r))"
    using val by (simp add: FinalizeBlock_def execBlock_def flushMempool_def ex_env_def Let_def)
  then obtain s' be' where "ApplyBlock ex_sl ex_env [] ex_state (ex_bid 1) ?b ex_commit None ex_be = Ret (be', Inr s')"
    using u v by (auto simp: ApplyBlock_def ex_commit_def)
  from applied.apply_block [OF applied.start this]
  have a: "applied ex_sl ex_state ex_be [(ex_bid 1, ?b)] s' be'" by simp
  have "in_int64 (InitialHeight ex_state)" "0 \<le> LastBlockHeight ex_state" "be_cache ex_be = []"
    by (simp_all add: ex_state_def ex_be_def in_int64_def)
  from applied_states_valid [OF a ex_state_valid this(3,1,2)] a show ?thesis by auto
qed

end
