(* ===== verification/Round_State.thy ===== *)
theory Round_State
  imports Height_Votes Proposer_Select Execution
begin

text \<open>
  \<open>src/internal/consensus/types/round_state.go\<close> and \<open>src/internal/consensus/state_data.go\<close>: the state of
  one height of the consensus algorithm, and its methods.

  A step is its number in the source. A pointer that may be nil is an option; the methods that the source
  calls on a nil block, part set or vote set answer as they do there. The proposer selector and the vote
  sets are shared pointers in the source; only the consensus routine changes them, so their value is part
  of the round state. The selector of the source also moves the proposer index of the validator set it was
  made from. That index is read through the selector only, which a new height makes anew from the block
  store, so the set in the round state keeps the index it came with. A loop that does not end is \<open>Panic\<close>:
  the routine makes no further step. Logging and metrics are left out.
\<close>

section \<open>The round state\<close>

type_synonym RoundStepType = nat

abbreviation (input) RoundStepNewHeight :: RoundStepType where "RoundStepNewHeight \<equiv> 1"
abbreviation (input) RoundStepNewRound :: RoundStepType where "RoundStepNewRound \<equiv> 2"
abbreviation (input) RoundStepPropose :: RoundStepType where "RoundStepPropose \<equiv> 3"
abbreviation (input) RoundStepPrevote :: RoundStepType where "RoundStepPrevote \<equiv> 4"
abbreviation (input) RoundStepPrevoteWait :: RoundStepType where "RoundStepPrevoteWait \<equiv> 5"
abbreviation (input) RoundStepPrecommit :: RoundStepType where "RoundStepPrecommit \<equiv> 6"
abbreviation (input) RoundStepPrecommitWait :: RoundStepType where "RoundStepPrecommitWait \<equiv> 7"
abbreviation (input) RoundStepApplyCommit :: RoundStepType where "RoundStepApplyCommit \<equiv> 8"

definition step_IsValid :: "RoundStepType \<Rightarrow> bool" where
  "step_IsValid step \<longleftrightarrow> step \<ge> 1 \<and> step \<le> 8"

record RoundState =
  rs_Height :: int
  rs_Round :: int
  rs_Step :: RoundStepType
  rs_StartTime :: int
  rs_CommitTime :: int
  rs_Validators :: "ValidatorSet option"
  rs_Selector :: "ProposerSelector option"
  rs_Proposal :: "Proposal option"
  ProposalReceiveTime :: int
  ProposalBlock :: "Block option"
  ProposalBlockParts :: "PartSet option"
  LockedRound :: int
  LockedBlock :: "Block option"
  LockedBlockParts :: "PartSet option"
  rs_Commit :: "Commit option"
  ValidRound :: int
  ValidBlock :: "Block option"
  ValidBlockRecvTime :: int
  ValidBlockParts :: "PartSet option"
  rs_Votes :: "HeightVoteSet option"
  CommitRound :: int
  rs_LastCommit :: "Commit option"
  rs_LastValidators :: "ValidatorSet option"
  TriggeredTimeoutPrecommit :: bool
  ProposeNextBlockImmediately :: bool
  ProcessedBlockID :: BlockID
  rs_Current :: CurrentRoundState

text \<open>The zero \<open>time.Time\<close>, in nanoseconds since 1970.\<close>

definition zero_time :: int where
  "zero_time = - 62135596800000000000"

record StateData =
  rs :: RoundState
  sd_state :: smState
  sd_version :: int
  replayMode :: bool

record consensus_config =
  UnsafeProposeTimeoutOverride :: int
  UnsafeProposeTimeoutDeltaOverride :: int
  UnsafeVoteTimeoutOverride :: int
  UnsafeVoteTimeoutDeltaOverride :: int
  WaitForTxs :: bool
  CreateEmptyBlocksInterval :: int
  DontAutoPropose :: bool

datatype prevote_error =
    ErrPrevoteProposalBlockNil | ErrPrevoteProposalNil | ErrPrevoteTimestampNotEqual
  | ErrPrevoteProposalNotTimely | ErrPrevoteInvalidChainLock | ErrPrevoteGetProposer | ErrPrevoteProposer

datatype ready_error =
    ErrReadyBasic commit_error | ErrReadyVerify commit_error | ErrReadyRetained

section \<open>The proposer selector\<close>

definition halts :: "'a exec option \<Rightarrow> 'a exec" where
  "halts m = (case m of None \<Rightarrow> Panic | Some x \<Rightarrow> x)"

definition set_hash :: "sm_lib \<Rightarrow> ValidatorSet \<Rightarrow> bytes" where
  "set_hash sl v = ValidatorSet_Hash (sl_sha sl) (Some v)"

definition sel_UpdateHeightRound :: "sm_lib \<Rightarrow> int \<Rightarrow> int \<Rightarrow> ProposerSelector \<Rightarrow> (sel_error + ProposerSelector) exec" where
  "sel_UpdateHeightRound sl height round sel =
     halts (case sel of
       ByHeight s \<Rightarrow> run_bind (hp_UpdateHeightRound (set_hash sl) height round s) (\<lambda>s. run_ok (ByHeight s))
     | ByHeightRound s \<Rightarrow>
         run_bind (hrp_UpdateHeightRound (set_hash sl) height round s) (\<lambda>s. run_ok (ByHeightRound s)))"

definition sel_GetProposer ::
  "sm_lib \<Rightarrow> int \<Rightarrow> int \<Rightarrow> ProposerSelector \<Rightarrow> (sel_error + ProposerSelector \<times> Validator option) exec" where
  "sel_GetProposer sl height round sel =
     halts (case sel of
       ByHeight s \<Rightarrow> run_bind (hp_GetProposer (set_hash sl) height round s) (\<lambda>(s, p). run_ok (ByHeight s, p))
     | ByHeightRound s \<Rightarrow>
         run_bind (hrp_GetProposer (set_hash sl) height round s) (\<lambda>(s, p). run_ok (ByHeightRound s, p)))"

text \<open>The call on the selector of the round state, which it may move.\<close>

definition GetProposer :: "sm_lib \<Rightarrow> 'a StateData_scheme \<Rightarrow> ('a StateData_scheme \<times> (sel_error + Validator option)) exec" where
  "GetProposer sl s =
     (case rs_Selector (rs s) of
        None \<Rightarrow> Panic
      | Some sel \<Rightarrow>
          exec_bind (sel_GetProposer sl (rs_Height (rs s)) (rs_Round (rs s)) sel) (\<lambda>r. case r of
            Inl e \<Rightarrow> Ret (s, Inl e)
          | Inr (sel, p) \<Rightarrow> Ret (s\<lparr>rs := (rs s)\<lparr>rs_Selector := Some sel\<rparr>\<rparr>, Inr p)))"

section \<open>Methods of the state data\<close>

abbreviation upd_rs :: "(RoundState \<Rightarrow> RoundState) \<Rightarrow> 'a StateData_scheme \<Rightarrow> 'a StateData_scheme" where
  "upd_rs f s \<equiv> s\<lparr>rs := f (rs s)\<rparr>"

definition isProposer :: "sm_lib \<Rightarrow> bytes option \<Rightarrow> 'a StateData_scheme \<Rightarrow> ('a StateData_scheme \<times> bool) exec" where
  "isProposer sl proTxHash s =
     exec_bind (GetProposer sl s) (\<lambda>(s, r). case r of
       Inl _ \<Rightarrow> Ret (s, False)
     | Inr prop' \<Rightarrow>
         (case proTxHash of
            None \<Rightarrow> Ret (s, False)
          | Some h \<Rightarrow> (case prop' of None \<Rightarrow> Panic | Some p \<Rightarrow> Ret (s, ProTxHash p = h))))"

definition isValidator :: "bytes \<Rightarrow> 'a StateData_scheme \<Rightarrow> bool" where
  "isValidator proTxHash s = HasProTxHash (st_Validators (sd_state s)) proTxHash"

text \<open>The prevotes of a proposal with a POL round are asked of the vote sets, which exist with the height.\<close>

definition votes_of :: "RoundState \<Rightarrow> HeightVoteSet exec" where
  "votes_of r = (case rs_Votes r of None \<Rightarrow> Panic | Some v \<Rightarrow> Ret v)"

definition isProposalComplete :: "'a StateData_scheme \<Rightarrow> bool exec" where
  "isProposalComplete s =
     (case (rs_Proposal (rs s), ProposalBlock (rs s)) of
        (Some p, Some _) \<Rightarrow>
          if POLRound p < 0 then Ret True
          else exec_bind (votes_of (rs s)) (\<lambda>v. Ret (HasTwoThirdsMajority (hvs_Prevotes v (POLRound p))))
      | _ \<Rightarrow> Ret False)"

definition updateRoundStep :: "sm_lib \<Rightarrow> int \<Rightarrow> RoundStepType \<Rightarrow> 'a StateData_scheme \<Rightarrow> 'a StateData_scheme exec" where
  "updateRoundStep sl round step s =
     (let s = upd_rs (\<lambda>r. r\<lparr>rs_Round := round, rs_Step := step\<rparr>) s
      in case rs_Selector (rs s) of
           None \<Rightarrow> Panic
         | Some sel \<Rightarrow>
             exec_bind (sel_UpdateHeightRound sl (rs_Height (rs s)) round sel) (\<lambda>r. case r of
               Inl _ \<Rightarrow> Ret s
             | Inr sel \<Rightarrow> Ret (upd_rs (\<lambda>r. r\<lparr>rs_Selector := Some sel\<rparr>) s)))"

definition updateHeight :: "int \<Rightarrow> 'a StateData_scheme \<Rightarrow> 'a StateData_scheme" where
  "updateHeight height s = upd_rs (\<lambda>r. r\<lparr>rs_Height := height\<rparr>) s"

text \<open>The last commit that the next height starts with.\<close>

definition last_commit_for :: "smState \<Rightarrow> Commit option \<Rightarrow> RoundState \<Rightarrow> Commit option exec" where
  "last_commit_for state commit r =
     (if LastBlockHeight state = 0 then Ret None
      else case (rs_Votes r, commit) of
             (Some v, None) \<Rightarrow>
               if CommitRound r > - 1 then
                 if \<not> HasTwoThirdsMajority (hvs_Precommits v (CommitRound r)) then Panic
                 else (case hvs_Precommits v (CommitRound r) of
                         None \<Rightarrow> Panic
                       | Some precommits \<Rightarrow> exec_bind (MakeCommit precommits) (\<lambda>c. Ret (Some c)))
               else if rs_LastCommit r = None then Panic else Ret (rs_LastCommit r)
           | (_, Some c) \<Rightarrow> Ret (Some c)
           | (None, None) \<Rightarrow> if rs_LastCommit r = None then Panic else Ret (rs_LastCommit r))"

definition next_height :: "smState \<Rightarrow> int" where
  "next_height state =
     (let height = wrap64 (LastBlockHeight state + 1) in if height = 1 then InitialHeight state else height)"

definition updateToState ::
  "sm_lib \<Rightarrow> int \<Rightarrow> smState \<Rightarrow> Commit option \<Rightarrow> BlockStore option \<Rightarrow> 'a StateData_scheme
   \<Rightarrow> 'a StateData_scheme exec" where
  "updateToState sl now state commit blockStore s =
     (if CommitRound (rs s) > - 1 \<and> 0 < rs_Height (rs s) \<and> rs_Height (rs s) \<noteq> LastBlockHeight state then Panic
      else if \<not> State_IsEmpty (sd_state s) \<and> LastBlockHeight (sd_state s) > 0
              \<and> (wrap64 (LastBlockHeight (sd_state s) + 1) \<noteq> rs_Height (rs s)
                 \<or> rs_Height (rs s) = InitialHeight (sd_state s)) then Panic
      else if \<not> State_IsEmpty (sd_state s) \<and> LastBlockHeight state < LastBlockHeight (sd_state s) then Ret s
      else
        exec_bind (last_commit_for state commit (rs s)) (\<lambda>lastCommit.
        case st_Validators state of
          None \<Rightarrow> Panic
        | Some validators \<Rightarrow>
            let height = next_height state;
                changed = (case rs_Validators (rs s) of
                  None \<Rightarrow> True
                | Some old \<Rightarrow> opt_bytes (vs_QuorumHash old) \<noteq> opt_bytes (vs_QuorumHash validators)
                             \<or> VotingPowerThreshold old \<noteq> VotingPowerThreshold validators)
            in exec_bind (if changed then BelowStrictThreshold validators else Ret False) (\<lambda>_.
               exec_bind (halts (NewProposerSelector (set_hash sl) (ConsensusVersion (cp_Version (st_ConsensusParams state)))
                 validators height 0 blockStore)) (\<lambda>sel. case sel of
                 Inl _ \<Rightarrow> Panic
               | Inr sel \<Rightarrow>
                   exec_bind (NewHeightVoteSet (st_ChainID state) height validators) (\<lambda>votes.
                   let r = rs s;
                       r = r\<lparr>rs_LastCommit := lastCommit, rs_Validators := Some validators, rs_Selector := Some sel,
                         rs_StartTime := (if rs_CommitTime r = zero_time then now else rs_CommitTime r),
                         rs_Proposal := None, ProposalReceiveTime := zero_time, ProposalBlock := None,
                         ProposalBlockParts := None, LockedRound := - 1, LockedBlock := None, LockedBlockParts := None,
                         ValidRound := - 1, ValidBlock := None, ValidBlockParts := None, rs_Commit := None,
                         rs_Votes := Some votes, CommitRound := - 1, rs_LastValidators := st_LastValidators state,
                         TriggeredTimeoutPrecommit := False, ProposeNextBlockImmediately := False\<rparr>
                   in updateRoundStep sl 0 RoundStepNewHeight (updateHeight height (s\<lparr>rs := r, sd_state := state\<rparr>)))))))"

text \<open>The receive time of a proposal is compared with its timestamp; the initial block has the genesis time.\<close>

definition proposalIsTimely :: "'a StateData_scheme \<Rightarrow> (prevote_error + unit) exec" where
  "proposalIsTimely s =
     (case rs_Proposal (rs s) of
        None \<Rightarrow> Panic
      | Some p \<Rightarrow>
          if rs_Height (rs s) = InitialHeight (sd_state s)
          then Ret (if Timestamp p \<noteq> LastBlockTime (sd_state s) then Inl ErrPrevoteProposalNotTimely else Inr ())
          else exec_bind (CheckTimely p (ProposalReceiveTime (rs s))
                 (SynchronyParamsOrDefaults (cp_Synchrony (st_ConsensusParams (sd_state s)))) (rs_Round (rs s))) (\<lambda>c.
            if c = 0 then Ret (Inr ())
            else if c = - 1 \<or> c = 1 then Ret (Inl ErrPrevoteProposalNotTimely)
            else Panic))"

definition updateValidBlock :: "sm_lib \<Rightarrow> int \<Rightarrow> 'a StateData_scheme \<Rightarrow> ('a StateData_scheme \<times> bool) exec" where
  "updateValidBlock sl now s =
     (let s = upd_rs (\<lambda>r. r\<lparr>ValidRound := rs_Round r\<rparr>) s; r = rs s
      in exec_bind (Block_BlockID (sl_block sl) (ProposalBlock r) (ProposalBlockParts r)) (\<lambda>blockID.
         exec_bind (Block_BlockID (sl_block sl) (ValidBlock r) (ValidBlockParts r)) (\<lambda>validID.
         if \<not> BlockID_Equals validID blockID then
           let recv = (case rs_Proposal r of
                 Some p \<Rightarrow> if BlockID_Equals (prop_BlockID p) blockID \<and> ProposalReceiveTime r \<noteq> zero_time
                            then ProposalReceiveTime r else now
               | None \<Rightarrow> now)
           in Ret (s\<lparr>rs := r\<lparr>ValidBlock := ProposalBlock r, ValidBlockRecvTime := recv,
                          ValidBlockParts := ProposalBlockParts r\<rparr>\<rparr>, True)
         else Ret (s, False))))"

definition updateLockedBlock :: "'a StateData_scheme \<Rightarrow> 'a StateData_scheme" where
  "updateLockedBlock s =
     upd_rs (\<lambda>r. r\<lparr>LockedRound := rs_Round r, LockedBlock := ProposalBlock r, LockedBlockParts := ProposalBlockParts r\<rparr>) s"

definition dropStaleProposal :: "BlockID \<Rightarrow> 'a StateData_scheme \<Rightarrow> 'a StateData_scheme" where
  "dropStaleProposal blockID s =
     (case rs_Proposal (rs s) of
        None \<Rightarrow> s
      | Some p \<Rightarrow> if BlockID_Equals (prop_BlockID p) blockID then s
                   else upd_rs (\<lambda>r. r\<lparr>rs_Proposal := None, ProposalReceiveTime := zero_time\<rparr>) s)"

definition retargetTo :: "sm_lib \<Rightarrow> BlockID \<Rightarrow> 'a StateData_scheme \<Rightarrow> 'a StateData_scheme" where
  "retargetTo sl blockID s =
     (let s = dropStaleProposal blockID s
      in if \<not> HasHeader (ProposalBlockParts (rs s)) (bid_PartSetHeader blockID)
         then upd_rs (\<lambda>r. r\<lparr>ProposalBlock := None,
                ProposalBlockParts := Some (NewPartSetFromHeader (bid_PartSetHeader blockID))\<rparr>) s
         else if \<not> HashesTo (sl_block sl) (ProposalBlock (rs s)) (bid_Hash blockID)
         then upd_rs (\<lambda>r. r\<lparr>ProposalBlock := None\<rparr>) s
         else s)"

definition holdsProposalBlock :: "sm_lib \<Rightarrow> BlockID \<Rightarrow> 'a StateData_scheme \<Rightarrow> bool" where
  "holdsProposalBlock sl blockID s \<longleftrightarrow>
     HashesTo (sl_block sl) (ProposalBlock (rs s)) (bid_Hash blockID)
     \<and> HasHeader (ProposalBlockParts (rs s)) (bid_PartSetHeader blockID)"

definition isLockedBlockEqual :: "sm_lib \<Rightarrow> BlockID \<Rightarrow> 'a StateData_scheme \<Rightarrow> bool" where
  "isLockedBlockEqual sl blockID s \<longleftrightarrow> HashesTo (sl_block sl) (LockedBlock (rs s)) (bid_Hash blockID)"

definition replaceProposalBlockOnLockedBlock :: "sm_lib \<Rightarrow> BlockID \<Rightarrow> 'a StateData_scheme \<Rightarrow> 'a StateData_scheme" where
  "replaceProposalBlockOnLockedBlock sl blockID s =
     (if \<not> isLockedBlockEqual sl blockID s then s
      else upd_rs (\<lambda>r. r\<lparr>ProposalBlock := LockedBlock r, ProposalBlockParts := LockedBlockParts r\<rparr>)
             (dropStaleProposal blockID s))"

definition adoptCommit :: "sm_lib \<Rightarrow> Commit \<Rightarrow> 'a StateData_scheme \<Rightarrow> 'a StateData_scheme" where
  "adoptCommit sl commit s = upd_rs (\<lambda>r. r\<lparr>rs_Commit := Some commit\<rparr>) (retargetTo sl (commit_BlockID commit) s)"

definition verifyCommitSignatures ::
  "sm_lib \<Rightarrow> BlockID \<Rightarrow> Commit \<Rightarrow> 'b budget \<Rightarrow> 'b \<Rightarrow> 'a StateData_scheme \<Rightarrow> (commit_error + unit) exec" where
  "verifyCommitSignatures sl blockID commit budget b s =
     (case rs_Validators (rs s) of
        None \<Rightarrow> Panic
      | Some vals \<Rightarrow>
          exec_bind (verifyCommit (sl_crypto sl) vals (st_ChainID (sd_state s)) blockID (rs_Height (rs s)) commit budget b)
            (\<lambda>(r, _). Ret r))"

definition readyToApplyCommit ::
  "sm_lib \<Rightarrow> Commit \<Rightarrow> bool \<Rightarrow> 'b budget \<Rightarrow> 'b \<Rightarrow> 'a StateData_scheme \<Rightarrow> ('a StateData_scheme, ready_error, bool) call" where
  "readyToApplyCommit sl commit ignoreProposalBlock budget b s =
     (case Commit_ValidateBasic commit of
        Inl e \<Rightarrow> Ret (s, Inl (ErrReadyBasic e))
      | Inr _ \<Rightarrow>
          let stateHeight = rs_Height (rs s); blockID = commit_BlockID commit
          in if wrap64 (commit_Height commit + 1) = stateHeight then Ret (s, Inr False)
             else if commit_Height commit \<noteq> stateHeight then Ret (s, Inr False)
             else exec_bind (verifyCommitSignatures sl blockID commit budget b s) (\<lambda>r. case r of
               Inl e \<Rightarrow> Ret (s, Inl (ErrReadyVerify e))
             | Inr _ \<Rightarrow>
                 exec_bind (if ProposalBlock (rs s) = None then Ret False else IsComplete (ProposalBlockParts (rs s))) (\<lambda>complete.
                 if complete \<and> HasHeader (ProposalBlockParts (rs s)) (bid_PartSetHeader blockID)
                    \<and> \<not> HashesTo (sl_block sl) (ProposalBlock (rs s)) (bid_Hash blockID)
                 then Ret (s, Inl ErrReadyRetained)
                 else if ignoreProposalBlock then Ret (adoptCommit sl commit s, Inr True)
                 else if holdsProposalBlock sl blockID s then Ret (s, Inr True)
                 else Ret (adoptCommit sl commit s, Inr False))))"

definition proposeTimeout :: "consensus_config \<Rightarrow> int \<Rightarrow> 'a StateData_scheme \<Rightarrow> int" where
  "proposeTimeout cfg round s =
     (let tp = TimeoutParamsOrDefaults (cp_Timeout (st_ConsensusParams (sd_state s)));
          p = (if UnsafeProposeTimeoutOverride cfg \<noteq> 0 then UnsafeProposeTimeoutOverride cfg else to_Propose tp);
          pd = (if UnsafeProposeTimeoutDeltaOverride cfg \<noteq> 0 then UnsafeProposeTimeoutDeltaOverride cfg else to_ProposeDelta tp)
      in wrap64 (p + pd * round))"

definition voteTimeout :: "consensus_config \<Rightarrow> int \<Rightarrow> 'a StateData_scheme \<Rightarrow> int" where
  "voteTimeout cfg round s =
     (let tp = TimeoutParamsOrDefaults (cp_Timeout (st_ConsensusParams (sd_state s)));
          v = (if UnsafeVoteTimeoutOverride cfg \<noteq> 0 then UnsafeVoteTimeoutOverride cfg else to_Vote tp);
          vd = (if UnsafeVoteTimeoutDeltaOverride cfg \<noteq> 0 then UnsafeVoteTimeoutDeltaOverride cfg else to_VoteDelta tp)
      in wrap64 (v + vd * round))"

definition isValidForPrevote :: "sm_lib \<Rightarrow> 'a StateData_scheme \<Rightarrow> ('a StateData_scheme, prevote_error, unit) call" where
  "isValidForPrevote sl s =
     (case (ProposalBlock (rs s), rs_Proposal (rs s)) of
        (None, _) \<Rightarrow> Ret (s, Inl ErrPrevoteProposalBlockNil)
      | (_, None) \<Rightarrow> Ret (s, Inl ErrPrevoteProposalNil)
      | (Some block, Some p) \<Rightarrow>
          if Timestamp p \<noteq> hdr_Time (block_Header block) then Ret (s, Inl ErrPrevoteTimestampNotEqual)
          else step_bind (on_state s
                 (if \<not> replayMode s \<and> \<not> HashesTo (sl_block sl) (Some block) (Block_Hash (sl_block sl) (ValidBlock (rs s)))
                  then proposalIsTimely s else Ret (Inr ()))) (\<lambda>_ s.
            if isl (ValidateBlockChainLock (sd_state s) block) then Ret (s, Inl ErrPrevoteInvalidChainLock)
            else if POLRound p = - 1 then
              exec_bind (GetProposer sl s) (\<lambda>(s, r). case r of
                Inl _ \<Rightarrow> Ret (s, Inl ErrPrevoteGetProposer)
              | Inr None \<Rightarrow> Panic
              | Inr (Some proposer) \<Rightarrow>
                  if hdr_ProposerProTxHash (block_Header block) \<noteq> ProTxHash proposer
                  then Ret (s, Inl ErrPrevoteProposer) else Ret (s, Inr ()))
            else Ret (s, Inr ())))"

end
