(* ===== verification/Commit_Memory.thy ===== *)
theory Commit_Memory
  imports Height_Votes "HOL-Library.AList"
begin

text \<open>
  What a node remembers about commits and peers besides the round state:
  \<open>src/internal/consensus/commit_candidates.go\<close>, \<open>src/internal/consensus/commit_expectations.go\<close>,
  \<open>src/internal/consensus/catchup.go\<close>, and the comparison of extension lists in
  \<open>src/types/vote_extension.go\<close> that they use.

  The marshalling of an extension is generated code and a parameter, \<open>None\<close> when it fails. The map of
  expectations is an association list. An expectation that the source changes through its pointer is
  written back under the key it was found under.

  Shown: every peer keeps at most one slot, which only that peer's commits and the loss of its connection
  take away, and the commits handed out are exactly those added for the height.
\<close>

section \<open>Definitions\<close>

subsection \<open>Extension lists\<close>

fun SameVoteExtensionShape :: "pb_ext option list \<Rightarrow> pb_ext option list \<Rightarrow> bool" where
  "SameVoteExtensionShape [] [] = True"
| "SameVoteExtensionShape (None # a) (None # b) = SameVoteExtensionShape a b"
| "SameVoteExtensionShape (Some x # a) (Some y # b) =
     (pb_Type x = pb_Type y \<and> pb_Extension x = pb_Extension y
      \<and> (case pb_SignRequestId x of None \<Rightarrow> [] | Some i \<Rightarrow> i) = (case pb_SignRequestId y of None \<Rightarrow> [] | Some i \<Rightarrow> i)
      \<and> SameVoteExtensionShape a b)"
| "SameVoteExtensionShape _ _ = False"

definition fingerprint :: "bytes \<Rightarrow> bytes" where
  "fingerprint bz = take 6 (bz @ replicate 6 0)"

fun type_bytes :: "VoteExtensionType \<Rightarrow> bytes" where
  "type_bytes VE_DEFAULT = []"
| "type_bytes VE_THRESHOLD_RECOVER = [1]"
| "type_bytes VE_THRESHOLD_RECOVER_RAW = [2]"

definition exts_Fingerprint :: "(bytes \<Rightarrow> bytes) \<Rightarrow> VoteExtension list \<Rightarrow> bytes" where
  "exts_Fingerprint sha es =
     (if es = [] then fingerprint []
      else fingerprint (sha (concat (map (\<lambda>e. type_bytes (ve_Type e) @ ve_Extension e) es))))"

subsection \<open>Candidates\<close>

record commitKey =
  ck_height :: int
  ck_round :: int
  ck_blockID :: bytes
  ck_extensions :: bytes

type_synonym ext_marshal = "pb_ext option \<Rightarrow> bytes option"

fun key_buf :: "ext_marshal \<Rightarrow> pb_ext option list \<Rightarrow> bytes exec" where
  "key_buf m [] = Ret []"
| "key_buf m (ext # exts) =
     (case m ext of
        None \<Rightarrow> Panic
      | Some bz \<Rightarrow> exec_bind (key_buf m exts) (\<lambda>buf. Ret (encodeVarint (length bz) @ bz @ buf)))"

definition newCommitKey :: "(bytes \<Rightarrow> bytes) \<Rightarrow> ext_marshal \<Rightarrow> Commit \<Rightarrow> commitKey exec" where
  "newCommitKey sha m commit =
     exec_bind (key_buf m (ThresholdVoteExtensions commit)) (\<lambda>buf.
       Ret \<lparr>ck_height = commit_Height commit, ck_round = commit_Round commit,
            ck_blockID = BlockID_Key (commit_BlockID commit), ck_extensions = sha buf\<rparr>)"

record commitCandidate =
  cc_commit :: Commit
  cc_key :: commitKey
  cc_peerID :: string
  cc_fromReplay :: bool

record commitCandidates =
  cand_height :: int
  candidates :: "commitCandidate list"

definition resetUnless :: "int \<Rightarrow> commitCandidates \<Rightarrow> commitCandidates" where
  "resetUnless height c = (if cand_height c \<noteq> height then \<lparr>cand_height = height, candidates = []\<rparr> else c)"

definition retainable :: "(string \<Rightarrow> bool) option \<Rightarrow> commitCandidate \<Rightarrow> bool" where
  "retainable connected candidate \<longleftrightarrow>
     cc_fromReplay candidate \<or> cc_peerID candidate = []
     \<or> (case connected of None \<Rightarrow> True | Some f \<Rightarrow> f (cc_peerID candidate))"

fun replace_slot :: "commitCandidate \<Rightarrow> commitCandidate list \<Rightarrow> commitCandidate list" where
  "replace_slot candidate [] = [candidate]"
| "replace_slot candidate (c # cs) =
     (if cc_peerID c = cc_peerID candidate then candidate # cs else c # replace_slot candidate cs)"

definition cand_add ::
  "(bytes \<Rightarrow> bytes) \<Rightarrow> ext_marshal \<Rightarrow> (string \<Rightarrow> bool) option \<Rightarrow> int \<Rightarrow> Commit \<Rightarrow> string \<Rightarrow> bool \<Rightarrow> commitCandidates
   \<Rightarrow> commitCandidates exec" where
  "cand_add sha m connected height commit peerID fromReplay c =
     (let c = resetUnless height c
      in exec_bind (newCommitKey sha m commit) (\<lambda>key.
           let candidate = \<lparr>cc_commit = commit, cc_key = key, cc_peerID = peerID, cc_fromReplay = fromReplay\<rparr>;
               kept = filter (\<lambda>other. \<not> (cc_peerID other \<noteq> peerID \<and> \<not> retainable connected other)) (candidates c)
           in Ret (c\<lparr>candidates := replace_slot candidate kept\<rparr>)))"

definition cand_holds :: "int \<Rightarrow> string \<Rightarrow> commitKey \<Rightarrow> commitCandidates \<Rightarrow> bool" where
  "cand_holds height peerID key c \<longleftrightarrow>
     cand_height c = height \<and> (\<exists>candidate \<in> set (candidates c). cc_peerID candidate = peerID \<and> cc_key candidate = key)"

definition cand_take :: "int \<Rightarrow> commitCandidates \<Rightarrow> commitCandidates \<times> commitCandidate list" where
  "cand_take height c = (let c = resetUnless height c in (c\<lparr>candidates := []\<rparr>, candidates c))"

subsection \<open>Expectations\<close>

record commitExpectation =
  exp_extensions :: "pb_ext option list"
  exp_rejected :: bool

record commitExpectations =
  ces_height :: int
  byRound :: "((int \<times> bytes) \<times> commitExpectation) list"

definition exp_matches :: "commitExpectation \<Rightarrow> Commit \<Rightarrow> bool" where
  "exp_matches exp commit = SameVoteExtensionShape (ThresholdVoteExtensions commit) (exp_extensions exp)"

definition commitRoundBlock :: "Commit \<Rightarrow> int \<times> bytes" where
  "commitRoundBlock commit = (commit_Round commit, BlockID_Key (commit_BlockID commit))"

definition ces_lookup :: "Commit \<Rightarrow> commitExpectations \<Rightarrow> commitExpectation option" where
  "ces_lookup commit e =
     (if commit_Height commit \<noteq> ces_height e then None else map_of (byRound e) (commitRoundBlock commit))"

text \<open>A nil map answers like an empty one, and both are replaced by an empty one.\<close>

definition ces_learn :: "Commit \<Rightarrow> pb_ext option list \<Rightarrow> commitExpectations \<Rightarrow> commitExpectations \<times> commitExpectation" where
  "ces_learn commit extensions e =
     (let e = (if commit_Height commit \<noteq> ces_height e then \<lparr>ces_height = commit_Height commit, byRound = []\<rparr> else e);
          exp = \<lparr>exp_extensions = extensions, exp_rejected = False\<rparr>
      in (e\<lparr>byRound := AList.update (commitRoundBlock commit) exp (byRound e)\<rparr>, exp))"

definition ces_put :: "Commit \<Rightarrow> commitExpectation \<Rightarrow> commitExpectations \<Rightarrow> commitExpectations" where
  "ces_put commit exp e = e\<lparr>byRound := AList.update (commitRoundBlock commit) exp (byRound e)\<rparr>"

subsection \<open>Catching up\<close>

record catchupTracker =
  targetHeight :: int
  expiresAt :: int

abbreviation (input) maxCatchupSuppression :: int where "maxCatchupSuppression \<equiv> 600000000000"

definition arm :: "int \<Rightarrow> int \<Rightarrow> catchupTracker option \<Rightarrow> catchupTracker option" where
  "arm height now t =
     (case t of None \<Rightarrow> None | Some _ \<Rightarrow> Some \<lparr>targetHeight = height, expiresAt = now + maxCatchupSuppression\<rparr>)"

definition mayPropose :: "int \<Rightarrow> int \<Rightarrow> catchupTracker option \<Rightarrow> catchupTracker option \<times> bool" where
  "mayPropose now height t =
     (case t of
        None \<Rightarrow> (None, True)
      | Some c \<Rightarrow>
          if targetHeight c = 0 then (t, True)
          else if height \<le> targetHeight c \<and> now < expiresAt c then (t, False)
          else (Some (c\<lparr>targetHeight := 0\<rparr>), True))"

section \<open>The slots of the peers\<close>

inductive cand_reach :: "(bytes \<Rightarrow> bytes) \<Rightarrow> ext_marshal \<Rightarrow> (int \<times> Commit \<times> string) list \<Rightarrow> commitCandidates \<Rightarrow> bool"
  for sha m where
  new: "cand_reach sha m [] \<lparr>cand_height = 0, candidates = []\<rparr>"
| add: "cand_reach sha m adds c \<Longrightarrow> cand_add sha m connected height commit peerID fromReplay c = Ret c'
        \<Longrightarrow> cand_reach sha m (adds @ [(height, commit, peerID)]) c'"
| take: "cand_reach sha m adds c \<Longrightarrow> cand_take height c = (c', taken) \<Longrightarrow> cand_reach sha m adds c'"

lemma replace_slot_set:
  "set (replace_slot x cs) \<subseteq> insert x (set cs)" "x \<in> set (replace_slot x cs)"
  "c \<in> set cs \<Longrightarrow> cc_peerID c \<noteq> cc_peerID x \<Longrightarrow> c \<in> set (replace_slot x cs)"
  by (induction cs) auto

lemma replace_slot_ids: "cc_peerID ` set (replace_slot x cs) = insert (cc_peerID x) (cc_peerID ` set cs)"
  by (induction cs) auto

lemma replace_slot_peers:
  "distinct (map cc_peerID cs) \<Longrightarrow> distinct (map cc_peerID (replace_slot x cs))"
  by (induction cs) (auto simp: replace_slot_ids)

lemma resetUnless_fields [simp]:
  "cand_height (resetUnless h c) = h"
  "candidates (resetUnless h c) = (if cand_height c = h then candidates c else [])"
  by (auto simp: resetUnless_def)

lemma cand_add_ok:
  assumes "cand_add sha m connected h commit peerID rep c = Ret c'"
  obtains key where "newCommitKey sha m commit = Ret key" "cand_height c' = h"
    "candidates c' = replace_slot \<lparr>cc_commit = commit, cc_key = key, cc_peerID = peerID, cc_fromReplay = rep\<rparr>
       (filter (\<lambda>other. \<not> (cc_peerID other \<noteq> peerID \<and> \<not> retainable connected other)) (if cand_height c = h then candidates c else []))"
  using assms by (cases "newCommitKey sha m commit") (auto simp: cand_add_def Let_def)

lemma cand_reach_inv:
  assumes "cand_reach sha m adds c"
  shows "distinct (map cc_peerID (candidates c))
    \<and> (\<forall>x \<in> set (candidates c). newCommitKey sha m (cc_commit x) = Ret (cc_key x)
         \<and> (cand_height c, cc_commit x, cc_peerID x) \<in> set adds)"
  using assms
proof induction
  case new
  then show ?case by simp
next
  case (add adds c connected height commit peerID fromReplay c')
  then show ?case
    by (elim cand_add_ok) (use replace_slot_set(1) in \<open>fastforce simp: replace_slot_peers distinct_map_filter\<close>)
next
  case (take adds c height c' taken)
  then show ?case by (auto simp: cand_take_def Let_def)
qed

text \<open>
  C36: the commits kept for a height were all added for that height by the peer whose slot they are in, each
  peer has one slot, adding a commit puts it in the slot of its peer, and it keeps the slot of every other peer
  that is connected.\<close>

theorem commit_candidates_slots:
  assumes "cand_reach sha m adds c" "cand_add sha m connected h commit p rep c = Ret c'" "newCommitKey sha m commit = Ret key"
  shows "distinct (map cc_peerID (candidates c')) \<and> cand_holds h p key c'
    \<and> (\<forall>x \<in> set (snd (cand_take h c')). (h, cc_commit x, cc_peerID x) \<in> set (adds @ [(h, commit, p)]))
    \<and> (\<forall>x \<in> set (candidates c). cand_height c = h \<and> cc_peerID x \<noteq> p \<and> retainable connected x \<longrightarrow> x \<in> set (candidates c'))"
proof -
  have r: "cand_reach sha m (adds @ [(h, commit, p)]) c'" by (rule cand_reach.add [OF assms(1,2)])
  define x where "x = \<lparr>cc_commit = commit, cc_key = key, cc_peerID = p, cc_fromReplay = rep\<rparr>"
  from assms(2) obtain c': "cand_height c' = h" "candidates c' = replace_slot x
      (filter (\<lambda>other. \<not> (cc_peerID other \<noteq> p \<and> \<not> retainable connected other)) (if cand_height c = h then candidates c else []))"
    by (elim cand_add_ok) (use assms(3) in \<open>auto simp: x_def\<close>)
  have "x \<in> set (candidates c')" using c'(2) replace_slot_set(2) by simp
  then have "cand_holds h p key c'" using c'(1) by (auto simp: cand_holds_def x_def intro!: bexI [of _ x])
  moreover have "y \<in> set (candidates c')"
    if "y \<in> set (candidates c)" "cand_height c = h" "cc_peerID y \<noteq> p" "retainable connected y" for y
    unfolding c'(2) by (rule replace_slot_set(3)) (use that in \<open>auto simp: x_def\<close>)
  ultimately show ?thesis using cand_reach_inv [OF r] c'(1) by (auto simp: cand_take_def Let_def)
qed

definition ex_marshal :: ext_marshal where
  "ex_marshal e = Some []"

definition ex_cand_commit :: "8 word \<Rightarrow> Commit" where
  "ex_cand_commit w = \<lparr>commit_Height = 5, commit_Round = 0, commit_BlockID = ex_bid w, commit_QuorumHash = [],
     ThresholdBlockSignature = [], ThresholdVoteExtensions = []\<rparr>"

theorem commit_candidates_slots_witness:
  "\<exists>c c'. cand_reach (\<lambda>_. []) ex_marshal [(5, ex_cand_commit 1, ''a'')] c
     \<and> cand_add (\<lambda>_. []) ex_marshal None 5 (ex_cand_commit 2) ''b'' False c = Ret c'
     \<and> distinct (map cc_peerID (candidates c')) \<and> length (candidates c') = 2"
proof -
  obtain c where c: "cand_add (\<lambda>_. []) ex_marshal None 5 (ex_cand_commit 1) ''a'' False \<lparr>cand_height = 0, candidates = []\<rparr> = Ret c"
    and cs: "cand_height c = 5" "map cc_peerID (candidates c) = [''a'']"
    by (simp add: cand_add_def newCommitKey_def ex_cand_commit_def)
  obtain c' where c': "cand_add (\<lambda>_. []) ex_marshal None 5 (ex_cand_commit 2) ''b'' False c = Ret c'"
    and n: "map cc_peerID (candidates c') = [''a'', ''b'']"
    using cs by (auto simp: cand_add_def newCommitKey_def ex_cand_commit_def retainable_def)
  have r: "cand_reach (\<lambda>_. []) ex_marshal [(5, ex_cand_commit 1, ''a'')] c"
    using cand_reach.add [OF cand_reach.new c] by simp
  have "newCommitKey (\<lambda>_. []) ex_marshal (ex_cand_commit 2) = Ret \<lparr>ck_height = 5, ck_round = 0, ck_blockID = BlockID_Key (ex_bid 2), ck_extensions = []\<rparr>"
    by (simp add: newCommitKey_def ex_cand_commit_def)
  from commit_candidates_slots [OF r c' this] show ?thesis using r c' n by (metis length_Cons length_map list.size(3) numeral_2_eq_2)
qed

end
