(* ===== verification/Consensus_Node.thy ===== *)
theory Consensus_Node
  imports Round_State Commit_Memory
begin

text \<open>
  The state of a consensus node and what its actions share: the state data store of
  \<open>src/internal/consensus/state_data.go\<close>, \<open>src/internal/consensus/block_executor.go\<close>,
  \<open>src/internal/consensus/vote_signer.go\<close>, \<open>src/internal/consensus/state_prevoter.go\<close>,
  \<open>src/internal/consensus/state_proposaler.go\<close> and \<open>src/internal/consensus/proposal_updater.go\<close>.

  \<open>cs_conf\<close> holds what is fixed while a node runs: the libraries, the configuration and the identity of the
  node and of its private validator. \<open>cs_env\<close> holds what the world answers while one message is handled: the
  clock, the application, the signer, the disk, the block store and the rate limiters; the safety results are
  for every answer. The effects that leave the consensus routine are recorded in order in \<open>nd_out\<close>: signed votes
  and proposals handed to the queue, scheduled timeouts, saved blocks, the end of a height in the log, evidence,
  peer errors and published events.

  The two listeners of the committed state are the block executor and the proposer; the store updates them.
  The budget for invalid block parts is metered in floating point and answers through \<open>ev_partok\<close>.
\<close>

section \<open>The node\<close>

datatype cs_event =
    EvNewRound int int | EvNewRoundStep int int nat | EvValidBlock int int | EvPolka int int | EvLock int int
  | EvRelock int int | EvCompleteProposal int int BlockID | EvVote Vote | EvCommit Commit
  | EvTimeoutPropose int int | EvTimeoutWait int int

datatype cs_output =
    OutVote Vote
  | OutProposal Proposal
  | OutBlockPart int int "Part option"
  | OutTimeout int int int RoundStepType
  | OutSaveBlock Block "PartSet option" Commit
  | OutEndHeight int
  | OutConflictingVotes Vote Vote
  | OutPeerError string nat
  | OutStats
  | OutEvent cs_event

datatype cs_error =
    ErrStateVersion | ErrProposalBlockNotSet | ErrInvalidState state_error | ErrInvalidCommitBlock
  | ErrReadyCommit ready_error | ErrVerifyCommit commit_error | ErrCommitExtensions state_error
  | ErrCommitWithoutBlock | ErrAddVote hvs_error | ErrVoteSignatures vote_error | ErrVoteIndex
  | ErrPrivValidatorNotSet | ErrAddPart part_error | ErrBlockSize | ErrBlockBytes | ErrPublishCommit
  | ErrInvalidProposalPOLRound | ErrInvalidProposalCoreHeight | ErrInvalidProposalBlockID
  | ErrInvalidProposalForCommit | ErrInvalidProposalForPartSet | ErrUnableToVerifyProposal
  | ErrInvalidProposalSignature | ErrProposalBudgetExhausted | ErrProposalHeightRound | ErrGetProposer
  | ErrCreateProposal | ErrSignProposal

record Node = StateData +
  st_rs :: RoundState
  st_committed :: smState
  st_ver :: int
  st_replay :: bool
  be :: BlockExecutor
  be_state :: smState
  be_expectations :: commitExpectations
  prop_state :: smState
  nd_candidates :: commitCandidates
  nd_catchup :: "catchupTracker option"
  nd_out :: "cs_output list"

type_synonym 'a cs = "(Node, cs_error, 'a) call"

record cs_conf =
  cf_sl :: sm_lib
  cf_recover :: bls_recover
  cf_penc :: proposal_encoder
  cf_decode :: "bytes \<Rightarrow> Block option"
  cf_marshal :: ext_marshal
  cf_config :: consensus_config
  cf_node :: bytes
  cf_pv :: "bytes option"
  cf_appVersion :: nat
  cf_proposeReplay :: bool

record cs_env =
  ev_now :: int
  ev_exec :: execEnv
  ev_SignVote :: "Vote \<Rightarrow> (bytes \<times> bytes list) option"
  ev_SignProposal :: "Proposal \<Rightarrow> bytes option"
  ev_flush :: bool
  ev_walsync :: bool
  ev_publish :: bool
  ev_bstore :: "BlockStore option"
  ev_budget :: "nat budget"
  ev_b :: nat
  ev_affordable :: bool
  ev_partok :: bool
  ev_connected :: "(string \<Rightarrow> bool) option"
  ev_stopped :: bool

definition out :: "cs_output \<Rightarrow> Node \<Rightarrow> Node" where
  "out e n = n\<lparr>nd_out := nd_out n @ [e]\<rparr>"

definition publish :: "(int \<Rightarrow> int \<Rightarrow> cs_event) \<Rightarrow> Node \<Rightarrow> Node" where
  "publish ev n = out (OutEvent (ev (rs_Height (rs n)) (rs_Round (rs n)))) n"

definition PublishNewRoundStepEvent :: "Node \<Rightarrow> Node" where
  "PublishNewRoundStepEvent n = publish (\<lambda>h r. EvNewRoundStep h r (rs_Step (rs n))) n"

definition ScheduleTimeout :: "int \<Rightarrow> int \<Rightarrow> int \<Rightarrow> RoundStepType \<Rightarrow> Node \<Rightarrow> Node" where
  "ScheduleTimeout duration height round step n = out (OutTimeout duration height round step) n"

text \<open>\<open>Time.Sub\<close> saturates.\<close>

definition time_sub :: "int \<Rightarrow> int \<Rightarrow> int" where
  "time_sub a b = max MinInt64 (min MaxInt64 (a - b))"

definition ScheduleRound0 :: "int \<Rightarrow> Node \<Rightarrow> Node" where
  "ScheduleRound0 now n = ScheduleTimeout (time_sub (rs_StartTime (rs n)) now) (rs_Height (rs n)) 0 RoundStepNewHeight n"

definition pv_ProTxHash :: "cs_conf \<Rightarrow> bytes" where
  "pv_ProTxHash cf = (case cf_pv cf of None \<Rightarrow> [] | Some h \<Rightarrow> h)"

definition peer_budget :: "cs_env \<Rightarrow> string \<Rightarrow> bool \<Rightarrow> nat budget" where
  "peer_budget env peerID fromReplay = (if peerID = [] \<or> fromReplay then None else ev_budget env)"

section \<open>The store\<close>

definition load :: "Node \<Rightarrow> Node" where
  "load n = n\<lparr>rs := st_rs n, sd_state := st_committed n, sd_version := st_ver n, replayMode := st_replay n\<rparr>"

definition Save :: "Node \<Rightarrow> Node \<times> (cs_error + unit)" where
  "Save n =
     (if sd_version n \<noteq> st_ver n then (n, Inl ErrStateVersion)
      else
        let n = (if LastBlockHeight (st_committed n) = 0 \<or> LastBlockHeight (st_committed n) < LastBlockHeight (sd_state n)
                 then n\<lparr>be_state := sd_state n, prop_state := sd_state n\<rparr> else n);
            ver = wrap64 (st_ver n + 1)
        in (n\<lparr>st_rs := rs n, st_committed := sd_state n, st_ver := ver, sd_version := ver\<rparr>, Inr ()))"

section \<open>The block executor\<close>

definition zero_state :: smState where
  "zero_state = \<lparr>st_Version = \<lparr>ver_Block = 0, ver_App = 0\<rparr>, st_ChainID = [], InitialHeight = 0, LastBlockHeight = 0,
     LastBlockRound = 0, st_LastBlockID = empty_bid, LastBlockTime = zero_time, LastCoreChainLockedBlockHeight = 0,
     st_Validators = None, st_LastValidators = None, LastHeightValidatorsChanged = 0, st_ConsensusParams = zero_params,
     LastHeightConsensusParamsChanged = 0, LastResultsHash = [], LastAppHash = []\<rparr>"

definition zero_crs :: CurrentRoundState where
  "zero_crs = \<lparr>crs_Base = zero_state, crs_Round = 0, crs_ProTxHash = [], crs_AppHash = [], crs_TxResults = [],
     crs_ResultsHash = [], crs_CoreChainLock = None, NextConsensusParams = zero_params,
     crs_LastHeightConsensusParamsChanged = 0, NextValidators = None, crs_LastHeightValidatorsChanged = 0,
     crs_Params = \<lparr>rp_AppHash = [], rp_TxResults = [], ConsensusParamUpdates = None, rp_ValidatorSetUpdate = None,
       rp_CoreChainLock = None, rp_Source = NoSource, rp_Round = 0\<rparr>\<rparr>"

definition proposal_bid :: "cs_conf \<Rightarrow> RoundState \<Rightarrow> BlockID exec" where
  "proposal_bid cf r = Block_BlockID (sl_block (cf_sl cf)) (ProposalBlock r) (ProposalBlockParts r)"

definition locked_bid :: "cs_conf \<Rightarrow> RoundState \<Rightarrow> BlockID exec" where
  "locked_bid cf r = Block_BlockID (sl_block (cf_sl cf)) (LockedBlock r) (LockedBlockParts r)"

definition with_be :: "(BlockExecutor \<Rightarrow> (BlockExecutor \<times> 'a) exec) \<Rightarrow> Node \<Rightarrow> (Node \<times> 'a) exec" where
  "with_be f n = exec_bind (f (be n)) (\<lambda>(b, x). Ret (n\<lparr>be := b\<rparr>, x))"

definition be_create :: "cs_conf \<Rightarrow> cs_env \<Rightarrow> int \<Rightarrow> Node \<Rightarrow> Block option cs" where
  "be_create cf env round n =
     (case cf_pv cf of
        None \<Rightarrow> Ret (n, Inl ErrCreateProposal)
      | Some proTxHash \<Rightarrow>
          let commit = (if rs_Height (rs n) = InitialHeight (be_state n)
                        then Some \<lparr>commit_Height = 0, commit_Round = 0, commit_BlockID = empty_bid, commit_QuorumHash = [],
                                   ThresholdBlockSignature = [], ThresholdVoteExtensions = []\<rparr>
                        else rs_LastCommit (rs n))
          in if commit = None then Ret (n, Inr None)
             else exec_bind (with_be (CreateProposalBlock (cf_sl cf) (ev_exec env) (cf_node cf) (rs_Height (rs n)) round
                    (be_state n) commit proTxHash (cf_appVersion cf)) n) (\<lambda>(n, r). case r of
                  Inl _ \<Rightarrow> Panic
                | Inr (block, uncommitted) \<Rightarrow>
                    Ret (upd_rs (\<lambda>r. r\<lparr>rs_Current := uncommitted, ProcessedBlockID := empty_bid\<rparr>) n, Inr (Some block))))"

definition processedFor :: "cs_conf \<Rightarrow> int \<Rightarrow> RoundState \<Rightarrow> bool exec" where
  "processedFor cf round r =
     (case ProposalBlock r of
        None \<Rightarrow> Ret False
      | Some block \<Rightarrow>
          if rp_Source (crs_Params (rs_Current r)) = ProcessProposalSource
             \<and> MatchesBlock (rs_Current r) (block_Header block) round \<and> \<not> BlockID_IsNil (ProcessedBlockID r)
          then exec_bind (proposal_bid cf r) (\<lambda>blockID. Ret (BlockID_Equals (ProcessedBlockID r) blockID))
          else Ret False)"

definition ensureProcess :: "cs_conf \<Rightarrow> cs_env \<Rightarrow> int \<Rightarrow> Node \<Rightarrow> unit cs" where
  "ensureProcess cf env round n =
     (case ProposalBlock (rs n) of
        None \<Rightarrow> Ret (n, Inl ErrProposalBlockNotSet)
      | Some block \<Rightarrow>
          exec_bind (processedFor cf round (rs n)) (\<lambda>processed.
            if processed then Ret (n, Inr ())
            else exec_bind (with_be (ProcessProposal (cf_sl cf) (ev_exec env) (cf_node cf) block round (be_state n) True None) n)
              (\<lambda>(n, r). case r of
                 Inl e \<Rightarrow> Ret (upd_rs (\<lambda>r. r\<lparr>rs_Current := zero_crs, ProcessedBlockID := empty_bid\<rparr>) n, Inl (ErrInvalidState e))
               | Inr uncommitted \<Rightarrow>
                   exec_bind (proposal_bid cf (rs n)) (\<lambda>blockID.
                     Ret (upd_rs (\<lambda>r. r\<lparr>rs_Current := uncommitted, ProcessedBlockID := blockID\<rparr>) n, Inr ())))))"

definition mustEnsureProcess :: "cs_conf \<Rightarrow> cs_env \<Rightarrow> int \<Rightarrow> Node \<Rightarrow> Node exec" where
  "mustEnsureProcess cf env round n =
     exec_bind (ensureProcess cf env round n) (\<lambda>(n, r). case r of Inl _ \<Rightarrow> Panic | Inr _ \<Rightarrow> Ret n)"

definition ensureOwnRound :: "cs_conf \<Rightarrow> cs_env \<Rightarrow> Node \<Rightarrow> unit cs" where
  "ensureOwnRound cf env n =
     (let processed = crs_Round (rs_Current (rs n))
      in case rs_Proposal (rs n) of
           None \<Rightarrow> Ret (n, Inr ())
         | Some p \<Rightarrow>
             if processed = rs_Round (rs n) then Ret (n, Inr ())
             else exec_bind (processedFor cf processed (rs n)) (\<lambda>done.
               if \<not> done then Ret (n, Inr ())
               else exec_bind (proposal_bid cf (rs n)) (\<lambda>blockID.
                 if \<not> BlockID_Equals blockID (prop_BlockID p) then Ret (n, Inr ())
                 else ensureProcess cf env (rs_Round (rs n)) n)))"

definition refuseUnprocessedCommit :: "cs_conf \<Rightarrow> Commit \<Rightarrow> Node \<Rightarrow> (cs_error + unit) exec" where
  "refuseUnprocessedCommit cf commit n =
     exec_bind (processedFor cf (commit_Round commit) (rs n)) (\<lambda>processed.
       Ret (if processed then Inr ()
            else case ces_lookup commit (be_expectations n) of
                   None \<Rightarrow> Inr ()
                 | Some exp \<Rightarrow> if \<not> exp_matches exp commit \<or> exp_rejected exp
                                then Inl (ErrCommitExtensions ErrCommitExtensionsRejected) else Inr ()))"

definition expectedExtensions :: "cs_env \<Rightarrow> Commit \<Rightarrow> Node \<Rightarrow> (Node \<times> pb_ext option list) exec" where
  "expectedExtensions env commit n =
     (let vote = \<lparr>vote_Type = PrecommitType, vote_Height = commit_Height commit, vote_Round = commit_Round commit,
            vote_BlockID = commit_BlockID commit, ValidatorProTxHash = [], ValidatorIndex = 0, BlockSignature = [],
            VoteExtensions = []\<rparr>
      in exec_bind (with_be (ExtendVote (ev_exec env) vote) n) (\<lambda>(n, vote).
         exec_bind (NewCommit (commit_Height commit) (commit_Round commit) (commit_BlockID commit) (VoteExtensions vote) None)
           (\<lambda>c. Ret (n, ThresholdVoteExtensions c))))"

definition verifyCommitExtensions :: "cs_conf \<Rightarrow> cs_env \<Rightarrow> Commit \<Rightarrow> Node \<Rightarrow> unit cs" where
  "verifyCommitExtensions cf env commit n =
     (let known = ces_lookup commit (be_expectations n);
          settle = (\<lambda>exp n. Ret (if exp_matches exp commit
              then n\<lparr>be_expectations := ces_put commit (exp\<lparr>exp_rejected := True\<rparr>) (be_expectations n)\<rparr> else n,
              Inl (ErrCommitExtensions ErrCommitExtensionsRejected)))
      in if (case known of None \<Rightarrow> False | Some exp \<Rightarrow> exp_rejected exp \<and> exp_matches exp commit)
         then Ret (n, Inl (ErrCommitExtensions ErrCommitExtensionsRejected))
         else exec_bind (with_be (VerifyCommitExtensions (ev_exec env) commit) n) (\<lambda>(n, r). case r of
           Inr _ \<Rightarrow> Ret (n, Inr ())
         | Inl e \<Rightarrow>
             if e \<noteq> ErrCommitExtensionsRejected then Ret (n, Inl (ErrCommitExtensions e))
             else (case known of
                Some exp \<Rightarrow> settle exp n
              | None \<Rightarrow>
                  exec_bind (processedFor cf (commit_Round commit) (rs n)) (\<lambda>processed.
                    if \<not> processed then Ret (n, Inl (ErrCommitExtensions e))
                    else exec_bind (expectedExtensions env commit n) (\<lambda>(n, exts).
                      let (es, exp) = ces_learn commit exts (be_expectations n)
                      in settle exp (n\<lparr>be_expectations := es\<rparr>))))))"

definition be_finalize :: "cs_conf \<Rightarrow> cs_env \<Rightarrow> Commit \<Rightarrow> Node \<Rightarrow> (smState \<times> ResponseFinalizeBlock) cs" where
  "be_finalize cf env commit n =
     (case ProposalBlock (rs n) of
        None \<Rightarrow> Panic
      | Some block \<Rightarrow>
          let bl = sl_block (cf_sl cf);
              blockID = \<lparr>bid_Hash = Block_Hash bl (Some block), bid_PartSetHeader = ps_Header (ProposalBlockParts (rs n)),
                         StateID = StateID_Hash bl (Header_StateID (block_Header block))\<rparr>
          in exec_bind (with_be (FinalizeBlock (cf_sl cf) (ev_exec env) (sd_state n) (rs_Current (rs n)) blockID block commit None) n)
               (\<lambda>(n, r). Ret (n, case r of Inl e \<Rightarrow> Inl (ErrInvalidState e) | Inr x \<Rightarrow> Inr x)))"

definition validate :: "cs_conf \<Rightarrow> cs_env \<Rightarrow> Node \<Rightarrow> unit cs" where
  "validate cf env n =
     (case ProposalBlock (rs n) of
        None \<Rightarrow> Ret (n, Inl ErrProposalBlockNotSet)
      | Some block \<Rightarrow>
          exec_bind (with_be (ValidateBlockWithRoundState (cf_sl cf) (ev_exec env) (sd_state n) (rs_Current (rs n)) block None) n)
            (\<lambda>(n, r). Ret (n, case r of Inl e \<Rightarrow> Inl (ErrInvalidState e) | Inr _ \<Rightarrow> Inr ())))"

definition mustValidate :: "cs_conf \<Rightarrow> cs_env \<Rightarrow> Node \<Rightarrow> Node exec" where
  "mustValidate cf env n = exec_bind (validate cf env n) (\<lambda>(n, r). case r of Inl _ \<Rightarrow> Panic | Inr _ \<Rightarrow> Ret n)"

section \<open>Signing votes\<close>

definition CopySigns :: "bytes list \<Rightarrow> VoteExtension list \<Rightarrow> VoteExtension list option" where
  "CopySigns src es =
     (if length es \<noteq> length src then None else Some (map2 (\<lambda>e sig. e\<lparr>ve_Signature := sig\<rparr>) es src))"

definition signVote_cs :: "cs_conf \<Rightarrow> cs_env \<Rightarrow> bytes \<Rightarrow> SignedMsgType \<Rightarrow> BlockID \<Rightarrow> Node \<Rightarrow> (Node \<times> Vote option) exec" where
  "signVote_cs cf env proTxHash msgType blockID n =
     (if \<not> ev_flush env then Ret (n, None)
      else exec_bind (GetByProTxHash (rs_Validators (rs n)) proTxHash) (\<lambda>(valIdx, _).
        let vote = \<lparr>vote_Type = msgType, vote_Height = rs_Height (rs n), vote_Round = rs_Round (rs n),
              vote_BlockID = blockID, ValidatorProTxHash = proTxHash, ValidatorIndex = valIdx, BlockSignature = [],
              VoteExtensions = []\<rparr>
        in exec_bind (if msgType = PrecommitType \<and> \<not> BlockID_IsNil blockID
                      then with_be (ExtendVote (ev_exec env) vote) n else Ret (n, vote)) (\<lambda>(n, vote).
           if st_Validators (sd_state n) = None then Panic
           else Ret (n, case ev_SignVote env vote of
                  None \<Rightarrow> None
                | Some (sig, extSigs) \<Rightarrow>
                    map_option (\<lambda>exts. vote\<lparr>BlockSignature := sig, VoteExtensions := exts\<rparr>)
                      (CopySigns extSigs (VoteExtensions vote))))))"

definition signAddVote :: "cs_conf \<Rightarrow> cs_env \<Rightarrow> SignedMsgType \<Rightarrow> BlockID \<Rightarrow> Node \<Rightarrow> Node exec" where
  "signAddVote cf env msgType blockID n =
     (case cf_pv cf of
        None \<Rightarrow> Ret n
      | Some proTxHash \<Rightarrow>
          if \<not> HasProTxHash (rs_Validators (rs n)) proTxHash then Ret n
          else exec_bind (signVote_cs cf env proTxHash msgType blockID n) (\<lambda>(n, v).
            Ret (case v of None \<Rightarrow> n | Some vote \<Rightarrow> out (OutVote vote) n)))"

section \<open>Prevoting\<close>

definition checkProposalBlock :: "cs_conf \<Rightarrow> RoundState \<Rightarrow> bool exec" where
  "checkProposalBlock cf r =
     (case rs_Proposal r of
        None \<Rightarrow> Panic
      | Some p \<Rightarrow>
          if POLRound p \<noteq> - 1 then Ret False
          else if LockedRound r = - 1 then Ret True
          else exec_bind (proposal_bid cf r) (\<lambda>proposed.
               exec_bind (locked_bid cf r) (\<lambda>locked. Ret (BlockID_Equals proposed locked))))"

definition checkPrevoteMaj23 :: "cs_conf \<Rightarrow> RoundState \<Rightarrow> bool exec" where
  "checkPrevoteMaj23 cf r =
     (case rs_Proposal r of
        None \<Rightarrow> Panic
      | Some p \<Rightarrow>
          exec_bind (votes_of r) (\<lambda>votes.
            let (blockID, ok) = TwoThirdsMajority (hvs_Prevotes votes (POLRound p))
            in if \<not> ok then Ret False
               else exec_bind (proposal_bid cf r) (\<lambda>proposed.
                 if \<not> BlockID_Equals proposed blockID then Ret False
                 else if POLRound p < 0 then Ret False
                 else if POLRound p \<ge> rs_Round r then Ret False
                 else if LockedRound r \<le> POLRound p then Ret True
                 else exec_bind (locked_bid cf r) (\<lambda>locked. Ret (BlockID_Equals proposed locked)))))"

definition shouldVoteBeSent :: "cs_conf \<Rightarrow> RoundState \<Rightarrow> bool exec" where
  "shouldVoteBeSent cf r =
     exec_bind (checkProposalBlock cf r) (\<lambda>ok. if ok then Ret True else checkPrevoteMaj23 cf r)"

definition rs_BlockID :: "cs_conf \<Rightarrow> RoundState \<Rightarrow> BlockID exec" where
  "rs_BlockID cf r =
     (if ProposalBlock r \<noteq> None \<and> ProposalBlockParts r \<noteq> None then proposal_bid cf r
      else case rs_Proposal r of
             Some p \<Rightarrow> if rs_Height r = prop_Height p \<and> rs_Round r = prop_Round p then Ret (prop_BlockID p)
                        else proposal_bid cf r
           | None \<Rightarrow> proposal_bid cf r)"

definition signAndAddNilVote :: "cs_conf \<Rightarrow> cs_env \<Rightarrow> Node \<Rightarrow> Node exec" where
  "signAndAddNilVote cf env n = signAddVote cf env PrevoteType empty_bid n"

definition prevoter_signVote :: "cs_conf \<Rightarrow> cs_env \<Rightarrow> Node \<Rightarrow> Node exec" where
  "prevoter_signVote cf env n =
     exec_bind (shouldVoteBeSent cf (rs n)) (\<lambda>send.
       if \<not> send then signAndAddNilVote cf env n
       else exec_bind (rs_BlockID cf (rs n)) (\<lambda>blockID. signAddVote cf env PrevoteType blockID n))"

text \<open>Any other failure of \<open>ProcessProposal\<close> than a rejection or an invalid block panics.\<close>

fun prevote_tolerates :: "cs_error \<Rightarrow> bool" where
  "prevote_tolerates (ErrInvalidState ErrBlockRejected) = True"
| "prevote_tolerates (ErrInvalidState (ErrInvalidBlock _)) = True"
| "prevote_tolerates _ = False"

definition prevoter_Do :: "cs_conf \<Rightarrow> cs_env \<Rightarrow> Node \<Rightarrow> unit cs" where
  "prevoter_Do cf env n =
     exec_bind (isValidForPrevote (cf_sl cf) n) (\<lambda>(n, r). case r of
       Inl _ \<Rightarrow> exec_bind (signAndAddNilVote cf env n) (\<lambda>n. Ret (n, Inr ()))
     | Inr _ \<Rightarrow>
         exec_bind (ensureProcess cf env (rs_Round (rs n)) n) (\<lambda>(n, r). case r of
           Inl e \<Rightarrow> if \<not> prevote_tolerates e then Panic
                      else exec_bind (signAndAddNilVote cf env n) (\<lambda>n. Ret (n, Inl e))
         | Inr _ \<Rightarrow>
             exec_bind (mustValidate cf env n) (\<lambda>n.
             exec_bind (prevoter_signVote cf env n) (\<lambda>n. Ret (n, Inr ())))))"

section \<open>Proposals\<close>

definition roundStateRefusal :: "Proposal \<Rightarrow> RoundState \<Rightarrow> cs_error + unit" where
  "roundStateRefusal p r =
     (if (case rs_Commit r of
            None \<Rightarrow> False
          | Some c \<Rightarrow> commit_Height c = prop_Height p \<and> commit_Round c = prop_Round p
                      \<and> \<not> BlockID_Equals (prop_BlockID p) (commit_BlockID c))
      then Inl ErrInvalidProposalForCommit
      else if ProposalBlockParts r \<noteq> None \<and> \<not> HasHeader (ProposalBlockParts r) (bid_PartSetHeader (prop_BlockID p))
      then Inl ErrInvalidProposalForPartSet
      else Inr ())"

definition verifyProposalForNonValidatorSet :: "Proposal \<Rightarrow> RoundState \<Rightarrow> cs_error + unit" where
  "verifyProposalForNonValidatorSet p r =
     (case rs_Commit r of
        None \<Rightarrow> Inl ErrUnableToVerifyProposal
      | Some c \<Rightarrow>
          if commit_Height c \<noteq> prop_Height p \<or> commit_Round c \<noteq> prop_Round p then Inl ErrUnableToVerifyProposal
          else if \<not> BlockID_Equals (prop_BlockID p) (commit_BlockID c) then Inl ErrInvalidProposalForCommit
          else Inr ())"

abbreviation (input) baseMessageCost :: nat where "baseMessageCost \<equiv> 1"

definition verifyProposal :: "cs_conf \<Rightarrow> cs_env \<Rightarrow> nat budget \<Rightarrow> Proposal \<Rightarrow> Node \<Rightarrow> unit cs" where
  "verifyProposal cf env budget p n =
     (if prop_Height p \<noteq> rs_Height (rs n) \<or> prop_Round p \<noteq> rs_Round (rs n) then Ret (n, Inl ErrProposalHeightRound)
      else exec_bind (GetProposer (cf_sl cf) n) (\<lambda>(n, r). case r of
        Inl _ \<Rightarrow> Ret (n, Inl ErrGetProposer)
      | Inr proposer \<Rightarrow>
          (case roundStateRefusal p (rs n) of
             Inl e \<Rightarrow> if proposer = None then Panic else Ret (n, Inl e)
           | Inr _ \<Rightarrow>
               (case proposer of
                  None \<Rightarrow> Panic
                | Some v \<Rightarrow>
                    (case PubKey v of
                       None \<Rightarrow> Ret (n, verifyProposalForNonValidatorSet p (rs n))
                     | Some key \<Rightarrow>
                         if \<not> fst (allow budget baseMessageCost (ev_b env)) then Ret (n, Inl ErrProposalBudgetExhausted)
                         else (case st_Validators (prop_state n) of
                           None \<Rightarrow> Panic
                         | Some vs \<Rightarrow>
                             exec_bind (ProposalBlockSignID (sl_crypto (cf_sl cf)) (cf_penc cf) (st_ChainID (prop_state n))
                               (Proposal_ToProto (Some p)) (QuorumType vs) (opt_bytes (vs_QuorumHash vs))) (\<lambda>signID.
                             Ret (n, if VerifySignatureDigest (sl_crypto (cf_sl cf)) key signID (prop_Signature p)
                                     then Inr () else Inl ErrInvalidProposalSignature)))))))) "

definition Proposaler_Set :: "cs_conf \<Rightarrow> cs_env \<Rightarrow> nat budget \<Rightarrow> Proposal \<Rightarrow> int \<Rightarrow> Node \<Rightarrow> unit cs" where
  "Proposaler_Set cf env budget p receivedAt n =
     (let r = rs n in
      if rs_Proposal r \<noteq> None then Ret (n, Inr ())
      else if prop_Height p \<noteq> rs_Height r \<or> prop_Round p \<noteq> rs_Round r then Ret (n, Inr ())
      else if (case rs_Commit r of
                 None \<Rightarrow> False
               | Some c \<Rightarrow> HasHeader (ProposalBlockParts r) (bid_PartSetHeader (commit_BlockID c))
                           \<and> \<not> BlockID_Equals (prop_BlockID p) (commit_BlockID c)) then Ret (n, Inr ())
      else if POLRound p < - 1 \<or> (POLRound p \<ge> 0 \<and> POLRound p \<ge> prop_Round p) then Ret (n, Inl ErrInvalidProposalPOLRound)
      else if CoreChainLockedHeight p < int (LastCoreChainLockedBlockHeight (prop_state n))
      then Ret (n, Inl ErrInvalidProposalCoreHeight)
      else step_bind
        (case (ProposalBlock r, ProposalBlockParts r) of
           (Some block, Some _) \<Rightarrow>
             exec_bind (proposal_bid cf r) (\<lambda>blockID.
               Ret (n, if \<not> BlockID_Equals blockID (prop_BlockID p) then Inl ErrInvalidProposalBlockID
                       else if int (hdr_CoreChainLockedHeight (block_Header block)) \<noteq> CoreChainLockedHeight p
                       then Inl ErrInvalidProposalCoreHeight else Inr ()))
         | _ \<Rightarrow> Ret (n, Inr ())) (\<lambda>_ n.
        step_bind (verifyProposal cf env budget p n) (\<lambda>_ n.
          let n = upd_rs (\<lambda>r. r\<lparr>rs_Proposal := Some p, ProposalReceiveTime := receivedAt\<rparr>) n
          in Ret (if ProposalBlockParts (rs n) = None
                  then upd_rs (\<lambda>r. r\<lparr>ProposalBlockParts := Some (NewPartSetFromHeader (bid_PartSetHeader (prop_BlockID p)))\<rparr>) n
                  else n, Inr ()))))"

definition checkValidBlock :: "Node \<Rightarrow> bool exec" where
  "checkValidBlock n =
     (case ValidBlock (rs n) of
        None \<Rightarrow> Ret False
      | Some b \<Rightarrow>
          if rs_Height (rs n) = InitialHeight (prop_state n)
          then Ret (hdr_Time (block_Header b) = LastBlockTime (prop_state n))
          else IsTimely (block_Header b) (ValidBlockRecvTime (rs n))
                 (SynchronyParamsOrDefaults (cp_Synchrony (st_ConsensusParams (prop_state n)))) (ValidRound (rs n)))"

definition createProposalBlock :: "cs_conf \<Rightarrow> cs_env \<Rightarrow> int \<Rightarrow> Node \<Rightarrow> (Block option \<times> PartSet option) cs" where
  "createProposalBlock cf env round n =
     step_bind (be_create cf env round n) (\<lambda>block n. case block of
       None \<Rightarrow> Ret (n, Inr (None, None))
     | Some b \<Rightarrow>
         exec_bind (MakePartSet (sl_block (cf_sl cf)) (Some b) BlockPartSizeBytes) (\<lambda>ps.
           Ret (n, case ps of Inl _ \<Rightarrow> Inl ErrCreateProposal | Inr ps \<Rightarrow> Inr (Some b, Some ps))))"

text \<open>A missing block is dereferenced for its chain-locked height.\<close>

definition makeProposal :: "cs_conf \<Rightarrow> int \<Rightarrow> int \<Rightarrow> int \<Rightarrow> Block option \<Rightarrow> PartSet option \<Rightarrow> Proposal exec" where
  "makeProposal cf height round polRound block blockParts =
     exec_bind (Block_BlockID (sl_block (cf_sl cf)) block blockParts) (\<lambda>propBlockID. case block of
       None \<Rightarrow> Panic
     | Some b \<Rightarrow> Ret (SetCoreChainLockUpdate (block_CoreChainLock b)
         (NewProposal height (int (hdr_CoreChainLockedHeight (block_Header b))) round polRound propBlockID
            (hdr_Time (block_Header b)))))"

definition signProposal_cs :: "cs_conf \<Rightarrow> cs_env \<Rightarrow> int \<Rightarrow> Proposal \<Rightarrow> Node \<Rightarrow> (cs_error + Proposal) exec" where
  "signProposal_cs cf env height p n =
     (if ValidatorsAtHeight (prop_state n) height = None \<or> cf_pv cf = None then Panic
      else Ret (case ev_SignProposal env (Proposal_ToProto (Some p)) of
                  None \<Rightarrow> Inl ErrSignProposal | Some sig \<Rightarrow> Inr (p\<lparr>prop_Signature := sig\<rparr>)))"

fun part_outputs :: "int \<Rightarrow> int \<Rightarrow> nat list \<Rightarrow> PartSet \<Rightarrow> cs_output list exec" where
  "part_outputs height round [] ps = Ret []"
| "part_outputs height round (i # is) ps =
     exec_bind (GetPart ps (int i)) (\<lambda>part.
     exec_bind (part_outputs height round is ps) (\<lambda>os. Ret (OutBlockPart height round part # os)))"

definition blockPartsToMessages :: "int \<Rightarrow> int \<Rightarrow> PartSet option \<Rightarrow> cs_output list exec" where
  "blockPartsToMessages height round ps =
     (case ps of None \<Rightarrow> Ret [] | Some s \<Rightarrow> part_outputs height round [0..<ps_Total ps] s)"

definition Proposaler_Create :: "cs_conf \<Rightarrow> cs_env \<Rightarrow> int \<Rightarrow> int \<Rightarrow> Node \<Rightarrow> unit cs" where
  "Proposaler_Create cf env height round n =
     exec_bind (checkValidBlock n) (\<lambda>usable.
     step_bind (if usable then Ret (n, Inr (ValidBlock (rs n), ValidBlockParts (rs n), ValidRound (rs n)))
                else step_bind (createProposalBlock cf env round n) (\<lambda>(b, ps) n. Ret (n, Inr (b, ps, - 1))))
       (\<lambda>(block, blockParts, polRound) n.
     exec_bind (makeProposal cf height round polRound block blockParts) (\<lambda>p.
     exec_bind (signProposal_cs cf env height p n) (\<lambda>signed. case signed of
       Inl e \<Rightarrow> Ret (n, Inl e)
     | Inr p \<Rightarrow>
         exec_bind (blockPartsToMessages (rs_Height (rs n)) (rs_Round (rs n)) blockParts) (\<lambda>msgs.
           Ret (fold out (OutProposal p # msgs) n, Inr ()))))))"

section \<open>The proposal updater\<close>

definition updateStateData :: "cs_conf \<Rightarrow> BlockID \<Rightarrow> Node \<Rightarrow> unit cs" where
  "updateStateData cf blockID n =
     (let n = replaceProposalBlockOnLockedBlock (cf_sl cf) blockID n
      in if holdsProposalBlock (cf_sl cf) blockID n then Ret (n, Inr ())
         else (case Save (retargetTo (cf_sl cf) blockID n) of
                 (n, Inl e) \<Rightarrow> Ret (n, Inl e)
               | (n, Inr _) \<Rightarrow> Ret (publish EvValidBlock n, Inr ())))"

end
