(* ===== verification/Consensus.thy ===== *)
theory Consensus
  imports Consensus_Node
begin

text \<open>
  The actions of the consensus state machine and the routine that runs them:
  \<open>src/internal/consensus/state_enter_*.go\<close>, \<open>state_add_vote.go\<close>, \<open>state_add_commit.go\<close>,
  \<open>state_try_add_commit.go\<close>, \<open>state_try_finalize_commit.go\<close>, \<open>state_apply_commit.go\<close>,
  \<open>state_add_prop_block.go\<close>, \<open>msg_handlers.go\<close> and the receive routine of \<open>state.go\<close>.

  The controller looks up the action of an event; here an action calls the other actions directly. An action
  returns the node and its error; what the source ignores with \<open>_ =\<close> is ignored here too, and the deferred
  part of an action is what follows its body. The middlewares of \<open>AddVote\<close> are applied to the result of the next
  one, which is the number of the vote added and the error. A handler error is logged and dropped by the message
  middleware, so the routine saves the state after every message. A panic ends the routine.

  Left out are metrics, log lines, the write of a message to the log of the node, which decides nothing but a panic
  for an own message, and the wait for the verification budget, which is \<open>ev_affordable\<close>.
\<close>

section \<open>Entering steps\<close>

definition EnterPrevote :: "cs_conf \<Rightarrow> cs_env \<Rightarrow> int \<Rightarrow> int \<Rightarrow> Node \<Rightarrow> unit cs" where
  "EnterPrevote cf env height round n =
     (if rs_Height (rs n) \<noteq> height \<or> round < rs_Round (rs n)
         \<or> (rs_Round (rs n) = round \<and> RoundStepPrevote \<le> rs_Step (rs n)) then Ret (n, Inr ())
      else exec_bind (prevoter_Do cf env n) (\<lambda>(n, r).
           exec_bind (updateRoundStep (cf_sl cf) round RoundStepPrevote n) (\<lambda>n.
           Ret (PublishNewRoundStepEvent n, r))))"

definition EnterPropose_body :: "cs_conf \<Rightarrow> cs_env \<Rightarrow> int \<Rightarrow> int \<Rightarrow> bool \<Rightarrow> bool \<Rightarrow> Node \<Rightarrow> unit cs" where
  "EnterPropose_body cf env height round isProp applyingCommit n =
     (let n = ScheduleTimeout (proposeTimeout (cf_config cf) round n) height round RoundStepPropose n
      in if \<not> isProp then
           exec_bind (GetProposer (cf_sl cf) n) (\<lambda>(n, r). case r of
             Inl _ \<Rightarrow> Ret (n, Inr ()) | Inr None \<Rightarrow> Panic | Inr (Some _) \<Rightarrow> Ret (n, Inr ()))
         else if applyingCommit then Ret (n, Inr ())
         else if cf_proposeReplay cf then Ret (n, Inr ())
         else
           let (t, may) = mayPropose (ev_now env) height (nd_catchup n);
               n = n\<lparr>nd_catchup := t\<rparr>
           in if \<not> may then Ret (n, Inr ()) else Proposaler_Create cf env height round n)"

definition proposerWaitTime :: "int \<Rightarrow> int \<Rightarrow> int" where
  "proposerWaitTime t bt = (if bt > t then time_sub bt t else 0)"

definition EnterPropose :: "cs_conf \<Rightarrow> cs_env \<Rightarrow> int \<Rightarrow> int \<Rightarrow> Node \<Rightarrow> unit cs" where
  "EnterPropose cf env height round n =
     (if rs_Height (rs n) \<noteq> height \<or> round < rs_Round (rs n)
         \<or> (rs_Round (rs n) = round \<and> RoundStepPropose \<le> rs_Step (rs n)) then Ret (n, Inr ())
      else exec_bind (isProposer (cf_sl cf) (Some (cf_node cf)) n) (\<lambda>(n, isProp).
        let applyingCommit = (case rs_Commit (rs n) of
              None \<Rightarrow> False | Some c \<Rightarrow> holdsProposalBlock (cf_sl cf) (commit_BlockID c) n);
            pwt = proposerWaitTime (ev_now env) (LastBlockTime (sd_state n))
        in if isProp \<and> \<not> applyingCommit \<and> pwt > 0
           then Ret (ScheduleTimeout pwt height round RoundStepNewRound n, Inr ())
           else exec_bind (EnterPropose_body cf env height round isProp applyingCommit n) (\<lambda>(n, r).
                exec_bind (updateRoundStep (cf_sl cf) round RoundStepPropose n) (\<lambda>n.
                let n = PublishNewRoundStepEvent n
                in exec_bind (isProposalComplete n) (\<lambda>complete.
                   if complete then exec_bind (EnterPrevote cf env height round n) (\<lambda>(n, _). Ret (n, r))
                   else Ret (n, r))))))"

definition NewRoundEvent :: "cs_conf \<Rightarrow> Node \<Rightarrow> Node exec" where
  "NewRoundEvent cf n =
     exec_bind (GetProposer (cf_sl cf) n) (\<lambda>(n, r). case r of
       Inr (Some p) \<Rightarrow> exec_bind (GetByProTxHash (rs_Validators (rs n)) (ProTxHash p)) (\<lambda>_. Ret (publish EvNewRound n))
     | _ \<Rightarrow> Panic)"

definition set_round :: "int \<Rightarrow> Node \<Rightarrow> Node exec" where
  "set_round round n =
     exec_bind (votes_of (rs n)) (\<lambda>v. exec_bind (halts (hvs_SetRound round v)) (\<lambda>v.
       Ret (upd_rs (\<lambda>r. r\<lparr>rs_Votes := Some v\<rparr>) n)))"

definition EnterNewRound :: "cs_conf \<Rightarrow> cs_env \<Rightarrow> int \<Rightarrow> int \<Rightarrow> Node \<Rightarrow> unit cs" where
  "EnterNewRound cf env height round n =
     (if rs_Height (rs n) \<noteq> height \<or> round < rs_Round (rs n)
         \<or> (rs_Round (rs n) = round \<and> rs_Step (rs n) \<noteq> RoundStepNewHeight) then Ret (n, Inr ())
      else exec_bind (updateRoundStep (cf_sl cf) round RoundStepNewRound n) (\<lambda>n.
        let n = (if round = 0 then n
                 else
                   let n = upd_rs (\<lambda>r. r\<lparr>rs_Proposal := None, ProposalReceiveTime := zero_time\<rparr>) n
                   in case rs_Commit (rs n) of
                        Some c \<Rightarrow> retargetTo (cf_sl cf) (commit_BlockID c) n
                      | None \<Rightarrow> upd_rs (\<lambda>r. r\<lparr>ProposalBlock := None, ProposalBlockParts := None\<rparr>) n)
        in exec_bind (set_round (wrap32 (round + 1)) n) (\<lambda>n.
           step_bind (Ret (Save (upd_rs (\<lambda>r. r\<lparr>TriggeredTimeoutPrecommit := False\<rparr>) n))) (\<lambda>_ n.
           exec_bind (NewRoundEvent cf n) (\<lambda>n.
             let n = (if rs_Commit (rs n) \<noteq> None then publish EvValidBlock (PublishNewRoundStepEvent n) else n);
                 waitForTxs = (WaitForTxs (cf_config cf) \<and> round = 0
                   \<and> InitialHeight (sd_state n) \<noteq> rs_Height (rs n) \<and> \<not> ProposeNextBlockImmediately (rs n))
             in if waitForTxs
                then Ret (if CreateEmptyBlocksInterval (cf_config cf) > 0
                          then ScheduleTimeout (CreateEmptyBlocksInterval (cf_config cf)) height round RoundStepNewRound n
                          else n, Inr ())
                else if \<not> DontAutoPropose (cf_config cf) then EnterPropose cf env height round n
                else Ret (n, Inr ()))))))"

definition sign_precommit :: "cs_conf \<Rightarrow> cs_env \<Rightarrow> BlockID \<Rightarrow> Node \<Rightarrow> Node exec" where
  "sign_precommit cf env blockID n = signAddVote cf env PrecommitType blockID n"

text \<open>The block that a precommit locks.\<close>

definition lock_and_precommit :: "cs_conf \<Rightarrow> cs_env \<Rightarrow> int \<Rightarrow> BlockID \<Rightarrow> bool \<Rightarrow> Node \<Rightarrow> Node exec" where
  "lock_and_precommit cf env round blockID lockedMatches n =
     exec_bind (mustEnsureProcess cf env round n) (\<lambda>n.
     exec_bind (mustValidate cf env n) (\<lambda>n.
     if lockedMatches then
       sign_precommit cf env blockID (publish EvRelock (upd_rs (\<lambda>r. r\<lparr>LockedRound := round\<rparr>) n))
     else
       exec_bind (sign_precommit cf env blockID (publish EvLock (updateLockedBlock n))) (\<lambda>n.
       exec_bind (updateValidBlock (cf_sl cf) (ev_now env) n) (\<lambda>(n, updated).
         Ret (if updated then publish EvValidBlock n else n)))))"

definition EnterPrecommit_body :: "cs_conf \<Rightarrow> cs_env \<Rightarrow> int \<Rightarrow> Node \<Rightarrow> Node exec" where
  "EnterPrecommit_body cf env round n =
     exec_bind (votes_of (rs n)) (\<lambda>votes.
       let (blockID, ok) = TwoThirdsMajority (hvs_Prevotes votes round)
       in if \<not> ok then sign_precommit cf env empty_bid n
          else
            let n = publish EvPolka n
            in if fst (POLInfo votes) < round then Panic
               else if BlockID_IsNil blockID then sign_precommit cf env empty_bid n
               else (case (rs_Proposal (rs n), ProposalBlock (rs n)) of
                  (Some p, Some block) \<Rightarrow>
                    if Timestamp p \<noteq> hdr_Time (block_Header block) then sign_precommit cf env empty_bid n
                    else exec_bind (locked_bid cf (rs n)) (\<lambda>locked.
                         exec_bind (proposal_bid cf (rs n)) (\<lambda>proposed.
                         let lockedMatches = BlockID_Equals locked blockID;
                             proposalMatches = BlockID_Equals proposed blockID
                         in if \<not> proposalMatches \<and> lockedMatches then sign_precommit cf env empty_bid n
                            else if proposalMatches then lock_and_precommit cf env round blockID lockedMatches n
                            else sign_precommit cf env empty_bid (retargetTo (cf_sl cf) blockID n)))
                | _ \<Rightarrow> sign_precommit cf env empty_bid n))"

definition EnterPrecommit :: "cs_conf \<Rightarrow> cs_env \<Rightarrow> int \<Rightarrow> int \<Rightarrow> Node \<Rightarrow> unit cs" where
  "EnterPrecommit cf env height round n =
     (if rs_Height (rs n) \<noteq> height \<or> round < rs_Round (rs n)
         \<or> (rs_Round (rs n) = round \<and> RoundStepPrecommit \<le> rs_Step (rs n)) then Ret (n, Inr ())
      else exec_bind (EnterPrecommit_body cf env round n) (\<lambda>n.
           exec_bind (updateRoundStep (cf_sl cf) round RoundStepPrecommit n) (\<lambda>n. Ret (n, Inr ()))))"

definition EnterPrecommitWait :: "cs_conf \<Rightarrow> int \<Rightarrow> int \<Rightarrow> Node \<Rightarrow> unit cs" where
  "EnterPrecommitWait cf height round n =
     (if rs_Height (rs n) \<noteq> height \<or> round < rs_Round (rs n)
         \<or> (rs_Round (rs n) = round \<and> TriggeredTimeoutPrecommit (rs n)) then Ret (n, Inr ())
      else exec_bind (votes_of (rs n)) (\<lambda>votes.
        exec_bind (HasTwoThirdsAny (hvs_Precommits votes round)) (\<lambda>any.
          if \<not> any then Panic
          else
            let n = ScheduleTimeout (voteTimeout (cf_config cf) round n) height round RoundStepPrecommitWait n;
                n = upd_rs (\<lambda>r. r\<lparr>TriggeredTimeoutPrecommit := True\<rparr>) n
            in Ret (PublishNewRoundStepEvent n, Inr ()))))"

definition EnterPrevoteWait :: "cs_conf \<Rightarrow> int \<Rightarrow> int \<Rightarrow> Node \<Rightarrow> unit cs" where
  "EnterPrevoteWait cf height round n =
     (if rs_Height (rs n) \<noteq> height \<or> round < rs_Round (rs n)
         \<or> (rs_Round (rs n) = round \<and> RoundStepPrevoteWait \<le> rs_Step (rs n)) then Ret (n, Inr ())
      else exec_bind (votes_of (rs n)) (\<lambda>votes.
        exec_bind (HasTwoThirdsAny (hvs_Prevotes votes round)) (\<lambda>any.
          if \<not> any then Panic
          else
            let n = ScheduleTimeout (voteTimeout (cf_config cf) round n) height round RoundStepPrevoteWait n
            in exec_bind (updateRoundStep (cf_sl cf) round RoundStepPrevoteWait n) (\<lambda>n.
                 Ret (PublishNewRoundStepEvent n, Inr ())))))"

section \<open>Applying a commit\<close>

definition verifyCommitBlock :: "cs_conf \<Rightarrow> Commit \<Rightarrow> Node \<Rightarrow> cs_error + bool" where
  "verifyCommitBlock cf commit n =
     (case ProposalBlock (rs n) of
        None \<Rightarrow> Inr False
      | Some block \<Rightarrow>
          let bl = sl_block (cf_sl cf); blockID = commit_BlockID commit
          in if \<not> HasHeader (ProposalBlockParts (rs n)) (bid_PartSetHeader blockID) then Inl ErrInvalidCommitBlock
             else if \<not> HashesTo bl (Some block) (bid_Hash blockID) then Inl ErrInvalidCommitBlock
             else if StateID_Hash bl (Header_StateID (block_Header block)) \<noteq> StateID blockID then Inl ErrInvalidCommitBlock
             else Inr True)"

definition ApplyCommit :: "cs_conf \<Rightarrow> cs_env \<Rightarrow> Commit \<Rightarrow> Node \<Rightarrow> unit cs" where
  "ApplyCommit cf env commit n =
     (let block = ProposalBlock (rs n); blockParts = ProposalBlockParts (rs n)
      in case verifyCommitBlock cf commit n of
           Inl e \<Rightarrow> Ret (n, Inl e)
         | Inr ready \<Rightarrow>
     if \<not> ready then Ret (n, Inl ErrCommitWithoutBlock) else
     exec_bind (mustEnsureProcess cf env (commit_Round commit) n) (\<lambda>n.
     exec_bind (mustValidate cf env n) (\<lambda>n.
     let n = out (OutSaveBlock (the block) blockParts commit) n
     in if \<not> ev_walsync env then Panic
        else
          let n = out (OutEndHeight (commit_Height commit)) n
          in exec_bind (be_finalize cf env commit n) (\<lambda>(n, r). case r of
               Inl _ \<Rightarrow> Panic
             | Inr (state, resp) \<Rightarrow>
                 exec_bind (updateToState (cf_sl cf) (ev_now env) state (Some commit) (ev_bstore env) n) (\<lambda>n.
                   let n = (if fb_ProposeNextBlockImmediately resp
                            then upd_rs (\<lambda>r. r\<lparr>ProposeNextBlockImmediately := True\<rparr>) n else n)
                   in step_bind (Ret (Save n)) (\<lambda>_ n.
                        Ret (ScheduleRound0 (ev_now env) (PublishNewRoundStepEvent n), Inr ())))))))"

definition AddCommit :: "cs_conf \<Rightarrow> cs_env \<Rightarrow> Commit \<Rightarrow> Node \<Rightarrow> unit cs" where
  "AddCommit cf env commit n =
     step_bind (updateStateData cf (commit_BlockID commit) n) (\<lambda>_ n.
       if ProposalBlock (rs n) = None then Ret (n, Inr ())
       else exec_bind (updateRoundStep (cf_sl cf) (rs_Round (rs n)) RoundStepApplyCommit n) (\<lambda>n.
         let n = upd_rs (\<lambda>r. r\<lparr>CommitRound := commit_Round commit, rs_CommitTime := ev_now env\<rparr>) n
         in step_bind (ApplyCommit cf env commit (PublishNewRoundStepEvent n)) (\<lambda>_ n.
            if \<not> ev_publish env then Ret (n, Inl ErrPublishCommit)
            else
              let n = out (OutEvent (EvCommit commit)) n
              in exec_bind (EnterNewRound cf env (rs_Height (rs n)) 0 n) (\<lambda>(n, _). Ret (out OutStats n, Inr ())))))"

definition finalizeCommit :: "cs_conf \<Rightarrow> cs_env \<Rightarrow> int \<Rightarrow> Node \<Rightarrow> Node exec" where
  "finalizeCommit cf env height n =
     (if rs_Height (rs n) \<noteq> height \<or> rs_Step (rs n) \<noteq> RoundStepApplyCommit then Ret n
      else exec_bind (votes_of (rs n)) (\<lambda>votes.
        let precommits = hvs_Precommits votes (CommitRound (rs n));
            (blockID, ok) = TwoThirdsMajority precommits
        in if \<not> ok then Panic
           else if \<not> HasHeader (ProposalBlockParts (rs n)) (bid_PartSetHeader blockID) then Panic
           else if \<not> HashesTo (sl_block (cf_sl cf)) (ProposalBlock (rs n)) (bid_Hash blockID) then Panic
           else exec_bind (case precommits of None \<Rightarrow> Panic | Some vs \<Rightarrow> MakeCommit vs) (\<lambda>seenCommit.
             exec_bind (refuseUnprocessedCommit cf seenCommit n) (\<lambda>refused.
             exec_bind (case refused of
                 Inl e \<Rightarrow> Ret (n, Inl e)
               | Inr _ \<Rightarrow> exec_bind (mustEnsureProcess cf env (commit_Round seenCommit) n) (verifyCommitExtensions cf env seenCommit))
               (\<lambda>(n, r). case r of
                  Inl _ \<Rightarrow> Ret n
                | Inr _ \<Rightarrow> exec_bind (ApplyCommit cf env seenCommit n) (\<lambda>(n, _). Ret n))))))"

definition TryFinalizeCommit :: "cs_conf \<Rightarrow> cs_env \<Rightarrow> int \<Rightarrow> Node \<Rightarrow> unit cs" where
  "TryFinalizeCommit cf env height n =
     (if rs_Height (rs n) \<noteq> height then Panic
      else exec_bind (votes_of (rs n)) (\<lambda>votes.
        let (blockID, ok) = TwoThirdsMajority (hvs_Precommits votes (CommitRound (rs n)))
        in if \<not> ok \<or> BlockID_IsNil blockID then Ret (n, Inr ())
           else if \<not> HashesTo (sl_block (cf_sl cf)) (ProposalBlock (rs n)) (bid_Hash blockID) then Ret (n, Inr ())
           else exec_bind (finalizeCommit cf env height n) (\<lambda>n. Ret (n, Inr ()))))"

definition EnterCommit :: "cs_conf \<Rightarrow> cs_env \<Rightarrow> int \<Rightarrow> int \<Rightarrow> Node \<Rightarrow> unit cs" where
  "EnterCommit cf env height commitRound n =
     (if rs_Height (rs n) \<noteq> height \<or> RoundStepApplyCommit \<le> rs_Step (rs n) then Ret (n, Inr ())
      else exec_bind (votes_of (rs n)) (\<lambda>votes.
        let (blockID, ok) = TwoThirdsMajority (hvs_Precommits votes commitRound)
        in if \<not> ok then Panic
           else exec_bind (updateStateData cf blockID n) (\<lambda>(n, r).
             exec_bind (updateRoundStep (cf_sl cf) (rs_Round (rs n)) RoundStepApplyCommit n) (\<lambda>n.
               let n = upd_rs (\<lambda>r. r\<lparr>CommitRound := commitRound, rs_CommitTime := ev_now env\<rparr>) n
               in exec_bind (TryFinalizeCommit cf env height (PublishNewRoundStepEvent n)) (\<lambda>(n, _). Ret (n, r))))))"

section \<open>Commits from peers\<close>

text \<open>Only a stopped ABCI client makes a failed call fatal here.\<close>

definition verifyProcessedCommit :: "cs_conf \<Rightarrow> cs_env \<Rightarrow> Commit \<Rightarrow> Node \<Rightarrow> unit cs" where
  "verifyProcessedCommit cf env commit n =
     step_bind (on_state n (refuseUnprocessedCommit cf commit n)) (\<lambda>_ n.
     exec_bind (ensureProcess cf env (commit_Round commit) n) (\<lambda>(n, r). case r of
       Inl e \<Rightarrow> if e = ErrInvalidState ErrAppCall \<and> ev_stopped env then Panic else Ret (n, Inl e)
     | Inr _ \<Rightarrow>
         step_bind (validate cf env n) (\<lambda>_ n. verifyCommitExtensions cf env commit n)))"

definition verifyHeldCommit :: "cs_conf \<Rightarrow> cs_env \<Rightarrow> Commit \<Rightarrow> Node \<Rightarrow> unit cs" where
  "verifyHeldCommit cf env commit n =
     (case verifyCommitBlock cf commit n of
        Inl e \<Rightarrow> Ret (n, Inl e)
      | Inr verified \<Rightarrow> if \<not> verified then Ret (n, Inl ErrCommitWithoutBlock) else verifyProcessedCommit cf env commit n)"

definition prepareCommitForApply :: "cs_conf \<Rightarrow> cs_env \<Rightarrow> nat budget \<Rightarrow> Commit \<Rightarrow> bool \<Rightarrow> Node \<Rightarrow> bool cs" where
  "prepareCommitForApply cf env budget commit ignoreProposalBlock n =
     exec_bind (readyToApplyCommit (cf_sl cf) commit ignoreProposalBlock budget (ev_b env) n) (\<lambda>(n, r). case r of
       Inl e \<Rightarrow> Ret (n, Inl (ErrReadyCommit e))
     | Inr verified \<Rightarrow>
         if \<not> verified then Ret (n, Inr False)
         else if ignoreProposalBlock then Ret (n, Inr True)
         else (case verifyCommitBlock cf commit n of
                 Inl e \<Rightarrow> Ret (n, Inl e)
               | Inr ready \<Rightarrow>
                   if \<not> ready then Ret (n, Inr False)
                   else step_bind (verifyProcessedCommit cf env commit n) (\<lambda>_ n. Ret (n, Inr True))))"

fun is_forged :: "cs_error \<Rightarrow> bool" where
  "is_forged (ErrReadyCommit (ErrReadyVerify (ErrInvalidCommitSignature _))) = True"
| "is_forged (ErrVerifyCommit (ErrInvalidCommitSignature _)) = True"
| "is_forged (ErrInvalidState (ErrLastCommit (ErrInvalidCommitSignature _))) = True"
| "is_forged _ = False"

definition handleCommitVerifyError :: "cs_error \<Rightarrow> string \<Rightarrow> nat \<Rightarrow> bool \<Rightarrow> Node \<Rightarrow> Node" where
  "handleCommitVerifyError e peerID connID fromReplay n =
     (if fromReplay \<or> \<not> is_forged e then n else out (OutPeerError peerID connID) n)"

definition queueCandidate ::
  "cs_conf \<Rightarrow> cs_env \<Rightarrow> nat budget \<Rightarrow> Commit \<Rightarrow> Commit \<Rightarrow> string \<Rightarrow> bool \<Rightarrow> Node \<Rightarrow> unit cs" where
  "queueCandidate cf env budget parked commit peerID fromReplay n =
     (case Commit_ValidateBasic commit of
        Inl e \<Rightarrow> Ret (n, Inl (ErrVerifyCommit e))
      | Inr _ \<Rightarrow>
          let sha = sl_sha (cf_sl cf)
          in exec_bind (newCommitKey sha (cf_marshal cf) commit) (\<lambda>key.
             exec_bind (newCommitKey sha (cf_marshal cf) parked) (\<lambda>parkedKey.
             if key = parkedKey \<or> cand_holds (rs_Height (rs n)) peerID key (nd_candidates n) then Ret (n, Inr ())
             else exec_bind (verifyCommitSignatures (cf_sl cf) (commit_BlockID commit) commit budget (ev_b env) n) (\<lambda>r. case r of
               Inl e \<Rightarrow> Ret (n, Inl (ErrVerifyCommit e))
             | Inr _ \<Rightarrow>
                 exec_bind (cand_add sha (cf_marshal cf) (ev_connected env) (rs_Height (rs n)) commit peerID fromReplay (nd_candidates n))
                   (\<lambda>c. Ret (n\<lparr>nd_candidates := c\<rparr>, Inr ()))))))"

text \<open>\<open>on_error\<close> is the return after a verification error: the sender may be reported.\<close>

definition on_error :: "(cs_error \<Rightarrow> Node \<Rightarrow> Node) \<Rightarrow> 'a cs \<Rightarrow> ('a \<Rightarrow> Node \<Rightarrow> 'b cs) \<Rightarrow> 'b cs" where
  "on_error h m k = exec_bind m (\<lambda>(n, r). case r of Inl e \<Rightarrow> Ret (h e n, Inl e) | Inr x \<Rightarrow> k x n)"

definition add_commit_now :: "cs_conf \<Rightarrow> cs_env \<Rightarrow> nat budget \<Rightarrow> Commit \<Rightarrow> (cs_error \<Rightarrow> Node \<Rightarrow> Node) \<Rightarrow> Node \<Rightarrow> unit cs" where
  "add_commit_now cf env budget commit report n =
     on_error report (prepareCommitForApply cf env budget commit False n) (\<lambda>verified n.
       if \<not> verified then Ret (if rs_Commit (rs n) \<noteq> None then publish EvValidBlock n else n, Inr ())
       else if \<not> holdsProposalBlock (cf_sl cf) (commit_BlockID commit) n then Ret (n, Inr ())
       else AddCommit cf env commit (upd_rs (\<lambda>r. r\<lparr>rs_Commit := Some commit\<rparr>) n))"

definition TryAddCommit :: "cs_conf \<Rightarrow> cs_env \<Rightarrow> Commit \<Rightarrow> string \<Rightarrow> nat \<Rightarrow> bool \<Rightarrow> Node \<Rightarrow> unit cs" where
  "TryAddCommit cf env commit peerID connID fromReplay n =
     (let budget = peer_budget env peerID fromReplay;
          report = (\<lambda>e. handleCommitVerifyError e peerID connID fromReplay)
      in case rs_Commit (rs n) of
           Some parked \<Rightarrow>
             if commit_Height commit = rs_Height (rs n)
             then on_error report (queueCandidate cf env budget parked commit peerID fromReplay n) (\<lambda>_ n. Ret (n, Inr ()))
             else Ret (n, Inr ())
         | None \<Rightarrow>
             if commit_Height commit = rs_Height (rs n) \<and> commit_Round commit > rs_Round (rs n) then
               on_error report (prepareCommitForApply cf env budget commit True n) (\<lambda>verified n.
                 if \<not> verified then add_commit_now cf env budget commit report n
                 else
                   let was_held = holdsProposalBlock (cf_sl cf) (commit_BlockID commit) n
                   in on_error (\<lambda>e n. report e (upd_rs (\<lambda>r. r\<lparr>rs_Commit := None\<rparr>) n))
                        (if was_held then verifyHeldCommit cf env commit n else Ret (n, Inr ())) (\<lambda>_ n.
                      step_bind (EnterNewRound cf env (rs_Height (rs n)) (commit_Round commit) n) (\<lambda>_ n.
                        if was_held \<and> holdsProposalBlock (cf_sl cf) (commit_BlockID commit) n
                        then AddCommit cf env commit n else Ret (n, Inr ()))))
             else add_commit_now cf env budget commit report n)"

section \<open>Block parts\<close>

text \<open>The commits in the order they are tried.\<close>

definition by_round :: "int option \<Rightarrow> Commit list \<Rightarrow> Commit list" where
  "by_round processed cs =
     sort_key (\<lambda>c. if processed = Some (commit_Round c) then - 1
                   else int (length (takeWhile (\<lambda>d. commit_Round d \<noteq> commit_Round c) cs))) cs"

fun try_commits :: "cs_conf \<Rightarrow> cs_env \<Rightarrow> Commit list \<Rightarrow> Node \<Rightarrow> (Node \<times> Commit option) exec" where
  "try_commits cf env [] n = Ret (n, None)"
| "try_commits cf env (commit # cs) n =
     exec_bind (verifyHeldCommit cf env commit n) (\<lambda>(n, r). case r of
       Inr _ \<Rightarrow> Ret (upd_rs (\<lambda>r. r\<lparr>rs_Commit := Some commit\<rparr>) n, Some commit)
     | Inl _ \<Rightarrow> try_commits cf env cs n)"

definition selectParkedCommit :: "cs_conf \<Rightarrow> cs_env \<Rightarrow> Commit \<Rightarrow> Node \<Rightarrow> Commit option cs" where
  "selectParkedCommit cf env parked n =
     (let n = upd_rs (\<lambda>r. r\<lparr>rs_Commit := None\<rparr>) n;
          (cands, queued) = cand_take (rs_Height (rs n)) (nd_candidates n);
          n = n\<lparr>nd_candidates := cands\<rparr>;
          processed = crs_Round (rs_Current (rs n))
      in exec_bind (processedFor cf processed (rs n)) (\<lambda>done.
         exec_bind (try_commits cf env (by_round (if done then Some processed else None) (parked # map cc_commit queued)) n)
           (\<lambda>(n, r). case r of
              Some commit \<Rightarrow> Ret (n, Inr (Some commit))
            | None \<Rightarrow> step_bind (Ret (Save n)) (\<lambda>_ n. Ret (n, Inr None)))))"

definition ProposalCompleted :: "cs_conf \<Rightarrow> cs_env \<Rightarrow> int \<Rightarrow> Node \<Rightarrow> unit cs" where
  "ProposalCompleted cf env height n =
     exec_bind (votes_of (rs n)) (\<lambda>votes.
       let (blockID, hasTwoThirds) = TwoThirdsMajority (hvs_Prevotes votes (rs_Round (rs n)))
       in step_bind
            (if hasTwoThirds \<and> \<not> BlockID_IsNil blockID \<and> ValidRound (rs n) < rs_Round (rs n)
             then exec_bind (proposal_bid cf (rs n)) (\<lambda>proposed.
                    if BlockID_Equals proposed blockID
                    then exec_bind (updateValidBlock (cf_sl cf) (ev_now env) n) (\<lambda>(n, _). Ret (Save n))
                    else Ret (n, Inr ()))
             else Ret (n, Inr ())) (\<lambda>_ n.
          exec_bind (isProposalComplete n) (\<lambda>complete.
            if rs_Step (rs n) \<le> RoundStepPropose \<and> complete then
              step_bind (EnterPrevote cf env height (rs_Round (rs n)) n) (\<lambda>_ n.
                if hasTwoThirds then EnterPrecommit cf env height (rs_Round (rs n)) n else Ret (n, Inr ()))
            else if rs_Step (rs n) = RoundStepApplyCommit then TryFinalizeCommit cf env height n
            else Ret (n, Inr ()))))"

text \<open>A proposal whose block ID is not the one of its block is dropped; else its unsigned fields are corrected.\<close>

definition settle_proposal :: "cs_conf \<Rightarrow> Block \<Rightarrow> Node \<Rightarrow> Node exec" where
  "settle_proposal cf block n =
     (case rs_Proposal (rs n) of
        None \<Rightarrow> Ret n
      | Some p \<Rightarrow>
          exec_bind (Block_BlockID (sl_block (cf_sl cf)) (Some block) (ProposalBlockParts (rs n))) (\<lambda>derived.
            if bid_Hash derived \<noteq> bid_Hash (prop_BlockID p)
               \<or> \<not> psh_Equals (bid_PartSetHeader derived) (bid_PartSetHeader (prop_BlockID p))
            then (case rs_Validators (rs n) of
                    None \<Rightarrow> Panic
                  | Some vals \<Rightarrow> exec_bind (Proposer vals) (\<lambda>v.
                      if v = None then Panic
                      else Ret (upd_rs (\<lambda>r. r\<lparr>rs_Proposal := None, ProposalReceiveTime := zero_time\<rparr>) n)))
            else Ret (upd_rs (\<lambda>r. r\<lparr>rs_Proposal := Some (p\<lparr>CoreChainLockedHeight := int (hdr_CoreChainLockedHeight (block_Header block)),
                   prop_BlockID := derived\<rparr>)\<rparr>) n)))"

text \<open>A complete set of parts is read and decoded. \<open>io.ReadAll\<close> returns what the parts hold.\<close>

definition complete_block :: "cs_conf \<Rightarrow> cs_env \<Rightarrow> PartSet \<Rightarrow> Node \<Rightarrow> (Node \<times> bool \<times> (cs_error + unit)) exec" where
  "complete_block cf env ps n =
     exec_bind (GetReader ps) (\<lambda>_.
     case cf_decode cf (held (parts ps)) of
       None \<Rightarrow> Ret (n, True, Inl ErrBlockBytes)
     | Some pb \<Rightarrow>
         (case BlockFromProto (sl_block (cf_sl cf)) (Some pb) of
            Inl _ \<Rightarrow> Ret (n, True, Inl ErrBlockBytes)
          | Inr block \<Rightarrow>
     exec_bind (settle_proposal cf block n) (\<lambda>n.
     case Save (upd_rs (\<lambda>r. r\<lparr>ProposalBlock := Some block\<rparr>) n) of
       (n, Inl e) \<Rightarrow> Ret (n, False, Inl e)
     | (n, Inr _) \<Rightarrow>
         exec_bind (step_bind (case rs_Commit (rs n) of
                      None \<Rightarrow> Ret (n, Inr None)
                    | Some parked \<Rightarrow> selectParkedCommit cf env parked n) (\<lambda>chosen n.
                    case chosen of
                      Some commit \<Rightarrow> AddCommit cf env commit n
                    | None \<Rightarrow> exec_bind (rs_BlockID cf (rs n)) (\<lambda>blockID.
                        Ret (publish (\<lambda>h r. EvCompleteProposal h r blockID) n, Inr ()))))
           (\<lambda>(n, r). Ret (n, True, r)))))"

text \<open>The result is whether the part was added, and the error.\<close>

definition addProposalBlockPart ::
  "cs_conf \<Rightarrow> cs_env \<Rightarrow> int \<Rightarrow> Part \<Rightarrow> Node \<Rightarrow> (Node \<times> bool \<times> (cs_error + unit)) exec" where
  "addProposalBlockPart cf env height part n =
     (if rs_Height (rs n) \<noteq> height then Ret (n, False, Inr ())
      else if ProposalBlockParts (rs n) = None then Ret (n, False, Inr ())
      else if \<not> ev_partok env then Ret (n, False, Inr ())
      else exec_bind (AddPart (sl_sha (cf_sl cf)) (ProposalBlockParts (rs n)) part) (\<lambda>(ps, r).
        let n = upd_rs (\<lambda>r. r\<lparr>ProposalBlockParts := ps\<rparr>) n
        in case (r, ps) of
             (Inl e, _) \<Rightarrow> Ret (n, False, Inl (ErrAddPart e))
           | (Inr new, Some s) \<Rightarrow>
               if ByteSize ps > bp_MaxBytes (cp_Block (st_ConsensusParams (sd_state n))) then Ret (n, new, Inl ErrBlockSize)
               else exec_bind (IsComplete ps) (\<lambda>complete.
                 if new \<and> complete then complete_block cf env s n else Ret (n, new, Inr ()))
           | (Inr new, None) \<Rightarrow> Panic))"

definition AddProposalBlockPart :: "cs_conf \<Rightarrow> cs_env \<Rightarrow> int \<Rightarrow> Part \<Rightarrow> Node \<Rightarrow> unit cs" where
  "AddProposalBlockPart cf env height part n =
     (let commitNotExist = (rs_Commit (rs n) = None)
      in exec_bind (addProposalBlockPart cf env height part n) (\<lambda>(n, added, r).
         exec_bind (case r of
             Inl e \<Rightarrow> Ret (n, Inl e)
           | Inr _ \<Rightarrow>
               let commitRejected = (\<not> commitNotExist \<and> rs_Commit (rs n) = None \<and> rs_Height (rs n) = height)
               in exec_bind (if added \<and> (commitNotExist \<or> commitRejected) then IsComplete (ProposalBlockParts (rs n)) else Ret False)
                    (\<lambda>complete. if complete then ProposalCompleted cf env height n else Ret (n, Inr ())))
           (\<lambda>(n, r). Ret (if added then out OutStats n else n, r))))"

section \<open>Votes\<close>

type_synonym add_vote = "(Node \<times> bool \<times> cs_error option) exec"

definition addVoteToVoteSet :: "cs_conf \<Rightarrow> cs_env \<Rightarrow> nat budget \<Rightarrow> VoteVerification option \<Rightarrow> Vote \<Rightarrow> Node \<Rightarrow> add_vote" where
  "addVoteToVoteSet cf env budget verified vote n =
     exec_bind (votes_of (rs n)) (\<lambda>votes.
     exec_bind (hvs_addVote (sl_crypto (cf_sl cf)) (cf_recover cf)
                 (case verified of Some ev \<Rightarrow> Evidence 0 ev | None \<Rightarrow> Check budget) (ev_b env) vote votes) (\<lambda>(votes, added, err, _).
       let n = upd_rs (\<lambda>r. r\<lparr>rs_Votes := Some votes\<rparr>) n
       in Ret (if \<not> added \<or> err \<noteq> None then (n, added, map_option ErrAddVote err)
               else (out (OutEvent (EvVote vote)) n, True, None))))"

definition addVoteUpdateValidBlockMw :: "cs_conf \<Rightarrow> cs_env \<Rightarrow> Vote \<Rightarrow> Node \<times> bool \<times> cs_error option \<Rightarrow> add_vote" where
  "addVoteUpdateValidBlockMw cf env vote r =
     (let (n, added, err) = r
      in if \<not> added \<or> err \<noteq> None then Ret r
         else exec_bind (votes_of (rs n)) (\<lambda>votes.
           let (blockID, ok) = TwoThirdsMajority (hvs_Prevotes votes (vote_Round vote))
           in if \<not> ok \<or> BlockID_IsNil blockID then Ret r
              else if ValidRound (rs n) \<ge> vote_Round vote \<or> vote_Round vote \<noteq> rs_Round (rs n) then Ret r
              else exec_bind (proposal_bid cf (rs n)) (\<lambda>proposed.
                   exec_bind (if BlockID_Equals proposed blockID
                              then exec_bind (updateValidBlock (cf_sl cf) (ev_now env) n) (\<lambda>(n, _). Ret n) else Ret n) (\<lambda>n.
                   case Save (retargetTo (cf_sl cf) blockID n) of
                     (n, Inl e) \<Rightarrow> Ret (n, added, Some e)
                   | (n, Inr _) \<Rightarrow> Ret (publish EvValidBlock n, added, err)))))"

definition addVoteDispatchPrevoteMw :: "cs_conf \<Rightarrow> cs_env \<Rightarrow> Vote \<Rightarrow> Node \<times> bool \<times> cs_error option \<Rightarrow> add_vote" where
  "addVoteDispatchPrevoteMw cf env vote r =
     (let (n, added, err) = r; done = (\<lambda>(n, _ :: cs_error + unit). Ret (n, added, err))
      in if \<not> added \<or> err \<noteq> None \<or> vote_Type vote \<noteq> PrevoteType then Ret r
         else exec_bind (votes_of (rs n)) (\<lambda>votes.
           let prevotes = hvs_Prevotes votes (vote_Round vote); height = rs_Height (rs n)
           in exec_bind (if rs_Round (rs n) < vote_Round vote then HasTwoThirdsAny prevotes else Ret False) (\<lambda>skip.
              if skip then exec_bind (EnterNewRound cf env height (vote_Round vote) n) done
              else if rs_Round (rs n) = vote_Round vote \<and> RoundStepPrevote \<le> rs_Step (rs n) then
                let (blockID, ok) = TwoThirdsMajority prevotes
                in exec_bind (if ok then isProposalComplete n else Ret False) (\<lambda>complete.
                   if ok \<and> (complete \<or> BlockID_IsNil blockID)
                   then exec_bind (EnterPrecommit cf env height (vote_Round vote) n) done
                   else exec_bind (HasTwoThirdsAny prevotes) (\<lambda>any.
                     if any then exec_bind (EnterPrevoteWait cf height (vote_Round vote) n) done else Ret r))
              else exec_bind (case rs_Proposal (rs n) of
                       None \<Rightarrow> Ret False
                     | Some p \<Rightarrow> if 0 \<le> POLRound p \<and> POLRound p = vote_Round vote then isProposalComplete n else Ret False)
                     (\<lambda>complete. if complete then exec_bind (EnterPrevote cf env height (rs_Round (rs n)) n) done else Ret r))))"

definition addVoteDispatchPrecommitMw :: "cs_conf \<Rightarrow> cs_env \<Rightarrow> Vote \<Rightarrow> Node \<times> bool \<times> cs_error option \<Rightarrow> add_vote" where
  "addVoteDispatchPrecommitMw cf env vote r =
     (let (n, added, err) = r; round = vote_Round vote; done = (\<lambda>(n, _ :: cs_error + unit). Ret (n, added, err))
      in if \<not> added \<or> err \<noteq> None \<or> vote_Type vote \<noteq> PrecommitType then Ret r
         else exec_bind (votes_of (rs n)) (\<lambda>votes.
           let precommits = hvs_Precommits votes round; height = rs_Height (rs n);
               (blockID, ok) = TwoThirdsMajority precommits
           in if \<not> ok then
                exec_bind (if rs_Round (rs n) \<le> round then HasTwoThirdsAny precommits else Ret False) (\<lambda>any.
                  if any
                  then exec_bind (EnterNewRound cf env height round n) (\<lambda>(n, _).
                       exec_bind (EnterPrecommitWait cf height round n) done)
                  else Ret r)
              else
                exec_bind (EnterNewRound cf env height round n) (\<lambda>(n, _).
                exec_bind (EnterPrecommit cf env height round n) (\<lambda>(n, _).
                if BlockID_IsNil blockID then exec_bind (EnterPrecommitWait cf height round n) done
                else exec_bind (EnterCommit cf env height round n) (\<lambda>(n, _).
                     exec_bind (EnterNewRound cf env (rs_Height (rs n)) 0 n) done)))))"

definition same_vote :: "(bytes \<Rightarrow> bytes) \<Rightarrow> Vote option \<Rightarrow> Vote \<Rightarrow> bool" where
  "same_vote sha existing vote =
     (case existing of
        None \<Rightarrow> False
      | Some e \<Rightarrow> BlockSignature e = BlockSignature vote
                 \<and> exts_Fingerprint sha (VoteExtensions e) = exts_Fingerprint sha (VoteExtensions vote))"

definition addVoteVerifyVoteExtensionMw ::
  "cs_conf \<Rightarrow> cs_env \<Rightarrow> nat budget \<Rightarrow> (VoteVerification option \<Rightarrow> Node \<Rightarrow> add_vote) \<Rightarrow> Vote \<Rightarrow> Node \<Rightarrow> add_vote" where
  "addVoteVerifyVoteExtensionMw cf env budget nxt vote n =
     (if vote_Type vote \<noteq> PrecommitType \<or> BlockID_IsNil (vote_BlockID vote) \<or> pv_ProTxHash cf = ValidatorProTxHash vote
      then nxt None n
      else exec_bind (votes_of (rs n)) (\<lambda>votes.
        exec_bind (getVoteSet votes (vote_Round vote) (vote_Type vote)) (\<lambda>vs.
        exec_bind (vset_GetByIndex vs (ValidatorIndex vote)) (\<lambda>existing.
        if same_vote (sl_sha (cf_sl cf)) existing vote then Ret (n, False, None)
        else case (st_Validators (sd_state n), GetByIndex (st_Validators (sd_state n)) (ValidatorIndex vote)) of
               (Some vals, Some val) \<Rightarrow>
                 exec_bind (VerifyVoteSignatures (sl_crypto (cf_sl cf)) 0 vote (st_ChainID (sd_state n)) (QuorumType vals)
                   (opt_bytes (vs_QuorumHash vals)) (PubKey val) (ProTxHash val) budget (ev_b env)) (\<lambda>(r, _). case r of
                   Inl e \<Rightarrow> Ret (n, False, Some (ErrVoteSignatures e))
                 | Inr verified \<Rightarrow>
                     exec_bind (ensureOwnRound cf env n) (\<lambda>(n, r). case r of
                       Inl e \<Rightarrow> Ret (n, False, Some e)
                     | Inr _ \<Rightarrow>
                         exec_bind (with_be (VerifyVoteExtension (ev_exec env) vote) n) (\<lambda>(n, r). case r of
                           Inl e \<Rightarrow> Ret (n, False, Some (ErrInvalidState e))
                         | Inr _ \<Rightarrow> nxt (Some verified) n)))
             | (None, _) \<Rightarrow> Panic
             | _ \<Rightarrow> Ret (n, False, Some ErrVoteIndex)))))"

definition addVoteValidateVoteMw :: "(Node \<Rightarrow> add_vote) \<Rightarrow> Vote \<Rightarrow> Node \<Rightarrow> add_vote" where
  "addVoteValidateVoteMw nxt vote n =
     (if vote_Height vote \<noteq> rs_Height (rs n) then Ret (n, False, None)
      else case rs_Validators (rs n) of
             None \<Rightarrow> Panic
           | Some vals \<Rightarrow>
               if \<not> HasPublicKeys vals then Ret (n, False, None)
               else if ValidatorIndex vote < 0 \<or> ValidatorIndex vote \<ge> ValidatorSet_Size (Some vals)
               then Ret (n, False, Some ErrVoteIndex)
               else nxt n)"

definition addVoteErrorMw :: "cs_conf \<Rightarrow> Vote \<Rightarrow> Node \<times> bool \<times> cs_error option \<Rightarrow> Node \<times> bool \<times> cs_error option" where
  "addVoteErrorMw cf vote r =
     (let (n, added, err) = r
      in case err of
           Some (ErrAddVote (ErrHvsVote (ErrConflictingVotes a b))) \<Rightarrow>
             if cf_pv cf = None then (n, added, Some ErrPrivValidatorNotSet)
             else if pv_ProTxHash cf = ValidatorProTxHash vote then r
             else (out (OutConflictingVotes a b) n, added, err)
         | _ \<Rightarrow> r)"

definition addVoteStatsMw :: "Node \<times> bool \<times> cs_error option \<Rightarrow> Node \<times> bool \<times> cs_error option" where
  "addVoteStatsMw r = (let (n, added, err) = r in if added then (out OutStats n, added, err) else r)"

definition add_prevote :: "cs_conf \<Rightarrow> cs_env \<Rightarrow> nat budget \<Rightarrow> Vote \<Rightarrow> Node \<Rightarrow> add_vote" where
  "add_prevote cf env budget vote n =
     exec_bind (addVoteValidateVoteMw (\<lambda>n.
       exec_bind (addVoteToVoteSet cf env budget None vote n) (\<lambda>r.
       exec_bind (addVoteUpdateValidBlockMw cf env vote r) (addVoteDispatchPrevoteMw cf env vote))) vote n)
       (\<lambda>r. Ret (addVoteStatsMw (addVoteErrorMw cf vote r)))"

definition add_precommit :: "cs_conf \<Rightarrow> cs_env \<Rightarrow> nat budget \<Rightarrow> Vote \<Rightarrow> Node \<Rightarrow> add_vote" where
  "add_precommit cf env budget vote n =
     exec_bind (addVoteValidateVoteMw (addVoteVerifyVoteExtensionMw cf env budget (\<lambda>verified n.
       exec_bind (addVoteToVoteSet cf env budget verified vote n) (addVoteDispatchPrecommitMw cf env vote)) vote) vote n)
       (\<lambda>r. Ret (addVoteStatsMw (addVoteErrorMw cf vote r)))"

definition AddVote_cs :: "cs_conf \<Rightarrow> cs_env \<Rightarrow> Vote \<Rightarrow> string \<Rightarrow> bool \<Rightarrow> Node \<Rightarrow> Node exec" where
  "AddVote_cs cf env vote peerID fromReplay n =
     (let budget = peer_budget env peerID fromReplay
      in case vote_Type vote of
           PrevoteType \<Rightarrow> exec_bind (add_prevote cf env budget vote n) (\<lambda>(n, _). Ret n)
         | PrecommitType \<Rightarrow> exec_bind (add_precommit cf env budget vote n) (\<lambda>(n, _). Ret n)
         | _ \<Rightarrow> Ret n)"

section \<open>The receive routine\<close>

datatype Message =
    ProposalMessage Proposal | BlockPartMessage int int Part | VoteMessage Vote | CommitMessage Commit

text \<open>
  A message comes with its peer, empty for the node itself, the generation of its connection and the time
  it was received.
\<close>

datatype cs_input =
    InMessage Message string nat int bool
  | InTimeout int int RoundStepType
  | InTxsAvailable
  | InPeerMaj23 int int SignedMsgType string BlockID

definition handleMessage :: "cs_conf \<Rightarrow> cs_env \<Rightarrow> Message \<Rightarrow> string \<Rightarrow> nat \<Rightarrow> int \<Rightarrow> bool \<Rightarrow> Node \<Rightarrow> Node exec" where
  "handleMessage cf env msg peerID connID receiveTime fromReplay n =
     (if peerID \<noteq> [] \<and> \<not> fromReplay \<and> \<not> ev_affordable env then Ret n
      else if peerID = [] \<and> \<not> fromReplay \<and> \<not> ev_walsync env then Panic
      else case msg of
             ProposalMessage p \<Rightarrow>
               exec_bind (Proposaler_Set cf env (peer_budget env peerID fromReplay) p receiveTime n) (\<lambda>(n, _). Ret n)
           | BlockPartMessage height round part \<Rightarrow> exec_bind (AddProposalBlockPart cf env height part n) (\<lambda>(n, _). Ret n)
           | VoteMessage vote \<Rightarrow> AddVote_cs cf env vote peerID fromReplay n
           | CommitMessage commit \<Rightarrow> exec_bind (TryAddCommit cf env commit peerID connID fromReplay n) (\<lambda>(n, _). Ret n))"

definition handleTimeout :: "cs_conf \<Rightarrow> cs_env \<Rightarrow> int \<Rightarrow> int \<Rightarrow> RoundStepType \<Rightarrow> Node \<Rightarrow> Node exec" where
  "handleTimeout cf env height round step n =
     (if height \<noteq> rs_Height (rs n) \<or> round < rs_Round (rs n)
         \<or> (round = rs_Round (rs n) \<and> step < rs_Step (rs n)) then Ret n
      else if step = RoundStepNewHeight then exec_bind (EnterNewRound cf env height 0 n) (\<lambda>(n, _). Ret n)
      else if step = RoundStepNewRound then exec_bind (EnterPropose cf env height round n) (\<lambda>(n, _). Ret n)
      else if step = RoundStepPropose
      then exec_bind (EnterPrevote cf env height round (publish EvTimeoutPropose n)) (\<lambda>(n, _). Ret n)
      else if step = RoundStepPrevoteWait
      then exec_bind (EnterPrecommit cf env height round (publish EvTimeoutWait n)) (\<lambda>(n, _). Ret n)
      else if step = RoundStepPrecommitWait
      then exec_bind (EnterPrecommit cf env height round (publish EvTimeoutWait n)) (\<lambda>(n, _).
           exec_bind (EnterNewRound cf env height (wrap32 (round + 1)) n) (\<lambda>(n, _). Ret n))
      else Panic)"

definition handleTxsAvailable :: "cs_conf \<Rightarrow> cs_env \<Rightarrow> Node \<Rightarrow> Node exec" where
  "handleTxsAvailable cf env n =
     (if rs_Round (rs n) \<noteq> 0 then Ret n
      else if rs_Step (rs n) = RoundStepNewHeight then
        Ret (if InitialHeight (sd_state n) = rs_Height (rs n) then n
             else ScheduleTimeout (wrap64 (time_sub (rs_StartTime (rs n)) (ev_now env) + 1000000)) (rs_Height (rs n)) 0
                    RoundStepNewRound n)
      else if rs_Step (rs n) = RoundStepNewRound
      then exec_bind (EnterPropose cf env (rs_Height (rs n)) (rs_Round (rs n)) n) (\<lambda>(n, _). Ret n)
      else Ret n)"

text \<open>The reactor records a peer's claim of a majority in the vote sets of the current height.\<close>

definition peer_maj23 :: "int \<Rightarrow> int \<Rightarrow> SignedMsgType \<Rightarrow> string \<Rightarrow> BlockID \<Rightarrow> Node \<Rightarrow> Node exec" where
  "peer_maj23 height round t peerID blockID n =
     (if height \<noteq> rs_Height (rs n) then Ret n
      else exec_bind (votes_of (rs n)) (\<lambda>v. exec_bind (hvs_SetPeerMaj23 height round t peerID blockID v) (\<lambda>(v, _).
        Ret (upd_rs (\<lambda>r. r\<lparr>rs_Votes := Some v\<rparr>) n))))"

definition handle :: "cs_conf \<Rightarrow> cs_env \<Rightarrow> cs_input \<Rightarrow> Node \<Rightarrow> Node exec" where
  "handle cf env inp n =
     (case inp of
        InMessage msg peerID connID receiveTime fromReplay \<Rightarrow> handleMessage cf env msg peerID connID receiveTime fromReplay n
      | InTimeout height round step \<Rightarrow> handleTimeout cf env height round step n
      | InTxsAvailable \<Rightarrow> handleTxsAvailable cf env n
      | InPeerMaj23 height round t peerID blockID \<Rightarrow> peer_maj23 height round t peerID blockID n)"

text \<open>A claim changes the vote sets that the store points to; all else is handled on a copy that is saved.\<close>

definition receive :: "cs_conf \<Rightarrow> cs_env \<Rightarrow> cs_input \<Rightarrow> Node \<Rightarrow> Node exec" where
  "receive cf env inp n =
     exec_bind (handle cf env inp (load n)) (\<lambda>n.
       Ret (case inp of InPeerMaj23 _ _ _ _ _ \<Rightarrow> n\<lparr>st_rs := rs n\<rparr> | _ \<Rightarrow> fst (Save n)))"

section \<open>The start of a node\<close>

definition zero_rs :: RoundState where
  "zero_rs = \<lparr>rs_Height = 0, rs_Round = 0, rs_Step = 0, rs_StartTime = zero_time, rs_CommitTime = zero_time,
     rs_Validators = None, rs_Selector = None, rs_Proposal = None, ProposalReceiveTime = zero_time, ProposalBlock = None,
     ProposalBlockParts = None, LockedRound = 0, LockedBlock = None, LockedBlockParts = None, rs_Commit = None,
     ValidRound = 0, ValidBlock = None, ValidBlockRecvTime = zero_time, ValidBlockParts = None, rs_Votes = None,
     CommitRound = 0, rs_LastCommit = None, rs_LastValidators = None, TriggeredTimeoutPrecommit = False,
     ProposeNextBlockImmediately = False, ProcessedBlockID = empty_bid, rs_Current = zero_crs\<rparr>"

definition NewState :: "catchupTracker option \<Rightarrow> Node" where
  "NewState t =
     \<lparr>rs = zero_rs, sd_state = zero_state, sd_version = 0, replayMode = False, st_rs = zero_rs, st_committed = zero_state,
      st_ver = 0, st_replay = False, be = \<lparr>be_cache = [], be_log = []\<rparr>, be_state = zero_state,
      be_expectations = \<lparr>ces_height = 0, byRound = []\<rparr>, prop_state = zero_state,
      nd_candidates = \<lparr>cand_height = 0, candidates = []\<rparr>, nd_catchup = t, nd_out = []\<rparr>"

text \<open>The state loaded is not empty; a missing commit for its last block panics.\<close>

definition updateStateFromStore :: "cs_conf \<Rightarrow> cs_env \<Rightarrow> smState \<Rightarrow> Commit option \<Rightarrow> Node \<Rightarrow> Node exec" where
  "updateStateFromStore cf env state lastCommit n =
     (let n = load n
      in if LastBlockHeight state > 0 \<and> lastCommit = None then Panic
         else
           let n = (if LastBlockHeight state > 0 then upd_rs (\<lambda>r. r\<lparr>rs_LastCommit := lastCommit\<rparr>) n else n)
           in exec_bind (updateToState (cf_sl cf) (ev_now env) state None (ev_bstore env) n) (\<lambda>n.
                Ret (PublishNewRoundStepEvent (fst (Save n)))))"

definition OnStart :: "cs_conf \<Rightarrow> cs_env \<Rightarrow> smState \<Rightarrow> Commit option \<Rightarrow> Node \<Rightarrow> Node exec" where
  "OnStart cf env state lastCommit n =
     exec_bind (updateStateFromStore cf env state lastCommit n) (\<lambda>n. Ret (ScheduleRound0 (ev_now env) n))"

end
