(* ===== verification/Consensus_Spec.thy ===== *)
theory Consensus_Spec
  imports Height_Votes Blocks
begin

text \<open>
  What a node promises to the others, without its code: the abstract consensus machine. Its state is what the
  safety of the algorithm depends on, the position of the node in the protocol, its lock, the votes it has
  seen and the log of the votes it signed, the timeouts it scheduled and the blocks it saved. The steps are those of
  the algorithm: move on, prevote, precommit, lock, learn a vote, schedule a timeout, apply a commit.

  The invariants proved here hold of every run of the machine: a node signs at most one prevote and
  one precommit in a round, it precommits a block only when a quorum prevoted it in that round, it prevotes against
  a block it precommitted only when a later quorum prevoted, and it saves a block only with a commit
  that the quorum signed. \<open>Consensus_Refine\<close> shows that the code takes only such steps.
\<close>

section \<open>The machine\<close>

datatype log_entry =
    LogVote Vote
  | LogTimeout int int
  | LogSave Block "PartSet option" Commit

record cstate =
  c_height :: int
  c_round :: int
  c_step :: nat
  c_vals :: "ValidatorSet option"
  c_lockRound :: int
  c_lockID :: "BlockID exec"
  c_votes :: "HeightVoteSet option"
  c_chain :: string
  c_log :: "log_entry list"

definition prevoted :: "cstate \<Rightarrow> int \<Rightarrow> BlockID \<Rightarrow> bool" where
  "prevoted s r B \<longleftrightarrow> (\<exists>V. c_votes s = Some V \<and> TwoThirdsMajority (hvs_Prevotes V r) = (B, True))"

definition may_prevote :: "cstate \<Rightarrow> BlockID \<Rightarrow> bool" where
  "may_prevote s B \<longleftrightarrow> c_lockRound s = - 1 \<or> c_lockID s = Ret B
     \<or> (\<exists>r. 0 \<le> r \<and> r < c_round s \<and> c_lockRound s \<le> r \<and> prevoted s r B)"

definition own_vote :: "cstate \<Rightarrow> SignedMsgType \<Rightarrow> Vote \<Rightarrow> bool" where
  "own_vote s t v \<longleftrightarrow> vote_Type v = t \<and> vote_Height v = c_height s \<and> vote_Round v = c_round s"

definition verified_commit :: "crypto_lib \<Rightarrow> ValidatorSet \<Rightarrow> string \<Rightarrow> int \<Rightarrow> Commit \<Rightarrow> bool" where
  "verified_commit cl vals chain h c \<longleftrightarrow> VerifyCommit cl vals chain (commit_BlockID c) h c = Ret (Inr ())
     \<and> \<not> BlockID_IsNil (commit_BlockID c)"

definition precommitted :: "cstate \<Rightarrow> Commit \<Rightarrow> bool" where
  "precommitted s c \<longleftrightarrow> (\<exists>V r vs B. c_votes s = Some V \<and> hvs_Precommits V r = Some vs \<and> maj23 vs = Some B
     \<and> \<not> BlockID_IsNil B \<and> MakeCommit vs = Ret c)"

inductive cspec :: "crypto_lib \<Rightarrow> bls_recover \<Rightarrow> block_lib \<Rightarrow> cstate \<Rightarrow> cstate \<Rightarrow> bool" for cl recover bl where
  move: "c_round s \<le> r \<Longrightarrow> (r = c_round s \<longrightarrow> c_step s \<le> st) \<Longrightarrow> cspec cl recover bl s (s\<lparr>c_round := r, c_step := st\<rparr>)"
| prevote: "c_step s < 4 \<Longrightarrow> own_vote s PrevoteType v \<Longrightarrow> BlockID_IsNil (vote_BlockID v) \<or> may_prevote s (vote_BlockID v)
    \<Longrightarrow> cspec cl recover bl s (s\<lparr>c_step := 4, c_log := c_log s @ [LogVote v]\<rparr>)"
| precommit: "c_step s < 6 \<Longrightarrow> own_vote s PrecommitType v \<Longrightarrow> BlockID_IsNil (vote_BlockID v)
    \<Longrightarrow> cspec cl recover bl s (s\<lparr>c_step := 6, c_log := c_log s @ [LogVote v]\<rparr>)"
| lock: "c_step s < 6 \<Longrightarrow> prevoted s (c_round s) B \<Longrightarrow> \<not> BlockID_IsNil B
    \<Longrightarrow> vs = [] \<or> (\<exists>v. vs = [LogVote v] \<and> own_vote s PrecommitType v \<and> vote_BlockID v = B)
    \<Longrightarrow> cspec cl recover bl s (s\<lparr>c_step := 6, c_lockRound := c_round s, c_lockID := Ret B, c_log := c_log s @ vs\<rparr>)"
| learn: "c_votes s = Some V \<Longrightarrow> hvs_step cl recover V V' \<Longrightarrow> hvs_round V' \<le> c_round s + 1
    \<Longrightarrow> cspec cl recover bl s (s\<lparr>c_votes := Some V'\<rparr>)"
| timeout: "r \<le> c_round s \<Longrightarrow> cspec cl recover bl s (s\<lparr>c_log := c_log s @ [LogTimeout (c_height s) r]\<rparr>)"
| finalize: "hdr_Height (block_Header b) = c_height s
    \<Longrightarrow> (\<exists>vals. c_vals s = Some vals \<and> verified_commit cl vals (c_chain s) (c_height s) c) \<or> precommitted s c
    \<Longrightarrow> Block_BlockID bl (Some b) ps = Ret (commit_BlockID c)
    \<Longrightarrow> NewHeightVoteSet (c_chain s) (c_height s + 1) vals' = Ret V
    \<Longrightarrow> cspec cl recover bl s (s\<lparr>c_height := c_height s + 1, c_round := 0, c_step := 1, c_vals := Some vals',
          c_lockRound := - 1, c_lockID := Ret nil_BlockID, c_votes := Some V,
          c_log := c_log s @ [LogSave b ps c]\<rparr>)"

abbreviation cspec_run :: "crypto_lib \<Rightarrow> bls_recover \<Rightarrow> block_lib \<Rightarrow> cstate \<Rightarrow> cstate \<Rightarrow> bool" where
  "cspec_run cl recover bl \<equiv> (cspec cl recover bl)\<^sup>*\<^sup>*"

definition hrs_le :: "int \<times> int \<times> nat \<Rightarrow> int \<times> int \<times> nat \<Rightarrow> bool" where
  "hrs_le = (\<lambda>(h, r, s) (h', r', s'). h < h' \<or> (h = h' \<and> (r < r' \<or> (r = r' \<and> s \<le> s'))))"

definition c_hrs :: "cstate \<Rightarrow> int \<times> int \<times> nat" where
  "c_hrs s = (c_height s, c_round s, c_step s)"

lemma hrs_le_refl [simp]: "hrs_le x x"
  by (cases x) (simp add: hrs_le_def)

lemma hrs_le_trans: "hrs_le x y \<Longrightarrow> hrs_le y z \<Longrightarrow> hrs_le x z"
  by (cases x; cases y; cases z) (auto simp: hrs_le_def)

lemma cspec_hrs: "cspec cl recover bl s s' \<Longrightarrow> hrs_le (c_hrs s) (c_hrs s')"
  by (induction rule: cspec.induct) (auto simp: hrs_le_def c_hrs_def)

lemma cspec_run_hrs:
  assumes "cspec_run cl recover bl s s'"
  shows "hrs_le (c_hrs s) (c_hrs s')"
  using assms by induction (auto intro: hrs_le_trans cspec_hrs)

section \<open>Votes are signed once\<close>

definition pos_le :: "cstate \<Rightarrow> Vote \<Rightarrow> bool" where
  "pos_le s v \<longleftrightarrow> vote_Height v < c_height s \<or> (vote_Height v = c_height s \<and> (vote_Round v < c_round s
     \<or> (vote_Round v = c_round s \<and> (vote_Type v = PrevoteType \<longrightarrow> 4 \<le> c_step s)
          \<and> (vote_Type v = PrecommitType \<longrightarrow> 6 \<le> c_step s))))"

definition signed :: "cstate \<Rightarrow> Vote set" where
  "signed s = {v. LogVote v \<in> set (c_log s)}"

definition same_slot :: "Vote \<Rightarrow> Vote \<Rightarrow> bool" where
  "same_slot v w \<longleftrightarrow> vote_Height v = vote_Height w \<and> vote_Round v = vote_Round w \<and> vote_Type v = vote_Type w"

definition base_inv :: "cstate \<Rightarrow> bool" where
  "base_inv s \<longleftrightarrow> 0 \<le> c_round s
     \<and> (\<forall>v \<in> signed s. (vote_Type v = PrevoteType \<or> vote_Type v = PrecommitType) \<and> pos_le s v)
     \<and> (\<forall>v \<in> signed s. \<forall>w \<in> signed s. same_slot v w \<longrightarrow> v = w)
     \<and> (\<forall>h r. LogTimeout h r \<in> set (c_log s) \<longrightarrow> h \<le> c_height s \<and> (h = c_height s \<longrightarrow> r \<le> c_round s))
     \<and> (\<forall>b ps c. LogSave b ps c \<in> set (c_log s) \<longrightarrow> hdr_Height (block_Header b) < c_height s)"

lemma signed_simps [simp]:
  "signed (s\<lparr>c_log := c_log s @ [LogVote v]\<rparr>) = insert v (signed s)"
  "signed (s\<lparr>c_log := c_log s @ [LogTimeout h r]\<rparr>) = signed s"
  "signed (s\<lparr>c_log := c_log s @ [LogSave b ps c]\<rparr>) = signed s"
  "signed (c_height_update f1 s) = signed s" "signed (c_round_update f2 s) = signed s"
  "signed (c_step_update f3 s) = signed s" "signed (c_vals_update f4 s) = signed s"
  "signed (c_lockRound_update f5 s) = signed s" "signed (c_lockID_update f6 s) = signed s"
  "signed (c_votes_update f7 s) = signed s"
  by (auto simp: signed_def)

lemma pos_le_fields [simp]:
  "pos_le (c_log_update f1 s) = pos_le s" "pos_le (c_votes_update f2 s) = pos_le s"
  "pos_le (c_lockRound_update f3 s) = pos_le s" "pos_le (c_lockID_update f4 s) = pos_le s"
  "pos_le (c_vals_update f5 s) = pos_le s"
  by (simp_all add: pos_le_def fun_eq_iff)

lemma pos_le_mono:
  assumes "hrs_le (c_hrs s) (c_hrs s')" "pos_le s v"
  shows "pos_le s' v"
proof -
  from assms(1) consider (h) "c_height s < c_height s'" | (r) "c_height s = c_height s'" "c_round s < c_round s'"
    | (s) "c_height s = c_height s'" "c_round s = c_round s'" "c_step s \<le> c_step s'"
    by (auto simp: hrs_le_def c_hrs_def)
  then show ?thesis
  proof cases
    case h
    then show ?thesis using assms(2) unfolding pos_le_def by linarith
  next
    case r
    then show ?thesis using assms(2) unfolding pos_le_def by linarith
  next
    case s
    then show ?thesis using assms(2) unfolding pos_le_def by (metis order_trans)
  qed
qed

lemma same_slot_sym: "same_slot v w \<longleftrightarrow> same_slot w v"
  by (auto simp: same_slot_def)

lemma own_vote_fresh:
  assumes "base_inv s" "own_vote s t v" "(t = PrevoteType \<and> c_step s < 4) \<or> (t = PrecommitType \<and> c_step s < 6)"
    "w \<in> signed s"
  shows "\<not> same_slot v w"
proof
  assume "same_slot v w"
  then have w: "vote_Height w = c_height s" "vote_Round w = c_round s" "vote_Type w = t"
    using assms(2) by (simp_all add: own_vote_def same_slot_def)
  have "pos_le s w" using assms(1,4) unfolding base_inv_def by blast
  then show False using assms(3) w(3) unfolding pos_le_def w(1,2) by auto
qed

lemma base_inv_sign:
  assumes "base_inv s" "own_vote s t v" "(t = PrevoteType \<and> c_step s < 4 \<and> st = 4) \<or> (t = PrecommitType \<and> c_step s < 6 \<and> st = 6)"
  shows "base_inv (s\<lparr>c_step := st, c_log := c_log s @ [LogVote v]\<rparr>)"
proof -
  let ?s = "s\<lparr>c_step := st, c_log := c_log s @ [LogVote v]\<rparr>"
  have sg: "signed ?s = insert v (signed s)" by (auto simp: signed_def)
  have le: "hrs_le (c_hrs s) (c_hrs ?s)" using assms(3) by (auto simp: hrs_le_def c_hrs_def)
  have fresh: "\<forall>w \<in> signed s. \<not> same_slot v w \<and> \<not> same_slot w v"
    using own_vote_fresh [OF assms(1,2)] assms(3) same_slot_sym by blast
  have "pos_le ?s v" using assms(2,3) by (auto simp: pos_le_def own_vote_def)
  moreover have "pos_le ?s w" if "w \<in> signed s" for w
    using pos_le_mono [OF le] assms(1) that by (auto simp: base_inv_def)
  moreover have "vote_Type v = PrevoteType \<or> vote_Type v = PrecommitType" using assms(2,3) by (auto simp: own_vote_def)
  ultimately show ?thesis using assms(1) fresh unfolding base_inv_def sg by auto
qed

lemma base_inv_frame:
  assumes "base_inv s" "hrs_le (c_hrs s) (c_hrs s')" "signed s' = signed s" "0 \<le> c_round s'"
    "\<forall>h r. LogTimeout h r \<in> set (c_log s') \<longrightarrow> LogTimeout h r \<in> set (c_log s) \<or> (h = c_height s' \<and> r \<le> c_round s')"
    "\<forall>b ps c. LogSave b ps c \<in> set (c_log s') \<longrightarrow> LogSave b ps c \<in> set (c_log s) \<or> hdr_Height (block_Header b) < c_height s'"
  shows "base_inv s'"
proof -
  have "c_height s \<le> c_height s'" using assms(2) by (auto simp: hrs_le_def c_hrs_def)
  then have "hdr_Height (block_Header b) < c_height s'" if "LogSave b ps c \<in> set (c_log s')" for b ps c
    using assms(1,6) that unfolding base_inv_def by fastforce
  moreover
  have "h \<le> c_height s' \<and> (h = c_height s' \<longrightarrow> r \<le> c_round s')" if "LogTimeout h r \<in> set (c_log s')" for h r
    using assms(1,2) spec [OF spec [OF assms(5)], of h r] that by (fastforce simp: base_inv_def hrs_le_def c_hrs_def)
  ultimately show ?thesis using assms(1,3,4) pos_le_mono [OF assms(2)] unfolding base_inv_def by auto
qed

lemma base_inv_step:
  assumes "cspec cl recover bl s s'" "base_inv s"
  shows "base_inv s'"
  using assms(1)
proof cases
  case (move r st)
  then show ?thesis using assms(2) cspec_hrs [OF assms(1)] by (intro base_inv_frame [OF assms(2)]) (auto simp: base_inv_def)
next
  case (prevote v)
  then show ?thesis using base_inv_sign [OF assms(2)] by auto
next
  case (precommit v)
  then show ?thesis using base_inv_sign [OF assms(2)] by auto
next
  case (lock B vs)
  let ?s = "s\<lparr>c_step := 6, c_log := c_log s @ vs\<rparr>"
  have "base_inv ?s"
  proof (cases "vs = []")
    case True
    then show ?thesis using lock(2)
      by (intro base_inv_frame [OF assms(2)]) (use assms(2) in \<open>auto simp: hrs_le_def c_hrs_def base_inv_def signed_def\<close>)
  next
    case False
    then show ?thesis using base_inv_sign [OF assms(2)] lock(2,5) by auto
  qed
  then show ?thesis unfolding lock(1) by (auto simp: base_inv_def pos_le_def signed_def)
next
  case (learn V V')
  then show ?thesis using assms(2) cspec_hrs [OF assms(1)] by (intro base_inv_frame [OF assms(2)]) (auto simp: base_inv_def)
next
  case (timeout r)
  then show ?thesis using assms(2) cspec_hrs [OF assms(1)]
    by (intro base_inv_frame [OF assms(2)]) (auto simp: base_inv_def signed_def)
next
  case (finalize b c ps vals' V)
  then show ?thesis using assms(2) cspec_hrs [OF assms(1)]
    by (intro base_inv_frame [OF assms(2)]) (auto simp: base_inv_def signed_def)
qed


section \<open>Locks and commits of one height\<close>

definition verified_vote :: "crypto_lib \<Rightarrow> ValidatorSet \<Rightarrow> string \<Rightarrow> nat \<Rightarrow> Vote \<Rightarrow> bool" where
  "verified_vote cl vals chain i v \<longleftrightarrow> i < length (vs_Validators vals) \<and> Vote_ValidateBasic v \<and> ValidatorIndex v = int i
     \<and> ValidatorProTxHash v = ProTxHash (vs_Validators vals ! i)
     \<and> Vote_Verify cl v chain (QuorumType vals) (quorum_hash vals) (PubKey (vs_Validators vals ! i))
         (ProTxHash (vs_Validators vals ! i)) = Ret (Inr ())"

definition vote_for :: "int \<Rightarrow> SignedMsgType \<Rightarrow> int \<Rightarrow> BlockID \<Rightarrow> Vote \<Rightarrow> bool" where
  "vote_for h t r B v \<longleftrightarrow> vote_Height v = h \<and> vote_Type v = t \<and> vote_Round v = r \<and> vote_BlockID v = B"

definition quorum_voted :: "crypto_lib \<Rightarrow> ValidatorSet \<Rightarrow> string \<Rightarrow> int \<Rightarrow> SignedMsgType \<Rightarrow> int \<Rightarrow> BlockID \<Rightarrow> bool" where
  "quorum_voted cl vals chain h t r B \<longleftrightarrow>
     (\<exists>S q. S \<subseteq> {..<length (vs_Validators vals)} \<and> QuorumVotingThresholdPower vals = Ret q \<and> q \<le> vpower vals S
        \<and> (\<forall>i \<in> S. \<exists>v. verified_vote cl vals chain i v \<and> vote_for h t r B v))"

definition signed_for :: "cstate \<Rightarrow> int \<Rightarrow> SignedMsgType \<Rightarrow> int \<Rightarrow> BlockID \<Rightarrow> bool" where
  "signed_for s h t r B \<longleftrightarrow> (\<exists>v \<in> signed s. vote_for h t r B v)"

definition committed :: "crypto_lib \<Rightarrow> ValidatorSet \<Rightarrow> string \<Rightarrow> int \<Rightarrow> Commit \<Rightarrow> bool" where
  "committed cl vals chain h c \<longleftrightarrow> verified_commit cl vals chain h c
     \<or> (\<not> BlockID_IsNil (commit_BlockID c) \<and> quorum_voted cl vals chain h PrecommitType (commit_Round c) (commit_BlockID c))"

definition votes_ok :: "crypto_lib \<Rightarrow> bls_recover \<Rightarrow> ValidatorSet \<Rightarrow> string \<Rightarrow> int \<Rightarrow> cstate \<Rightarrow> bool" where
  "votes_ok cl recover vals chain h s \<longleftrightarrow> (\<exists>V. c_votes s = Some V \<and> hvs_inv cl recover V \<and> hvs_valSet V = vals
     \<and> hvs_height V = h \<and> hvs_chainID V = chain \<and> hvs_round V \<le> c_round s + 1)"

definition lock_ok :: "crypto_lib \<Rightarrow> ValidatorSet \<Rightarrow> string \<Rightarrow> int \<Rightarrow> cstate \<Rightarrow> bool" where
  "lock_ok cl vals chain h s \<longleftrightarrow> - 1 \<le> c_lockRound s \<and> c_lockRound s \<le> c_round s
     \<and> (c_lockRound s = c_round s \<longrightarrow> 6 \<le> c_step s)
     \<and> (c_lockRound s \<noteq> - 1 \<longrightarrow> (\<exists>B. c_lockID s = Ret B \<and> quorum_voted cl vals chain h PrevoteType (c_lockRound s) B
          \<and> (\<forall>B'. \<not> BlockID_IsNil B' \<longrightarrow> signed_for s h PrecommitType (c_lockRound s) B' \<longrightarrow> B' = B)))
     \<and> (\<forall>r B. \<not> BlockID_IsNil B \<longrightarrow> signed_for s h PrecommitType r B \<longrightarrow> 0 \<le> r \<and> r \<le> c_lockRound s)"

definition good_log :: "crypto_lib \<Rightarrow> block_lib \<Rightarrow> ValidatorSet \<Rightarrow> string \<Rightarrow> int \<Rightarrow> cstate \<Rightarrow> bool" where
  "good_log cl bl vals chain h s \<longleftrightarrow>
     (\<forall>r B. \<not> BlockID_IsNil B \<longrightarrow> signed_for s h PrecommitType r B \<longrightarrow> quorum_voted cl vals chain h PrevoteType r B)
     \<and> (\<forall>r B r' B'. \<not> BlockID_IsNil B \<longrightarrow> signed_for s h PrecommitType r B \<longrightarrow> \<not> BlockID_IsNil B'
          \<longrightarrow> signed_for s h PrevoteType r' B' \<longrightarrow> r < r'
          \<longrightarrow> B' = B \<or> (\<exists>k. r \<le> k \<and> k < r' \<and> quorum_voted cl vals chain h PrevoteType k B'))
     \<and> (\<forall>b ps c. LogSave b ps c \<in> set (c_log s) \<longrightarrow> hdr_Height (block_Header b) = h
          \<longrightarrow> Block_BlockID bl (Some b) ps = Ret (commit_BlockID c) \<and> committed cl vals chain h c)"

definition height_inv ::
  "crypto_lib \<Rightarrow> bls_recover \<Rightarrow> block_lib \<Rightarrow> ValidatorSet \<Rightarrow> string \<Rightarrow> int \<Rightarrow> bool \<Rightarrow> cstate \<Rightarrow> bool" where
  "height_inv cl recover bl vals chain h past s \<longleftrightarrow> c_chain s = chain
     \<and> (past \<longrightarrow> h < c_height s \<or> (c_height s = h \<and> c_vals s = Some vals))
     \<and> (c_height s = h \<and> c_vals s = Some vals \<longrightarrow>
          votes_ok cl recover vals chain h s \<and> lock_ok cl vals chain h s \<and> good_log cl bl vals chain h s)
     \<and> (h < c_height s \<and> past \<longrightarrow> good_log cl bl vals chain h s)"

lemma signed_for_simps [simp]:
  "signed_for (s\<lparr>c_log := c_log s @ [LogVote v]\<rparr>) h t r B \<longleftrightarrow> vote_for h t r B v \<or> signed_for s h t r B"
  "signed_for (s\<lparr>c_log := c_log s @ [LogTimeout h' r']\<rparr>) h t r B = signed_for s h t r B"
  "signed_for (s\<lparr>c_log := c_log s @ [LogSave b ps c]\<rparr>) h t r B = signed_for s h t r B"
  "signed_for (c_height_update f1 s) h t r B = signed_for s h t r B"
  "signed_for (c_round_update f2 s) h t r B = signed_for s h t r B"
  "signed_for (c_step_update f3 s) h t r B = signed_for s h t r B"
  "signed_for (c_vals_update f4 s) h t r B = signed_for s h t r B"
  "signed_for (c_lockRound_update f5 s) h t r B = signed_for s h t r B"
  "signed_for (c_lockID_update f6 s) h t r B = signed_for s h t r B"
  "signed_for (c_votes_update f7 s) h t r B = signed_for s h t r B"
  by (auto simp: signed_for_def)

text \<open>A majority in the vote sets of the height is a quorum of verified votes.\<close>

lemma majority_quorum:
  assumes "crypto_ok cl" "hvs_inv cl recover V" "hvs_maj V r t = Some B" "IsVoteTypeValid t"
  shows "quorum_voted cl (hvs_valSet V) (hvs_chainID V) (hvs_height V) t r B"
proof -
  have "sets_ok cl recover V" using assms(2) by (simp add: hvs_inv_def)
  then obtain w where w: "\<forall>vs. w = Some vs \<longrightarrow> set_for cl recover V r t vs" "hvs_maj V r t = Option.bind w maj23"
    using getVoteSet_cases [OF _ assms(4)] by blast
  then obtain vs where vs: "set_for cl recover V r t vs" "maj23 vs = Some B" using assms(3) by (cases w) auto
  have f: "valSet vs = hvs_valSet V" "vset_chainID vs = hvs_chainID V" "vset_height vs = hvs_height V"
    "vset_round vs = r" "signedMsgType vs = t" "vset_inv cl vs"
    using vs(1) vset_reach_inv [OF assms(1)] by (auto simp: set_for_def)
  obtain S where "backed cl vs B S" using majority_backed [OF f(6) vs(2)] by blast
  then have b: "S \<subseteq> {..<length (vs_Validators (hvs_valSet V))}" "\<exists>q. QuorumVotingThresholdPower (hvs_valSet V) = Ret q \<and> q \<le> vpower (hvs_valSet V) S"
    "\<And>i. i \<in> S \<Longrightarrow> \<exists>v. vote_ok cl vs i v \<and> vote_BlockID v = B"
    by (auto simp: backed_def nvals_def f)
  have "\<exists>v. verified_vote cl (hvs_valSet V) (hvs_chainID V) i v \<and> vote_for (hvs_height V) t r B v" if "i \<in> S" for i
    using b(3) [OF that] unfolding vote_ok_def verified_vote_def vote_for_def f nvals_def by metis
  then show ?thesis unfolding quorum_voted_def using b(1,2) by metis
qed

lemma prevotes_majority:
  "TwoThirdsMajority (hvs_Prevotes V r) = (B, True) \<Longrightarrow> hvs_maj V r PrevoteType = Some B"
  by (auto simp: TwoThirdsMajority_def hvs_maj_def split: option.splits)

lemma precommits_majority:
  "hvs_Precommits V r = Some vs \<Longrightarrow> maj23 vs = Some B \<Longrightarrow> hvs_maj V r PrecommitType = Some B"
  by (simp add: hvs_maj_def)

lemma prevoted_quorum:
  assumes "crypto_ok cl" "votes_ok cl recover vals chain h s" "prevoted s r B"
  shows "quorum_voted cl vals chain h PrevoteType r B"
proof -
  obtain V where V: "c_votes s = Some V" "hvs_inv cl recover V" "hvs_valSet V = vals" "hvs_height V = h" "hvs_chainID V = chain"
    using assms(2) by (auto simp: votes_ok_def)
  then have "hvs_maj V r PrevoteType = Some B" using assms(3) prevotes_majority by (auto simp: prevoted_def)
  then show ?thesis using majority_quorum [OF assms(1) V(2)] V(3-5) by (auto simp: IsVoteTypeValid_def)
qed

lemma MakeCommit_fields:
  assumes "MakeCommit vs = Ret c"
  shows "commit_Height c = vset_height vs" "commit_Round c = vset_round vs" "maj23 vs = Some (commit_BlockID c)"
  using assms
  by (auto simp: MakeCommit_def NewCommit_def CopyToCommit_def Let_def exec_bind_Ret_iff split: if_splits option.splits)

lemma precommitted_quorum:
  assumes "crypto_ok cl" "votes_ok cl recover vals chain h s" "precommitted s c"
  shows "committed cl vals chain h c"
proof -
  obtain V where V: "c_votes s = Some V" "hvs_inv cl recover V" "hvs_valSet V = vals" "hvs_height V = h" "hvs_chainID V = chain"
    using assms(2) by (auto simp: votes_ok_def)
  then obtain r vs B where vs: "hvs_Precommits V r = Some vs" "maj23 vs = Some B" "\<not> BlockID_IsNil B" "MakeCommit vs = Ret c"
    using assms(3) by (auto simp: precommitted_def)
  have so: "sets_ok cl recover V" using V(2) by (simp add: hvs_inv_def)
  have "vset_round vs = r"
    using so vs(1) by (fastforce simp: hvs_Precommits_def sets_ok_def round_ok_def set_for_def split: option.splits)
  moreover have "quorum_voted cl vals chain h PrecommitType r B"
    using majority_quorum [OF assms(1) V(2) precommits_majority [OF vs(1,2)]] V(3-5) by (auto simp: IsVoteTypeValid_def)
  ultimately show ?thesis using MakeCommit_fields [OF vs(4)] vs(2,3) by (auto simp: committed_def)
qed

subsection \<open>The rules keep the invariant\<close>

lemma signed_for_pos:
  assumes "base_inv s" "signed_for s h t r B"
  shows "h \<le> c_height s" "h = c_height s \<Longrightarrow> r \<le> c_round s"
    "h = c_height s \<Longrightarrow> t = PrecommitType \<Longrightarrow> r = c_round s \<Longrightarrow> 6 \<le> c_step s"
proof -
  obtain v where v: "v \<in> signed s" "vote_for h t r B v" using assms(2) by (auto simp: signed_for_def)
  have p: "pos_le s v" using assms(1) v(1) unfolding base_inv_def by blast
  have f: "vote_Height v = h" "vote_Round v = r" "vote_Type v = t" using v(2) by (simp_all add: vote_for_def)
  show "h \<le> c_height s" "h = c_height s \<Longrightarrow> r \<le> c_round s"
    "h = c_height s \<Longrightarrow> t = PrecommitType \<Longrightarrow> r = c_round s \<Longrightarrow> 6 \<le> c_step s"
    using p unfolding pos_le_def f by linarith+
qed

lemma good_log_frame:
  assumes "good_log cl bl vals chain h s" "\<And>t r B. signed_for s' h t r B = signed_for s h t r B"
    "\<And>b ps c. LogSave b ps c \<in> set (c_log s') \<Longrightarrow> LogSave b ps c \<in> set (c_log s) \<or> hdr_Height (block_Header b) \<noteq> h"
  shows "good_log cl bl vals chain h s'"
  using assms(1,3) unfolding good_log_def assms(2) by blast

lemma lock_ok_frame:
  assumes "lock_ok cl vals chain h s" "\<And>r B. signed_for s' h PrecommitType r B = signed_for s h PrecommitType r B"
    "c_lockRound s' = c_lockRound s" "c_lockID s' = c_lockID s"
    "c_round s < c_round s' \<or> (c_round s = c_round s' \<and> c_step s \<le> c_step s')"
  shows "lock_ok cl vals chain h s'"
  using assms(1,5) unfolding lock_ok_def assms(2,3,4) by auto

lemma votes_ok_frame:
  assumes "votes_ok cl recover vals chain h s" "c_votes s' = c_votes s" "c_round s \<le> c_round s'"
  shows "votes_ok cl recover vals chain h s'"
  using assms by (fastforce simp: votes_ok_def)

text \<open>A step within the height the node is at is checked against that height only.\<close>

lemma height_inv_same:
  assumes "height_inv cl recover bl vals chain h past s" "c_height s' = c_height s" "c_vals s' = c_vals s" "c_chain s' = c_chain s"
    "\<And>b ps c. LogSave b ps c \<in> set (c_log s') \<Longrightarrow> LogSave b ps c \<in> set (c_log s)"
    "\<And>v. v \<in> signed s' \<Longrightarrow> v \<in> signed s \<or> vote_Height v = c_height s" "signed s \<subseteq> signed s'"
    "c_height s = h \<Longrightarrow> votes_ok cl recover vals chain h s \<Longrightarrow> lock_ok cl vals chain h s
       \<Longrightarrow> good_log cl bl vals chain h s
       \<Longrightarrow> votes_ok cl recover vals chain h s' \<and> lock_ok cl vals chain h s' \<and> good_log cl bl vals chain h s'"
  shows "height_inv cl recover bl vals chain h past s'"
proof -
  have "signed_for s' h t r B = signed_for s h t r B" if "h \<noteq> c_height s" for t r B
    using assms(6,7) that unfolding signed_for_def vote_for_def by blast
  then have "good_log cl bl vals chain h s'" if "h < c_height s" "good_log cl bl vals chain h s"
    using good_log_frame [OF that(2)] assms(5) that(1) by simp
  then show ?thesis using assms(1-4,8) unfolding height_inv_def by metis
qed

lemma good_log_prevote:
  assumes "crypto_ok cl" "base_inv s" "votes_ok cl recover vals chain h s" "lock_ok cl vals chain h s" "good_log cl bl vals chain h s"
    "c_height s = h" "own_vote s PrevoteType v" "c_step s < 4" "BlockID_IsNil (vote_BlockID v) \<or> may_prevote s (vote_BlockID v)"
  shows "good_log cl bl vals chain h (s\<lparr>c_step := 4, c_log := c_log s @ [LogVote v]\<rparr>)" (is "good_log _ _ _ _ _ ?s")
proof -
  have sg: "signed_for ?s h t r B \<longleftrightarrow> (t = PrevoteType \<and> r = c_round s \<and> B = vote_BlockID v) \<or> signed_for s h t r B" for t r B
    using assms(6,7) by (auto simp: signed_for_def signed_def vote_for_def own_vote_def)
  have "B' = B \<or> (\<exists>k. r \<le> k \<and> k < c_round s \<and> quorum_voted cl vals chain h PrevoteType k B')"
    if c: "\<not> BlockID_IsNil B" "signed_for s h PrecommitType r B" "\<not> BlockID_IsNil B'" "r < c_round s" "B' = vote_BlockID v" for r B B'
  proof -
    have l: "0 \<le> r" "r \<le> c_lockRound s" "c_lockRound s \<noteq> - 1" using assms(4) c(1,2) unfolding lock_ok_def by fastforce+
    then obtain B0 where B0: "c_lockID s = Ret B0" "quorum_voted cl vals chain h PrevoteType (c_lockRound s) B0"
      "\<And>B'. \<not> BlockID_IsNil B' \<Longrightarrow> signed_for s h PrecommitType (c_lockRound s) B' \<Longrightarrow> B' = B0"
      using assms(4) unfolding lock_ok_def by blast
    have lt: "c_lockRound s < c_round s" using assms(4,8) unfolding lock_ok_def by fastforce
    consider (id) "c_lockID s = Ret B'" | (pol) k where "k < c_round s" "c_lockRound s \<le> k" "prevoted s k B'"
      using assms(9) c(3,5) l(3) unfolding may_prevote_def by auto
    then show ?thesis
    proof cases
      case id
      then have "B' = B0" using B0(1) by simp
      then show ?thesis using B0(2) l(2) lt by blast
    next
      case pol
      then show ?thesis using prevoted_quorum [OF assms(1,3) pol(3)] l(2) by (intro disjI2 exI [of _ k]) simp
    qed
  qed
  then show ?thesis using assms(5) unfolding good_log_def sg by auto
qed

lemma good_log_precommit:
  assumes "base_inv s" "good_log cl bl vals chain h s" "c_height s = h" "own_vote s PrecommitType v"
    "BlockID_IsNil (vote_BlockID v) \<or> quorum_voted cl vals chain h PrevoteType (c_round s) (vote_BlockID v)"
    "c_log s' = c_log s @ [LogVote v]"
  shows "good_log cl bl vals chain h s'"
proof -
  have sg: "signed_for s' h t r B \<longleftrightarrow> (t = PrecommitType \<and> r = c_round s \<and> B = vote_BlockID v) \<or> signed_for s h t r B" for t r B
    using assms(3,4,6) by (auto simp: signed_for_def signed_def vote_for_def own_vote_def)
  have "r' \<le> c_round s" if "signed_for s h PrevoteType r' B'" for r' B'
    using signed_for_pos(2) [OF assms(1) that] assms(3) by simp
  then show ?thesis using assms(2,5,6) unfolding good_log_def sg by fastforce
qed

lemma lock_ok_lock:
  assumes "crypto_ok cl" "base_inv s" "votes_ok cl recover vals chain h s" "lock_ok cl vals chain h s"
    "c_height s = h" "c_step s < 6" "prevoted s (c_round s) B"
    "vs = [] \<or> (\<exists>v. vs = [LogVote v] \<and> own_vote s PrecommitType v \<and> vote_BlockID v = B)"
  shows "lock_ok cl vals chain h (s\<lparr>c_step := 6, c_lockRound := c_round s, c_lockID := Ret B, c_log := c_log s @ vs\<rparr>)"
    (is "lock_ok _ _ _ _ ?s")
proof -
  have sg: "signed_for ?s h PrecommitType r B' \<Longrightarrow> (r = c_round s \<and> B' = B) \<or> signed_for s h PrecommitType r B'" for r B'
    using assms(5,8) by (auto simp: signed_for_def signed_def vote_for_def own_vote_def)
  have old: "r \<noteq> c_round s" if "signed_for s h PrecommitType r B'" for r B'
    using signed_for_pos(3) [OF assms(2) that] assms(5,6) by auto
  have "0 \<le> c_round s" using assms(2) by (simp add: base_inv_def)
  moreover have "quorum_voted cl vals chain h PrevoteType (c_round s) B" by (rule prevoted_quorum [OF assms(1,3,7)])
  moreover have "0 \<le> r \<and> r \<le> c_round s" if "\<not> BlockID_IsNil B'" "signed_for ?s h PrecommitType r B'" for r B'
    using sg [OF that(2)] assms(4) that(1) \<open>0 \<le> c_round s\<close> unfolding lock_ok_def by fastforce
  moreover have "B' = B" if "signed_for ?s h PrecommitType (c_round s) B'" for B'
    using sg [OF that] old by auto
  ultimately show ?thesis unfolding lock_ok_def by auto
qed

lemma good_log_append:
  assumes "good_log cl bl vals chain h s" "c_log s' = c_log s @ [LogSave b ps c]"
    "hdr_Height (block_Header b) = h \<Longrightarrow> Block_BlockID bl (Some b) ps = Ret (commit_BlockID c) \<and> committed cl vals chain h c"
  shows "good_log cl bl vals chain h s'"
proof -
  have "signed_for s' h' t r B = signed_for s h' t r B" for h' t r B using assms(2) by (auto simp: signed_for_def signed_def)
  then show ?thesis using assms unfolding good_log_def by auto
qed

lemma NewHeightVoteSet_fields:
  assumes "NewHeightVoteSet chain h vals = Ret V"
  shows "hvs_chainID V = chain" "hvs_height V = h" "hvs_valSet V = vals" "hvs_round V = 0"
  using assms
  by (auto simp: NewHeightVoteSet_def hvs_Reset_def hvs_addRound_def exec_bind_Ret_iff Let_def split: if_splits option.splits)

lemma fresh_height:
  assumes "quorum_set vals" "base_inv s" "c_height s < h" "0 < h" "NewHeightVoteSet chain h vals = Ret V"
    "c_votes s' = Some V" "c_round s' = 0" "c_lockRound s' = - 1"
    "\<forall>e \<in> set (c_log s'). e \<in> set (c_log s) \<or> (\<exists>b ps c. e = LogSave b ps c \<and> hdr_Height (block_Header b) < h)"
  shows "votes_ok cl recover vals chain h s' \<and> lock_ok cl vals chain h s' \<and> good_log cl bl vals chain h s'"
proof -
  have no: "\<not> signed_for s' h t r B" for t r B
  proof
    assume "signed_for s' h t r B"
    then have "signed_for s h t r B" using assms(9) by (fastforce simp: signed_for_def signed_def)
    then show False using signed_for_pos(1) [OF assms(2)] assms(3) by fastforce
  qed
  have "hdr_Height (block_Header b) \<noteq> h" if "LogSave b ps c \<in> set (c_log s')" for b ps c
    using bspec [OF assms(9) that] assms(2,3) unfolding base_inv_def by fastforce
  then have "good_log cl bl vals chain h s'" using no unfolding good_log_def by blast
  moreover have "lock_ok cl vals chain h s'" using no assms(7,8) unfolding lock_ok_def by auto
  moreover have "votes_ok cl recover vals chain h s'"
    using NewHeightVoteSet_ok [OF assms(1,5)] NewHeightVoteSet_fields [OF assms(5)] assms(6,7) by (auto simp: votes_ok_def)
  ultimately show ?thesis by blast
qed

lemma height_inv_finalize:
  assumes "crypto_ok cl" "quorum_set vals" "base_inv s" "height_inv cl recover bl vals chain h past s" "0 < h"
    "hdr_Height (block_Header b) = c_height s"
    "(\<exists>vals. c_vals s = Some vals \<and> verified_commit cl vals (c_chain s) (c_height s) c) \<or> precommitted s c"
    "Block_BlockID bl (Some b) ps = Ret (commit_BlockID c)"
    "NewHeightVoteSet (c_chain s) (c_height s + 1) vals' = Ret V"
    "s' = s\<lparr>c_height := c_height s + 1, c_round := 0, c_step := 1, c_vals := Some vals',
          c_lockRound := - 1, c_lockID := Ret nil_BlockID, c_votes := Some V, c_log := c_log s @ [LogSave b ps c]\<rparr>"
  shows "height_inv cl recover bl vals chain h past s'"
proof -
  have ch: "c_chain s = chain" using assms(4) by (simp add: height_inv_def)
  have lg: "c_log s' = c_log s @ [LogSave b ps c]" using assms(10) by simp
  consider (now) "c_height s = h" | (coming) "c_height s + 1 = h" | (later) "h < c_height s" | (far) "c_height s + 1 < h"
    by linarith
  then show ?thesis
  proof cases
    case now
    have "good_log cl bl vals chain h s'" if "c_vals s = Some vals"
    proof -
      have i: "votes_ok cl recover vals chain h s" "good_log cl bl vals chain h s"
        using assms(4) now that unfolding height_inv_def by blast+
      have "committed cl vals chain h c"
        using assms(7) precommitted_quorum [OF assms(1) i(1)] now that ch by (auto simp: committed_def)
      then show ?thesis using good_log_append [OF i(2) lg] assms(8) by blast
    qed
    then show ?thesis using assms(4,10) now unfolding height_inv_def by auto
  next
    case coming
    have "votes_ok cl recover vals chain h s' \<and> lock_ok cl vals chain h s' \<and> good_log cl bl vals chain h s'" if "vals' = vals"
      by (rule fresh_height [OF assms(2,3)]) (use coming that assms(5,6,9,10) ch in auto)
    then show ?thesis using assms(4,10) coming unfolding height_inv_def by auto
  next
    case later
    then have "good_log cl bl vals chain h s'" if "past"
      using assms(4,6) that good_log_append [OF _ lg, of cl bl vals chain h] unfolding height_inv_def by auto
    then show ?thesis using assms(4,10) later unfolding height_inv_def by auto
  next
    case far
    then show ?thesis using assms(4,10) unfolding height_inv_def by auto
  qed
qed

lemma height_inv_step:
  assumes "cspec cl recover bl s s'" "crypto_ok cl" "quorum_set vals" "base_inv s"
    "height_inv cl recover bl vals chain h past s" "0 < h"
  shows "height_inv cl recover bl vals chain h past s'"
  using assms(1)
proof cases
  case (move r st)
  have sg: "signed_for s' h t r B = signed_for s h t r B" for t r B by (simp add: move(1))
  have l: "lock_ok cl vals chain h s \<Longrightarrow> lock_ok cl vals chain h s'"
    by (erule lock_ok_frame [OF _ sg]) (use move in auto)
  have g: "good_log cl bl vals chain h s \<Longrightarrow> good_log cl bl vals chain h s'"
    by (erule good_log_frame [OF _ sg]) (use move in auto)
  have v: "votes_ok cl recover vals chain h s \<Longrightarrow> votes_ok cl recover vals chain h s'"
    by (erule votes_ok_frame) (use move in auto)
  show ?thesis by (rule height_inv_same [OF assms(5)]) (use l g v in \<open>auto simp: move(1)\<close>)
next
  case (prevote v)
  have sg: "signed_for s' h PrecommitType r B = signed_for s h PrecommitType r B" for r B
    using prevote(1,3) by (auto simp: signed_for_def signed_def vote_for_def own_vote_def)
  have l: "lock_ok cl vals chain h s \<Longrightarrow> lock_ok cl vals chain h s'"
    by (erule lock_ok_frame [OF _ sg]) (use prevote in auto)
  have v: "votes_ok cl recover vals chain h s \<Longrightarrow> votes_ok cl recover vals chain h s'"
    by (erule votes_ok_frame) (use prevote in auto)
  have g: "good_log cl bl vals chain h s'"
    if "c_height s = h" "votes_ok cl recover vals chain h s" "lock_ok cl vals chain h s" "good_log cl bl vals chain h s"
    unfolding prevote(1) by (rule good_log_prevote [OF assms(2,4) that(2-4,1) prevote(3,2,4)])
  show ?thesis
    by (rule height_inv_same [OF assms(5)]) (use l g v prevote(3) in \<open>auto simp: prevote(1) signed_def own_vote_def\<close>)
next
  case (precommit v)
  have sg: "\<not> BlockID_IsNil B \<Longrightarrow> signed_for s' h PrecommitType r B = signed_for s h PrecommitType r B" for r B
    using precommit(1,4) by (auto simp: signed_for_def signed_def vote_for_def)
  have l: "lock_ok cl vals chain h s'" if "lock_ok cl vals chain h s"
    using that precommit(1,2) sg unfolding lock_ok_def by auto
  have v: "votes_ok cl recover vals chain h s \<Longrightarrow> votes_ok cl recover vals chain h s'"
    by (erule votes_ok_frame) (use precommit in auto)
  have g: "good_log cl bl vals chain h s'" if "c_height s = h" "good_log cl bl vals chain h s"
    by (rule good_log_precommit [OF assms(4) that(2,1) precommit(3)]) (use precommit in auto)
  show ?thesis
    by (rule height_inv_same [OF assms(5)]) (use l g v precommit(3) in \<open>auto simp: precommit(1) signed_def own_vote_def\<close>)
next
  case (lock B vs)
  have g: "good_log cl bl vals chain h s'" if "c_height s = h" "good_log cl bl vals chain h s" "votes_ok cl recover vals chain h s"
  proof (cases "vs = []")
    case True
    then show ?thesis by (intro good_log_frame [OF that(2)]) (auto simp: lock(1) signed_for_def signed_def)
  next
    case False
    then obtain v where "vs = [LogVote v]" "own_vote s PrecommitType v" "vote_BlockID v = B" using lock(5) by blast
    then show ?thesis using good_log_precommit [OF assms(4) that(2,1)] prevoted_quorum [OF assms(2) that(3) lock(3)] lock(1) by auto
  qed
  have l: "lock_ok cl vals chain h s'" if "c_height s = h" "lock_ok cl vals chain h s" "votes_ok cl recover vals chain h s"
    unfolding lock(1) by (rule lock_ok_lock [OF assms(2,4) that(3,2,1) lock(2,3,5)])
  have v: "votes_ok cl recover vals chain h s \<Longrightarrow> votes_ok cl recover vals chain h s'"
    by (erule votes_ok_frame) (use lock(1) in auto)
  show ?thesis
    by (rule height_inv_same [OF assms(5)]) (use l g v lock(5) in \<open>auto simp: lock(1) signed_def own_vote_def\<close>)
next
  case (learn V V')
  have sg: "signed_for s' h t r B = signed_for s h t r B" for t r B by (simp add: learn(1))
  have l: "lock_ok cl vals chain h s \<Longrightarrow> lock_ok cl vals chain h s'"
    by (erule lock_ok_frame [OF _ sg]) (use learn in auto)
  have g: "good_log cl bl vals chain h s \<Longrightarrow> good_log cl bl vals chain h s'"
    by (erule good_log_frame [OF _ sg]) (use learn in auto)
  have v: "votes_ok cl recover vals chain h s'" if "votes_ok cl recover vals chain h s"
    using that learn hvs_step_post [OF assms(2) _ learn(3)] by (auto simp: votes_ok_def hvs_post_def same_height_def)
  show ?thesis by (rule height_inv_same [OF assms(5)]) (use l g v in \<open>auto simp: learn(1)\<close>)
next
  case (timeout r)
  have sg: "signed_for s' h t r B = signed_for s h t r B" for t r B by (simp add: timeout(1))
  have l: "lock_ok cl vals chain h s \<Longrightarrow> lock_ok cl vals chain h s'"
    by (erule lock_ok_frame [OF _ sg]) (use timeout in auto)
  have g: "good_log cl bl vals chain h s \<Longrightarrow> good_log cl bl vals chain h s'"
    by (erule good_log_frame [OF _ sg]) (use timeout in auto)
  have v: "votes_ok cl recover vals chain h s \<Longrightarrow> votes_ok cl recover vals chain h s'"
    by (erule votes_ok_frame) (use timeout in auto)
  show ?thesis by (rule height_inv_same [OF assms(5)]) (use l g v in \<open>auto simp: timeout(1) signed_def\<close>)
next
  case (finalize b c ps vals' V)
  show ?thesis by (rule height_inv_finalize [OF assms(2-6) finalize(2-5,1)])
qed

lemma cspec_run_inv:
  assumes "cspec_run cl recover bl s s'" "crypto_ok cl" "quorum_set vals" "0 < h"
    "base_inv s" "height_inv cl recover bl vals chain h past s"
  shows "base_inv s' \<and> height_inv cl recover bl vals chain h past s'"
  using assms(1)
proof induction
  case base
  show ?case using assms(5,6) by simp
next
  case (step s1 s2)
  then show ?case using base_inv_step height_inv_step [OF step(2) assms(2,3)] assms(4) by blast
qed

lemma cspec_run_base: "cspec_run cl recover bl s s' \<Longrightarrow> base_inv s \<Longrightarrow> base_inv s'"
  by (induction rule: rtranclp_induct) (auto intro: base_inv_step)

end
