(* ===== verification/Consensus_Refine.thy ===== *)
theory Consensus_Refine
  imports Consensus Consensus_Spec
begin

text \<open>
  The handlers of \<open>Consensus\<close> take only steps of the abstract machine of \<open>Consensus_Spec\<close>. \<open>abs\<close> reads the
  state of the machine off a node, \<open>wf\<close> is what a node keeps between two steps. \<open>core\<close> is the part of a
  node that \<open>abs\<close> and \<open>wf\<close> look at, so that a helper that leaves it alone needs no further argument; the rules in
  \<open>wp\<close> say for each function what its results satisfy, and are chained by the binds of the handlers.
\<close>

named_theorems wp

section \<open>The abstraction\<close>

fun log_of :: "cs_output \<Rightarrow> log_entry list" where
  "log_of (OutVote v) = [LogVote v]"
| "log_of (OutTimeout d h r st) = [LogTimeout h r]"
| "log_of (OutSaveBlock b ps c) = [LogSave b ps c]"
| "log_of _ = []"

definition node_log :: "Node \<Rightarrow> log_entry list" where
  "node_log n = concat (map log_of (nd_out n))"

definition abs_node :: "cs_conf \<Rightarrow> Node \<Rightarrow> cstate" where
  "abs_node cf n =
     \<lparr>c_height = rs_Height (rs n), c_round = rs_Round (rs n), c_step = rs_Step (rs n), c_vals = rs_Validators (rs n),
      c_lockRound = LockedRound (rs n), c_lockID = locked_bid cf (rs n), c_votes = rs_Votes (rs n),
      c_chain = st_ChainID (sd_state n), c_log = node_log n\<rparr>"

definition commit_ok :: "cs_conf \<Rightarrow> Node \<Rightarrow> Commit \<Rightarrow> bool" where
  "commit_ok cf n c \<longleftrightarrow> 0 \<le> commit_Round c
     \<and> (\<exists>vals. rs_Validators (rs n) = Some vals
          \<and> verified_commit (sl_crypto (cf_sl cf)) vals (st_ChainID (sd_state n)) (rs_Height (rs n)) c)"

definition parts_ok :: "RoundState \<Rightarrow> bool" where
  "parts_ok r \<longleftrightarrow> (ProposalBlock r \<noteq> None \<longrightarrow> ProposalBlockParts r \<noteq> None) \<and> (LockedBlock r \<noteq> None \<longrightarrow> LockedBlockParts r \<noteq> None)"

definition pos_ok :: "RoundState \<Rightarrow> bool" where
  "pos_ok r \<longleftrightarrow> 1 \<le> rs_Height r \<and> 0 \<le> rs_Round r \<and> rs_Step r \<le> 8 \<and> (rs_Step r = 8 \<longrightarrow> 0 \<le> CommitRound r)
     \<and> (\<forall>V. rs_Votes r = Some V \<longrightarrow> hvs_round V \<le> rs_Round r + 1)"

definition commits_ok :: "cs_conf \<Rightarrow> Node \<Rightarrow> bool" where
  "commits_ok cf n \<longleftrightarrow> (\<forall>c. rs_Commit (rs n) = Some c \<longrightarrow> commit_ok cf n c)
     \<and> cand_height (nd_candidates n) \<le> rs_Height (rs n)
     \<and> (cand_height (nd_candidates n) = rs_Height (rs n) \<longrightarrow> (\<forall>x \<in> set (candidates (nd_candidates n)). commit_ok cf n (cc_commit x)))"

definition wf_node :: "cs_conf \<Rightarrow> Node \<Rightarrow> bool" where
  "wf_node cf n \<longleftrightarrow> sd_version n = st_ver n \<and> LastBlockHeight (sd_state n) < rs_Height (rs n) \<and> parts_ok (rs n) \<and> pos_ok (rs n)
     \<and> commits_ok cf n"

abbreviation cs_run :: "cs_conf \<Rightarrow> Node \<Rightarrow> Node \<Rightarrow> bool" where
  "cs_run cf n n' \<equiv> cspec_run (sl_crypto (cf_sl cf)) (cf_recover cf) (sl_block (cf_sl cf)) (abs_node cf n) (abs_node cf n')"

abbreviation cs_step :: "cs_conf \<Rightarrow> cstate \<Rightarrow> cstate \<Rightarrow> bool" where
  "cs_step cf \<equiv> cspec (sl_crypto (cf_sl cf)) (cf_recover cf) (sl_block (cf_sl cf))"

text \<open>\<open>sim\<close> is what every handler gives, \<open>stays\<close> what a handler gives that does not apply a commit.\<close>

definition sim :: "cs_conf \<Rightarrow> Node \<Rightarrow> Node \<Rightarrow> bool" where
  "sim cf n n' \<longleftrightarrow> wf_node cf n' \<and> cs_run cf n n'"

definition stays :: "cs_conf \<Rightarrow> Node \<Rightarrow> Node \<Rightarrow> bool" where
  "stays cf n n' \<longleftrightarrow> sim cf n n' \<and> rs_Height (rs n') = rs_Height (rs n) \<and> rs_Validators (rs n') = rs_Validators (rs n)
     \<and> st_ChainID (sd_state n') = st_ChainID (sd_state n) \<and> rs_Round (rs n) \<le> rs_Round (rs n')"

section \<open>What the abstraction looks at\<close>

text \<open>\<open>spine\<close> is the position, the lock, the votes and commits and the log; \<open>core\<close> adds the proposal and its block.\<close>

definition spine where
  "spine n = (rs_Height (rs n), rs_Round (rs n), rs_Step (rs n), rs_Validators (rs n), LockedRound (rs n), LockedBlock (rs n),
     LockedBlockParts (rs n), rs_Commit (rs n), rs_Votes (rs n), CommitRound (rs n), sd_state n, sd_version n = st_ver n,
     nd_candidates n, node_log n)"

definition core where
  "core n = (spine n, rs_Proposal (rs n), ProposalBlock (rs n), ProposalBlockParts (rs n))"

lemma spine_fields:
  assumes "spine n' = spine n"
  shows "rs_Height (rs n') = rs_Height (rs n)" "rs_Round (rs n') = rs_Round (rs n)" "rs_Step (rs n') = rs_Step (rs n)"
    "rs_Validators (rs n') = rs_Validators (rs n)" "LockedRound (rs n') = LockedRound (rs n)"
    "LockedBlock (rs n') = LockedBlock (rs n)" "LockedBlockParts (rs n') = LockedBlockParts (rs n)"
    "rs_Commit (rs n') = rs_Commit (rs n)" "rs_Votes (rs n') = rs_Votes (rs n)" "CommitRound (rs n') = CommitRound (rs n)"
    "sd_state n' = sd_state n" "sd_version n' = st_ver n' \<longleftrightarrow> sd_version n = st_ver n"
    "nd_candidates n' = nd_candidates n" "node_log n' = node_log n"
  using assms by (simp_all add: spine_def)

lemma core_fields:
  assumes "core n' = core n"
  shows "spine n' = spine n" "rs_Proposal (rs n') = rs_Proposal (rs n)" "ProposalBlock (rs n') = ProposalBlock (rs n)"
    "ProposalBlockParts (rs n') = ProposalBlockParts (rs n)"
  using assms by (simp_all add: core_def)

lemma spine_abs: "spine n' = spine n \<Longrightarrow> abs_node cf n' = abs_node cf n"
  using spine_fields [of n' n] by (simp add: abs_node_def locked_bid_def)

lemma spine_commit_ok: "spine n' = spine n \<Longrightarrow> commit_ok cf n' = commit_ok cf n"
  using spine_fields [of n' n] by (simp add: commit_ok_def fun_eq_iff)

lemma spine_wf:
  assumes "spine n' = spine n" "wf_node cf n" "ProposalBlock (rs n') \<noteq> None \<longrightarrow> ProposalBlockParts (rs n') \<noteq> None"
  shows "wf_node cf n'"
  using assms(2,3) spine_fields [OF assms(1)] spine_commit_ok [OF assms(1)]
  by (auto simp: wf_node_def parts_ok_def pos_ok_def commits_ok_def)

lemma spine_stays:
  assumes "spine n' = spine n" "wf_node cf n" "ProposalBlock (rs n') \<noteq> None \<longrightarrow> ProposalBlockParts (rs n') \<noteq> None"
  shows "stays cf n n'"
  using spine_wf [OF assms] spine_abs [OF assms(1), of cf] by (simp add: stays_def sim_def spine_fields [OF assms(1)])

lemma core_stays:
  assumes "core n' = core n" "wf_node cf n"
  shows "stays cf n n'"
  by (rule spine_stays [OF core_fields(1) [OF assms(1)] assms(2)])
    (use assms(2) core_fields [OF assms(1)] in \<open>auto simp: wf_node_def parts_ok_def\<close>)

lemma core_wf: "core n' = core n \<Longrightarrow> wf_node cf n \<Longrightarrow> wf_node cf n'"
  using core_stays by (auto simp: stays_def sim_def)

lemma sim_refl: "wf_node cf n \<Longrightarrow> sim cf n n"
  by (simp add: sim_def)

lemma sim_trans: "sim cf n1 n2 \<Longrightarrow> sim cf n2 n3 \<Longrightarrow> sim cf n1 n3"
  by (auto simp: sim_def)

lemma stays_refl: "wf_node cf n \<Longrightarrow> stays cf n n"
  by (simp add: stays_def sim_def)

lemma stays_trans: "stays cf n1 n2 \<Longrightarrow> stays cf n2 n3 \<Longrightarrow> stays cf n1 n3"
  by (auto simp: stays_def sim_def)

lemma stays_sim: "stays cf n1 n2 \<Longrightarrow> sim cf n1 n2"
  by (simp add: stays_def)

lemma stays_wf: "stays cf n1 n2 \<Longrightarrow> wf_node cf n2"
  by (simp add: stays_def sim_def)

lemma stays_fields:
  assumes "stays cf n n'"
  shows "rs_Height (rs n') = rs_Height (rs n)" "rs_Validators (rs n') = rs_Validators (rs n)"
    "st_ChainID (sd_state n') = st_ChainID (sd_state n)" "rs_Round (rs n) \<le> rs_Round (rs n')"
  using assms by (simp_all add: stays_def)

lemma stays_core: "stays cf n n1 \<Longrightarrow> core n2 = core n1 \<Longrightarrow> stays cf n n2"
  using stays_trans core_stays stays_wf by blast

lemma stays_commit_ok: "stays cf n n' \<Longrightarrow> commit_ok cf n' c = commit_ok cf n c"
  by (simp add: stays_fields commit_ok_def)

section \<open>Helpers that leave the core alone\<close>

lemma out_simps [simp]:
  "rs (out e n) = rs n" "sd_state (out e n) = sd_state n" "sd_version (out e n) = sd_version n" "st_ver (out e n) = st_ver n"
  "nd_candidates (out e n) = nd_candidates n" "node_log (out e n) = node_log n @ log_of e"
  by (simp_all add: out_def node_log_def)

lemma node_log_fields [simp]:
  "node_log (rs_update f1 n) = node_log n" "node_log (be_update f2 n) = node_log n" "node_log (be_expectations_update f3 n) = node_log n"
  "node_log (nd_catchup_update f4 n) = node_log n" "node_log (nd_candidates_update f5 n) = node_log n"
  "node_log (sd_state_update f6 n) = node_log n"
  by (simp_all add: node_log_def)

lemma core_out [simp]: "log_of e = [] \<Longrightarrow> core (out e n) = core n"
  by (simp add: core_def spine_def)

lemma node_core_publish [simp]: "core (publish ev n) = core n" "core (PublishNewRoundStepEvent n) = core n"
  by (simp_all add: publish_def PublishNewRoundStepEvent_def)

lemma publish_simps [simp]:
  "spine (publish ev n) = spine n" "rs (publish ev n) = rs n" "sd_state (publish ev n) = sd_state n"
  "spine (PublishNewRoundStepEvent n) = spine n" "rs (PublishNewRoundStepEvent n) = rs n"
  "sd_state (PublishNewRoundStepEvent n) = sd_state n"
  by (simp_all add: publish_def PublishNewRoundStepEvent_def spine_def)

lemma core_node_fields [simp]:
  "core (be_update f1 n) = core n" "core (be_expectations_update f2 n) = core n" "core (nd_catchup_update f3 n) = core n"
  by (simp_all add: core_def spine_def)

lemma core_rs_fields [simp]:
  "core (n\<lparr>rs := (rs n)\<lparr>rs_Selector := x\<rparr>\<rparr>) = core n"
  "core (n\<lparr>rs := (rs n)\<lparr>rs_Current := c, ProcessedBlockID := b\<rparr>\<rparr>) = core n"
  "core (n\<lparr>rs := (rs n)\<lparr>TriggeredTimeoutPrecommit := t\<rparr>\<rparr>) = core n"
  "core (n\<lparr>rs := (rs n)\<lparr>ProposeNextBlockImmediately := t\<rparr>\<rparr>) = core n"
  by (simp_all add: core_def spine_def)

lemma post_any: "(\<And>x. Q x) \<Longrightarrow> post m Q"
  by (simp add: post_def)

lemma post_prod [simp]: "post (case_prod f x) Q = case_prod (\<lambda>a b. post (f a b) Q) x"
  by (cases x) simp

lemma post_letI: "(\<And>y. y = x \<Longrightarrow> post (f y) Q) \<Longrightarrow> post (Let x f) Q"
  by simp

lemma with_be_core [wp]:
  assumes "\<And>n' x. core n' = core n \<Longrightarrow> Q (n', x)"
  shows "post (with_be f n) Q"
  unfolding with_be_def post_bind by (rule post_any) (simp add: assms split: prod.split)

lemma GetProposer_core [wp]:
  assumes "\<And>n' x. core n' = core n \<Longrightarrow> Q (n', x)"
  shows "post (GetProposer sl n) Q"
proof (cases "rs_Selector (rs n)")
  case (Some sel)
  then show ?thesis
    by (simp add: GetProposer_def) (rule post_any, simp add: assms split: sum.split prod.split)
qed (simp add: GetProposer_def)


text \<open>What is only read may have any result.\<close>

lemma read_wp [wp]:
  "(\<And>x. Q1 x) \<Longrightarrow> post (processedFor cf r rd) Q1"
  "(\<And>x. Q2 x) \<Longrightarrow> post (proposal_bid cf rd) Q2"
  "(\<And>x. Q3 x) \<Longrightarrow> post (refuseUnprocessedCommit cf c n) Q3"
  "(\<And>x. Q4 x) \<Longrightarrow> post (NewCommit h r b es p) Q4"
  "(\<And>x. Q5 x) \<Longrightarrow> post (isProposalComplete n) Q5"
  "(\<And>x. Q6 x) \<Longrightarrow> post (HasTwoThirdsAny vs) Q6"
  "(\<And>x. Q7 x) \<Longrightarrow> post (MakePartSet bl blk k) Q7"
  "(\<And>x. Q8 x) \<Longrightarrow> post (checkValidBlock n) Q8"
  "(\<And>x. Q9 x) \<Longrightarrow> post (makeProposal cf h r pr0 blk bp) Q9"
  "(\<And>x. Q10 x) \<Longrightarrow> post (signProposal_cs cf env h pr n) Q10"
  "(\<And>x. Q11 x) \<Longrightarrow> post (proposalIsTimely n) Q11"
  "(\<And>x. Q12 x) \<Longrightarrow> post (ProposalBlockSignID cl pe ch pp qt qh) Q12"
  "(\<And>x. Q13 x) \<Longrightarrow> post (GetByProTxHash vals ph) Q13"
  "(\<And>x. Q14 x) \<Longrightarrow> post (IsComplete ps) Q14"
  "(\<And>x. Q15 x) \<Longrightarrow> post (rs_BlockID cf rd) Q15"
  by (simp_all add: post_any)

lemmas wp_splits = sum.split option.split prod.split

lemma isProposer_core [wp]:
  assumes "\<And>n' x. core n' = core n \<Longrightarrow> Q (n', x)"
  shows "post (isProposer sl h n) Q"
  by (simp add: isProposer_def) ((intro wp | simp add: assms split: wp_splits)+)

lemma ensureProcess_core [wp]:
  assumes "\<And>n' x. core n' = core n \<Longrightarrow> Q (n', x)"
  shows "post (ensureProcess cf env r n) Q"
  by (cases "ProposalBlock (rs n)"; simp add: ensureProcess_def assms)
    ((intro allI impI conjI wp | simp add: assms split: wp_splits)+)

lemma mustEnsureProcess_core [wp]:
  assumes "\<And>n'. core n' = core n \<Longrightarrow> Q n'"
  shows "post (mustEnsureProcess cf env r n) Q"
  by (simp add: mustEnsureProcess_def) ((intro wp | simp add: assms split: wp_splits)+)

lemma ensureOwnRound_core [wp]:
  assumes "\<And>n' x. core n' = core n \<Longrightarrow> Q (n', x)"
  shows "post (ensureOwnRound cf env n) Q"
  by (cases "rs_Proposal (rs n)"; simp add: ensureOwnRound_def Let_def assms)
    ((intro allI impI conjI wp | simp add: assms split: wp_splits)+)

lemma validate_core [wp]:
  assumes "\<And>n' x. core n' = core n \<Longrightarrow> Q (n', x)"
  shows "post (validate cf env n) Q"
  by (cases "ProposalBlock (rs n)"; simp add: validate_def assms)
    ((intro allI impI conjI wp | simp add: assms split: wp_splits)+)

lemma mustValidate_core [wp]:
  assumes "\<And>n'. core n' = core n \<Longrightarrow> Q n'"
  shows "post (mustValidate cf env n) Q"
  by (simp add: mustValidate_def) ((intro wp | simp add: assms split: wp_splits)+)

lemma expectedExtensions_core [wp]:
  assumes "\<And>n' x. core n' = core n \<Longrightarrow> Q (n', x)"
  shows "post (expectedExtensions env c n) Q"
  by (simp add: expectedExtensions_def Let_def) ((intro wp | simp add: assms split: wp_splits)+)

lemma verifyCommitExtensions_core [wp]:
  assumes "\<And>n' x. core n' = core n \<Longrightarrow> Q (n', x)"
  shows "post (verifyCommitExtensions cf env c n) Q"
  by (simp add: verifyCommitExtensions_def Let_def assms)
    ((intro allI impI conjI wp | simp add: assms split: wp_splits)+)

lemma verifyProcessedCommit_core [wp]:
  assumes "\<And>n' x. core n' = core n \<Longrightarrow> Q (n', x)"
  shows "post (verifyProcessedCommit cf env c n) Q"
  by (simp add: verifyProcessedCommit_def Let_def assms)
    ((intro allI impI conjI wp | simp add: assms split: wp_splits)+)

lemma verifyHeldCommit_core [wp]:
  assumes "\<And>n' x. core n' = core n \<Longrightarrow> Q (n', x)"
  shows "post (verifyHeldCommit cf env c n) Q"
  by (cases "verifyCommitBlock cf c n"; simp add: verifyHeldCommit_def assms)
    ((intro allI impI conjI wp | simp add: assms split: wp_splits)+)

lemma isValidForPrevote_core [wp]:
  assumes "\<And>n' x. core n' = core n \<Longrightarrow> Q (n', x)"
  shows "post (isValidForPrevote sl n) Q"
  by (cases "ProposalBlock (rs n)"; cases "rs_Proposal (rs n)"; simp add: isValidForPrevote_def assms split del: if_split)
    ((intro allI impI conjI wp | simp add: assms split: wp_splits)+)

lemma NewRoundEvent_core [wp]:
  assumes "\<And>n'. core n' = core n \<Longrightarrow> Q n'"
  shows "post (NewRoundEvent cf n) Q"
  by (simp add: NewRoundEvent_def) ((intro allI impI conjI wp | simp add: assms split: wp_splits)+)

lemma verifyProposal_core [wp]:
  assumes "\<And>n' x. core n' = core n \<Longrightarrow> Q (n', x)"
  shows "post (verifyProposal cf env budget p n) Q"
  by (simp add: verifyProposal_def assms) ((intro allI impI conjI wp | simp add: assms split: wp_splits)+)


lemma be_create_core [wp]:
  assumes "\<And>n' x. core n' = core n \<Longrightarrow> Q (n', x)"
  shows "post (be_create cf env r n) Q"
  by (cases "cf_pv cf"; simp add: be_create_def Let_def assms split del: if_split)
    ((intro allI impI conjI wp | simp add: assms split: wp_splits if_split)+)

lemma createProposalBlock_core [wp]:
  assumes "\<And>n' x. core n' = core n \<Longrightarrow> Q (n', x)"
  shows "post (createProposalBlock cf env r n) Q"
  by (simp add: createProposalBlock_def) ((intro allI impI conjI wp | simp add: assms split: wp_splits)+)

lemma part_outputs_quiet:
  "post (part_outputs h r is ps) (\<lambda>os. concat (map log_of os) = [])"
proof (induction "is")
  case (Cons i "is")
  show ?case
    unfolding part_outputs.simps post_bind by (rule post_any) (rule post_mono [OF Cons], simp)
qed simp

lemma fold_out_log: "node_log (fold out os n) = node_log n @ concat (map log_of os)" "rs (fold out os n) = rs n"
  "sd_state (fold out os n) = sd_state n" "sd_version (fold out os n) = sd_version n" "st_ver (fold out os n) = st_ver n"
  "nd_candidates (fold out os n) = nd_candidates n"
  by (induction os arbitrary: n) simp_all

lemma blockParts_quiet [wp]:
  assumes "\<And>os. concat (map log_of os) = [] \<Longrightarrow> Q os"
  shows "post (blockPartsToMessages h r ps) Q"
  using assms post_mono [OF part_outputs_quiet, of Q] by (auto simp: blockPartsToMessages_def split: option.split)

lemma Proposaler_Create_core [wp]:
  assumes "\<And>n' x. core n' = core n \<Longrightarrow> Q (n', x)"
  shows "post (Proposaler_Create cf env h r n) Q"
proof -
  have k: "core (fold out (OutProposal p # os) n') = core n" if "core n' = core n" "concat (map log_of os) = []" for p os n'
    using that by (auto simp: core_def spine_def fold_out_log)
  show ?thesis
    by (simp add: Proposaler_Create_def split del: if_split)
      ((intro allI impI conjI wp | simp add: assms k [simplified] split: wp_splits if_split)+)
qed

section \<open>The store and the round state\<close>

text \<open>Saving keeps the core and always succeeds: the version is the one that was loaded.\<close>

lemma Save_wf:
  assumes "wf_node cf n"
  obtains n' where "Save n = (n', Inr ())" "core n' = core n"
  using assms that by (auto simp: Save_def wf_node_def core_def spine_def node_log_def Let_def)

lemma Save_wp:
  assumes "wf_node cf n" "\<And>n'. core n' = core n \<Longrightarrow> Q (n', Inr ())"
  shows "Q (Save n)"
  using Save_wf [OF assms(1)] assms(2) by metis

lemma updateRoundStep_wp:
  assumes "\<And>n'. core n' = core (n\<lparr>rs := (rs n)\<lparr>rs_Round := r, rs_Step := st\<rparr>\<rparr>) \<Longrightarrow> Q n'"
  shows "post (updateRoundStep sl r st n) Q"
  apply (cases "rs_Selector (rs n)"; simp add: updateRoundStep_def)
  apply (rule post_any)
  apply (simp split: sum.split)
  apply (intro conjI allI impI)
   apply (rule assms, simp)
  apply (rule assms)
  apply (simp add: core_def spine_def)
  done

lemma spine_dropStale [simp]: "spine (dropStaleProposal b n) = spine n"
  by (simp add: dropStaleProposal_def spine_def split: option.split)

lemma dropStale_fields [simp]:
  "ProposalBlock (rs (dropStaleProposal b n)) = ProposalBlock (rs n)"
  "ProposalBlockParts (rs (dropStaleProposal b n)) = ProposalBlockParts (rs n)"
  by (simp_all add: dropStaleProposal_def split: option.split)

lemma spine_proposal_fields [simp]:
  "spine (n\<lparr>rs := (rs n)\<lparr>ProposalBlock := b\<rparr>\<rparr>) = spine n"
  "spine (n\<lparr>rs := (rs n)\<lparr>ProposalBlockParts := ps\<rparr>\<rparr>) = spine n"
  "spine (n\<lparr>rs := (rs n)\<lparr>ProposalBlock := b, ProposalBlockParts := ps\<rparr>\<rparr>) = spine n"
  "spine (n\<lparr>rs := (rs n)\<lparr>rs_Proposal := p, ProposalReceiveTime := t\<rparr>\<rparr>) = spine n"
  "spine (n\<lparr>rs := (rs n)\<lparr>rs_Proposal := p\<rparr>\<rparr>) = spine n"
  by (simp_all add: spine_def)

lemma retargetTo_spine [simp]: "spine (retargetTo sl b n) = spine n"
  by (simp add: retargetTo_def Let_def)

lemma retargetTo_parts:
  "parts_ok (rs n) \<Longrightarrow> ProposalBlock (rs (retargetTo sl b n)) \<noteq> None \<Longrightarrow> ProposalBlockParts (rs (retargetTo sl b n)) \<noteq> None"
  by (auto simp: retargetTo_def Let_def parts_ok_def split: if_splits)

lemma retargetTo_stays: "wf_node cf n \<Longrightarrow> stays cf n (retargetTo sl b n)"
  using retargetTo_parts [of n sl b] by (intro spine_stays) (auto simp: wf_node_def)

lemma replaceProposal_stays:
  assumes "wf_node cf n"
  shows "stays cf n (replaceProposalBlockOnLockedBlock sl b n)" "spine (replaceProposalBlockOnLockedBlock sl b n) = spine n"
proof -
  show s: "spine (replaceProposalBlockOnLockedBlock sl b n) = spine n"
    by (simp add: replaceProposalBlockOnLockedBlock_def)
  show "stays cf n (replaceProposalBlockOnLockedBlock sl b n)"
    by (rule spine_stays [OF s assms])
      (use assms spine_fields [OF spine_dropStale, of b n] in
        \<open>auto simp: replaceProposalBlockOnLockedBlock_def wf_node_def parts_ok_def\<close>)
qed

lemma updateValidBlock_spine [wp]:
  assumes "\<And>n' x. core n' = core n \<Longrightarrow> Q (n', x)"
  shows "post (updateValidBlock sl now n) Q"
  apply (simp add: updateValidBlock_def Let_def)
  apply (rule post_any)+
  apply (simp add: assms core_def spine_def)
  done

section \<open>Signing\<close>

lemma ExtendVote_fields: "post (ExtendVote env v b) (\<lambda>(b, w). \<exists>es. w = v\<lparr>VoteExtensions := es\<rparr>)"
  by (simp add: ExtendVote_def Let_def split: option.split) (intro allI impI post_any, blast)

lemma extended_vote:
  "post (if b then with_be (ExtendVote env v) n else Ret (n, v)) (\<lambda>(n', w). core n' = core n \<and> (\<exists>es. w = v\<lparr>VoteExtensions := es\<rparr>))"
proof -
  have "post (with_be (ExtendVote env v) n) (\<lambda>(n', w). core n' = core n \<and> (\<exists>es. w = v\<lparr>VoteExtensions := es\<rparr>))"
    unfolding with_be_def post_bind by (rule post_mono [OF ExtendVote_fields]) auto
  moreover have "\<exists>es. v = v\<lparr>VoteExtensions := es\<rparr>" by (rule exI [of _ "VoteExtensions v"]) simp
  ultimately show ?thesis by auto
qed

text \<open>The vote of the node, for its height and round, and nothing else is added to the log.\<close>

lemma signAddVote_wp:
  assumes "\<And>n'. core n' = core n \<Longrightarrow> Q n'"
    "\<And>n' v. core n' = core (out (OutVote v) n) \<Longrightarrow> own_vote (abs_node cf n) t v \<Longrightarrow> vote_BlockID v = b \<Longrightarrow> Q n'"
  shows "post (signAddVote cf env t b n) Q"
proof (cases "cf_pv cf")
  case (Some p)
  have fin: "Q (case v of None \<Rightarrow> n' | Some vote \<Rightarrow> out (OutVote vote) n')"
    if "core n' = core n" "\<forall>w. v = Some w \<longrightarrow> own_vote (abs_node cf n) t w \<and> vote_BlockID w = b" for n' v
    using that assms by (cases v) (auto simp: core_def spine_def)
  have "post (signVote_cs cf env p t b n) (\<lambda>(n', v). Q (case v of None \<Rightarrow> n' | Some vote \<Rightarrow> out (OutVote vote) n'))"
  proof (cases "ev_flush env")
    case True
    have sg: "post (if st_Validators (sd_state n') = None then Panic
           else Ret (n', case ev_SignVote env vote of None \<Rightarrow> None
                  | Some (sig, extSigs) \<Rightarrow> map_option (\<lambda>exts. vote\<lparr>BlockSignature := sig, VoteExtensions := exts\<rparr>)
                      (CopySigns extSigs (VoteExtensions vote))))
        (\<lambda>(n', v). Q (case v of None \<Rightarrow> n' | Some vote \<Rightarrow> out (OutVote vote) n'))"
      if "core n' = core n" "own_vote (abs_node cf n) t vote" "vote_BlockID vote = b" for n' vote
    proof (cases "st_Validators (sd_state n') = None")
      case False
      show ?thesis
        unfolding if_not_P [OF False] post_simps prod.case
        by (rule fin [OF that(1)]) (use that(2,3) in \<open>auto simp: own_vote_def split: option.splits\<close>)
    qed simp
    show ?thesis
      unfolding signVote_cs_def using True
      apply (simp only: not_True_eq_False if_False post_bind)
      apply (rule post_any)
      apply (simp only: split_beta Let_def post_bind)
      apply (rule post_mono [OF extended_vote])
      apply (rule sg)
        apply (auto simp: own_vote_def abs_node_def)
      done
  qed (simp add: signVote_cs_def fin [of _ None, simplified])
  then show ?thesis using assms(1) Some by (auto simp: signAddVote_def elim!: post_mono)
qed (simp add: signAddVote_def assms)

lemma nil_empty [simp]: "BlockID_IsNil empty_bid"
  by (simp add: BlockID_IsNil_def empty_bid_def psh_IsZero_def)

text \<open>A block is prevoted when the lock allows it.\<close>

lemma shouldVoteBeSent_may:
  assumes "proposal_bid cf (rs n) = Ret B" "shouldVoteBeSent cf (rs n) = Ret True"
  shows "may_prevote (abs_node cf n) B"
proof -
  have "checkProposalBlock cf (rs n) = Ret True \<or> checkPrevoteMaj23 cf (rs n) = Ret True"
    using assms(2) by (auto simp: shouldVoteBeSent_def exec_bind_Ret_iff split: if_splits)
  then show ?thesis
  proof
    assume "checkProposalBlock cf (rs n) = Ret True"
    then show ?thesis
      using assms(1)
      by (auto simp: checkProposalBlock_def may_prevote_def abs_node_def exec_bind_Ret_iff Equals_iff split: option.splits if_splits)
  next
    assume a: "checkPrevoteMaj23 cf (rs n) = Ret True"
    then obtain p where p: "rs_Proposal (rs n) = Some p" by (auto simp: checkPrevoteMaj23_def split: option.splits)
    then obtain V where V: "rs_Votes (rs n) = Some V" using a by (auto simp: checkPrevoteMaj23_def votes_of_def split: option.splits)
    obtain B' k where m: "TwoThirdsMajority (hvs_Prevotes V (POLRound p)) = (B', k)" by fastforce
    have "k" "B = B'" "0 \<le> POLRound p" "POLRound p < rs_Round (rs n)" "LockedRound (rs n) \<le> POLRound p \<or> locked_bid cf (rs n) = Ret B"
      using a assms(1)
      by (auto simp: checkPrevoteMaj23_def p V m votes_of_def exec_bind_Ret_iff Equals_iff split: if_splits)
    then show ?thesis using m V by (auto simp: may_prevote_def abs_node_def prevoted_def)
  qed
qed

lemma rs_BlockID_proposal:
  "parts_ok r \<Longrightarrow> ProposalBlock r \<noteq> None \<Longrightarrow> rs_BlockID cf r = proposal_bid cf r"
  by (auto simp: rs_BlockID_def parts_ok_def)

definition prevote_out :: "cs_conf \<Rightarrow> Node \<Rightarrow> Node \<Rightarrow> bool" where
  "prevote_out cf n n' \<longleftrightarrow> core n' = core n \<or> (\<exists>v. core n' = core (out (OutVote v) n) \<and> own_vote (abs_node cf n) PrevoteType v
     \<and> (BlockID_IsNil (vote_BlockID v) \<or> may_prevote (abs_node cf n) (vote_BlockID v)))"

lemma core_out_cong: "core n1 = core n \<Longrightarrow> core (out e n1) = core (out e n)"
  by (simp add: core_def spine_def)

lemma core_abs: "core n1 = core n \<Longrightarrow> abs_node cf n1 = abs_node cf n"
  by (rule spine_abs) (simp add: core_def)

lemma prevote_out_core: "core n1 = core n \<Longrightarrow> prevote_out cf n1 n' \<Longrightarrow> prevote_out cf n n'"
  using core_abs [of n1 n cf] core_out_cong [of n1 n] by (auto simp: prevote_out_def)

lemma nilVote_out: "post (signAndAddNilVote cf env n) (prevote_out cf n)"
  unfolding signAndAddNilVote_def by (rule signAddVote_wp) (auto simp: prevote_out_def)

lemma prevoter_signVote_out:
  assumes "parts_ok (rs n)" "ProposalBlock (rs n) \<noteq> None"
  shows "post (prevoter_signVote cf env n) (prevote_out cf n)"
proof (cases "shouldVoteBeSent cf (rs n)")
  case (Ret send)
  show ?thesis
  proof (cases send)
    case False
    then show ?thesis using Ret nilVote_out by (simp add: prevoter_signVote_def)
  next
    case True
    then have may: "may_prevote (abs_node cf n) B" if "proposal_bid cf (rs n) = Ret B" for B
      using shouldVoteBeSent_may [OF that] Ret by simp
    have "post (signAddVote cf env PrevoteType B n) (prevote_out cf n)" if "proposal_bid cf (rs n) = Ret B" for B
      by (rule signAddVote_wp) (use may [OF that] in \<open>auto simp: prevote_out_def\<close>)
    then show ?thesis using Ret True
      by (cases "proposal_bid cf (rs n)") (simp_all add: prevoter_signVote_def rs_BlockID_proposal [OF assms])
  qed
qed (simp add: prevoter_signVote_def)

lemma prevoter_Do_out:
  assumes "parts_ok (rs n)"
  shows "post (prevoter_Do cf env n) (\<lambda>(n', r). prevote_out cf n n')"
proof -
  have nil: "post (signAndAddNilVote cf env n') (prevote_out cf n)" if "core n' = core n" for n'
    by (rule post_mono [OF nilVote_out]) (rule prevote_out_core [OF that])
  have sg: "post (prevoter_signVote cf env n') (prevote_out cf n)" if "core n' = core n" "ProposalBlock (rs n) \<noteq> None" for n'
    by (rule post_mono [OF prevoter_signVote_out])
      (use that assms core_fields [OF that(1)] spine_fields [OF core_fields(1) [OF that(1)]] prevote_out_core [OF that(1)] in
        \<open>auto simp: parts_ok_def\<close>)
  show ?thesis
  proof (cases "ProposalBlock (rs n)")
    case None
    then show ?thesis using nil [of n] by (simp add: prevoter_Do_def isValidForPrevote_def)
  next
    case (Some b)
    show ?thesis
      unfolding prevoter_Do_def
      by (simp split del: if_split)
        ((intro allI impI conjI wp | simp add: nil sg Some split: wp_splits if_split)+)
  qed
qed

section \<open>Steps of a round\<close>

lemma out_abs: "log_of e = [x] \<Longrightarrow> abs_node cf (out e n) = (abs_node cf n)\<lparr>c_log := c_log (abs_node cf n) @ [x]\<rparr>"
  by (simp add: abs_node_def)

lemma round_step_abs:
  "abs_node cf (n\<lparr>rs := (rs n)\<lparr>rs_Round := r, rs_Step := st\<rparr>\<rparr>) = (abs_node cf n)\<lparr>c_round := r, c_step := st\<rparr>"
  by (simp add: abs_node_def locked_bid_def)

lemma abs_fields [simp]:
  "c_height (abs_node cf n) = rs_Height (rs n)" "c_round (abs_node cf n) = rs_Round (rs n)" "c_step (abs_node cf n) = rs_Step (rs n)"
  "c_vals (abs_node cf n) = rs_Validators (rs n)" "c_lockRound (abs_node cf n) = LockedRound (rs n)"
  "c_lockID (abs_node cf n) = locked_bid cf (rs n)" "c_votes (abs_node cf n) = rs_Votes (rs n)"
  "c_chain (abs_node cf n) = st_ChainID (sd_state n)" "c_log (abs_node cf n) = node_log n"
  by (simp_all add: abs_node_def)

text \<open>
  A node that is well formed stays so when it moves on within the height, without touching the blocks and commits it holds.
\<close>

lemma wf_moves:
  assumes "wf_node cf n" "rs_Height (rs n') = rs_Height (rs n)" "rs_Validators (rs n') = rs_Validators (rs n)"
    "sd_state n' = sd_state n" "sd_version n' = st_ver n'" "nd_candidates n' = nd_candidates n" "rs_Commit (rs n') = rs_Commit (rs n)"
    "parts_ok (rs n')" "pos_ok (rs n')"
  shows "wf_node cf n'"
proof -
  have "commit_ok cf n' = commit_ok cf n" using assms by (simp add: commit_ok_def fun_eq_iff)
  then show ?thesis using assms by (simp add: wf_node_def commits_ok_def)
qed


lemma wf_out [simp]: "wf_node cf (out e n) = wf_node cf n"
  by (simp add: wf_node_def commits_ok_def commit_ok_def)

lemma step_facts:
  assumes "core n' = core (n\<lparr>rs := (rs n)\<lparr>rs_Round := r, rs_Step := st\<rparr>\<rparr>)" "wf_node cf n" "rs_Round (rs n) \<le> r" "st < 8"
  shows "wf_node cf n'" "abs_node cf n' = (abs_node cf n)\<lparr>c_round := r, c_step := st\<rparr>"
    "rs_Height (rs n') = rs_Height (rs n)" "rs_Validators (rs n') = rs_Validators (rs n)" "sd_state n' = sd_state n"
    "rs_Round (rs n') = r" "rs_Step (rs n') = st"
proof -
  have "wf_node cf (n\<lparr>rs := (rs n)\<lparr>rs_Round := r, rs_Step := st\<rparr>\<rparr>)"
    by (rule wf_moves [OF assms(2)]) (use assms(2-4) in \<open>fastforce simp: wf_node_def parts_ok_def pos_ok_def\<close>)+
  then show "wf_node cf n'" by (rule core_wf [OF assms(1)])
  show "abs_node cf n' = (abs_node cf n)\<lparr>c_round := r, c_step := st\<rparr>" using core_abs [OF assms(1), of cf] by (simp add: round_step_abs)
qed (use spine_fields [OF core_fields(1) [OF assms(1)]] in simp_all)

lemma move_stays:
  assumes "core n' = core (n\<lparr>rs := (rs n)\<lparr>rs_Round := r, rs_Step := st\<rparr>\<rparr>)" "wf_node cf n" "rs_Round (rs n) \<le> r" "st < 8"
    "r = rs_Round (rs n) \<Longrightarrow> rs_Step (rs n) \<le> st"
  shows "stays cf n n'"
proof -
  have "cs_step cf (abs_node cf n) (abs_node cf n')" unfolding step_facts(2) [OF assms(1-4)] by (rule cspec.move) (use assms in simp_all)
  then show ?thesis using step_facts [OF assms(1-4)] assms(3) by (auto simp: stays_def sim_def)
qed

lemma EnterPrevote_wp:
  assumes "wf_node cf n" "rs_Height (rs n) = h \<Longrightarrow> r \<le> rs_Round (rs n)" "\<And>n' x. stays cf n n' \<Longrightarrow> Q (n', x)"
  shows "post (EnterPrevote cf env h r n) Q"
proof (cases "rs_Height (rs n) \<noteq> h \<or> r < rs_Round (rs n) \<or> (rs_Round (rs n) = r \<and> 4 \<le> rs_Step (rs n))")
  case True
  then show ?thesis using assms(3) stays_refl [OF assms(1)] by (simp add: EnterPrevote_def)
next
  case False
  then have g: "rs_Round (rs n) = r" "rs_Step (rs n) < 4" using assms(2) by auto
  have fin: "stays cf n n3"
    if n1: "prevote_out cf n n1" and n3: "core n3 = core (n1\<lparr>rs := (rs n1)\<lparr>rs_Round := r, rs_Step := 4\<rparr>\<rparr>)" for n1 n3
  proof -
    consider (quiet) "core n1 = core n" | (vote) v where "core n1 = core (out (OutVote v) n)"
      "own_vote (abs_node cf n) PrevoteType v" "BlockID_IsNil (vote_BlockID v) \<or> may_prevote (abs_node cf n) (vote_BlockID v)"
      using n1 unfolding prevote_out_def by blast
    then show ?thesis
    proof cases
    case quiet
    then have "core n3 = core (n\<lparr>rs := (rs n)\<lparr>rs_Round := r, rs_Step := 4\<rparr>\<rparr>)" using n3 by (simp add: core_def spine_def)
    then show ?thesis by (rule move_stays) (use assms(1) g in auto)
  next
    case vote
    have n3': "core n3 = core ((out (OutVote v) n)\<lparr>rs := (rs (out (OutVote v) n))\<lparr>rs_Round := r, rs_Step := 4\<rparr>\<rparr>)"
      using n3 vote(1) by (simp add: core_def spine_def)
    note f = step_facts [OF n3', of cf, simplified, OF assms(1), unfolded g(1), simplified]
    have "abs_node cf n3 = (abs_node cf n)\<lparr>c_step := 4, c_log := c_log (abs_node cf n) @ [LogVote v]\<rparr>"
      unfolding f(2) using g(1) by (simp add: abs_node_def)
    then have "cs_step cf (abs_node cf n) (abs_node cf n3)" using cspec.prevote [OF _ vote(2,3)] g(2) by simp
    then show ?thesis using f g(1) by (auto simp: stays_def sim_def)
    qed
  qed
  have p: "parts_ok (rs n)" using assms(1) by (simp add: wf_node_def)
  show ?thesis
    unfolding EnterPrevote_def if_not_P [OF False] post_bind
    by (rule post_mono [OF prevoter_Do_out [OF p]])
      (clarsimp, rule updateRoundStep_wp, simp add: assms(3) fin)
qed


lemma timeout_stays:
  assumes "wf_node cf n" "r \<le> rs_Round (rs n)" "h = rs_Height (rs n)"
  shows "stays cf n (ScheduleTimeout d h r st n)"
proof -
  have "abs_node cf (ScheduleTimeout d h r st n) = (abs_node cf n)\<lparr>c_log := node_log n @ [LogTimeout h r]\<rparr>"
    by (simp add: ScheduleTimeout_def abs_node_def)
  then have "cs_step cf (abs_node cf n) (abs_node cf (ScheduleTimeout d h r st n))"
    using cspec.timeout [of r "abs_node cf n"] assms by simp
  then show ?thesis using assms by (auto simp: stays_def sim_def ScheduleTimeout_def)
qed

lemma EnterPropose_body_wp:
  assumes "\<And>n' x. core n' = core (ScheduleTimeout (proposeTimeout (cf_config cf) r n) h r 3 n) \<Longrightarrow> Q (n', x)"
  shows "post (EnterPropose_body cf env h r p a n) Q"
  by (simp add: EnterPropose_body_def Let_def split del: if_split)
    ((intro allI impI conjI wp | simp add: assms Let_def split: wp_splits if_split)+)

lemma EnterPropose_wp:
  assumes "wf_node cf n" "rs_Height (rs n) = h \<Longrightarrow> r \<le> rs_Round (rs n)" "\<And>n' x. stays cf n n' \<Longrightarrow> Q (n', x)"
  shows "post (EnterPropose cf env h r n) Q"
proof (cases "rs_Height (rs n) \<noteq> h \<or> r < rs_Round (rs n) \<or> (rs_Round (rs n) = r \<and> 3 \<le> rs_Step (rs n))")
  case True
  then show ?thesis using assms(3) stays_refl [OF assms(1)] by (simp add: EnterPropose_def)
next
  case False
  then have g: "rs_Height (rs n) = h" "rs_Round (rs n) = r" "rs_Step (rs n) < 3" using assms(2) by auto
  have sched: "stays cf n (ScheduleTimeout d h r st n1)" if "core n1 = core n" for d st n1
    by (rule stays_trans [OF core_stays [OF that assms(1)]], rule timeout_stays [OF core_wf [OF that assms(1)]])
      (use g(1,2) spine_fields(1,2) [OF core_fields(1) [OF that]] in simp_all)
  have rest: "stays cf n (PublishNewRoundStepEvent n3)"
    if n1: "core n1 = core n" and n2: "core n2 = core (ScheduleTimeout d h r 3 n1)"
      and n3: "core n3 = core (n2\<lparr>rs := (rs n2)\<lparr>rs_Round := r, rs_Step := 3\<rparr>\<rparr>)" for n1 n2 n3 d
  proof -
    have s2: "stays cf n n2" by (rule stays_trans [OF sched [OF n1] core_stays [OF n2 stays_wf [OF sched [OF n1]]]])
    have f: "rs_Round (rs n2) = r" "rs_Step (rs n2) < 3"
      using g(2,3) spine_fields(2,3) [OF core_fields(1) [OF n1]] spine_fields(2,3) [OF core_fields(1) [OF n2]]
      by (simp_all add: ScheduleTimeout_def)
    have s3: "stays cf n2 n3" by (rule move_stays [OF n3 stays_wf [OF s2]]) (use f in simp_all)
    have s4: "stays cf n3 (PublishNewRoundStepEvent n3)" by (rule core_stays [OF _ stays_wf [OF s3]]) simp
    show ?thesis by (rule stays_trans [OF stays_trans [OF s2 s3] s4])
  qed
  have prevote: "post (EnterPrevote cf env h r n3) (\<lambda>(n4, _). Q (n4, x))" if s: "stays cf n n3" for n3 x
    by (rule EnterPrevote_wp [OF stays_wf [OF s]]) (use stays_fields(4) [OF s] g(2) assms(3) stays_trans [OF s] in simp_all)
  show ?thesis
    unfolding EnterPropose_def if_not_P [OF False] post_bind
    apply (rule isProposer_core)
    apply (simp only: Let_def prod.case)
    apply (split if_split, intro conjI impI)
    subgoal by (simp add: assms(3) sched)
    subgoal for n1 x
      apply (simp only: post_bind)
      apply (rule EnterPropose_body_wp)
      apply (simp only: prod.case post_bind)
      apply (rule updateRoundStep_wp)
      apply (drule (2) rest)
      apply (rule read_wp)
      apply (simp add: assms(3) prevote)
      done
    done
qed

lemma set_round_wp:
  assumes "wf_node cf n" "rs_Round (rs n) = r" "r + 1 < MaxInt32"
    "\<And>n'. stays cf n n' \<Longrightarrow> rs_Round (rs n') = r \<Longrightarrow> rs_Step (rs n') = rs_Step (rs n) \<Longrightarrow> Q n'"
  shows "post (set_round (wrap32 (r + 1)) n) Q"
proof -
  have r: "wrap32 (r + 1) = r + 1"
    using assms(1-3) by (intro wrap32_id) (auto simp: wf_node_def pos_ok_def in_int32_def)
  have "Q (n\<lparr>rs := (rs n)\<lparr>rs_Votes := Some V'\<rparr>\<rparr>)"
    if V: "rs_Votes (rs n) = Some V" "hvs_SetRound (r + 1) V = Some (Ret V')" for V V'
  proof -
    let ?n = "n\<lparr>rs := (rs n)\<lparr>rs_Votes := Some V'\<rparr>\<rparr>"
    have hv: "hvs_round V \<le> r + 1" using assms(1,2) V(1) by (auto simp: wf_node_def pos_ok_def)
    have V': "hvs_round V' = r + 1"
      using V(2) by (auto simp: hvs_SetRound_def exec_bind_Ret_iff split: sum.splits if_splits)
    have ab: "abs_node cf ?n = (abs_node cf n)\<lparr>c_votes := Some V'\<rparr>" by (simp add: abs_node_def locked_bid_def)
    have "cs_step cf (abs_node cf n) (abs_node cf ?n)"
      unfolding ab by (rule cspec.learn [OF _ hvs_step.round [OF hv assms(3) V(2)]]) (use V(1) V' assms(2) in simp_all)
    moreover have "wf_node cf ?n"
      by (rule wf_moves [OF assms(1)]) (use assms(1,2) V' in \<open>auto simp: wf_node_def parts_ok_def pos_ok_def\<close>)
    ultimately show ?thesis by (intro assms(4)) (auto simp: stays_def sim_def assms(2))
  qed
  then show ?thesis
    unfolding r by (cases "rs_Votes (rs n)") (auto simp: set_round_def votes_of_def halts_def post_def exec_bind_Ret_iff split: option.splits)
qed

lemma EnterNewRound_wp:
  assumes "wf_node cf n" "r + 1 < MaxInt32"
    "\<And>n' x. stays cf n n' \<Longrightarrow> (rs_Height (rs n) = h \<Longrightarrow> r \<le> rs_Round (rs n')) \<Longrightarrow> Q (n', x)"
  shows "post (EnterNewRound cf env h r n) Q"
proof (cases "rs_Height (rs n) \<noteq> h \<or> r < rs_Round (rs n) \<or> (rs_Round (rs n) = r \<and> rs_Step (rs n) \<noteq> 1)")
  case True
  then show ?thesis using assms(3) stays_refl [OF assms(1)] by (auto simp: EnterNewRound_def)
next
  case False
  then have g: "rs_Height (rs n) = h" "rs_Round (rs n) \<le> r" "rs_Round (rs n) = r \<longrightarrow> rs_Step (rs n) = 1" by auto
  have cleared: "stays cf n n2 \<and> rs_Round (rs n2) = r"
    if n1: "core n1 = core (n\<lparr>rs := (rs n)\<lparr>rs_Round := r, rs_Step := 2\<rparr>\<rparr>)"
      and n2: "n2 = (if r = 0 then n1
                 else
                   let n = upd_rs (\<lambda>r. r\<lparr>rs_Proposal := None, ProposalReceiveTime := zero_time\<rparr>) n1
                   in case rs_Commit (rs n) of
                        Some c \<Rightarrow> retargetTo (cf_sl cf) (commit_BlockID c) n
                      | None \<Rightarrow> upd_rs (\<lambda>r. r\<lparr>ProposalBlock := None, ProposalBlockParts := None\<rparr>) n)" for n1 n2
  proof -
    have s1: "stays cf n n1" by (rule move_stays [OF n1 assms(1)]) (use g in auto)
    let ?m = "upd_rs (\<lambda>r. r\<lparr>rs_Proposal := None, ProposalReceiveTime := zero_time\<rparr>) n1"
    have sm: "spine ?m = spine n1" by simp
    have pm: "parts_ok (rs ?m)" using stays_wf [OF s1] by (simp add: wf_node_def parts_ok_def)
    have s2: "spine n2 = spine n1"
      unfolding n2 Let_def
      by (auto split: option.split simp: sm simp del: spine_proposal_fields(4)) (simp_all add: spine_def)
    moreover have "ProposalBlock (rs n2) \<noteq> None \<longrightarrow> ProposalBlockParts (rs n2) \<noteq> None"
      using retargetTo_parts [OF pm] stays_wf [OF s1] unfolding n2 Let_def
      by (auto split: option.split simp: wf_node_def parts_ok_def)
    ultimately have "stays cf n1 n2" using spine_stays stays_wf [OF s1] by blast
    moreover have "rs_Round (rs n2) = r" using spine_fields(2) [OF s2] step_facts(6) [OF n1 assms(1) g(2)] by simp
    ultimately show ?thesis using stays_trans [OF s1] by blast
  qed
  have last: "post (let n = (if rs_Commit (rs n5) \<noteq> None then publish EvValidBlock (PublishNewRoundStepEvent n5) else n5);
                 waitForTxs = (WaitForTxs (cf_config cf) \<and> r = 0
                   \<and> InitialHeight (sd_state n) \<noteq> rs_Height (rs n) \<and> \<not> ProposeNextBlockImmediately (rs n))
             in if waitForTxs
                then Ret (if CreateEmptyBlocksInterval (cf_config cf) > 0
                          then ScheduleTimeout (CreateEmptyBlocksInterval (cf_config cf)) h r RoundStepNewRound n
                          else n, Inr ())
                else if \<not> DontAutoPropose (cf_config cf) then EnterPropose cf env h r n
                else Ret (n, Inr ())) Q"
    if s5: "stays cf n n5" "rs_Round (rs n5) = r" for n5
  proof -
    define n6 where "n6 = (if rs_Commit (rs n5) \<noteq> None then publish EvValidBlock (PublishNewRoundStepEvent n5) else n5)"
    have c: "core n6 = core n5" by (simp add: n6_def)
    have s6: "stays cf n n6" by (rule stays_trans [OF s5(1) core_stays [OF c stays_wf [OF s5(1)]]])
    have f: "rs_Round (rs n6) = r" "rs_Height (rs n6) = h"
      using spine_fields(2) [OF core_fields(1) [OF c]] s5(2) stays_fields(1) [OF s6] g(1) by simp_all
    have sched: "stays cf n (ScheduleTimeout d h r 2 n6)" for d
      by (rule stays_trans [OF s6 timeout_stays [OF stays_wf [OF s6]]]) (use f in simp_all)
    have ep: "post (EnterPropose cf env h r n6) Q"
      by (rule EnterPropose_wp [OF stays_wf [OF s6]])
        (use f stays_trans [OF s6] stays_fields(4) in \<open>auto intro!: assms(3)\<close>)
    show ?thesis
      unfolding n6_def [symmetric] Let_def using ep s6 sched f by (auto intro!: assms(3) simp: ScheduleTimeout_def)
  qed
  show ?thesis
    unfolding EnterNewRound_def if_not_P [OF False] post_bind
    apply (rule updateRoundStep_wp)
    apply (rule post_letI)
    apply (drule (1) cleared)
    apply (elim conjE)
    apply (simp only: post_bind)
    apply (rule set_round_wp [OF stays_wf _ assms(2)], assumption, assumption)
    apply (drule (1) stays_trans)
    apply (simp only: post_step_bind post_simps)
    subgoal for n1 n2 n3
      apply (rule Save_wp [of cf], rule core_wf, rule core_rs_fields(3), erule stays_wf)
      apply (simp only: prod.case sum.case post_bind)
      apply (rule NewRoundEvent_core)
      subgoal for n4 n5
        using spine_fields(2) [OF core_fields(1), of n5 n3] by (intro last stays_core [of cf n n3 n5]) simp_all
      done
    done
qed

section \<open>Precommitting\<close>

text \<open>The precommit of the node: nothing, a nil precommit, or a lock on the block that a quorum prevoted.\<close>

definition precommit_out :: "cs_conf \<Rightarrow> Node \<Rightarrow> Node \<Rightarrow> bool" where
  "precommit_out cf n n' \<longleftrightarrow> wf_node cf n' \<and> rs_Height (rs n') = rs_Height (rs n) \<and> rs_Round (rs n') = rs_Round (rs n)
     \<and> rs_Validators (rs n') = rs_Validators (rs n) \<and> sd_state n' = sd_state n
     \<and> (\<exists>vs. abs_node cf n' = (abs_node cf n)\<lparr>c_log := node_log n @ vs\<rparr>
            \<and> (vs = [] \<or> (\<exists>v. vs = [LogVote v] \<and> own_vote (abs_node cf n) PrecommitType v \<and> BlockID_IsNil (vote_BlockID v)))
        \<or> (\<exists>B. abs_node cf n' = (abs_node cf n)\<lparr>c_lockRound := rs_Round (rs n), c_lockID := Ret B, c_log := node_log n @ vs\<rparr>
             \<and> prevoted (abs_node cf n) (rs_Round (rs n)) B \<and> \<not> BlockID_IsNil B
             \<and> (vs = [] \<or> (\<exists>v. vs = [LogVote v] \<and> own_vote (abs_node cf n) PrecommitType v \<and> vote_BlockID v = B))))"

lemma precommit_out_nil:
  assumes "wf_node cf n'" "rs_Height (rs n') = rs_Height (rs n)" "rs_Round (rs n') = rs_Round (rs n)"
    "rs_Validators (rs n') = rs_Validators (rs n)" "sd_state n' = sd_state n" "abs_node cf n' = (abs_node cf n)\<lparr>c_log := node_log n @ vs\<rparr>"
    "vs = [] \<or> (\<exists>v. vs = [LogVote v] \<and> own_vote (abs_node cf n) PrecommitType v \<and> BlockID_IsNil (vote_BlockID v))"
  shows "precommit_out cf n n'"
  unfolding precommit_out_def using assms by blast

lemma precommit_out_lock:
  assumes "wf_node cf n'" "rs_Height (rs n') = rs_Height (rs n)" "rs_Round (rs n') = rs_Round (rs n)"
    "rs_Validators (rs n') = rs_Validators (rs n)" "sd_state n' = sd_state n"
    "abs_node cf n' = (abs_node cf n)\<lparr>c_lockRound := rs_Round (rs n), c_lockID := Ret B, c_log := node_log n @ vs\<rparr>"
    "prevoted (abs_node cf n) (rs_Round (rs n)) B" "\<not> BlockID_IsNil B"
    "vs = [] \<or> (\<exists>v. vs = [LogVote v] \<and> own_vote (abs_node cf n) PrecommitType v \<and> vote_BlockID v = B)"
  shows "precommit_out cf n n'"
  unfolding precommit_out_def using assms by blast

lemma nil_precommit_out:
  assumes "wf_node cf n" "spine n1 = spine n" "ProposalBlock (rs n1) \<noteq> None \<longrightarrow> ProposalBlockParts (rs n1) \<noteq> None"
  shows "post (sign_precommit cf env empty_bid n1) (precommit_out cf n)"
proof -
  have w: "wf_node cf n1" by (rule spine_wf [OF assms(2,1,3)])
  note f = spine_fields [OF assms(2)] spine_abs [OF assms(2), of cf]
  show ?thesis
    unfolding sign_precommit_def
  proof (rule signAddVote_wp)
    fix n' assume c: "core n' = core n1"
    have "abs_node cf n' = (abs_node cf n)\<lparr>c_log := node_log n @ []\<rparr>" using core_abs [OF c, of cf] f by (simp add: abs_node_def)
    then show "precommit_out cf n n'"
      by (rule precommit_out_nil [rotated 5]) (use core_wf [OF c w] spine_fields [OF core_fields(1) [OF c]] f in simp_all)
  next
    fix n' v assume c: "core n' = core (out (OutVote v) n1)" and v: "own_vote (abs_node cf n1) PrecommitType v" "vote_BlockID v = empty_bid"
    have "abs_node cf n' = (abs_node cf n)\<lparr>c_log := node_log n @ [LogVote v]\<rparr>"
      using core_abs [OF c, of cf] f by (simp add: abs_node_def)
    moreover have "own_vote (abs_node cf n) PrecommitType v \<and> BlockID_IsNil (vote_BlockID v)" using v f by simp
    moreover have "wf_node cf n'" using core_wf [OF c] w by simp
    ultimately show "precommit_out cf n n'"
      by (intro precommit_out_nil [where vs = "[LogVote v]"]) (use spine_fields [OF core_fields(1) [OF c]] f in simp_all)
  qed
qed

lemma lock_out:
  assumes "wf_node cf n" "prevoted (abs_node cf n) (rs_Round (rs n)) B" "\<not> BlockID_IsNil B"
    "locked_bid cf (rs n1) = Ret B" "LockedRound (rs n1) = rs_Round (rs n)" "parts_ok (rs n1)"
    "abs_node cf n1 = (abs_node cf n)\<lparr>c_lockRound := rs_Round (rs n), c_lockID := Ret B\<rparr>"
    "sd_version n1 = st_ver n1" "sd_state n1 = sd_state n" "nd_candidates n1 = nd_candidates n" "rs_Commit (rs n1) = rs_Commit (rs n)"
    "CommitRound (rs n1) = CommitRound (rs n)"
  shows "post (sign_precommit cf env B n1) (precommit_out cf n)"
proof -
  have h: "rs_Height (rs n1) = rs_Height (rs n)" "rs_Round (rs n1) = rs_Round (rs n)" "rs_Step (rs n1) = rs_Step (rs n)"
    "rs_Validators (rs n1) = rs_Validators (rs n)" "rs_Votes (rs n1) = rs_Votes (rs n)" "node_log n1 = node_log n"
    using assms(7) unfolding abs_node_def by simp_all
  have w: "wf_node cf n1" 
    by (rule wf_moves [OF assms(1)]) (use assms h in \<open>auto simp: wf_node_def pos_ok_def\<close>)
  show ?thesis
    unfolding sign_precommit_def
  proof (rule signAddVote_wp)
    fix n' assume c: "core n' = core n1"
    have "abs_node cf n' = (abs_node cf n)\<lparr>c_lockRound := rs_Round (rs n), c_lockID := Ret B, c_log := node_log n @ []\<rparr>"
      using core_abs [OF c, of cf] assms(7) by (simp add: abs_node_def)
    then show "precommit_out cf n n'"
      by (rule precommit_out_lock [rotated 5])
        (use core_wf [OF c w] spine_fields [OF core_fields(1) [OF c]] h assms in simp_all)
  next
    fix n' v assume c: "core n' = core (out (OutVote v) n1)" and v: "own_vote (abs_node cf n1) PrecommitType v" "vote_BlockID v = B"
    have "abs_node cf n' = (abs_node cf n)\<lparr>c_lockRound := rs_Round (rs n), c_lockID := Ret B, c_log := node_log n @ [LogVote v]\<rparr>"
      using core_abs [OF c, of cf] assms(7) by (simp add: abs_node_def)
    moreover have "own_vote (abs_node cf n) PrecommitType v" using v h by (simp add: own_vote_def)
    moreover have "wf_node cf n'" using core_wf [OF c] w by simp
    ultimately show "precommit_out cf n n'"
      by (intro precommit_out_lock [where vs = "[LogVote v]" and B = B])
        (use spine_fields [OF core_fields(1) [OF c]] h v assms in simp_all)
  qed
qed


lemma precommit_out_core: "precommit_out cf n n1 \<Longrightarrow> core n2 = core n1 \<Longrightarrow> precommit_out cf n n2"
  unfolding precommit_out_def
  using core_abs [of n2 n1 cf] core_wf [of n2 n1 cf] core_fields(1) [of n2 n1] spine_fields [of n2 n1] by simp

lemma precommit_out_base: "precommit_out cf n1 n2 \<Longrightarrow> core n1 = core n \<Longrightarrow> precommit_out cf n n2"
  unfolding precommit_out_def
  using core_abs [of n1 n cf] core_fields(1) [of n1 n] spine_fields [of n1 n] by simp

lemma lock_and_precommit_out:
  assumes "wf_node cf n" "rs_Round (rs n) = r" "prevoted (abs_node cf n) r B" "\<not> BlockID_IsNil B"
    "proposal_bid cf (rs n) = Ret B" "lm \<longrightarrow> locked_bid cf (rs n) = Ret B"
  shows "post (lock_and_precommit cf env r B lm n) (precommit_out cf n)"
proof -
  have relock: "post (sign_precommit cf env B (publish EvRelock (n1\<lparr>rs := (rs n1)\<lparr>LockedRound := r\<rparr>\<rparr>))) (precommit_out cf n)"
    if c: "core n1 = core n" and lm for n1
    by (rule lock_out [OF assms(1) _ assms(4)])
      (use assms core_fields [OF c] spine_fields [OF core_fields(1) [OF c]] \<open>lm\<close> in
        \<open>simp_all add: wf_node_def parts_ok_def abs_node_def locked_bid_def publish_def\<close>)
  have fresh: "post (sign_precommit cf env B (publish EvLock (updateLockedBlock n1))) (precommit_out cf n)"
    if c: "core n1 = core n" for n1
    by (rule lock_out [OF assms(1) _ assms(4)])
      (use assms core_fields [OF c] spine_fields [OF core_fields(1) [OF c]] in
        \<open>simp_all add: wf_node_def parts_ok_def abs_node_def locked_bid_def proposal_bid_def updateLockedBlock_def publish_def\<close>)
  show ?thesis
    unfolding lock_and_precommit_def post_bind
    apply (rule mustEnsureProcess_core, rule mustValidate_core)
    apply (cases lm)
    subgoal for n1 n2 by (simp add: relock)
    subgoal for n1 n2
      apply (simp only: if_False post_bind)
      apply (rule post_mono [OF fresh])
       apply simp
      apply (rule updateValidBlock_spine)
      apply (auto intro: precommit_out_core)
      done
    done
qed

lemma EnterPrecommit_body_out:
  assumes "wf_node cf n" "rs_Round (rs n) = r"
  shows "post (EnterPrecommit_body cf env r n) (precommit_out cf n)"
proof (cases "rs_Votes (rs n)")
  case (Some V)
  have pn: "parts_ok (rs n)" using assms(1) by (simp add: wf_node_def)
  have nil: "post (sign_precommit cf env empty_bid n) (precommit_out cf n)" "post (sign_precommit cf env empty_bid (publish e n)) (precommit_out cf n)" for e
    by (rule nil_precommit_out [OF assms(1)]; use pn in \<open>simp add: parts_ok_def\<close>)+
  have ret: "post (sign_precommit cf env empty_bid (retargetTo sl b (publish e n))) (precommit_out cf n)" for e sl b
    by (rule nil_precommit_out [OF assms(1)]) (use pn retargetTo_parts [of "publish e n" sl b] in simp_all)
  obtain B ok where m: "TwoThirdsMajority (hvs_Prevotes V r) = (B, ok)" by fastforce
  have lock: "post (lock_and_precommit cf env r B lm (publish e n)) (precommit_out cf n)"
    if "ok" "\<not> BlockID_IsNil B" "proposal_bid cf (rs n) = Ret B" "lm \<longrightarrow> locked_bid cf (rs n) = Ret B" for lm e
  proof -
    have "prevoted (abs_node cf n) r B" using m Some that(1) by (simp add: prevoted_def)
    then have "post (lock_and_precommit cf env r B lm (publish e n)) (precommit_out cf (publish e n))"
      using that assms core_wf [OF node_core_publish(1) assms(1)] core_abs [OF node_core_publish(1), of cf e n]
      by (intro lock_and_precommit_out) simp_all
    then show ?thesis by (rule post_mono) (erule precommit_out_base, simp)
  qed
  show ?thesis
    unfolding EnterPrecommit_body_def votes_of_def Some option.case exec_bind_simps m Let_def prod.case
    by (cases "locked_bid cf (rs n)"; cases "proposal_bid cf (rs n)")
      (simp_all add: nil ret lock Equals_iff split: option.split)
qed (simp add: EnterPrecommit_body_def votes_of_def)

lemma EnterPrecommit_wp:
  assumes "wf_node cf n" "rs_Height (rs n) = h \<Longrightarrow> r \<le> rs_Round (rs n)" "\<And>n' x. stays cf n n' \<Longrightarrow> Q (n', x)"
  shows "post (EnterPrecommit cf env h r n) Q"
proof (cases "rs_Height (rs n) \<noteq> h \<or> r < rs_Round (rs n) \<or> (rs_Round (rs n) = r \<and> 6 \<le> rs_Step (rs n))")
  case True
  then show ?thesis using assms(3) stays_refl [OF assms(1)] by (simp add: EnterPrecommit_def)
next
  case False
  then have g: "rs_Round (rs n) = r" "rs_Step (rs n) < 6" using assms(2) by auto
  have fin: "stays cf n n2"
    if n1: "precommit_out cf n n1" and n2: "core n2 = core (n1\<lparr>rs := (rs n1)\<lparr>rs_Round := r, rs_Step := 6\<rparr>\<rparr>)" for n1 n2
  proof -
    have f: "wf_node cf n1" "rs_Height (rs n1) = rs_Height (rs n)" "rs_Round (rs n1) = r"
     "rs_Validators (rs n1) = rs_Validators (rs n)" "sd_state n1 = sd_state n" using n1 g(1) by (simp_all add: precommit_out_def)
    note f2 = step_facts [OF n2 f(1), unfolded f(3), simplified]
    consider (nil) vs where "abs_node cf n1 = (abs_node cf n)\<lparr>c_log := node_log n @ vs\<rparr>"
        "vs = [] \<or> (\<exists>v. vs = [LogVote v] \<and> own_vote (abs_node cf n) PrecommitType v \<and> BlockID_IsNil (vote_BlockID v))"
      | (lock) vs B where "abs_node cf n1 = (abs_node cf n)\<lparr>c_lockRound := rs_Round (rs n), c_lockID := Ret B, c_log := node_log n @ vs\<rparr>"
        "prevoted (abs_node cf n) (rs_Round (rs n)) B" "\<not> BlockID_IsNil B"
        "vs = [] \<or> (\<exists>v. vs = [LogVote v] \<and> own_vote (abs_node cf n) PrecommitType v \<and> vote_BlockID v = B)"
      using n1 unfolding precommit_out_def by blast
    then have "cs_step cf (abs_node cf n) (abs_node cf n2)"
    proof cases
      case nil
      show ?thesis
      proof (cases "vs = []")
        case True
        then have "abs_node cf n2 = (abs_node cf n)\<lparr>c_round := r, c_step := 6\<rparr>" unfolding f2(2) nil(1) by (simp add: abs_node_def)
        then show ?thesis using cspec.move [of "abs_node cf n" r 6] g by simp
      next
        case False
        then obtain v where v: "vs = [LogVote v]" "own_vote (abs_node cf n) PrecommitType v" "BlockID_IsNil (vote_BlockID v)"
          using nil(2) by blast
        then have "abs_node cf n2 = (abs_node cf n)\<lparr>c_step := 6, c_log := node_log n @ [LogVote v]\<rparr>"
          unfolding f2(2) nil(1) using g by (simp add: abs_node_def)
        then show ?thesis using cspec.precommit [OF _ v(2,3)] g by simp
      qed
    next
      case lock
      then have "abs_node cf n2 = (abs_node cf n)\<lparr>c_step := 6, c_lockRound := rs_Round (rs n), c_lockID := Ret B, c_log := node_log n @ vs\<rparr>"
        unfolding f2(2) lock(1) using g by (simp add: abs_node_def)
      then show ?thesis using cspec.lock [OF _ _ lock(3,4)] lock(2) g by simp
    qed
    then show ?thesis using f f2 g by (auto simp: stays_def sim_def)
  qed
  show ?thesis
    unfolding EnterPrecommit_def if_not_P [OF False] post_bind
    by (rule post_mono [OF EnterPrecommit_body_out [OF assms(1) g(1)]])
      (rule updateRoundStep_wp, simp add: assms(3) fin)
qed

lemma EnterPrecommitWait_wp:
  assumes "wf_node cf n" "rs_Height (rs n) = h \<Longrightarrow> r \<le> rs_Round (rs n)" "\<And>n' x. stays cf n n' \<Longrightarrow> Q (n', x)"
  shows "post (EnterPrecommitWait cf h r n) Q"
proof (cases "rs_Height (rs n) \<noteq> h \<or> r < rs_Round (rs n) \<or> (rs_Round (rs n) = r \<and> TriggeredTimeoutPrecommit (rs n))")
  case True
  then show ?thesis using assms(3) stays_refl [OF assms(1)] by (simp add: EnterPrecommitWait_def)
next
  case False
  then have g: "rs_Height (rs n) = h" "r \<le> rs_Round (rs n)" using assms(2) by auto
  have s: "stays cf n (ScheduleTimeout d h r st n)" for d st by (rule timeout_stays [OF assms(1) g(2)]) (simp add: g(1))
  show ?thesis
    unfolding EnterPrecommitWait_def if_not_P [OF False] post_bind
    by (rule post_any, rule read_wp) (auto simp: Let_def intro!: assms(3) stays_core [OF s])
qed

lemma EnterPrevoteWait_wp:
  assumes "wf_node cf n" "rs_Height (rs n) = h \<Longrightarrow> r \<le> rs_Round (rs n)" "\<And>n' x. stays cf n n' \<Longrightarrow> Q (n', x)"
  shows "post (EnterPrevoteWait cf h r n) Q"
proof (cases "rs_Height (rs n) \<noteq> h \<or> r < rs_Round (rs n) \<or> (rs_Round (rs n) = r \<and> 5 \<le> rs_Step (rs n))")
  case True
  then show ?thesis using assms(3) stays_refl [OF assms(1)] by (simp add: EnterPrevoteWait_def)
next
  case False
  then have g: "rs_Height (rs n) = h" "rs_Round (rs n) = r" "rs_Step (rs n) < 5" using assms(2) by auto
  have s: "stays cf n (ScheduleTimeout d h r st n)" for d st by (rule timeout_stays [OF assms(1)]) (simp_all add: g)
  have m: "stays cf n (PublishNewRoundStepEvent n2)"
    if "core n2 = core ((ScheduleTimeout d h r 5 n)\<lparr>rs := (rs (ScheduleTimeout d h r 5 n))\<lparr>rs_Round := r, rs_Step := 5\<rparr>\<rparr>)" for n2 d
    by (rule stays_core [OF stays_trans [OF s move_stays [OF that stays_wf [OF s]]]])
      (use g in \<open>simp_all add: ScheduleTimeout_def\<close>)
  show ?thesis
    unfolding EnterPrevoteWait_def if_not_P [OF False] post_bind
    apply (rule post_any, rule read_wp)
    apply (simp add: Let_def)
    apply (intro impI)
    apply (rule updateRoundStep_wp)
    apply (simp add: assms(3) m)
    done
qed

end
