(* ===== verification/Consensus_Handlers.thy ===== *)
theory Consensus_Handlers
  imports Consensus_Refine
begin

text \<open>
  The actions that apply and adopt commits: each takes only steps of the abstract machine. An action that may apply
  a commit gives \<open>sim\<close>, one that cannot gives \<open>stays\<close>. A commit is only adopted, queued or applied when the
  validators of the height signed it.
\<close>

section \<open>Applying a commit\<close>

lemma NewHeightVoteSet_round: "NewHeightVoteSet chain h vals = Ret V \<Longrightarrow> hvs_round V = 0"
  by (rule NewHeightVoteSet_fields(4))

lemma psh_Equals_iff: "psh_Equals a b \<longleftrightarrow> a = b"
  by (cases a; cases b) (auto simp: psh_Equals_def)

lemma verifyCommitBlock_ok:
  assumes "verifyCommitBlock cf c n = Inr True"
  obtains b ps where "ProposalBlock (rs n) = Some b" "ProposalBlockParts (rs n) = Some ps"
    "Block_BlockID (sl_block (cf_sl cf)) (Some b) (Some ps) = Ret (commit_BlockID c)"
proof -
  obtain b where b: "ProposalBlock (rs n) = Some b"
    using assms by (cases "ProposalBlock (rs n)") (auto simp: verifyCommitBlock_def)
  note f = assms [unfolded verifyCommitBlock_def b option.case Let_def]
  obtain ps where ps: "ProposalBlockParts (rs n) = Some ps" "ps_Header (Some ps) = bid_PartSetHeader (commit_BlockID c)"
    using f by (auto simp: HasHeader_def psh_Equals_iff split: option.splits if_splits)
  have "Block_Hash (sl_block (cf_sl cf)) (Some b) = bid_Hash (commit_BlockID c)" "bid_Hash (commit_BlockID c) \<noteq> []"
    "StateID_Hash (sl_block (cf_sl cf)) (Header_StateID (block_Header b)) = StateID (commit_BlockID c)"
    using f by (auto simp: HashesTo_def split: if_splits)
  then have "Block_BlockID (sl_block (cf_sl cf)) (Some b) (Some ps) = Ret (commit_BlockID c)"
    using ps(2) by (simp add: Block_BlockID_def)
  then show ?thesis using that b ps(1) by blast
qed

lemma be_finalize_wp:
  assumes "ProposalBlock (rs n) = Some b"
    "\<And>n' state resp. core n' = core n \<Longrightarrow> st_ChainID state = st_ChainID (sd_state n)
       \<Longrightarrow> LastBlockHeight state = hdr_Height (block_Header b) \<Longrightarrow> Q (n', Inr (state, resp))"
    "\<And>n' e. core n' = core n \<Longrightarrow> Q (n', Inl e)"
  shows "post (be_finalize cf env c n) Q"
proof -
  have "post (FinalizeBlock sl e st cur bid b c lc bx)
      (\<lambda>(bx', r). \<forall>state resp. r = Inr (state, resp) \<longrightarrow> st_ChainID state = st_ChainID st
          \<and> LastBlockHeight state = hdr_Height (block_Header b))" for sl e st cur bid lc bx
    using FinalizeBlock_sound(1) [of sl e st cur bid b c lc bx] by (auto simp: post_def)
  then show ?thesis
    unfolding be_finalize_def assms(1) option.case Let_def with_be_def post_bind
    by (rule post_mono) (auto intro!: assms(2,3) split: sum.split)
qed

lemma updateToState_post:
  assumes "0 \<le> CommitRound (rs n)" "1 \<le> rs_Height (rs n)" "rs_Height (rs n) < MaxInt64"
    "LastBlockHeight (sd_state n) < rs_Height (rs n)"
  shows "post (updateToState sl now state (Some c) bs n) (\<lambda>n'. LastBlockHeight state = rs_Height (rs n)
     \<and> (\<exists>vals V. NewHeightVoteSet (st_ChainID state) (rs_Height (rs n) + 1) vals = Ret V
        \<and> core n' = core (n\<lparr>sd_state := state, rs := (rs n)\<lparr>rs_Height := rs_Height (rs n) + 1, rs_Round := 0, rs_Step := 1,
             rs_Validators := Some vals, LockedRound := - 1, LockedBlock := None, LockedBlockParts := None, rs_Commit := None,
             rs_Votes := Some V, CommitRound := - 1, rs_Proposal := None, ProposalBlock := None, ProposalBlockParts := None\<rparr>\<rparr>)))"
proof -
  have w: "wrap64 (rs_Height (rs n) + 1) = rs_Height (rs n) + 1" by (rule wrap64_id) (use assms(2,3) in \<open>simp add: in_int64_def\<close>)
  have nh: "next_height state = rs_Height (rs n) + 1" if "LastBlockHeight state = rs_Height (rs n)"
    using that w assms(2) by (simp add: next_height_def Let_def)
  show ?thesis
  proof (cases "LastBlockHeight state = rs_Height (rs n)")
    case True
    then have ge: "\<not> LastBlockHeight state < LastBlockHeight (sd_state n)" using assms(4) by simp
    show ?thesis
    proof (cases "st_Validators state")
      case None
      then show ?thesis using ge by (simp add: updateToState_def post_any)
    next
      case (Some vals)
      show ?thesis
        unfolding updateToState_def post_if
        apply (intro conjI impI)
           apply (simp_all only: post_simps ge simp_thms post_bind Some option.case Let_def)
        apply (rule post_any)
        apply (rule post_any)
        apply (rule post_any)
        subgoal for lc bst sel
          apply (cases sel)
           apply simp
          apply (simp only: sum.case post_bind nh [OF True])
          apply (cases "NewHeightVoteSet (st_ChainID state) (rs_Height (rs n) + 1) vals")
           apply simp
          apply (simp only: post_simps)
          apply (rule updateRoundStep_wp)
          apply (rule conjI [OF True])
          apply (intro exI conjI, assumption)
          apply (simp add: core_def spine_def updateHeight_def)
          done
        done
    qed
  qed (use assms(1,2) in \<open>simp add: updateToState_def\<close>)
qed


lemma finalize_sim:
  assumes "wf_node cf n" "rs_Height (rs n) < MaxInt64" "commit_ok cf n c \<or> precommitted (abs_node cf n) c"
    "Block_BlockID (sl_block (cf_sl cf)) (Some b) ps = Ret (commit_BlockID c)" "hdr_Height (block_Header b) = rs_Height (rs n)"
    "st_ChainID state = st_ChainID (sd_state n)" "LastBlockHeight state = rs_Height (rs n)"
    "NewHeightVoteSet (st_ChainID state) (rs_Height (rs n) + 1) vals = Ret V" "spine n1 = spine (out (OutSaveBlock b ps c) n)"
    "core n' = core (n1\<lparr>sd_state := state, rs := (rs n1)\<lparr>rs_Height := rs_Height (rs n) + 1, rs_Round := 0, rs_Step := 1,
             rs_Validators := Some vals, LockedRound := - 1, LockedBlock := None, LockedBlockParts := None, rs_Commit := None,
             rs_Votes := Some V, CommitRound := - 1, rs_Proposal := None, ProposalBlock := None, ProposalBlockParts := None\<rparr>\<rparr>)"
  shows "sim cf n n'"
proof -
  note f1 = spine_fields [OF assms(9)] and f = core_fields [OF assms(10)] spine_fields [OF core_fields(1) [OF assms(10)]]
  have "abs_node cf n' = (abs_node cf n)\<lparr>c_height := rs_Height (rs n) + 1, c_round := 0, c_step := 1, c_vals := Some vals,
      c_lockRound := - 1, c_lockID := Ret nil_BlockID, c_votes := Some V, c_log := node_log n @ [LogSave b ps c]\<rparr>"
    using f1 f assms(6) by (simp add: abs_node_def locked_bid_def Block_BlockID_def)
  moreover have "(\<exists>vals. c_vals (abs_node cf n) = Some vals
      \<and> verified_commit (sl_crypto (cf_sl cf)) vals (c_chain (abs_node cf n)) (c_height (abs_node cf n)) c) \<or> precommitted (abs_node cf n) c"
    using assms(3) by (auto simp: commit_ok_def)
  ultimately have "cs_step cf (abs_node cf n) (abs_node cf n')"
    using cspec.finalize [of b "abs_node cf n"] assms(4,5,6,8) by simp
  moreover have "wf_node cf n'"
    using f1 f assms(1,7) NewHeightVoteSet_round [OF assms(8)]
    by (auto simp: wf_node_def parts_ok_def pos_ok_def commits_ok_def)
  ultimately show ?thesis by (auto simp: sim_def)
qed

lemma ApplyCommit_wp:
  assumes "wf_node cf n" "rs_Height (rs n) < MaxInt64" "0 \<le> CommitRound (rs n)"
    "commit_ok cf n c \<or> precommitted (abs_node cf n) c" "\<And>n' x. sim cf n n' \<Longrightarrow> Q (n', x)"
  shows "post (ApplyCommit cf env c n) Q"
proof (cases "verifyCommitBlock cf c n = Inr True")
  case False
  then show ?thesis using assms(5) [OF sim_refl [OF assms(1)]]
    by (cases "verifyCommitBlock cf c n") (auto simp: ApplyCommit_def)
next
  case True
  obtain b ps where b: "ProposalBlock (rs n) = Some b" "ProposalBlockParts (rs n) = Some ps"
    "Block_BlockID (sl_block (cf_sl cf)) (Some b) (Some ps) = Ret (commit_BlockID c)" by (rule verifyCommitBlock_ok [OF True])
  have pos: "1 \<le> rs_Height (rs n)" "LastBlockHeight (sd_state n) < rs_Height (rs n)" using assms(1) by (auto simp: wf_node_def pos_ok_def)
  have fin: "post (step_bind (Ret (Save (if p then n5\<lparr>rs := (rs n5)\<lparr>ProposeNextBlockImmediately := True\<rparr>\<rparr> else n5)))
       (\<lambda>_ n. Ret (ScheduleRound0 now (PublishNewRoundStepEvent n), Inr ()))) Q" if s: "sim cf n n5" for n5 p now
  proof -
    have w5: "wf_node cf (if p then n5\<lparr>rs := (rs n5)\<lparr>ProposeNextBlockImmediately := True\<rparr>\<rparr> else n5)"
      using s core_wf [OF core_rs_fields(4), of cf n5] by (simp add: sim_def)
    have "sim cf n (ScheduleRound0 now (PublishNewRoundStepEvent n6))"
      if "core n6 = core (if p then n5\<lparr>rs := (rs n5)\<lparr>ProposeNextBlockImmediately := True\<rparr>\<rparr> else n5)" for n6
    proof -
      have c: "core (PublishNewRoundStepEvent n6) = core n5" using that by simp
      have "wf_node cf n5" using s by (simp add: sim_def)
      note s7 = core_stays [OF c this]
      have "stays cf (PublishNewRoundStepEvent n6) (ScheduleRound0 now (PublishNewRoundStepEvent n6))"
        unfolding ScheduleRound0_def
        by (rule timeout_stays [OF stays_wf [OF s7]]) (use stays_wf [OF s7] in \<open>auto simp: wf_node_def pos_ok_def\<close>)
      then show ?thesis using sim_trans [OF s stays_sim [OF stays_trans [OF s7]]] by blast
    qed
    then show ?thesis
      unfolding post_step_bind post_simps by (rule_tac Save_wp [OF w5]) (simp add: assms(5))
  qed
  show ?thesis
    unfolding ApplyCommit_def Let_def True sum.case not_True_eq_False if_False post_bind
    apply (rule mustEnsureProcess_core, rule mustValidate_core)
    apply (simp only: post_if post_simps simp_thms post_bind)
    apply (rule impI)
    subgoal for n1 n2
    proof -
      assume c2: "core n2 = core n"
      define n3 where "n3 = out (OutEndHeight (commit_Height c)) (out (OutSaveBlock b (Some ps) c) n2)"
      have s3: "core n3 = core (out (OutSaveBlock b (Some ps) c) n)"
        using c2 by (simp add: n3_def core_def spine_def)
      have f3: "ProposalBlock (rs n3) = Some b" "rs_Height (rs n3) = rs_Height (rs n)" "CommitRound (rs n3) = CommitRound (rs n)"
        "sd_state n3 = sd_state n"
        using core_fields(3) [OF s3] spine_fields [OF core_fields(1) [OF s3]] b(1) by simp_all
      show ?thesis
        unfolding b(1,2) option.sel n3_def [symmetric]
        apply (rule be_finalize_wp [OF f3(1)])
        subgoal for n4 state resp
        proof -
          assume c4: "core n4 = core n3" and st: "st_ChainID state = st_ChainID (sd_state n3)" "LastBlockHeight state = hdr_Height (block_Header b)"
          have s4: "spine n4 = spine (out (OutSaveBlock b (Some ps) c) n)" using core_fields(1) [OF c4] core_fields(1) [OF s3] by simp
          note f4 = spine_fields [OF s4, simplified]
          have up: "post (updateToState (cf_sl cf) (ev_now env) state (Some c) (ev_bstore env) n4) (sim cf n)"
            apply (rule post_mono [OF updateToState_post])
            using f4 pos assms(2,3) apply simp_all [4]
            apply (elim conjE exE)
            apply (rule finalize_sim [OF assms(1,2,4) b(3) _ _ _ _ s4])
            using f4 st f3 by simp_all
          show ?thesis
            by (simp only: prod.case sum.case post_bind) (rule post_mono [OF up], simp only: fin)
        qed
        subgoal by simp
        done
    qed
    done
qed


lemma spine_core: "core n' = core n \<Longrightarrow> spine n' = spine n"
  by (simp add: core_def)

lemma updateStateData_wp:
  assumes "wf_node cf n" "\<And>n' x. stays cf n n' \<Longrightarrow> spine n' = spine n \<Longrightarrow> Q (n', x)"
  shows "post (updateStateData cf b n) Q"
proof -
  define n1 where "n1 = replaceProposalBlockOnLockedBlock (cf_sl cf) b n"
  have s1: "stays cf n n1" "spine n1 = spine n" using replaceProposal_stays [OF assms(1)] by (simp_all add: n1_def)
  let ?n2 = "retargetTo (cf_sl cf) b n1"
  have s2: "stays cf n ?n2" by (rule stays_trans [OF s1(1) retargetTo_stays [OF stays_wf [OF s1(1)]]])
  obtain n3 where n3: "Save ?n2 = (n3, Inr ())" "core n3 = core ?n2" by (rule Save_wf [OF stays_wf [OF s2]])
  have s3: "stays cf n (publish e n3)" "spine (publish e n3) = spine n" for e
    using stays_core [OF s2, of "publish e n3"] n3(2) spine_core [OF n3(2)] s1(2) by simp_all
  show ?thesis unfolding updateStateData_def n1_def [symmetric] Let_def using assms(2) s1 s3 n3(1) by simp
qed

lemma apply_step_stays:
  assumes "wf_node cf n" "core n1 = core (n\<lparr>rs := (rs n)\<lparr>rs_Round := rs_Round (rs n), rs_Step := 8\<rparr>\<rparr>)" "0 \<le> r"
    "n2 = n1\<lparr>rs := (rs n1)\<lparr>CommitRound := r, rs_CommitTime := t\<rparr>\<rparr>"
  shows "stays cf n n2" "CommitRound (rs n2) = r"
proof -
  note f = core_fields [OF assms(2)] spine_fields [OF core_fields(1) [OF assms(2)]]
  have "abs_node cf n2 = (abs_node cf n)\<lparr>c_round := rs_Round (rs n), c_step := 8\<rparr>"
    using f assms(4) by (simp add: abs_node_def locked_bid_def)
  then have "cs_step cf (abs_node cf n) (abs_node cf n2)"
    using cspec.move [of "abs_node cf n" "rs_Round (rs n)" 8] assms(1) by (simp add: wf_node_def pos_ok_def)
  moreover have "wf_node cf n2"
    by (rule wf_moves [OF assms(1)]) (use f assms in \<open>auto simp: wf_node_def parts_ok_def pos_ok_def\<close>)
  ultimately show "stays cf n n2" using f assms(4) by (auto simp: stays_def sim_def)
  show "CommitRound (rs n2) = r" using assms(4) by simp
qed

lemma new_round_0_sim:
  assumes "sim cf n n1" "\<And>n' x. sim cf n n' \<Longrightarrow> Q (n', x)"
  shows "post (EnterNewRound cf env h 0 n1) Q"
  by (rule EnterNewRound_wp [of cf]) (use assms sim_trans [OF assms(1) stays_sim] in \<open>auto simp: sim_def\<close>)

lemma AddCommit_wp:
  assumes "wf_node cf n" "rs_Height (rs n) < MaxInt64" "commit_ok cf n c" "\<And>n' x. sim cf n n' \<Longrightarrow> Q (n', x)"
  shows "post (AddCommit cf env c n) Q"
proof -
  have r: "0 \<le> commit_Round c" using assms(3) by (simp add: commit_ok_def)
  have app: "post (ApplyCommit cf env c (PublishNewRoundStepEvent (n2\<lparr>rs := (rs n2)\<lparr>CommitRound := commit_Round c, rs_CommitTime := t\<rparr>\<rparr>)))
      (\<lambda>(n', x). sim cf n n')"
    if s1: "stays cf n n1" and n2: "core n2 = core (n1\<lparr>rs := (rs n1)\<lparr>rs_Round := rs_Round (rs n1), rs_Step := 8\<rparr>\<rparr>)" for n1 n2 t
  proof -
    let ?n3 = "n2\<lparr>rs := (rs n2)\<lparr>CommitRound := commit_Round c, rs_CommitTime := t\<rparr>\<rparr>"
    note s3 = apply_step_stays [OF stays_wf [OF s1] n2 r refl, of t]
    have s4: "stays cf n (PublishNewRoundStepEvent ?n3)" by (rule stays_core [OF stays_trans [OF s1 s3(1)]]) simp
    show ?thesis
      by (rule ApplyCommit_wp [OF stays_wf [OF s4]])
        (use stays_fields(1) [OF s4] assms(2,3) r stays_commit_ok [OF s4] sim_trans [OF stays_sim [OF s4]] in auto)
  qed
  have rest: "post (if \<not> ev_publish env then Ret (n', Inl ErrPublishCommit)
            else
              let n = out (OutEvent (EvCommit commit)) n'
              in exec_bind (EnterNewRound cf env (rs_Height (rs n)) 0 n) (\<lambda>(n, _). Ret (out OutStats n, Inr ()))) Q"
    if s: "sim cf n n'" for n' commit
  proof -
    have s2: "sim cf n (out (OutEvent e) n')" for e
      using core_stays [of "out (OutEvent e) n'" n' cf] s sim_trans [OF s stays_sim] by (simp add: sim_def)
    have st: "sim cf n n'' \<Longrightarrow> sim cf n (out OutStats n'')" for n''
      using core_stays [of "out OutStats n''" n'' cf] sim_trans [OF _ stays_sim, of cf n n''] by (simp add: sim_def)
    show ?thesis
      by (simp add: Let_def assms(4) s) (intro impI new_round_0_sim [OF s2], simp add: assms(4) st)
  qed
  show ?thesis
    unfolding AddCommit_def post_step_bind
    apply (rule updateStateData_wp [OF assms(1)])
    subgoal for n1 x
      apply (cases x)
       apply (simp add: assms(4) stays_sim)
      apply (simp only: prod.case sum.case)
      apply (split if_split, intro conjI impI)
       apply (simp add: assms(4) stays_sim)
      apply (simp only: post_bind)
      apply (rule updateRoundStep_wp)
      apply (simp only: Let_def post_step_bind)
      apply (rule post_mono [OF app], assumption, assumption)
      apply (simp only: split_beta)
      apply (split sum.split, intro conjI allI impI)
       apply (rule assms(4), assumption)
      apply (rule rest [unfolded Let_def], assumption)
      done
    done
qed

text \<open>A commit built from the precommits of the height is one that a quorum precommitted.\<close>

lemma finalizeCommit_wp:
  assumes "wf_node cf n" "rs_Height (rs n) < MaxInt64" "\<And>n'. sim cf n n' \<Longrightarrow> Q n'"
    "\<And>V B. rs_Votes (rs n) = Some V \<Longrightarrow> TwoThirdsMajority (hvs_Precommits V (CommitRound (rs n))) = (B, True) \<Longrightarrow> \<not> BlockID_IsNil B"
  shows "post (finalizeCommit cf env h n) Q"
proof (cases "rs_Height (rs n) \<noteq> h \<or> rs_Step (rs n) \<noteq> 8")
  case True
  then show ?thesis using assms(3) [OF sim_refl [OF assms(1)]] by (simp add: finalizeCommit_def)
next
  case False
  then have cr: "0 \<le> CommitRound (rs n)" using assms(1) by (simp add: wf_node_def pos_ok_def)
  show ?thesis
  proof (cases "rs_Votes (rs n)")
    case (Some V)
    obtain B ok where m: "TwoThirdsMajority (hvs_Precommits V (CommitRound (rs n))) = (B, ok)" by fastforce
    have apply_it: "post (ApplyCommit cf env c n1) (\<lambda>(n', x). Q n')"
      if c1: "core n1 = core n" and "ok" "hvs_Precommits V (CommitRound (rs n)) = Some vs" "MakeCommit vs = Ret c" for n1 vs c
    proof -
      have "\<not> BlockID_IsNil B" using assms(4) [OF Some] m that(2) by simp
      then have "precommitted (abs_node cf n) c"
        using m that Some by (auto simp: precommitted_def TwoThirdsMajority_def split: option.splits)
      then show ?thesis
        using core_wf [OF c1 assms(1)] spine_fields [OF spine_core [OF c1]] assms(2) cr core_abs [OF c1, of cf]
          sim_trans [OF stays_sim [OF core_stays [OF c1 assms(1)]]] assms(3)
        by (intro ApplyCommit_wp) auto
    qed
    have idle: "Q n1" if "core n1 = core n" for n1 by (rule assms(3) [OF stays_sim [OF core_stays [OF that assms(1)]]])
    show ?thesis
      unfolding finalizeCommit_def if_not_P [OF False] votes_of_def Some option.case exec_bind_simps Let_def m prod.case
      apply (simp add: post_if split del: if_split)
      apply (intro impI)
      apply (cases "hvs_Precommits V (CommitRound (rs n))", simp)
      subgoal for vs
        apply (cases "MakeCommit vs", simp)
        apply simp
        apply (rule read_wp)
        subgoal for c refused
          apply (cases refused)
           apply (simp add: idle)
          apply simp
          apply (rule mustEnsureProcess_core)
          apply (rule verifyCommitExtensions_core)
          apply (simp add: idle split: sum.split)
          apply (intro allI impI)
          apply (rule apply_it, assumption+)
          done
        done
      done
  qed (use False in \<open>simp add: finalizeCommit_def votes_of_def\<close>)
qed

lemma TryFinalizeCommit_wp:
  assumes "wf_node cf n" "rs_Height (rs n) < MaxInt64" "\<And>n' x. sim cf n n' \<Longrightarrow> Q (n', x)"
  shows "post (TryFinalizeCommit cf env h n) Q"
proof (cases "rs_Votes (rs n)")
  case (Some V)
  obtain B ok where m: "TwoThirdsMajority (hvs_Precommits V (CommitRound (rs n))) = (B, ok)" by fastforce
  have "post (finalizeCommit cf env h n) (\<lambda>n'. Q (n', Inr ()))" if "ok" "\<not> BlockID_IsNil B"
    by (rule finalizeCommit_wp [OF assms(1,2)]) (use assms(3) Some m that in auto)
  then show ?thesis
    using assms(3) [OF sim_refl [OF assms(1)]] by (simp add: TryFinalizeCommit_def votes_of_def Some m)
qed (simp add: TryFinalizeCommit_def votes_of_def)

lemma EnterCommit_wp:
  assumes "wf_node cf n" "rs_Height (rs n) < MaxInt64" "0 \<le> r" "\<And>n' x. sim cf n n' \<Longrightarrow> Q (n', x)"
  shows "post (EnterCommit cf env h r n) Q"
proof (cases "rs_Height (rs n) \<noteq> h \<or> 8 \<le> rs_Step (rs n)")
  case True
  then show ?thesis using assms(4) [OF sim_refl [OF assms(1)]] by (simp add: EnterCommit_def)
next
  case False
  have fin: "post (TryFinalizeCommit cf env h (PublishNewRoundStepEvent (n2\<lparr>rs := (rs n2)\<lparr>CommitRound := r, rs_CommitTime := t\<rparr>\<rparr>)))
      (\<lambda>(n', _). Q (n', x))"
    if s1: "stays cf n n1" and n2: "core n2 = core (n1\<lparr>rs := (rs n1)\<lparr>rs_Round := rs_Round (rs n1), rs_Step := 8\<rparr>\<rparr>)" for n1 n2 t x
  proof -
    let ?n3 = "n2\<lparr>rs := (rs n2)\<lparr>CommitRound := r, rs_CommitTime := t\<rparr>\<rparr>"
    have s4: "stays cf n (PublishNewRoundStepEvent ?n3)"
      by (rule stays_core [OF stays_trans [OF s1 apply_step_stays(1) [OF stays_wf [OF s1] n2 assms(3) refl]]]) simp
    show ?thesis
      by (rule TryFinalizeCommit_wp [OF stays_wf [OF s4]])
        (use stays_fields(1) [OF s4] assms(2,4) sim_trans [OF stays_sim [OF s4]] in auto)
  qed
  show ?thesis
    unfolding EnterCommit_def if_not_P [OF False] post_bind
    apply (rule post_any)
    apply (simp add: split_beta split del: if_split)
    apply (simp only: post_if post_simps simp_thms post_bind)
    apply (intro impI)
    apply (rule updateStateData_wp [OF assms(1)])
    apply simp
    apply (rule updateRoundStep_wp)
    apply (rule fin, assumption, assumption)
    done
qed

section \<open>Commits from peers\<close>

lemma set_commit_stays:
  assumes "wf_node cf n" "\<And>c. x = Some c \<Longrightarrow> commit_ok cf n c"
  shows "stays cf n (n\<lparr>rs := (rs n)\<lparr>rs_Commit := x\<rparr>\<rparr>)" (is "stays cf n ?n")
proof -
  have ok: "commit_ok cf ?n = commit_ok cf n" by (simp add: commit_ok_def fun_eq_iff)
  have "abs_node cf ?n = abs_node cf n" by (simp add: abs_node_def locked_bid_def)
  moreover have "wf_node cf ?n" using assms ok by (auto simp: wf_node_def parts_ok_def pos_ok_def commits_ok_def)
  ultimately show ?thesis by (simp add: stays_def sim_def)
qed

lemma verifyCommit_VerifyCommit:
  assumes "verifyCommit cl vals chain bid h c budget b = Ret (Inr (), b')"
  shows "VerifyCommit cl vals chain bid h c = Ret (Inr ())"
proof -
  obtain x b'' where x: "verifyCommitReportingSigns cl vals chain bid h c budget b = Ret (x, b'')"
    using assms by (cases "verifyCommitReportingSigns cl vals chain bid h c budget b") (auto simp: verifyCommit_def)
  then obtain q signs where r: "verifyCommitReportingSigns cl vals chain bid h c budget b = Ret (Inr (q, signs), b'')"
    using assms by (cases x) (auto simp: verifyCommit_def)
  obtain pk where pk: "ThresholdPublicKey vals = Some pk" "fst (qsd_verify cl q pk signs budget b) = Inr ()" by (rule reporting_ok [OF r])
  obtain d where d: "commitSignData cl vals chain bid h c = Ret d"
    using r by (auto simp: verifyCommitReportingSigns_def exec_bind_Ret_iff)
  then obtain q' where q': "d = Inr q'" using r by (cases d) (auto simp: verifyCommitReportingSigns_def)
  obtain s where s: "NewQuorumSignsFromCommit c = Ret s"
    using r d q' by (auto simp: verifyCommitReportingSigns_def exec_bind_Ret_iff)
  have "q = q' \<and> signs = s"
    using r d q' s pk(1)
    by (cases "fst (qsd_verify cl q' pk s budget b)")
      (auto simp: verifyCommitReportingSigns_def Let_def split_beta split: if_splits)
  then have d: "commitSignData cl vals chain bid h c = Ret (Inr q)" "NewQuorumSignsFromCommit c = Ret signs"
    using d q' s by simp_all
  show ?thesis
    using verifyCommit_ok_iff [OF d pk(1)] qsd_verify_budget [OF pk(2)] unfolding qsd_verify_iff signedContent_def by simp
qed

lemma verified_commit_ok:
  assumes "verifyCommitSignatures (cf_sl cf) (commit_BlockID c) c budget b n = Ret (Inr ())" "Commit_ValidateBasic c = Inr ()"
    "commit_Height c = rs_Height (rs n)" "wf_node cf n"
  shows "commit_ok cf n c"
proof -
  obtain vals b' where v: "rs_Validators (rs n) = Some vals"
    "verifyCommit (sl_crypto (cf_sl cf)) vals (st_ChainID (sd_state n)) (commit_BlockID c) (rs_Height (rs n)) c budget b = Ret (Inr (), b')"
    using assms(1) by (auto simp: verifyCommitSignatures_def exec_bind_Ret_iff split: option.splits)
  have "1 \<le> commit_Height c" using assms(3,4) by (simp add: wf_node_def pos_ok_def)
  then have "0 \<le> commit_Round c" "\<not> BlockID_IsNil (commit_BlockID c)"
    using assms(2) by (auto simp: Commit_ValidateBasic_def split: if_splits)
  then show ?thesis using v verifyCommit_VerifyCommit [OF v(2)] by (simp add: commit_ok_def verified_commit_def)
qed

lemma adoptCommit_stays:
  assumes "wf_node cf n" "commit_ok cf n c"
  shows "stays cf n (adoptCommit sl c n)"
proof -
  have s: "stays cf n (retargetTo sl (commit_BlockID c) n)" by (rule retargetTo_stays [OF assms(1)])
  show ?thesis
    unfolding adoptCommit_def
    by (rule stays_trans [OF s set_commit_stays [OF stays_wf [OF s]]]) (use stays_commit_ok [OF s] assms(2) in simp)
qed

lemma readyToApplyCommit_wp:
  assumes "wf_node cf n" "\<And>n' x. stays cf n n' \<Longrightarrow> (x = Inr True \<Longrightarrow> commit_ok cf n c) \<Longrightarrow> Q (n', x)"
  shows "post (readyToApplyCommit (cf_sl cf) c i budget b n) Q"
proof (cases "Commit_ValidateBasic c = Inr () \<and> commit_Height c = rs_Height (rs n) \<and> wrap64 (rs_Height (rs n) + 1) \<noteq> rs_Height (rs n)")
  case False
  then show ?thesis using assms(2) [OF stays_refl [OF assms(1)]]
    by (cases "Commit_ValidateBasic c") (auto simp: readyToApplyCommit_def Let_def)
next
  case True
  show ?thesis
  proof (cases "verifyCommitSignatures (cf_sl cf) (commit_BlockID c) c budget b n")
    case (Ret r)
    show ?thesis
    proof (cases r)
      case (Inr u)
      then have ok: "commit_ok cf n c" using verified_commit_ok Ret True assms(1) by auto
      have s: "stays cf n (adoptCommit (cf_sl cf) c n)" by (rule adoptCommit_stays [OF assms(1) ok])
      show ?thesis
        using True Ret Inr
        by (simp add: readyToApplyCommit_def Let_def split del: if_split)
          (rule post_any, auto intro!: assms(2) s ok stays_refl [OF assms(1)])
    qed (use True Ret assms(2) [OF stays_refl [OF assms(1)]] in \<open>auto simp: readyToApplyCommit_def Let_def\<close>)
  qed (use True in \<open>simp add: readyToApplyCommit_def Let_def\<close>)
qed

lemma prepareCommitForApply_wp:
  assumes "wf_node cf n" "\<And>n' x. stays cf n n' \<Longrightarrow> (x = Inr True \<Longrightarrow> commit_ok cf n' c) \<Longrightarrow> Q (n', x)"
  shows "post (prepareCommitForApply cf env budget c i n) Q"
  unfolding prepareCommitForApply_def post_bind
  apply (rule readyToApplyCommit_wp [OF assms(1)])
  subgoal premises p for n1 x
  proof -
    have ok: "commit_ok cf n2 c" if "x = Inr True" "core n2 = core n1" for n2
      using p(2) [OF that(1)] stays_commit_ok [OF stays_core [OF p(1) that(2)]] by simp
    have s: "stays cf n n2" if "core n2 = core n1" for n2 by (rule stays_core [OF p(1) that])
    show ?thesis
    proof (cases "x = Inr True \<and> \<not> i \<and> verifyCommitBlock cf c n1 = Inr True")
      case True
      then show ?thesis by simp (rule verifyProcessedCommit_core, auto intro!: assms(2) s ok split: sum.split)
    next
      case False
      then show ?thesis by (auto intro!: assms(2) s ok split: sum.split)
    qed
  qed
  done

lemma sim_stays: "sim cf n n1 \<Longrightarrow> stays cf n1 n2 \<Longrightarrow> sim cf n n2"
  using sim_trans stays_sim by blast

lemma handleCommitVerifyError_core [simp]: "core (handleCommitVerifyError e p k f n) = core n"
  by (simp add: handleCommitVerifyError_def)

lemma candidates_stays:
  assumes "wf_node cf n" "cand_height x \<le> rs_Height (rs n)"
    "cand_height x = rs_Height (rs n) \<longrightarrow> (\<forall>y \<in> set (candidates x). commit_ok cf n (cc_commit y))"
  shows "stays cf n (n\<lparr>nd_candidates := x\<rparr>)" (is "stays cf n ?n")
proof -
  have ok: "commit_ok cf ?n = commit_ok cf n" by (simp add: commit_ok_def fun_eq_iff)
  have ab: "abs_node cf ?n = abs_node cf n" by (simp add: abs_node_def)
  have "wf_node cf ?n" using assms ok by (auto simp: wf_node_def commits_ok_def)
  then show ?thesis unfolding stays_def sim_def ab by simp
qed

lemma cand_add_commits:
  assumes "cand_add sha m con h c p f x = Ret y"
  shows "cand_height y = h"
    "z \<in> set (candidates y) \<Longrightarrow> cc_commit z = c \<or> (cand_height x = h \<and> z \<in> set (candidates x))"
proof -
  obtain key where y: "y = (resetUnless h x)\<lparr>candidates := replace_slot \<lparr>cc_commit = c, cc_key = key, cc_peerID = p, cc_fromReplay = f\<rparr>
      (filter (\<lambda>other. \<not> (cc_peerID other \<noteq> p \<and> \<not> retainable con other)) (candidates (resetUnless h x)))\<rparr>"
    using assms by (auto simp: cand_add_def Let_def exec_bind_Ret_iff)
  show "cand_height y = h" using y by (simp add: resetUnless_def)
  show "cc_commit z = c \<or> (cand_height x = h \<and> z \<in> set (candidates x))" if "z \<in> set (candidates y)"
    using that y replace_slot_set by (fastforce simp: resetUnless_def split: if_splits)
qed

lemma queueCandidate_wp:
  assumes "wf_node cf n" "commit_Height c = rs_Height (rs n)" "\<And>n' x. stays cf n n' \<Longrightarrow> Q (n', x)"
  shows "post (queueCandidate cf env budget parked c p f n) Q"
proof (cases "Commit_ValidateBasic c")
  case (Inr u)
  have "Q (n\<lparr>nd_candidates := y\<rparr>, Inr ())"
    if v: "verifyCommitSignatures (cf_sl cf) (commit_BlockID c) c budget (ev_b env) n = Ret (Inr ())"
      and y: "cand_add sha m con (rs_Height (rs n)) c p f (nd_candidates n) = Ret y" for y sha m con
  proof -
    have ok: "commit_ok cf n c" using verified_commit_ok [OF v _ assms(2,1)] Inr by simp
    show ?thesis
      by (rule assms(3), rule candidates_stays [OF assms(1)])
        (use cand_add_commits [OF y] ok assms(1) in \<open>auto simp: wf_node_def commits_ok_def\<close>)
  qed
  then show ?thesis
    using assms(3) [OF stays_refl [OF assms(1)]] Inr
    by (simp add: queueCandidate_def Let_def) (rule post_any, rule post_any, auto simp: post_def exec_bind_Ret_iff split: sum.splits)
qed (use assms(3) [OF stays_refl [OF assms(1)]] in \<open>simp add: queueCandidate_def\<close>)

end
