(* ===== verification/Spec2Isabelle.thy ===== *)
theory Spec2Isabelle
  imports Safe_Math Bit_Array Validators Proposer_Select Votes Vote_Set Commits Height_Votes Proposals File_PV Merkle Part_Set Txs Blocks Execution
    Round_State Commit_Memory Consensus_Node Consensus Consensus_Spec Consensus_Refine Consensus_Handlers
begin

text \<open>
  A verification development of the tenderdash consensus node.
\<close>

end
